(* ===== verification/Prelude.thy ===== *)
theory Prelude
  imports Main "HOL-Library.Word" "HOL-Library.Sublist"
begin

text \<open>
  Shared ground of the development: bytes and byte strings, the result types of fallible and
  polled Rust code, subslice operations of the standard library that the sources use
  (\<open>windows(n).position\<close>, \<open>copy_within\<close>), and the generic list facts the component
  proofs rest on. A byte is a \<^typ>\<open>char\<close> (eight bits), a byte string or a UTF-8
  \<^verbatim>\<open>str\<close> a list of bytes.
\<close>

named_theorems message_simps \<open>printing and data-model equations of smtp-message\<close>
named_theorems server_simps \<open>handlers of the SMTP server loop\<close>
named_theorems queue_simps \<open>operations of the mail queue\<close>

type_synonym byte = char
type_synonym bytes = "byte list"

abbreviation CR :: byte where "CR \<equiv> CHR 0x0D"
abbreviation LF :: byte where "LF \<equiv> CHR 0x0A"
abbreviation DOT :: byte where "DOT \<equiv> CHR ''.''"
abbreviation TAB :: byte where "TAB \<equiv> CHR 0x09"
abbreviation QUOTE :: byte where "QUOTE \<equiv> CHR 0x22"
abbreviation BACKSLASH :: byte where "BACKSLASH \<equiv> CHR 0x5C"
abbreviation CRLF :: bytes where "CRLF \<equiv> [CR, LF]"

text \<open>The end-of-data marker of RFC 5321, with the line break it follows.\<close>

abbreviation EOD :: bytes where "EOD \<equiv> [CR, LF, DOT, CR, LF]"

section \<open>Results of Rust code\<close>

text \<open>
  \<open>'a poll\<close> is \<^verbatim>\<open>std::task::Poll\<close>; \<open>'a io_result\<close> is
  \<^verbatim>\<open>std::io::Result\<close>; a computation that can panic (a failed assertion, a subslice
  index out of range, an \<^verbatim>\<open>unwrap\<close> of nothing) has type \<open>'a run\<close>.
\<close>

datatype 'a poll = Pending | Ready 'a

datatype io_error_kind =
  ConnectionAborted | TimedOut | NotFound | Other

datatype io_error = Io_Error (io_kind: io_error_kind) (io_msg: string)

type_synonym 'a io_result = "io_error + 'a"

datatype 'a run = Value 'a | Panic

fun bind_run :: "'a run \<Rightarrow> ('a \<Rightarrow> 'b run) \<Rightarrow> 'b run" where
  "bind_run (Value a) f = f a"
| "bind_run Panic f = Panic"

lemma bind_run_Value_iff [simp]:
  "bind_run x f = Value b \<longleftrightarrow> (\<exists>a. x = Value a \<and> f a = Value b)"
  by (cases x) auto

text \<open>
  \<^verbatim>\<open>nom::IResult\<close> over byte strings: the rest of the input and a value, or an error. The payload
  of an error (where it happened and in which combinator) is used nowhere and left out.
\<close>

datatype needed = Needed_Unknown | Needed_Size nat

datatype nom_err = Incomplete needed | Nom_Error | Nom_Failure

type_synonym 'a iresult = "nom_err + bytes \<times> 'a"

section \<open>Slices\<close>

text \<open>
  \<open>find_window p xs\<close> is \<^verbatim>\<open>xs.windows(p.len()).position(|s| s == p)\<close>: the first
  offset at which \<open>p\<close> occurs.
\<close>

fun find_window :: "'a list \<Rightarrow> 'a list \<Rightarrow> nat option" where
  "find_window p [] = (if p = [] then Some 0 else None)"
| "find_window p (x # xs) =
     (if take (length p) (x # xs) = p then Some 0
      else map_option Suc (find_window p xs))"

text \<open>
  \<open>copy_within xs s e d\<close> is \<^verbatim>\<open>xs.copy_within(s..e, d)\<close> for ranges inside the subslice.
\<close>

definition copy_within :: "'a list \<Rightarrow> nat \<Rightarrow> nat \<Rightarrow> nat \<Rightarrow> 'a list" where
  "copy_within xs s e d =
     take (length xs) (take d xs @ take (e - s) (drop s xs) @ drop (d + (e - s)) xs)"

lemma length_copy_within_le: "length (copy_within xs s e d) \<le> length xs"
  by (simp add: copy_within_def)

definition ends_with :: "'a list \<Rightarrow> 'a list \<Rightarrow> bool" where
  "ends_with xs p \<longleftrightarrow> length p \<le> length xs \<and> drop (length xs - length p) xs = p"

lemma ends_with_iff_suffix: "ends_with xs p \<longleftrightarrow> suffix p xs"
  by (auto simp: ends_with_def suffix_def) (metis append_take_drop_id)

lemma length_copy_within [simp]:
  "\<lbrakk>s \<le> e; e \<le> length xs; d + (e - s) \<le> length xs\<rbrakk> \<Longrightarrow> length (copy_within xs s e d) = length xs"
  by (simp add: copy_within_def)

lemma take_copy_within:
  assumes "s \<le> e" "e \<le> length xs" "d + (e - s) \<le> length xs"
  shows "take (d + (e - s)) (copy_within xs s e d) = take d xs @ take (e - s) (drop s xs)"
  using assms by (simp add: copy_within_def)

lemma drop_copy_within:
  assumes "s \<le> e" "e \<le> length xs" "d + (e - s) \<le> k" "k \<le> length xs"
  shows "drop k (copy_within xs s e d) = drop k xs"
  using assms by (simp add: copy_within_def)

lemma find_window_Some_bound:
  "find_window p xs = Some i \<Longrightarrow> i + length p \<le> length xs"
proof (induction xs arbitrary: i)
  case Nil
  then show ?case by (auto split: if_splits)
next
  case (Cons x xs)
  show ?case
  proof (cases "take (length p) (x # xs) = p")
    case True
    then have "length p \<le> length (x # xs)"
      by (metis length_take min.cobounded1)
    with True Cons.prems show ?thesis by auto
  next
    case False
    with Cons.prems obtain j where "find_window p xs = Some j" "i = Suc j" by auto
    with Cons.IH show ?thesis by simp
  qed
qed

lemma find_window_Some_at:
  "find_window p xs = Some i \<Longrightarrow> take (length p) (drop i xs) = p"
  by (induction xs arbitrary: i) (auto split: if_splits)

text \<open>No earlier occurrence, and no occurrence at all when the search fails.\<close>

lemma find_window_Some_first:
  "find_window p xs = Some i \<Longrightarrow> j < i \<Longrightarrow> take (length p) (drop j xs) \<noteq> p"
proof (induction xs arbitrary: i j)
  case Nil
  then show ?case by (auto split: if_splits)
next
  case (Cons x xs)
  then show ?case by (cases j) (auto split: if_splits)
qed

lemma find_window_None:
  "find_window p xs = None \<Longrightarrow> j \<le> length xs \<Longrightarrow> take (length p) (drop j xs) \<noteq> p"
proof (induction xs arbitrary: j)
  case Nil
  then show ?case by (auto split: if_splits)
next
  case (Cons x xs)
  then show ?case by (cases j) (auto split: if_splits)
qed

section \<open>Ranges and lists of buffers\<close>

text \<open>\<open>subslice xs s e\<close> is \<^verbatim>\<open>&xs[s..e]\<close>.\<close>

definition subslice :: "'a list \<Rightarrow> nat \<Rightarrow> nat \<Rightarrow> 'a list" where
  "subslice xs s e = take (e - s) (drop s xs)"

lemma length_subslice [simp]: "e \<le> length xs \<Longrightarrow> length (subslice xs s e) = e - s"
  by (simp add: subslice_def)

lemma subslice_empty [simp]: "subslice xs s s = []"
  by (simp add: subslice_def)

lemma subslice_split:
  "s \<le> m \<Longrightarrow> m \<le> e \<Longrightarrow> subslice xs s e = subslice xs s m @ subslice xs m e"
proof -
  assume a: "s \<le> m" "m \<le> e"
  then have "e - s = (m - s) + (e - m)" by simp
  then have "take (e - s) (drop s xs) =
      take (m - s) (drop s xs) @ take (e - m) (drop (m - s) (drop s xs))"
    by (simp only: take_add)
  then show ?thesis using a by (simp add: subslice_def)
qed

abbreviation total_len :: "'a list list \<Rightarrow> nat" where
  "total_len bufs \<equiv> sum_list (map length bufs)"

lemma total_len_concat: "total_len bufs = length (concat bufs)"
  by (simp add: length_concat)

lemma min_add_split: "min (a + b) (c::nat) = min a c + min b (c - min a c)"
  by (auto simp: min_def)

section \<open>The end of a message\<close>

text \<open>
  \<open>end_of_data s n\<close>: reading \<open>s\<close> right behind a line break, the line consisting of a
  single dot is complete for the first time after \<open>n\<close> bytes.
\<close>

definition end_of_data :: "bytes \<Rightarrow> nat \<Rightarrow> bool" where
  "end_of_data s n \<longleftrightarrow> n \<le> length s \<and> suffix EOD (CRLF @ take n s) \<and>
     (\<forall>k<n. \<not> suffix EOD (CRLF @ take k s))"

lemma end_of_data_unique: "end_of_data s m \<Longrightarrow> end_of_data s n \<Longrightarrow> m = n"
  unfolding end_of_data_def by (meson linorder_neqE_nat)

lemma end_of_data_append: "n \<le> length xs \<Longrightarrow> end_of_data (xs @ ys) n \<longleftrightarrow> end_of_data xs n"
  by (auto simp: end_of_data_def)

end
