(* ===== verification/AsyncIo.thy ===== *)
theory AsyncIo
  imports Prelude
begin

text \<open>
  The \<^verbatim>\<open>futures::AsyncRead\<close> and \<^verbatim>\<open>futures::AsyncWrite\<close> interfaces the crates are generic
  over. An implementation is a parameter of the model: a function from its state and the
  caller's buffers to its new state, the buffers and the polled result. What the traits promise
  is stated as two locales over the byte stream the implementation carries; a scripted peer
  (chunks that arrive one poll after the other, with "not ready yet" in between) and a scripted
  sink implement them.
\<close>

section \<open>Reading\<close>

type_synonym 'r poll_read = "'r \<Rightarrow> bytes list \<Rightarrow> 'r \<times> bytes list \<times> nat io_result poll"

text \<open>
  \<open>incoming r\<close> is what is still to come out of \<open>r\<close>. A successful read of \<open>n\<close> bytes fills the
  buffers in order with the next \<open>n\<close> bytes; a result of 0 on non-empty buffers is the end of
  the stream; neither a pending nor a failed read loses bytes.
\<close>

locale async_read =
  fixes poll_inner :: "'r poll_read"
    and incoming :: "'r \<Rightarrow> bytes"
  assumes bufs_kept: "poll_inner r bufs = (r', bufs', res) \<Longrightarrow> map length bufs' = map length bufs"
    and read_ok: "poll_inner r bufs = (r', bufs', Ready (Inr n)) \<Longrightarrow>
      n \<le> total_len bufs \<and> n \<le> length (incoming r) \<and>
      take n (concat bufs') = take n (incoming r) \<and> incoming r' = drop n (incoming r)"
    and read_eof: "poll_inner r bufs = (r', bufs', Ready (Inr 0)) \<Longrightarrow> 0 < total_len bufs \<Longrightarrow>
      incoming r = []"
    and read_blocked: "poll_inner r bufs = (r', bufs', Pending) \<Longrightarrow> incoming r' = incoming r"
    and read_failed: "poll_inner r bufs = (r', bufs', Ready (Inl e)) \<Longrightarrow> incoming r' = incoming r"

text \<open>Writing bytes into consecutive buffers.\<close>

fun scatter :: "bytes \<Rightarrow> bytes list \<Rightarrow> bytes list" where
  "scatter xs [] = []"
| "scatter xs (b # bs) = (take (length b) xs @ drop (length xs) b) # scatter (drop (length b) xs) bs"

lemma map_length_scatter [simp]: "map length (scatter xs bs) = map length bs"
  by (induction bs arbitrary: xs) auto

lemma take_concat_scatter:
  "length xs \<le> total_len bs \<Longrightarrow> take (length xs) (concat (scatter xs bs)) = xs"
proof (induction bs arbitrary: xs)
  case Nil
  then show ?case by simp
next
  case (Cons b bs)
  show ?case
  proof (cases "length xs \<le> length b")
    case True
    then show ?thesis by simp
  next
    case False
    with Cons.prems have "length (drop (length b) xs) \<le> total_len bs" by simp
    from Cons.IH [OF this] False show ?thesis by simp
  qed
qed

fun script_read :: "bytes list poll_read" where
  "script_read [] bufs = ([], bufs, Ready (Inr 0))"
| "script_read (c # cs) bufs =
     (if c = [] then (cs, bufs, Pending)
      else let n = min (length c) (total_len bufs) in
        ((if n = length c then cs else drop n c # cs), scatter (take n c) bufs, Ready (Inr n)))"

interpretation script: async_read script_read concat
proof unfold_locales
  fix r bufs r' bufs' and n :: nat
  assume a: "script_read r bufs = (r', bufs', Ready (Inr n))"
  show "n \<le> total_len bufs \<and> n \<le> length (concat r) \<and>
      take n (concat bufs') = take n (concat r) \<and> concat r' = drop n (concat r)"
  proof (cases r)
    case Nil
    with a show ?thesis by simp
  next
    case (Cons c cs)
    let ?n = "min (length c) (total_len bufs)"
    have "take (length (take ?n c)) (concat (scatter (take ?n c) bufs)) = take ?n c"
      by (rule take_concat_scatter) simp
    then show ?thesis using a Cons by (auto simp: Let_def split: if_splits)
  qed
qed (auto elim!: script_read.elims simp: Let_def min_def split: if_splits)

section \<open>Writing\<close>

type_synonym 'w poll_write = "'w \<Rightarrow> bytes list \<Rightarrow> 'w \<times> nat io_result poll"

text \<open>
  \<open>wire w\<close> is what has been written so far: a successful write of \<open>n\<close> bytes has appended the
  first \<open>n\<close> bytes of the buffers, a pending or failed one nothing.
\<close>

locale async_write =
  fixes poll_sink :: "'w poll_write"
    and wire :: "'w \<Rightarrow> bytes"
  assumes write_ok: "poll_sink w bufs = (w', Ready (Inr n)) \<Longrightarrow>
      n \<le> total_len bufs \<and> wire w' = wire w @ take n (concat bufs)"
    and write_blocked: "poll_sink w bufs = (w', Pending) \<Longrightarrow> wire w' = wire w"
    and write_failed: "poll_sink w bufs = (w', Ready (Inl e)) \<Longrightarrow> wire w' = wire w"

text \<open>
  A scripted sink: what it has received, and for each poll to come the number of bytes it
  accepts at most, or \<open>None\<close> for "not ready". With an exhausted script it accepts everything.
\<close>

fun script_write :: "(bytes \<times> nat option list) poll_write" where
  "script_write (out, []) bufs = ((out @ concat bufs, []), Ready (Inr (total_len bufs)))"
| "script_write (out, None # ks) bufs = ((out, ks), Pending)"
| "script_write (out, Some k # ks) bufs =
     (let n = min k (total_len bufs) in ((out @ take n (concat bufs), ks), Ready (Inr n)))"

interpretation script_sink: async_write script_write fst
  by unfold_locales (auto elim!: script_write.elims simp: Let_def length_concat)

end
