(* ===== verification/DataReader.thy ===== *)
theory DataReader
  imports AsyncIo
begin

text \<open>
  \<^verbatim>\<open>EscapedDataReader\<close> of \<^verbatim>\<open>smtp-message/src/data.rs\<close>: the reader that hands out the
  (still escaped) bytes of a DATA stream up to and including the end-of-data line, and keeps
  the bytes behind it for the next command. The inner reader \<^verbatim>\<open>R: AsyncRead\<close> is generic
  in the source; here it is a parameter \<open>poll_inner\<close>, and what the trait promises is the
  locale \<open>async_read\<close>.
\<close>

section \<open>State\<close>

datatype EscapedDataReaderState =
  Rd_Start | Rd_Cr | Rd_CrLf | Rd_CrLfDot | Rd_CrLfDotCr | Rd_End | Rd_Completed

record 'r EscapedDataReader =
  rd_buf :: bytes
  rd_start :: nat
  rd_end :: nat
  rd_state :: EscapedDataReaderState
  rd_read :: 'r

section \<open>Operations\<close>

definition reader_new :: "bytes \<Rightarrow> nat \<Rightarrow> nat \<Rightarrow> 'r \<Rightarrow> 'r EscapedDataReader" where
  "reader_new buf s e r =
     \<lparr>rd_buf = buf, rd_start = s, rd_end = e, rd_state = Rd_CrLf, rd_read = r\<rparr>"

definition is_finished :: "'r EscapedDataReader \<Rightarrow> bool" where
  "is_finished d \<longleftrightarrow> rd_state d = Rd_End \<or> rd_state d = Rd_Completed"

definition complete :: "'r EscapedDataReader \<Rightarrow> 'r EscapedDataReader run" where
  "complete d = (if is_finished d then Value (d\<lparr>rd_state := Rd_Completed\<rparr>) else Panic)"

definition get_unhandled :: "'r EscapedDataReader \<Rightarrow> (nat \<times> nat) option" where
  "get_unhandled d = (if rd_state d = Rd_Completed then Some (rd_start d, rd_end d) else None)"

text \<open>The transition the scan makes on one byte (the \<^verbatim>\<open>match (*this.state, bufs[b][i])\<close>).\<close>

definition rd_step :: "EscapedDataReaderState \<Rightarrow> byte \<Rightarrow> EscapedDataReaderState" where
  "rd_step s c =
     (if s = Rd_Cr \<and> c = LF then Rd_CrLf
      else if s = Rd_CrLf \<and> c = DOT then Rd_CrLfDot
      else if s = Rd_CrLfDot \<and> c = CR then Rd_CrLfDotCr
      else if s = Rd_CrLfDotCr \<and> c = LF then Rd_End
      else if c = CR then Rd_Cr
      else Rd_Start)"

text \<open>First loop: fill the caller's buffers from \<^verbatim>\<open>this.unhandled\<close>.\<close>

fun fill_bufs :: "bytes \<Rightarrow> nat \<Rightarrow> nat \<Rightarrow> bytes list \<Rightarrow> (bytes list \<times> nat) run" where
  "fill_bufs src s e [] = Value ([], s)"
| "fill_bufs src s e (b # bs) =
     (let copy_len = min (length b) (e - s); next_start = s + copy_len in
      if length src < next_start then Panic
      else bind_run (fill_bufs src next_start e bs)
             (\<lambda>(bs', s'). Value ((subslice src s next_start @ drop copy_len b) # bs', s')))"

text \<open>Second loop: look for the end of data; the inner loop over one buffer.\<close>

fun scan_buf :: "EscapedDataReaderState \<Rightarrow> nat \<Rightarrow> bytes \<Rightarrow> EscapedDataReaderState \<times> nat option" where
  "scan_buf s i [] = (s, None)"
| "scan_buf s i (c # cs) =
     (let s' = rd_step s c in if s' = Rd_End then (Rd_End, Some i) else scan_buf s' (Suc i) cs)"

text \<open>
  The outer loop: on the end of data, the index in the current buffer, that buffer and the
  buffers after it.
\<close>

fun scan_bufs ::
  "EscapedDataReaderState \<Rightarrow> nat \<Rightarrow> nat \<Rightarrow> bytes list \<Rightarrow>
     EscapedDataReaderState \<times> nat \<times> (nat \<times> bytes \<times> bytes list) option" where
  "scan_bufs s sz raw [] = (s, sz, None)"
| "scan_bufs s sz raw (b # bs) =
     (let lim = min (length b) (raw - sz) in
      case scan_buf s 0 (take lim b) of
        (s', Some i) \<Rightarrow> (s', sz + (i + 1), Some (i, b, bs))
      | (s', None) \<Rightarrow> scan_bufs s' (sz + lim) raw bs)"

text \<open>Copying what follows the end of data back into \<^verbatim>\<open>this.buf\<close>.\<close>

fun save_rest :: "bytes \<Rightarrow> nat \<Rightarrow> nat \<Rightarrow> bytes list \<Rightarrow> (bytes \<times> nat) run" where
  "save_rest buf copied avail [] = Value (buf, copied)"
| "save_rest buf copied avail (b # bs) =
     (let remaining = min (length b) (avail - copied) in
      if length buf < copied + remaining then Panic
      else save_rest (take copied buf @ take remaining b @ drop (copied + remaining) buf)
             (copied + remaining) avail bs)"

text \<open>
  The second half of \<^verbatim>\<open>poll_read_vectored\<close>: \<open>raw_size\<close> bytes have arrived in the buffers,
  look for the end in them.
\<close>

definition poll_scan ::
  "'r EscapedDataReader \<Rightarrow> bytes list \<Rightarrow> nat \<Rightarrow>
     ('r EscapedDataReader \<times> bytes list \<times> nat io_result poll) run" where
  "poll_scan d bufs raw_size =
     (if raw_size = 0 then
        (if total_len bufs = 0 then Value (d, bufs, Ready (Inr 0))
         else Value (d, bufs, Ready (Inl (Io_Error ConnectionAborted
                ''connection aborted without finishing the data stream''))))
      else
        case scan_bufs (rd_state d) 0 raw_size bufs of
          (s', sz, None) \<Rightarrow> Value (d\<lparr>rd_state := s'\<rparr>, bufs, Ready (Inr sz))
        | (s', sz, Some (i, b, bs)) \<Rightarrow>
            (if rd_start d = rd_end d then
               bind_run (save_rest (rd_buf d) 0 (raw_size - sz) (drop (i + 1) b # bs))
                 (\<lambda>(buf', copied).
                    Value (d\<lparr>rd_state := s', rd_buf := buf', rd_start := 0, rd_end := copied\<rparr>,
                           bufs, Ready (Inr sz)))
             else
               Value (d\<lparr>rd_state := s', rd_start := rd_start d - (raw_size - sz)\<rparr>,
                      bufs, Ready (Inr sz))))"

definition poll_read_vectored ::
  "'r poll_read \<Rightarrow> 'r EscapedDataReader \<Rightarrow> bytes list \<Rightarrow>
     ('r EscapedDataReader \<times> bytes list \<times> nat io_result poll) run" where
  "poll_read_vectored poll_inner d bufs =
     (if is_finished d then Value (d, bufs, Ready (Inr 0))
      else
        let unhandled_len_start = rd_end d - rd_start d in
        if unhandled_len_start > 0 then
          bind_run (fill_bufs (rd_buf d) (rd_start d) (rd_end d) bufs)
            (\<lambda>(bufs1, s').
               poll_scan (d\<lparr>rd_start := s'\<rparr>) bufs1 (unhandled_len_start - (rd_end d - s')))
        else
          case poll_inner (rd_read d) bufs of
            (r', bufs1, Ready (Inr n)) \<Rightarrow> poll_scan (d\<lparr>rd_read := r'\<rparr>) bufs1 n
          | (r', bufs1, other) \<Rightarrow> Value (d\<lparr>rd_read := r'\<rparr>, bufs1, other))"

definition poll_read ::
  "'r poll_read \<Rightarrow> 'r EscapedDataReader \<Rightarrow> bytes \<Rightarrow>
     ('r EscapedDataReader \<times> bytes list \<times> nat io_result poll) run" where
  "poll_read poll_inner d buf = poll_read_vectored poll_inner d [buf]"

section \<open>The scan as an automaton\<close>

text \<open>
  \<open>rd_scan s cs\<close> runs the automaton over a flat byte string and stops behind the byte that
  completes the end-of-data line: the final state and the number of bytes consumed.
\<close>

fun rd_scan :: "EscapedDataReaderState \<Rightarrow> bytes \<Rightarrow> EscapedDataReaderState \<times> nat" where
  "rd_scan s [] = (s, 0)"
| "rd_scan s (c # cs) =
     (let s' = rd_step s c in
      if s' = Rd_End then (Rd_End, 1) else case rd_scan s' cs of (s'', n) \<Rightarrow> (s'', Suc n))"

lemma rd_step_not_Completed [simp]: "rd_step s c \<noteq> Rd_Completed"
  by (simp add: rd_step_def)

lemma rd_scan_bound: "rd_scan s cs = (s', n) \<Longrightarrow> n \<le> length cs"
  by (induction cs arbitrary: s s' n) (auto simp: Let_def split: if_splits prod.splits)

lemma rd_scan_take: "rd_scan s cs = (s', n) \<Longrightarrow> rd_scan s (take n cs) = (s', n)"
  by (induction cs arbitrary: s s' n) (auto simp: Let_def split: if_splits prod.splits)

lemma rd_scan_not_end: "rd_scan s cs = (s', n) \<Longrightarrow> s' \<noteq> Rd_End \<Longrightarrow> n = length cs"
  by (induction cs arbitrary: s s' n) (auto simp: Let_def split: if_splits prod.splits)

lemma rd_scan_append:
  assumes "rd_scan s xs = (s', length xs)" "s' \<noteq> Rd_End"
  shows "rd_scan s (xs @ ys) = (case rd_scan s' ys of (s'', n) \<Rightarrow> (s'', length xs + n))"
  using assms
  by (induction xs arbitrary: s) (auto simp: Let_def split: if_splits prod.splits)

lemma rd_scan_append_end:
  "rd_scan s xs = (Rd_End, n) \<Longrightarrow> s \<noteq> Rd_End \<Longrightarrow> rd_scan s (xs @ ys) = (Rd_End, n)"
  by (induction xs arbitrary: s n) (auto simp: Let_def split: if_splits prod.splits)

lemma rd_scan_Completed:
  "rd_scan s cs = (s', n) \<Longrightarrow> s \<noteq> Rd_Completed \<Longrightarrow> s' \<noteq> Rd_Completed"
  by (induction cs arbitrary: s s' n) (auto simp: Let_def split: if_splits prod.splits)

lemma scan_buf_rd_scan:
  assumes "s \<noteq> Rd_End"
  shows "scan_buf s i cs = (case rd_scan s cs of (s', n) \<Rightarrow>
            (s', if s' = Rd_End then Some (i + n - 1) else None))"
  using assms
  by (induction cs arbitrary: s i) (auto simp: Let_def split: prod.splits)

lemma rd_scan_end_pos: "rd_scan s cs = (Rd_End, n) \<Longrightarrow> s \<noteq> Rd_End \<Longrightarrow> 0 < n"
  by (cases cs) (auto simp: Let_def split: if_splits prod.splits)

text \<open>The nested loops over the buffers compute the scan of the delivered bytes.\<close>

lemma scan_bufs_rd_scan:
  assumes "s \<noteq> Rd_End" "sz \<le> raw" "raw - sz \<le> total_len bufs"
  shows "\<exists>n. rd_scan s (take (raw - sz) (concat bufs)) = (fst (scan_bufs s sz raw bufs), n) \<and>
    fst (snd (scan_bufs s sz raw bufs)) = sz + n \<and>
    (case snd (snd (scan_bufs s sz raw bufs)) of
       None \<Rightarrow> fst (scan_bufs s sz raw bufs) \<noteq> Rd_End
     | Some (i, b, bs) \<Rightarrow> fst (scan_bufs s sz raw bufs) = Rd_End \<and>
         take (raw - sz - n) (concat (drop (i + 1) b # bs)) = drop n (take (raw - sz) (concat bufs)))"
  using assms
proof (induction bufs arbitrary: s sz)
  case Nil
  then show ?case by simp
next
  case (Cons b bufs)
  let ?lim = "min (length b) (raw - sz)"
  obtain s1 n1 where r1: "rd_scan s (take ?lim b) = (s1, n1)" by (cases "rd_scan s (take ?lim b)")
  have n1: "n1 \<le> ?lim" using rd_scan_bound [OF r1] by simp
  have split: "take (raw - sz) (concat (b # bufs)) = take ?lim b @ take (raw - sz - length b) (concat bufs)"
    by (cases "length b \<le> raw - sz") auto
  show ?case
  proof (cases "s1 = Rd_End")
    case True
    with r1 Cons.prems have "rd_scan s (take ?lim b @ take (raw - sz - length b) (concat bufs)) = (Rd_End, n1)"
      by (simp add: rd_scan_append_end)
    moreover have "0 < n1" using r1 True Cons.prems rd_scan_end_pos by blast
    moreover have "take (raw - sz - n1) (drop n1 b) = drop n1 (take ?lim b)"
      using n1 by (cases "length b \<le> raw - sz") (auto simp: drop_take)
    ultimately show ?thesis
      using True r1 n1 Cons.prems
      by (auto simp: scan_buf_rd_scan split Let_def simp del: concat.simps)
         (auto simp: min_def drop_take split: if_splits)
  next
    case False
    then have n1': "n1 = ?lim" using rd_scan_not_end [OF r1] by simp
    have pre: "s1 \<noteq> Rd_End" "sz + ?lim \<le> raw" "raw - (sz + ?lim) \<le> total_len bufs"
      using False Cons.prems by auto
    from Cons.IH [OF pre] obtain n where
      n: "rd_scan s1 (take (raw - (sz + ?lim)) (concat bufs)) = (fst (scan_bufs s1 (sz + ?lim) raw bufs), n)"
      "fst (snd (scan_bufs s1 (sz + ?lim) raw bufs)) = sz + ?lim + n"
      "case snd (snd (scan_bufs s1 (sz + ?lim) raw bufs)) of
         None \<Rightarrow> fst (scan_bufs s1 (sz + ?lim) raw bufs) \<noteq> Rd_End
       | Some (i, b, bs) \<Rightarrow> fst (scan_bufs s1 (sz + ?lim) raw bufs) = Rd_End \<and>
           take (raw - (sz + ?lim) - n) (concat (drop (i + 1) b # bs)) =
             drop n (take (raw - (sz + ?lim)) (concat bufs))" by blast
    have eq: "scan_bufs s sz raw (b # bufs) = scan_bufs s1 (sz + ?lim) raw bufs"
      using r1 False Cons.prems by (simp add: scan_buf_rd_scan Let_def)
    have e: "raw - sz - length b = raw - (sz + ?lim)" using Cons.prems by auto
    then have sc: "rd_scan s (take (raw - sz) (concat (b # bufs))) =
        (fst (scan_bufs s1 (sz + ?lim) raw bufs), ?lim + n)"
      using r1 n1' n(1) False by (simp only: split) (simp add: rd_scan_append)
    have dr: "drop (?lim + n) (take (raw - sz) (concat (b # bufs))) =
        drop n (take (raw - (sz + ?lim)) (concat bufs))"
      by (simp only: split e) simp
    have ar: "raw - sz - (?lim + n) = raw - (sz + ?lim) - n" by simp
    show ?thesis
      unfolding eq
    proof (intro exI [of _ "?lim + n"] conjI)
      show "fst (snd (scan_bufs s1 (sz + ?lim) raw bufs)) = sz + (?lim + n)"
        using n(2) by simp
    qed (use sc n(3) in \<open>simp_all only: dr ar\<close>)
  qed
qed

lemma scan_bufs_cases:
  assumes "s \<noteq> Rd_End" "raw \<le> total_len bufs"
  obtains (go) s' where "scan_bufs s 0 raw bufs = (s', raw, None)"
      "rd_scan s (take raw (concat bufs)) = (s', raw)" "s' \<noteq> Rd_End"
    | (stop) m i b bs where "scan_bufs s 0 raw bufs = (Rd_End, m, Some (i, b, bs))"
      "rd_scan s (take raw (concat bufs)) = (Rd_End, m)" "m \<le> raw"
      "take (raw - m) (concat (drop (i + 1) b # bs)) = drop m (take raw (concat bufs))"
proof -
  obtain s' m o' where sc: "scan_bufs s 0 raw bufs = (s', m, o')" by (cases "scan_bufs s 0 raw bufs")
  with scan_bufs_rd_scan [OF assms(1), of 0 raw bufs] assms(2)
  have rs: "rd_scan s (take raw (concat bufs)) = (s', m)"
    and rest: "case o' of None \<Rightarrow> s' \<noteq> Rd_End
      | Some (i, b, bs) \<Rightarrow> s' = Rd_End \<and>
          take (raw - m) (concat (drop (i + 1) b # bs)) = drop m (take raw (concat bufs))"
    by (auto split: option.splits prod.splits)
  show thesis
  proof (cases o')
    case None
    with rest rs rd_scan_not_end [OF rs] assms(2) sc show thesis
      by (intro go [of s']) (auto simp: length_concat)
  next
    case (Some ibs)
    then obtain i b bs where "o' = Some (i, b, bs)" by (cases ibs) auto
    with rest rs sc rd_scan_bound [OF rs] show thesis by (intro stop [of m i b bs]) auto
  qed
qed

section \<open>Filling and saving buffers\<close>

lemma fill_bufs_ok:
  assumes "s \<le> e" "e \<le> length src"
  shows "\<exists>bufs'. fill_bufs src s e bufs = Value (bufs', s + min (total_len bufs) (e - s)) \<and>
    map length bufs' = map length bufs \<and>
    take (min (total_len bufs) (e - s)) (concat bufs') =
      subslice src s (s + min (total_len bufs) (e - s))"
  using assms
proof (induction bufs arbitrary: s)
  case Nil
  then show ?case by simp
next
  case (Cons b bufs)
  let ?n = "min (length b) (e - s)"
  let ?m = "min (total_len bufs) (e - (s + ?n))"
  have pre: "s + ?n \<le> e" "e \<le> length src" using Cons.prems by auto
  from Cons.IH [OF pre] obtain bs' where
    bs': "fill_bufs src (s + ?n) e bufs = Value (bs', s + ?n + ?m)"
    "map length bs' = map length bufs" "take ?m (concat bs') = subslice src (s + ?n) (s + ?n + ?m)" by blast
  have tot: "min (total_len (b # bufs)) (e - s) = ?n + ?m" using pre by (simp add: min_add_split)
  let ?b' = "subslice src s (s + ?n) @ drop ?n b"
  have len: "length ?b' = length b" using pre by simp
  have "take (?n + ?m) (?b' @ concat bs') = subslice src s (s + ?n) @ subslice src (s + ?n) (s + ?n + ?m)"
  proof (cases "length b \<le> e - s")
    case True
    then show ?thesis using bs'(3) pre by (simp add: min_def)
  next
    case False
    then have "?n = e - s" "?m = 0" using Cons.prems by auto
    then show ?thesis using pre by (simp add: subslice_def)
  qed
  also have "\<dots> = subslice src s (s + ?n + ?m)" by (rule subslice_split [symmetric]) auto
  finally have tk: "take (?n + ?m) (?b' @ concat bs') = subslice src s (s + (?n + ?m))" by (simp add: add.assoc)
  have "fill_bufs src s e (b # bufs) = Value (?b' # bs', s + (?n + ?m))"
    using pre bs'(1) by (simp add: Let_def add.assoc)
  moreover have "map length (?b' # bs') = map length (b # bufs)" using bs'(2) len by simp
  moreover have "concat (?b' # bs') = ?b' @ concat bs'" by simp
  ultimately show ?case unfolding tot using tk by metis
qed

lemma save_rest_ok:
  assumes "copied \<le> length buf" "copied + min (total_len bs) (avail - copied) \<le> length buf"
  shows "\<exists>buf'. save_rest buf copied avail bs =
      Value (buf', copied + min (total_len bs) (avail - copied)) \<and> length buf' = length buf \<and>
      take (copied + min (total_len bs) (avail - copied)) buf' =
        take copied buf @ take (avail - copied) (concat bs)"
  using assms
proof (induction bs arbitrary: buf copied)
  case Nil
  then show ?case by simp
next
  case (Cons b bs)
  let ?n = "min (length b) (avail - copied)"
  let ?buf1 = "take copied buf @ take ?n b @ drop (copied + ?n) buf"
  have n: "copied + ?n \<le> length buf" using Cons.prems by auto
  then have len1: "length ?buf1 = length buf" by auto
  have pre: "copied + ?n \<le> length ?buf1"
    "copied + ?n + min (total_len bs) (avail - (copied + ?n)) \<le> length ?buf1"
    using Cons.prems n len1 by (simp_all add: min_add_split)
  from Cons.IH [OF pre] obtain buf' where
    b': "save_rest ?buf1 (copied + ?n) avail bs =
           Value (buf', copied + ?n + min (total_len bs) (avail - (copied + ?n)))"
    "length buf' = length ?buf1"
    "take (copied + ?n + min (total_len bs) (avail - (copied + ?n))) buf' =
       take (copied + ?n) ?buf1 @ take (avail - (copied + ?n)) (concat bs)" by blast
  have tot: "copied + min (total_len (b # bs)) (avail - copied) =
      copied + ?n + min (total_len bs) (avail - (copied + ?n))" by (simp add: min_add_split)
  have "take (copied + ?n) ?buf1 = take copied buf @ take ?n b" using n by simp
  moreover have "take (avail - copied) (concat (b # bs)) = take ?n b @ take (avail - (copied + ?n)) (concat bs)"
    by (cases "length b \<le> avail - copied") auto
  ultimately show ?case
    unfolding tot using b' n len1 by (simp add: Let_def)
qed

lemma save_rest_bound:
  "save_rest buf copied avail bs = Value (buf', c) \<Longrightarrow>
     c = copied + min (total_len bs) (avail - copied) \<and> (copied \<le> length buf \<longrightarrow> c \<le> length buf)"
proof (induction bs arbitrary: buf copied)
  case Nil
  then show ?case by simp
next
  case (Cons b bs)
  let ?n = "min (length b) (avail - copied)"
  let ?buf1 = "take copied buf @ take ?n b @ drop (copied + ?n) buf"
  have n: "copied + ?n \<le> length buf" and r: "save_rest ?buf1 (copied + ?n) avail bs = Value (buf', c)"
    using Cons.prems by (auto simp: Let_def split: if_splits)
  have "length ?buf1 = length buf" using n by auto
  with Cons.IH [OF r] n show ?case by (simp add: min_add_split)
qed

lemma save_rest_value:
  assumes "save_rest buf 0 avail bs = Value (buf', c)"
  shows "c \<le> length buf' \<and> length buf' = length buf \<and> take c buf' = take avail (concat bs)"
  using save_rest_bound [OF assms] save_rest_ok [of 0 buf bs avail] assms by auto

section \<open>The end of data\<close>

definition rd_classify :: "bytes \<Rightarrow> EscapedDataReaderState" where
  "rd_classify w =
     (if suffix EOD w then Rd_End
      else if suffix [CR, LF, DOT, CR] w then Rd_CrLfDotCr
      else if suffix [CR, LF, DOT] w then Rd_CrLfDot
      else if suffix CRLF w then Rd_CrLf
      else if suffix [CR] w then Rd_Cr
      else Rd_Start)"

lemma suffix_snoc_iff: "suffix (xs @ [x]) (ys @ [y]) \<longleftrightarrow> x = y \<and> suffix xs ys"
  by (auto simp: suffix_to_prefix)

lemma rd_step_classify:
  "rd_classify w \<noteq> Rd_End \<Longrightarrow> rd_step (rd_classify w) c = rd_classify (w @ [c])"
proof (cases "rev w")
  case Nil
  then show ?thesis by (simp add: rd_classify_def rd_step_def suffix_to_prefix)
next
  case (Cons h t)
  assume "rd_classify w \<noteq> Rd_End"
  with Cons show ?thesis
    unfolding rd_classify_def rd_step_def suffix_to_prefix
    by (cases "h = CR"; cases "h = LF"; cases "h = DOT"; cases "c = CR"; cases "c = LF";
        cases "c = DOT"; simp split: if_splits)
qed

lemma rd_scan_classify:
  assumes "rd_classify w \<noteq> Rd_End"
  shows "rd_scan (rd_classify w) cs = (s', n) \<Longrightarrow>
    s' = rd_classify (w @ take n cs) \<and> (\<forall>k<n. rd_classify (w @ take k cs) \<noteq> Rd_End)"
  using assms
proof (induction cs arbitrary: w n)
  case Nil
  then show ?case by simp
next
  case (Cons c cs)
  have st: "rd_step (rd_classify w) c = rd_classify (w @ [c])"
    using Cons.prems(2) by (rule rd_step_classify)
  show ?case
  proof (cases "rd_classify (w @ [c]) = Rd_End")
    case True
    with st Cons.prems show ?thesis by (auto simp: Let_def)
  next
    case False
    obtain n' where n': "rd_scan (rd_classify (w @ [c])) cs = (s', n')" "n = Suc n'"
      using Cons.prems(1) st False by (auto simp: Let_def split: prod.splits)
    from Cons.IH [OF n'(1) False] n'(2) Cons.prems(2) show ?thesis
      by (auto simp: less_Suc_eq_0_disj)
  qed
qed

lemma rd_scan_end_of_data:
  assumes "rd_scan Rd_CrLf s = (st, n)"
  shows "st = Rd_End \<longleftrightarrow> end_of_data s n"
proof -
  have c: "rd_classify CRLF = Rd_CrLf" by (simp add: rd_classify_def suffix_to_prefix)
  have ne: "rd_classify CRLF \<noteq> Rd_End" by (simp add: c)
  have st: "st = rd_classify (CRLF @ take n s)"
    and k: "\<forall>k<n. rd_classify (CRLF @ take k s) \<noteq> Rd_End"
    using rd_scan_classify [OF ne] assms c by auto
  have "\<And>w. rd_classify w = Rd_End \<longleftrightarrow> suffix EOD w" by (auto simp: rd_classify_def)
  with st k rd_scan_bound [OF assms] show ?thesis by (auto simp: end_of_data_def)
qed

lemma end_of_data_scan:
  assumes "end_of_data s n"
  shows "rd_scan Rd_CrLf s = (Rd_End, n)"
proof -
  obtain st m where r: "rd_scan Rd_CrLf s = (st, m)" by (cases "rd_scan Rd_CrLf s")
  have "st = Rd_End"
  proof (rule ccontr)
    assume ne: "st \<noteq> Rd_End"
    then have m: "m = length s" using rd_scan_not_end [OF r] by simp
    have c: "rd_classify CRLF = Rd_CrLf" by (simp add: rd_classify_def suffix_to_prefix)
    have "n \<le> m" using assms m by (simp add: end_of_data_def)
    then have "rd_classify (CRLF @ take n s) \<noteq> Rd_End"
      using rd_scan_classify [of CRLF s st m] c r ne by (cases "n = m") auto
    with assms show False by (auto simp: end_of_data_def rd_classify_def)
  qed
  moreover from this have "end_of_data s m" using rd_scan_end_of_data [OF r] by simp
  ultimately show ?thesis using r end_of_data_unique [OF assms] by simp
qed

section \<open>One poll\<close>

definition rd_wf :: "'r EscapedDataReader \<Rightarrow> bool" where
  "rd_wf d \<longleftrightarrow> rd_start d \<le> rd_end d \<and> rd_end d \<le> length (rd_buf d)"

abbreviation rd_unhandled :: "'r EscapedDataReader \<Rightarrow> bytes" where
  "rd_unhandled d \<equiv> subslice (rd_buf d) (rd_start d) (rd_end d)"

lemma subslice_0: "subslice xs 0 n = take n xs"
  by (simp add: subslice_def)

lemma subslice_back:
  assumes "m \<le> s" "n \<le> m"
  shows "subslice xs (s - (m - n)) s = drop n (subslice xs (s - m) s)"
proof -
  have "subslice xs (s - m) s = subslice xs (s - m) (s - (m - n)) @ subslice xs (s - (m - n)) s"
    by (rule subslice_split) (use assms in auto)
  moreover have "length (subslice xs (s - m) (s - (m - n))) = min n (length xs - (s - m))"
    using assms by (simp add: subslice_def)
  ultimately show ?thesis
    using assms by (cases "n \<le> length xs - (s - m)") (auto simp: subslice_def)
qed

text \<open>
  \<open>poll_scan\<close> consumes the scanned bytes and puts the rest back in front of the unhandled
  ones, whether they came from the inner reader (\<open>rd_start = rd_end\<close>) or from the
  unhandled range itself.
\<close>

lemma poll_scan_ok:
  assumes raw: "raw \<le> total_len bufs" and nf: "\<not> is_finished d" and wf: "rd_wf d"
    and from_src: "rd_start d \<noteq> rd_end d \<Longrightarrow>
      raw \<le> rd_start d \<and> subslice (rd_buf d) (rd_start d - raw) (rd_start d) = take raw (concat bufs)"
    and res: "poll_scan d bufs raw = Value (d', bufs', Ready (Inr n))"
  shows "bufs' = bufs \<and> rd_read d' = rd_read d \<and> rd_wf d' \<and> length (rd_buf d') = length (rd_buf d) \<and>
    rd_scan (rd_state d) (take raw (concat bufs)) = (rd_state d', n) \<and>
    rd_unhandled d' = drop n (take raw (concat bufs)) @ rd_unhandled d"
proof (cases "raw = 0")
  case True
  with res wf show ?thesis by (auto simp: poll_scan_def split: if_splits)
next
  case False
  have st: "rd_state d \<noteq> Rd_End" using nf by (simp add: is_finished_def)
  from st raw show ?thesis
  proof (cases rule: scan_bufs_cases)
    case (go s')
    with False res wf raw show ?thesis by (auto simp: poll_scan_def rd_wf_def length_concat)
  next
    case (stop m i b bs)
    show ?thesis
    proof (cases "rd_start d = rd_end d")
      case True
      with stop False res obtain buf' copied where
        sv: "save_rest (rd_buf d) 0 (raw - m) (drop (i + 1) b # bs) = Value (buf', copied)"
        and d': "d' = d\<lparr>rd_state := Rd_End, rd_buf := buf', rd_start := 0, rd_end := copied\<rparr>"
          "bufs' = bufs" "n = m"
        by (auto simp: poll_scan_def)
      from save_rest_value [OF sv] have "copied \<le> length buf'" "length buf' = length (rd_buf d)"
        "take copied buf' = take (raw - m) (concat (drop (i + 1) b # bs))" by auto
      with stop True d' show ?thesis by (simp add: rd_wf_def subslice_0)
    next
      case neq: False
      have d': "d' = d\<lparr>rd_state := Rd_End, rd_start := rd_start d - (raw - m)\<rparr>" "bufs' = bufs" "n = m"
        using res False neq stop(1) by (auto simp: poll_scan_def)
      have b1: "raw \<le> rd_start d" using from_src neq by simp
      have "subslice (rd_buf d) (rd_start d - (raw - m)) (rd_end d) =
          subslice (rd_buf d) (rd_start d - (raw - m)) (rd_start d) @ rd_unhandled d"
        by (rule subslice_split) (use wf in \<open>auto simp: rd_wf_def\<close>)
      also have "subslice (rd_buf d) (rd_start d - (raw - m)) (rd_start d) = drop m (take raw (concat bufs))"
        using subslice_back [OF b1 stop(3), of "rd_buf d"] from_src neq by simp
      finally show ?thesis using d' stop wf by (auto simp: rd_wf_def)
    qed
  qed
qed

lemma poll_scan_no_panic:
  assumes raw: "raw \<le> total_len bufs" and fits: "raw \<le> length (rd_buf d)" and nf: "\<not> is_finished d"
  shows "poll_scan d bufs raw \<noteq> Panic"
proof -
  have st: "rd_state d \<noteq> Rd_End" using nf by (simp add: is_finished_def)
  from st raw show ?thesis
  proof (cases rule: scan_bufs_cases)
    case (go s')
    then show ?thesis by (simp add: poll_scan_def)
  next
    case (stop m i b bs)
    have "0 + min (total_len (drop (i + 1) b # bs)) (raw - m - 0) \<le> length (rd_buf d)"
      using fits by simp
    from save_rest_ok [OF _ this] obtain buf' c where
      "save_rest (rd_buf d) 0 (raw - m) (drop (i + 1) b # bs) = Value (buf', c)" by auto
    with stop show ?thesis by (simp add: poll_scan_def)
  qed
qed

text \<open>The whole DATA stream a reader still has in front of it.\<close>

definition rd_remaining :: "('r \<Rightarrow> bytes) \<Rightarrow> 'r EscapedDataReader \<Rightarrow> bytes" where
  "rd_remaining incoming d = rd_unhandled d @ incoming (rd_read d)"

lemma scan_delivered:
  assumes "rd_scan s (take m cs) = (s', n)" and S: "S = take m cs @ rest"
  shows "n \<le> length S" "take n cs = take n S" "rd_scan s (take n S) = (s', n)"
    "drop n (take m cs) @ rest = drop n S"
proof -
  have n: "n \<le> length (take m cs)" using rd_scan_bound [OF assms(1)] .
  then have t: "take n (take m cs) = take n cs" by (simp add: min_absorb1)
  show "n \<le> length S" "take n cs = take n S" "rd_scan s (take n S) = (s', n)"
    "drop n (take m cs) @ rest = drop n S"
    unfolding S using n t rd_scan_take [OF assms(1)] by auto
qed

context async_read
begin

lemma poll_ok:
  assumes wf: "rd_wf d" and nf: "\<not> is_finished d"
    and res: "poll_read_vectored poll_inner d bufs = Value (d', bufs', Ready (Inr n))"
  shows "rd_wf d' \<and> length (rd_buf d') = length (rd_buf d) \<and> map length bufs' = map length bufs \<and>
    n \<le> length (rd_remaining incoming d) \<and> take n (concat bufs') = take n (rd_remaining incoming d) \<and>
    rd_scan (rd_state d) (take n (rd_remaining incoming d)) = (rd_state d', n) \<and>
    rd_remaining incoming d' = drop n (rd_remaining incoming d)"
proof (cases "rd_end d - rd_start d > 0")
  case True
  let ?m = "min (total_len bufs) (rd_end d - rd_start d)"
  from fill_bufs_ok [of "rd_start d" "rd_end d" "rd_buf d" bufs] wf obtain bufs1 where
    f: "fill_bufs (rd_buf d) (rd_start d) (rd_end d) bufs = Value (bufs1, rd_start d + ?m)"
    "map length bufs1 = map length bufs"
    "take ?m (concat bufs1) = subslice (rd_buf d) (rd_start d) (rd_start d + ?m)"
    by (auto simp: rd_wf_def)
  let ?d1 = "d\<lparr>rd_start := rd_start d + ?m\<rparr>"
  have "rd_end d - rd_start d - (rd_end d - (rd_start d + ?m)) = ?m" by auto
  then have ps: "poll_scan ?d1 bufs1 ?m = Value (d', bufs', Ready (Inr n))"
    using res nf True f(1) by (simp add: poll_read_vectored_def)
  have pre: "?m \<le> total_len bufs1" "\<not> is_finished ?d1" "rd_wf ?d1"
    using nf wf f(2) by (auto simp: is_finished_def rd_wf_def)
  have un: "rd_unhandled d = take ?m (concat bufs1) @ rd_unhandled ?d1"
    using subslice_split [of "rd_start d" "rd_start d + ?m" "rd_end d" "rd_buf d"] wf f(3)
    by (auto simp: rd_wf_def)
  have p: "bufs' = bufs1 \<and> rd_read d' = rd_read ?d1 \<and> rd_wf d' \<and> length (rd_buf d') = length (rd_buf ?d1) \<and>
      rd_scan (rd_state ?d1) (take ?m (concat bufs1)) = (rd_state d', n) \<and>
      rd_unhandled d' = drop n (take ?m (concat bufs1)) @ rd_unhandled ?d1"
    by (rule poll_scan_ok [OF pre _ ps]) (use f(3) in simp)
  have rem: "rd_remaining incoming d = take ?m (concat bufs1) @ rd_unhandled ?d1 @ incoming (rd_read d)"
    "rd_remaining incoming d' = drop n (take ?m (concat bufs1)) @ rd_unhandled ?d1 @ incoming (rd_read d)"
    using p un by (simp_all add: rd_remaining_def)
  from p have "rd_scan (rd_state d) (take ?m (concat bufs1)) = (rd_state d', n)" by simp
  from scan_delivered [OF this rem(1)] p rem(2) f(2) show ?thesis by simp
next
  case False
  with wf have e: "rd_start d = rd_end d" by (simp add: rd_wf_def)
  obtain r' bufs1 m where inner: "poll_inner (rd_read d) bufs = (r', bufs1, Ready (Inr m))"
    and ps: "poll_scan (d\<lparr>rd_read := r'\<rparr>) bufs1 m = Value (d', bufs', Ready (Inr n))"
    using res nf False by (auto simp: poll_read_vectored_def split: prod.splits poll.splits sum.splits)
  have k: "map length bufs1 = map length bufs" using bufs_kept [OF inner] .
  have c: "m \<le> total_len bufs" "m \<le> length (incoming (rd_read d))"
    "take m (concat bufs1) = take m (incoming (rd_read d))" "incoming r' = drop m (incoming (rd_read d))"
    using read_ok [OF inner] by auto
  have pre: "m \<le> total_len bufs1" "\<not> is_finished (d\<lparr>rd_read := r'\<rparr>)" "rd_wf (d\<lparr>rd_read := r'\<rparr>)"
    using nf wf c(1) k by (auto simp: is_finished_def rd_wf_def)
  have p: "bufs' = bufs1 \<and> rd_read d' = r' \<and> rd_wf d' \<and> length (rd_buf d') = length (rd_buf d) \<and>
      rd_scan (rd_state d) (take m (concat bufs1)) = (rd_state d', n) \<and>
      rd_unhandled d' = drop n (take m (concat bufs1)) @ rd_unhandled d"
    using poll_scan_ok [OF pre _ ps] e by auto
  have rem: "rd_remaining incoming d = take m (concat bufs1) @ incoming r'"
    "rd_remaining incoming d' = drop n (take m (concat bufs1)) @ incoming r'"
    using c e p by (simp_all add: rd_remaining_def)
  from p have "rd_scan (rd_state d) (take m (concat bufs1)) = (rd_state d', n)" by simp
  from scan_delivered [OF this rem(1)] p rem(2) k show ?thesis by simp
qed

lemma poll_stuck:
  assumes wf: "rd_wf d" and res: "poll_read_vectored poll_inner d bufs = Value (d', bufs', res)"
    and "\<And>n. res \<noteq> Ready (Inr n)"
  shows "rd_wf d' \<and> rd_state d' = rd_state d \<and> length (rd_buf d') = length (rd_buf d) \<and>
    rd_remaining incoming d' = rd_remaining incoming d"
proof -
  have scan: "d1 = d2 \<and> raw = 0" if "poll_scan d1 bs raw = Value (d2, bs', res)"
    for d1 d2 :: "'r EscapedDataReader" and bs bs' raw
    using that assms(3)
    by (auto simp: poll_scan_def split: if_splits prod.splits option.splits)
  show ?thesis
  proof (cases "is_finished d")
    case True
    with res assms(3) [of 0] show ?thesis by (auto simp: poll_read_vectored_def)
  next
    case nf: False
    show ?thesis
    proof (cases "rd_end d - rd_start d > 0")
      case True
      let ?m = "min (total_len bufs) (rd_end d - rd_start d)"
      from fill_bufs_ok [of "rd_start d" "rd_end d" "rd_buf d" bufs] wf obtain bufs1 where
        f: "fill_bufs (rd_buf d) (rd_start d) (rd_end d) bufs = Value (bufs1, rd_start d + ?m)"
        by (auto simp: rd_wf_def)
      with res nf True have "poll_scan (d\<lparr>rd_start := rd_start d + ?m\<rparr>) bufs1
          (rd_end d - rd_start d - (rd_end d - (rd_start d + ?m))) = Value (d', bufs', res)"
        by (simp add: poll_read_vectored_def)
      moreover have "rd_end d - rd_start d - (rd_end d - (rd_start d + ?m)) = ?m" by auto
      ultimately have "d' = d\<lparr>rd_start := rd_start d + ?m\<rparr>" "?m = 0" using scan by fastforce+
      with wf show ?thesis by simp
    next
      case False
      obtain r' bufs1 ires where inner: "poll_inner (rd_read d) bufs = (r', bufs1, ires)"
        by (cases "poll_inner (rd_read d) bufs")
      have "d' = d\<lparr>rd_read := r'\<rparr> \<and> incoming r' = incoming (rd_read d)"
      proof (cases "\<exists>n. ires = Ready (Inr n)")
        case True
        then obtain n where n: "ires = Ready (Inr n)" ..
        with res nf False inner have "poll_scan (d\<lparr>rd_read := r'\<rparr>) bufs1 n = Value (d', bufs', res)"
          by (simp add: poll_read_vectored_def)
        from scan [OF this] have dn: "d' = d\<lparr>rd_read := r'\<rparr>" "n = 0" by auto
        have "poll_inner (rd_read d) bufs = (r', bufs1, Ready (Inr n))" using inner n by simp
        from read_ok [OF this] dn show ?thesis by simp
      next
        case F: False
        then have "d' = d\<lparr>rd_read := r'\<rparr>" "ires = res"
          using res nf False inner
          by (auto simp: poll_read_vectored_def split: poll.splits sum.splits)
        moreover have "incoming r' = incoming (rd_read d)"
          using inner F read_blocked read_failed by (cases ires) (auto split: sum.splits, metis sum.exhaust)
        ultimately show ?thesis by simp
      qed
      with wf show ?thesis by (simp add: rd_wf_def rd_remaining_def)
    qed
  qed
qed

lemma poll_no_panic:
  assumes wf: "rd_wf d" and fits: "total_len bufs \<le> length (rd_buf d)"
  shows "poll_read_vectored poll_inner d bufs \<noteq> Panic"
proof (cases "is_finished d \<or> rd_end d - rd_start d > 0")
  case True
  let ?m = "min (total_len bufs) (rd_end d - rd_start d)"
  from fill_bufs_ok [of "rd_start d" "rd_end d" "rd_buf d" bufs] wf obtain bufs1 where
    f: "fill_bufs (rd_buf d) (rd_start d) (rd_end d) bufs = Value (bufs1, rd_start d + ?m)"
    "map length bufs1 = map length bufs" by (auto simp: rd_wf_def)
  have m: "rd_end d - rd_start d - (rd_end d - (rd_start d + ?m)) = ?m" by auto
  have "?m \<le> length (rd_buf d)" using fits by (rule min.coboundedI1)
  then have "is_finished d \<or> poll_scan (d\<lparr>rd_start := rd_start d + ?m\<rparr>) bufs1 ?m \<noteq> Panic"
    using poll_scan_no_panic [of ?m bufs1 "d\<lparr>rd_start := rd_start d + ?m\<rparr>"] f(2) fits
    by (auto simp: is_finished_def)
  with True f m show ?thesis by (auto simp: poll_read_vectored_def)
next
  case False
  obtain r' bufs1 ires where inner: "poll_inner (rd_read d) bufs = (r', bufs1, ires)"
    by (cases "poll_inner (rd_read d) bufs")
  have "poll_scan (d\<lparr>rd_read := r'\<rparr>) bufs1 n \<noteq> Panic" if "ires = Ready (Inr n)" for n
    using poll_scan_no_panic [of n bufs1 "d\<lparr>rd_read := r'\<rparr>"] read_ok [of "rd_read d" bufs r' bufs1 n]
      bufs_kept [OF inner] inner that fits False by (auto simp: is_finished_def)
  with False inner show ?thesis
    by (auto simp: poll_read_vectored_def split: poll.splits sum.splits)
qed

lemma poll_progress:
  assumes "\<not> is_finished d" "0 < total_len bufs" "rd_wf d"
    and res: "poll_read_vectored poll_inner d bufs = Value (d', bufs', Ready (Inr n))"
  shows "0 < n"
proof (rule ccontr)
  assume "\<not> 0 < n"
  with res have r0: "poll_read_vectored poll_inner d bufs = Value (d', bufs', Ready (Inr 0))" by simp
  have scan: "raw = 0 \<and> total_len bs = 0"
    if "poll_scan d1 bs raw = Value (d2, bs', Ready (Inr 0))" "raw \<le> total_len bs"
      "\<not> is_finished d1" for d1 d2 :: "'r EscapedDataReader" and bs bs' raw
  proof -
    have "rd_state d1 \<noteq> Rd_End" using that(3) by (simp add: is_finished_def)
    from this that(2) show ?thesis
    proof (cases rule: scan_bufs_cases)
      case (go s')
      with that(1) show ?thesis by (auto simp: poll_scan_def split: if_splits)
    next
      case (stop m i b bs)
      with that \<open>rd_state d1 \<noteq> Rd_End\<close> rd_scan_end_pos [OF stop(2)] show ?thesis
        by (auto simp: poll_scan_def split: if_splits)
    qed
  qed
  show False
  proof (cases "rd_end d - rd_start d > 0")
    case True
    let ?m = "min (total_len bufs) (rd_end d - rd_start d)"
    from fill_bufs_ok [of "rd_start d" "rd_end d" "rd_buf d" bufs] assms(3) obtain bufs1 where
      f: "fill_bufs (rd_buf d) (rd_start d) (rd_end d) bufs = Value (bufs1, rd_start d + ?m)"
      "map length bufs1 = map length bufs" by (auto simp: rd_wf_def)
    have m: "rd_end d - rd_start d - (rd_end d - (rd_start d + ?m)) = ?m" by auto
    with r0 f True assms(1)
    have "poll_scan (d\<lparr>rd_start := rd_start d + ?m\<rparr>) bufs1 ?m = Value (d', bufs', Ready (Inr 0))"
      by (simp add: poll_read_vectored_def)
    from scan [OF this] f(2) assms(1) have "?m = 0" by (simp add: is_finished_def)
    with True assms(2) show False by linarith
  next
    case False
    with r0 assms(1) obtain r' bufs1 m where
      inner: "poll_inner (rd_read d) bufs = (r', bufs1, Ready (Inr m))"
      and ps: "poll_scan (d\<lparr>rd_read := r'\<rparr>) bufs1 m = Value (d', bufs', Ready (Inr 0))"
      by (auto simp: poll_read_vectored_def split: prod.splits poll.splits sum.splits)
    have len: "total_len bufs1 = total_len bufs" using bufs_kept [OF inner] by simp
    with read_ok [OF inner] have "m \<le> total_len bufs1" by simp
    from scan [OF ps this] assms(1) have "total_len bufs1 = 0" by (simp add: is_finished_def)
    with len assms(2) show False by linarith
  qed
qed

end

section \<open>Reading a whole message\<close>

text \<open>
  Any sequence of polls, with whatever buffers: \<open>reader_run poll_inner d out d'\<close> says that
  polling takes \<open>d\<close> to \<open>d'\<close> and hands out the bytes \<open>out\<close>.
\<close>

inductive reader_run ::
  "'r poll_read \<Rightarrow> 'r EscapedDataReader \<Rightarrow> bytes \<Rightarrow> 'r EscapedDataReader \<Rightarrow> bool"
  for poll_inner where
  start: "reader_run poll_inner d [] d"
| delivered: "\<lbrakk>reader_run poll_inner d out d1;
    poll_read_vectored poll_inner d1 bufs = Value (d2, bufs', Ready (Inr n))\<rbrakk> \<Longrightarrow>
    reader_run poll_inner d (out @ take n (concat bufs')) d2"
| blocked: "\<lbrakk>reader_run poll_inner d out d1;
    poll_read_vectored poll_inner d1 bufs = Value (d2, bufs', Pending)\<rbrakk> \<Longrightarrow>
    reader_run poll_inner d out d2"
| failed: "\<lbrakk>reader_run poll_inner d out d1;
    poll_read_vectored poll_inner d1 bufs = Value (d2, bufs', Ready (Inl e))\<rbrakk> \<Longrightarrow>
    reader_run poll_inner d out d2"

lemma reader_run_trans:
  "reader_run p d1 out2 d2 \<Longrightarrow> reader_run p d out d1 \<Longrightarrow> reader_run p d (out @ out2) d2"
proof (induction rule: reader_run.induct)
  case (delivered d1 out2 d2 bufs d3 bufs' n)
  then show ?case using reader_run.delivered [of p d "out @ out2"] by simp
qed (auto intro: reader_run.intros)

context async_read
begin

lemma reader_run_inv:
  assumes "reader_run poll_inner d out d'" "rd_wf d" "\<not> is_finished d"
  shows "rd_wf d' \<and> out @ rd_remaining incoming d' = rd_remaining incoming d \<and>
    rd_scan (rd_state d) out = (rd_state d', length out)"
  using assms
proof (induction rule: reader_run.induct)
  case (start d)
  then show ?case by simp
next
  case (delivered d out d1 bufs d2 bufs' n)
  then have IH: "rd_wf d1" "out @ rd_remaining incoming d1 = rd_remaining incoming d"
    "rd_scan (rd_state d) out = (rd_state d1, length out)" by auto
  show ?case
  proof (cases "is_finished d1")
    case True
    with delivered.hyps(2) have "d2 = d1" "n = 0" by (auto simp: poll_read_vectored_def)
    with IH show ?thesis by simp
  next
    case False
    have ne: "rd_state d1 \<noteq> Rd_End" using False by (simp add: is_finished_def)
    note p = poll_ok [OF IH(1) False delivered.hyps(2)]
    have "length (take n (rd_remaining incoming d1)) = n" using p by simp
    with p rd_scan_append [OF IH(3) ne, of "take n (rd_remaining incoming d1)"] IH
    show ?thesis by (auto simp: min_def)
  qed
next
  case (blocked d out d1 bufs d2 bufs')
  with poll_stuck [OF _ blocked.hyps(2)] show ?case by auto
next
  case (failed d out d1 bufs d2 bufs' e)
  with poll_stuck [OF _ failed.hyps(2)] show ?case by auto
qed

end

lemma poll_keeps_not_Completed:
  "rd_scan Rd_CrLf out = (rd_state d, n) \<Longrightarrow> is_finished d \<longleftrightarrow> rd_state d = Rd_End"
  using rd_scan_Completed [of Rd_CrLf out "rd_state d" n] by (auto simp: is_finished_def)

lemma reader_run_message:
  assumes "async_read poll_inner incoming" "s \<le> e" "e \<le> length buf"
    and "reader_run poll_inner (reader_new buf s e r) out d"
  shows "out @ rd_remaining incoming d = subslice buf s e @ incoming r \<and>
    (is_finished d \<longleftrightarrow> end_of_data (subslice buf s e @ incoming r) (length out)) \<and>
    (\<not> is_finished d \<longrightarrow>
      (\<forall>k \<le> length out. \<not> end_of_data (subslice buf s e @ incoming r) k))"
proof -
  let ?d0 = "reader_new buf s e r"
  have d0: "rd_wf ?d0" "\<not> is_finished ?d0" "rd_state ?d0 = Rd_CrLf"
    "rd_remaining incoming ?d0 = subslice buf s e @ incoming r"
    using assms(2,3) by (auto simp: rd_wf_def is_finished_def reader_new_def rd_remaining_def)
  note inv = async_read.reader_run_inv [OF assms(1,4) d0(1,2)]
  let ?S = "subslice buf s e @ incoming r"
  have S: "?S = out @ rd_remaining incoming d" and sc: "rd_scan Rd_CrLf out = (rd_state d, length out)"
    using inv d0 by auto
  have fin: "is_finished d \<longleftrightarrow> rd_state d = Rd_End" using poll_keeps_not_Completed [OF sc] .
  have "is_finished d \<longleftrightarrow> end_of_data ?S (length out)"
    using rd_scan_end_of_data [OF sc] fin unfolding S by (simp add: end_of_data_append)
  moreover have "\<not> end_of_data ?S k" if "\<not> is_finished d" "k \<le> length out" for k
    using end_of_data_scan [of out k] sc fin that unfolding S by (auto simp: end_of_data_append)
  ultimately show ?thesis using S by auto
qed

text \<open>
  Claim C4. However the DATA stream arrives and however it is polled, \<^verbatim>\<open>EscapedDataReader\<close>
  loses, duplicates and reorders nothing: the bytes handed out followed by what it still has are
  the stream. It reports the message as finished exactly when the bytes handed out end with the
  first line that consists of a single dot; until then no such line is among them.
\<close>

theorem reader_hands_out_message:
  assumes "async_read poll_inner incoming" "s \<le> e" "e \<le> length buf"
    and "reader_run poll_inner (reader_new buf s e r) out d"
  shows "out @ rd_remaining incoming d = subslice buf s e @ incoming r \<and>
    (is_finished d \<longleftrightarrow> end_of_data (subslice buf s e @ incoming r) (length out)) \<and>
    (\<not> is_finished d \<longrightarrow>
      (\<forall>k \<le> length out. \<not> end_of_data (subslice buf s e @ incoming r) k))"
  by (rule reader_run_message [OF assms])

theorem reader_hands_out_message_witness:
  "\<exists>d out. reader_run script_read (reader_new (''..x'' @ CRLF) 0 5 [[DOT], [], CRLF @ ''QUIT'']) out d \<and>
     out = ''..x'' @ CRLF @ [DOT] @ CRLF \<and> is_finished d \<and> rd_remaining concat d = ''QUIT''"
proof -
  let ?d0 = "reader_new (''..x'' @ CRLF) 0 5 [[DOT], [], CRLF @ ''QUIT'']"
  define d1 where "d1 = ?d0\<lparr>rd_start := 5, rd_state := Rd_CrLf\<rparr>"
  define d2 where "d2 = d1\<lparr>rd_state := Rd_CrLfDot, rd_read := [[], CRLF @ ''QUIT'']\<rparr>"
  define d3 where "d3 = d2\<lparr>rd_read := [CRLF @ ''QUIT'']\<rparr>"
  define d4 where "d4 = d3\<lparr>rd_state := Rd_End, rd_buf := ''QUIT'' @ [LF], rd_start := 0, rd_end := 4, rd_read := []\<rparr>"
  let ?b = "replicate 8 CR"
  note defs = d4_def d3_def d2_def d1_def reader_new_def poll_read_vectored_def poll_scan_def
    is_finished_def subslice_def rd_step_def numeral_eq_Suc Let_def
  have p1: "poll_read_vectored script_read ?d0 [?b] =
      Value (d1, [''..x'' @ CRLF @ replicate 3 CR], Ready (Inr 5))" by (simp add: defs)
  have p2: "poll_read_vectored script_read d1 [?b] =
      Value (d2, [[DOT] @ replicate 7 CR], Ready (Inr 1))" by (simp add: defs)
  have p3: "poll_read_vectored script_read d2 [?b] = Value (d3, [?b], Pending)" by (simp add: defs)
  have p4: "poll_read_vectored script_read d3 [?b] =
      Value (d4, [CRLF @ ''QUIT'' @ replicate 2 CR], Ready (Inr 2))" by (simp add: defs)
  have r: "reader_run script_read ?d0 (''..x'' @ CRLF @ [DOT] @ CRLF) d4"
    using reader_run.delivered [OF reader_run.blocked [OF reader_run.delivered [OF
        reader_run.delivered [OF reader_run.start p1] p2] p3] p4]
    by (simp add: numeral_eq_Suc)
  from reader_hands_out_message [OF script.async_read_axioms _ _ r]
  have "(''..x'' @ CRLF @ [DOT] @ CRLF) @ rd_remaining concat d4 =
      subslice (''..x'' @ CRLF) 0 5 @ concat [[DOT], [], CRLF @ ''QUIT'']" by simp
  then have "rd_remaining concat d4 = ''QUIT''" by (simp add: subslice_def)
  moreover have "is_finished d4" by (simp add: d4_def is_finished_def)
  ultimately show ?thesis using r by blast
qed

text \<open>
  Claim C5. Polling never panics as long as the caller's buffers together are not larger than the
  reader's own buffer, and every successful poll with a non-empty buffer makes progress until the
  message is finished; afterwards the reader only returns 0.
\<close>

theorem reader_poll_safe_and_live:
  assumes "async_read poll_inner incoming" "rd_wf d"
    and "0 < total_len bufs" "total_len bufs \<le> length (rd_buf d)"
  shows "\<exists>d' bufs' res. poll_read_vectored poll_inner d bufs = Value (d', bufs', res) \<and> rd_wf d' \<and>
    (\<forall>n. res = Ready (Inr n) \<longrightarrow> (is_finished d \<longleftrightarrow> n = 0))"
proof -
  obtain d' bufs' res where p: "poll_read_vectored poll_inner d bufs = Value (d', bufs', res)"
    using async_read.poll_no_panic [OF assms(1,2,4)]
    by (cases "poll_read_vectored poll_inner d bufs") auto
  have wf: "rd_wf d'"
  proof (cases "\<exists>n. res = Ready (Inr n) \<and> \<not> is_finished d")
    case True
    with p async_read.poll_ok [OF assms(1,2)] show ?thesis by blast
  next
    case False
    with p async_read.poll_stuck [OF assms(1,2) p] assms(2) show ?thesis
      by (cases "is_finished d") (auto simp: poll_read_vectored_def)
  qed
  have "is_finished d \<longleftrightarrow> n = 0" if "res = Ready (Inr n)" for n
  proof (cases "is_finished d")
    case True
    with p that show ?thesis by (simp add: poll_read_vectored_def)
  next
    case False
    with async_read.poll_progress [OF assms(1) False assms(3,2)] p that show ?thesis by auto
  qed
  with p wf show ?thesis by blast
qed

theorem reader_poll_safe_and_live_witness:
  "\<exists>d' bufs' res. poll_read_vectored script_read (reader_new ''abcd'' 1 3 [[DOT]]) [''zzz''] =
     Value (d', bufs', res) \<and> rd_wf d' \<and> (\<forall>n. res = Ready (Inr n) \<longrightarrow> n \<noteq> 0)"
proof -
  let ?d = "reader_new ''abcd'' 1 3 [[DOT]]"
  have "rd_wf ?d" "0 < total_len [''zzz'']" "total_len [''zzz''] \<le> length (rd_buf ?d)" "\<not> is_finished ?d"
    by (simp_all add: reader_new_def rd_wf_def is_finished_def)
  with reader_poll_safe_and_live [OF script.async_read_axioms, of ?d "[''zzz'']"] show ?thesis by blast
qed

end
