(* ===== verification/DataUnescaper.thy ===== *)
theory DataUnescaper
  imports Prelude
begin

text \<open>
  \<^verbatim>\<open>DataUnescaper\<close> of \<^verbatim>\<open>smtp-message/src/data.rs\<close>: removes the escaping dots from a
  DATA stream in place, buffer by buffer, and holds back the few bytes at the end of a buffer
  that it cannot judge yet. The specification is \<open>unstuff\<close>, which works on the whole message.
\<close>

section \<open>Operations\<close>

record DataUnescaper =
  is_preceded_by_crlf :: bool

record DataUnescapeRes =
  written :: nat
  unhandled_idx :: nat

definition unescaper_new :: "bool \<Rightarrow> DataUnescaper" where
  "unescaper_new b = \<lparr>is_preceded_by_crlf = b\<rparr>"

text \<open>
  \<^verbatim>\<open>if unhandled_idx != written { data.copy_within(from..to, written) }\<close>, with the range
  checks of the standard library.
\<close>

definition moved :: "bytes \<Rightarrow> nat \<Rightarrow> nat \<Rightarrow> nat \<Rightarrow> bytes" where
  "moved data from to dest = (if from \<noteq> dest then copy_within data from to dest else data)"

definition move_down :: "bytes \<Rightarrow> nat \<Rightarrow> nat \<Rightarrow> nat \<Rightarrow> bytes run" where
  "move_down data from to dest =
     (if from \<noteq> dest \<and> (to < from \<or> length data < to \<or> length data < dest + (to - from)) then Panic
      else Value (moved data from to dest))"

text \<open>The code behind the loop: no \<^verbatim>\<open>"\r\n."\<close> is left; all but the last \<open>k\<close> bytes go out.\<close>

definition unescape_rest :: "bytes \<Rightarrow> nat \<Rightarrow> nat \<Rightarrow> nat \<Rightarrow> (bytes \<times> DataUnescapeRes) run" where
  "unescape_rest data w u k =
     bind_run (move_down data u (length data - k) w) (\<lambda>data'.
       if w + length data - k < u then Panic
       else Value (data', \<lparr>written = w + length data - k - u, unhandled_idx = length data - k\<rparr>))"

definition unescape_tail :: "bytes \<Rightarrow> nat \<Rightarrow> nat \<Rightarrow> (bytes \<times> DataUnescapeRes) run" where
  "unescape_tail data w u =
     (if ends_with data CRLF then unescape_rest data w u 2
      else if ends_with data [CR] then unescape_rest data w u 1
      else unescape_rest data w u 0)"

text \<open>The loop \<^verbatim>\<open>while let Some(i) = data[unhandled_idx..].windows(3).position(..)\<close>.\<close>

function unescape_loop :: "bytes \<Rightarrow> nat \<Rightarrow> nat \<Rightarrow> (bytes \<times> DataUnescapeRes) run" where
  "unescape_loop data w u =
     (if length data < u then Panic
      else case find_window [CR, LF, DOT] (drop u data) of
        None \<Rightarrow> unescape_tail data w u
      | Some i \<Rightarrow>
          (if length data \<le> u + i + 4 then
             (case move_down data u (u + i) w of
                Panic \<Rightarrow> Panic
              | Value data' \<Rightarrow> Value (data', \<lparr>written = w + i, unhandled_idx = u + i\<rparr>))
           else if subslice data (u + i + 3) (u + i + 5) \<noteq> CRLF then
             (case move_down data u (u + i + 2) w of
                Panic \<Rightarrow> Panic
              | Value data' \<Rightarrow> unescape_loop data' (w + (i + 2)) (u + (i + 3)))
           else
             (case move_down data u (u + i + 2) w of
                Panic \<Rightarrow> Panic
              | Value data' \<Rightarrow> Value (data', \<lparr>written = w + i + 2, unhandled_idx = u + i + 5\<rparr>))))"
  by pat_completeness auto
termination
proof (relation "measure (\<lambda>(data, w, u). length data - u)", goal_cases)
  case 1
  then show ?case by simp
next
  case (2 data w u i data')
  have "i + 3 \<le> length (drop u data)" using find_window_Some_bound [OF 2(2)] by simp
  moreover have "length data' \<le> length data"
    using 2(5) length_copy_within_le by (auto simp: move_down_def moved_def split: if_splits)
  ultimately show ?case by simp
qed

definition unescape :: "DataUnescaper \<Rightarrow> bytes \<Rightarrow> DataUnescaper \<times> (bytes \<times> DataUnescapeRes) run" where
  "unescape self data =
     (if is_preceded_by_crlf self then
        if length data \<le> 3 then (self, Value (data, \<lparr>written = 0, unhandled_idx = 0\<rparr>))
        else if take 3 data = [DOT, CR, LF] then (self, Value (data, \<lparr>written = 0, unhandled_idx = 3\<rparr>))
        else (self\<lparr>is_preceded_by_crlf := False\<rparr>,
              unescape_loop data 0 (if data ! 0 = DOT then 1 else 0))
      else (self, unescape_loop data 0 0))"

declare unescape_loop.simps [simp del]

section \<open>Specification\<close>

text \<open>
  \<open>unstuff0\<close> unescapes from the middle of a line: behind a line break a dot is dropped, and a
  line that is a single dot ends the message. \<open>ends0\<close> says whether that line occurs.
\<close>

fun unstuff0 :: "bytes \<Rightarrow> bytes" where
  "unstuff0 [] = []"
| "unstuff0 (c # cs) =
     (if take 5 (c # cs) = EOD then CRLF
      else if take 3 (c # cs) = [CR, LF, DOT] then CR # LF # unstuff0 (drop 2 cs)
      else c # unstuff0 cs)"

fun ends0 :: "bytes \<Rightarrow> bool" where
  "ends0 [] = False"
| "ends0 (c # cs) =
     (if take 5 (c # cs) = EOD then True
      else if take 3 (c # cs) = [CR, LF, DOT] then ends0 (drop 2 cs)
      else ends0 cs)"

text \<open>From the beginning of a line.\<close>

definition unstuff :: "bytes \<Rightarrow> bytes" where
  "unstuff s = (if take 3 s = [DOT, CR, LF] then []
                else if take 1 s = [DOT] then unstuff0 (drop 1 s) else unstuff0 s)"

declare unstuff0.simps(2) [simp del] ends0.simps(2) [simp del]

lemma take_5_EOD: "take 5 s = EOD \<Longrightarrow> take 3 s = [CR, LF, DOT]"
  by (drule arg_cong [of _ _ "take 3"]) simp

lemma unstuff0_plain:
  assumes "take 3 (c # cs) \<noteq> [CR, LF, DOT]"
  shows "unstuff0 (c # cs) = c # unstuff0 cs \<and> ends0 (c # cs) = ends0 cs"
proof -
  have "take 5 (c # cs) \<noteq> EOD" using assms take_5_EOD by blast
  with assms show ?thesis by (simp only: unstuff0.simps(2) ends0.simps(2) if_False refl simp_thms)
qed

lemma unstuff0_escape:
  assumes "take 3 s = [CR, LF, DOT]" "take 2 (drop 3 s) \<noteq> CRLF"
  shows "unstuff0 s = CRLF @ unstuff0 (drop 3 s) \<and> ends0 s = ends0 (drop 3 s)"
  using assms
  by (cases s; cases "tl s"; cases "tl (tl s)")
     (auto simp: unstuff0.simps(2) ends0.simps(2) numeral_eq_Suc)

lemma unstuff0_end:
  assumes "take 5 s = EOD"
  shows "unstuff0 s = CRLF \<and> ends0 s"
  using assms by (cases s) (auto simp: unstuff0.simps(2) ends0.simps(2))

text \<open>Bytes in front of the next \<^verbatim>\<open>"\r\n."\<close> pass through.\<close>

lemma unstuff0_skip:
  assumes "\<And>j. j < k \<Longrightarrow> take 3 (drop j s) \<noteq> [CR, LF, DOT]" "k \<le> length s"
  shows "unstuff0 s = take k s @ unstuff0 (drop k s) \<and> ends0 s = ends0 (drop k s)"
  using assms
proof (induction k arbitrary: s)
  case 0
  then show ?case by simp
next
  case (Suc k)
  then obtain c cs where s: "s = c # cs" by (cases s) auto
  have "take 3 (c # cs) \<noteq> [CR, LF, DOT]" using Suc.prems(1) [of 0] s by simp
  moreover have "unstuff0 cs = take k cs @ unstuff0 (drop k cs) \<and> ends0 cs = ends0 (drop k cs)"
  proof (rule Suc.IH)
    fix j assume "j < k"
    then show "take 3 (drop j cs) \<noteq> [CR, LF, DOT]" using Suc.prems(1) [of "Suc j"] s by simp
  qed (use Suc.prems(2) s in simp)
  ultimately show ?case using unstuff0_plain s by simp
qed

lemma ends0_short: "length s \<le> 4 \<Longrightarrow> \<not> ends0 s"
proof (induction s rule: ends0.induct)
  case 1
  then show ?case by simp
next
  case (2 c cs)
  have "take 5 (c # cs) \<noteq> EOD"
  proof
    assume "take 5 (c # cs) = EOD"
    then have "length (take 5 (c # cs)) = 5" by simp
    with 2(3) show False by simp
  qed
  with 2 show ?case by (auto simp: ends0.simps(2))
qed

lemma ends0_occurs: "ends0 s \<longleftrightarrow> (\<exists>p q. s = p @ EOD @ q)"
proof (induction s rule: ends0.induct)
  case 1
  then show ?case by simp
next
  case (2 c cs)
  consider (stop) "take 5 (c # cs) = EOD" | (esc) "take 5 (c # cs) \<noteq> EOD" "take 3 (c # cs) = [CR, LF, DOT]"
    | (plain) "take 5 (c # cs) \<noteq> EOD" "take 3 (c # cs) \<noteq> [CR, LF, DOT]" by blast
  then show ?case
  proof cases
    case stop
    then have "c # cs = [] @ EOD @ drop 5 (c # cs)" by (metis append_Nil append_take_drop_id)
    moreover have "ends0 (c # cs)" using stop by (simp only: ends0.simps(2) if_True refl)
    ultimately show ?thesis by blast
  next
    case esc
    have s: "c # cs = CR # LF # DOT # drop 2 cs"
      using esc(2) by (metis append_Cons append_Nil append_take_drop_id drop_Suc_Cons numeral_3_eq_3 numeral_2_eq_2)
    have "(\<exists>p q. c # cs = p @ EOD @ q) \<longleftrightarrow> (\<exists>p q. drop 2 cs = p @ EOD @ q)"
    proof
      assume "\<exists>p q. c # cs = p @ EOD @ q"
      then obtain p q where pq: "c # cs = p @ EOD @ q" by blast
      with s have "CR # LF # DOT # drop 2 cs = p @ EOD @ q" by simp
      moreover have "p \<noteq> []" using esc(1) pq by auto
      ultimately show "\<exists>p q. drop 2 cs = p @ EOD @ q"
        by (cases p; cases "tl p"; cases "tl (tl p)") auto
    next
      assume "\<exists>p q. drop 2 cs = p @ EOD @ q"
      then obtain p q where "drop 2 cs = p @ EOD @ q" by blast
      then have "c # cs = (CR # LF # DOT # p) @ EOD @ q" using s by simp
      then show "\<exists>p q. c # cs = p @ EOD @ q" by blast
    qed
    with esc 2(1) [OF esc] show ?thesis by (simp add: ends0.simps(2))
  next
    case plain
    have "(\<exists>p q. c # cs = p @ EOD @ q) \<longleftrightarrow> (\<exists>p q. cs = p @ EOD @ q)"
    proof
      assume "\<exists>p q. c # cs = p @ EOD @ q"
      then obtain p q where pq: "c # cs = p @ EOD @ q" by blast
      with plain(1) have "p \<noteq> []" by auto
      with pq show "\<exists>p q. cs = p @ EOD @ q" by (cases p) auto
    next
      assume "\<exists>p q. cs = p @ EOD @ q"
      then show "\<exists>p q. c # cs = p @ EOD @ q" by (metis append_Cons)
    qed
    moreover have "ends0 (c # cs) = ends0 cs" using unstuff0_plain [OF plain(2)] by blast
    ultimately show ?thesis using 2(2) [OF plain] by (simp only:)
  qed
qed

section \<open>The loop\<close>

text \<open>
  What a call has done with the input from position \<open>u\<close> on: the bytes \<open>out\<close> written, the
  leftover \<open>l\<close>; either the message goes on in the leftover, or it has ended right before it.
\<close>

definition unescaped :: "bytes \<Rightarrow> bytes \<Rightarrow> bytes \<Rightarrow> bool" where
  "unescaped x out l \<longleftrightarrow> (\<exists>p. x = p @ l \<and>
     ((length l \<le> 4 \<and> (\<forall>r. unstuff0 (x @ r) = out @ unstuff0 (l @ r) \<and> ends0 (x @ r) = ends0 (l @ r))) \<or>
      (suffix EOD p \<and> (\<forall>r. unstuff0 (x @ r) = out))))"

lemma unescaped_prepend:
  assumes "unescaped x out l" "y = p @ x"
    "\<And>r. unstuff0 (y @ r) = o1 @ unstuff0 (x @ r) \<and> ends0 (y @ r) = ends0 (x @ r)"
  shows "unescaped y (o1 @ out) l"
proof -
  from assms(1) obtain p1 where p1: "x = p1 @ l" and
    d: "(length l \<le> 4 \<and> (\<forall>r. unstuff0 (x @ r) = out @ unstuff0 (l @ r) \<and> ends0 (x @ r) = ends0 (l @ r))) \<or>
      (suffix EOD p1 \<and> (\<forall>r. unstuff0 (x @ r) = out))" unfolding unescaped_def by blast
  have "y = (p @ p1) @ l" using assms(2) p1 by simp
  moreover have "suffix EOD p1 \<Longrightarrow> suffix EOD (p @ p1)" by (rule suffix_appendI)
  ultimately show ?thesis using d assms(3) unfolding unescaped_def
    by (intro exI [of _ "p @ p1"]) auto
qed

text \<open>Where no \<^verbatim>\<open>"\r\n."\<close> is left, only a trailing part of one has to be kept.\<close>

lemma no_window_take:
  assumes "find_window [CR, LF, DOT] x = None" "j + 3 \<le> length x"
  shows "take 3 (drop j (x @ r)) \<noteq> [CR, LF, DOT]"
  using find_window_None [OF assms(1), of j] assms(2) by (auto simp: numeral_3_eq_3)

lemma unescaped_tail:
  assumes nw: "find_window [CR, LF, DOT] x = None" and l: "l \<le> length x" "length x \<le> l + 4"
    and ov: "\<And>r j. j < l \<Longrightarrow> length x < j + 3 \<Longrightarrow> take 3 (drop j (x @ r)) \<noteq> [CR, LF, DOT]"
  shows "unescaped x (take l x) (drop l x)"
proof -
  have "unstuff0 (x @ r) = take l (x @ r) @ unstuff0 (drop l (x @ r)) \<and> ends0 (x @ r) = ends0 (drop l (x @ r))" for r
  proof (rule unstuff0_skip)
    fix j assume "j < l"
    then show "take 3 (drop j (x @ r)) \<noteq> [CR, LF, DOT]"
      using no_window_take [OF nw, of j r] ov [of j r] by (cases "j + 3 \<le> length x") auto
  qed (use l in simp)
  then have "\<forall>r. unstuff0 (x @ r) = take l x @ unstuff0 (drop l x @ r) \<and> ends0 (x @ r) = ends0 (drop l x @ r)"
    using l by simp
  then show ?thesis
    unfolding unescaped_def using l by (intro exI [of _ "take l x"]) auto
qed

lemma unescaped_stop_short:
  assumes i: "find_window [CR, LF, DOT] x = Some i" and len: "length x \<le> i + 4"
  shows "unescaped x (take i x) (drop i x)"
proof -
  have b: "i + 3 \<le> length x" using find_window_Some_bound [OF i] by simp
  have "unstuff0 (x @ r) = take i (x @ r) @ unstuff0 (drop i (x @ r)) \<and> ends0 (x @ r) = ends0 (drop i (x @ r))" for r
  proof (rule unstuff0_skip)
    fix j assume "j < i"
    then show "take 3 (drop j (x @ r)) \<noteq> [CR, LF, DOT]"
      using find_window_Some_first [OF i] b by (auto simp: numeral_3_eq_3)
  qed (use b in simp)
  then show ?thesis using b len unfolding unescaped_def
    by (intro exI [of _ "take i x"]) auto
qed

text \<open>A \<^verbatim>\<open>"\r\n."\<close> at offset \<open>i\<close>, followed by at least two bytes.\<close>

lemma unstuff0_at_window:
  assumes i: "find_window [CR, LF, DOT] x = Some i" and len: "i + 5 \<le> length x"
  shows "subslice x (i + 3) (i + 5) \<noteq> CRLF \<Longrightarrow>
      unstuff0 (x @ r) = take (i + 2) x @ unstuff0 (drop (i + 3) x @ r) \<and>
      ends0 (x @ r) = ends0 (drop (i + 3) x @ r)"
    and "subslice x (i + 3) (i + 5) = CRLF \<Longrightarrow> unstuff0 (x @ r) = take (i + 2) x \<and>
      suffix EOD (take (i + 5) x)"
proof -
  let ?y = "drop i x @ r"
  have w: "take 3 (drop i x) = [CR, LF, DOT]" using find_window_Some_at [OF i] by (simp add: numeral_3_eq_3)
  have skip: "unstuff0 (x @ r) = take i x @ unstuff0 ?y \<and> ends0 (x @ r) = ends0 ?y"
  proof -
    have "unstuff0 (x @ r) = take i (x @ r) @ unstuff0 (drop i (x @ r)) \<and> ends0 (x @ r) = ends0 (drop i (x @ r))"
    proof (rule unstuff0_skip)
      fix j assume "j < i"
      then show "take 3 (drop j (x @ r)) \<noteq> [CR, LF, DOT]"
        using find_window_Some_first [OF i] len by (auto simp: numeral_3_eq_3)
    qed (use len in simp)
    then show ?thesis using len by simp
  qed
  have t3: "take 3 ?y = [CR, LF, DOT]" using w len by simp
  have d3: "drop 3 ?y = drop (i + 3) x @ r" using len by (simp add: add.commute)
  have t2: "take 2 (drop 3 ?y) = subslice x (i + 3) (i + 5)" using len d3 by (simp add: subslice_def)
  have t2x: "take 2 (drop i x) = CRLF" using arg_cong [OF w, of "take 2"] by (simp add: numeral_2_eq_2)
  have ti: "take (i + 2) x = take i x @ CRLF" using t2x by (simp only: take_add)
  show "unstuff0 (x @ r) = take (i + 2) x @ unstuff0 (drop (i + 3) x @ r) \<and>
      ends0 (x @ r) = ends0 (drop (i + 3) x @ r)" if "subslice x (i + 3) (i + 5) \<noteq> CRLF"
    using unstuff0_escape [OF t3] that t2 d3 skip ti by simp
  show "unstuff0 (x @ r) = take (i + 2) x \<and> suffix EOD (take (i + 5) x)"
    if c: "subslice x (i + 3) (i + 5) = CRLF"
  proof -
    have "(5::nat) = 3 + 2" by simp
    then have "take 5 ?y = take 3 ?y @ take 2 (drop 3 ?y)" by (simp only: take_add)
    then have e: "take 5 ?y = EOD" unfolding t3 t2 c by simp
    moreover have "take (i + 5) x = take i x @ take 5 (drop i x)" by (simp add: take_add)
    moreover have "take 5 (drop i x) = take 5 ?y" using len by simp
    ultimately have "take (i + 5) x = take i x @ EOD" by (simp only:)
    then show ?thesis using unstuff0_end [OF e] skip ti by (simp add: suffix_def)
  qed
qed

lemma unescaped_stop_end:
  assumes "find_window [CR, LF, DOT] x = Some i" "i + 5 \<le> length x" "subslice x (i + 3) (i + 5) = CRLF"
  shows "unescaped x (take (i + 2) x) (drop (i + 5) x)"
  unfolding unescaped_def using unstuff0_at_window(2) [OF assms]
  by (intro exI [of _ "take (i + 5) x"]) auto

lemma window_nth:
  assumes "take 3 (drop j y) = [a, b, c]"
  shows "y ! j = a" "y ! Suc j = b" "j + 3 \<le> length y"
proof -
  have len: "length (take 3 (drop j y)) = 3" using assms by simp
  then show l: "j + 3 \<le> length y" by simp
  have "take 3 (drop j y) ! 0 = a" "take 3 (drop j y) ! 1 = b" using assms by simp_all
  then show "y ! j = a" "y ! Suc j = b" using l by simp_all
qed

lemma ends_with_drop:
  assumes "length p \<le> length (drop u xs)"
  shows "ends_with xs p \<longleftrightarrow> ends_with (drop u xs) p"
proof -
  have "length (drop u xs) - length p + u = length xs - length p \<or> p = []"
    using assms by (cases p) auto
  then have "drop (length (drop u xs) - length p) (drop u xs) = drop (length xs - length p) xs"
    unfolding drop_drop using assms by auto
  then show ?thesis using assms by (auto simp: ends_with_def)
qed

lemma ends_with_nths:
  "ends_with x [CR] \<longleftrightarrow> x \<noteq> [] \<and> x ! (length x - 1) = CR"
  "ends_with x CRLF \<longleftrightarrow> 2 \<le> length x \<and> x ! (length x - 2) = CR \<and> x ! (length x - 1) = LF"
proof -
  show "ends_with x [CR] \<longleftrightarrow> x \<noteq> [] \<and> x ! (length x - 1) = CR"
    by (cases x rule: rev_cases) (auto simp: ends_with_def)
  show "ends_with x CRLF \<longleftrightarrow> 2 \<le> length x \<and> x ! (length x - 2) = CR \<and> x ! (length x - 1) = LF"
  proof (cases x rule: rev_cases)
    case Nil
    then show ?thesis by (simp add: ends_with_def)
  next
    case (snoc ys b)
    then show ?thesis by (cases ys rule: rev_cases) (auto simp: ends_with_def nth_append)
  qed
qed

lemma move_down_props:
  assumes "w \<le> u" "u \<le> e" "e \<le> length data"
  shows "length (moved data u e w) = length data"
    "take (w + (e - u)) (moved data u e w) = take w data @ subslice data u e"
    "w + (e - u) \<le> k \<Longrightarrow> k \<le> length data \<Longrightarrow> drop k (moved data u e w) = drop k data"
proof -
  have r: "w + (e - u) \<le> length data" using assms by simp
  show "length (moved data u e w) = length data"
    using assms r by (simp add: moved_def)
  show "take (w + (e - u)) (moved data u e w) = take w data @ subslice data u e"
  proof (cases "u = w")
    case True
    then have "e = w + (e - w)" using assms by simp
    then have "take e data = take w data @ take (e - w) (drop w data)" using take_add by metis
    with True assms show ?thesis by (simp add: moved_def subslice_def)
  next
    case False
    then show ?thesis
      using take_copy_within [OF assms(2,3) r] by (simp add: moved_def subslice_def)
  qed
  show "drop k (moved data u e w) = drop k data" if "w + (e - u) \<le> k" "k \<le> length data"
    using assms drop_copy_within [OF assms(2,3) that] by (simp add: moved_def)
qed

lemma move_down_ok:
  "w \<le> u \<Longrightarrow> u \<le> e \<Longrightarrow> e \<le> length data \<Longrightarrow> move_down data u e w = Value (moved data u e w)"
  by (auto simp: move_down_def)

text \<open>The state of a buffer after a call that started at \<open>u\<close> with \<open>w\<close> bytes written.\<close>

definition loop_post :: "bytes \<Rightarrow> nat \<Rightarrow> nat \<Rightarrow> (bytes \<times> DataUnescapeRes) run \<Rightarrow> bool" where
  "loop_post data w u dr \<longleftrightarrow> (\<exists>data' res. dr = Value (data', res) \<and>
     length data' = length data \<and> unhandled_idx res \<le> length data \<and>
     written res \<le> unhandled_idx res \<and>
     drop (unhandled_idx res) data' = drop (unhandled_idx res) data \<and>
     (\<exists>out. take (written res) data' = take w data @ out \<and>
            unescaped (drop u data) out (drop (unhandled_idx res) data)))"

text \<open>Stopping at \<open>n\<close> with the bytes up to \<open>e\<close> written out.\<close>

lemma loop_post_stop:
  assumes "w \<le> u" "u \<le> e" "e \<le> n" "n \<le> length data"
    and "unescaped (drop u data) (subslice data u e) (drop n data)"
  shows "loop_post data w u (Value (moved data u e w, \<lparr>written = w + (e - u), unhandled_idx = n\<rparr>))"
  using assms move_down_props [of w u e data] by (auto simp: loop_post_def)

lemma loop_post_step:
  assumes "loop_post d w' u' dr" "length d = length data" "take w' d = take w data @ o1"
    "u' \<le> length data" "\<And>k. u' \<le> k \<Longrightarrow> k \<le> length data \<Longrightarrow> drop k d = drop k data"
    "\<And>out l. unescaped (drop u' data) out l \<Longrightarrow> unescaped (drop u data) (o1 @ out) l"
  shows "loop_post data w u dr"
proof -
  from assms(1) obtain data' res out where dr: "dr = Value (data', res)" and p: "length data' = length data" "unhandled_idx res \<le> length data"
      "written res \<le> unhandled_idx res" "drop (unhandled_idx res) data' = drop (unhandled_idx res) d"
      "take (written res) data' = take w' d @ out" "unescaped (drop u' d) out (drop (unhandled_idx res) d)"
    using assms(2) by (auto simp: loop_post_def)
  have "length (drop (unhandled_idx res) d) \<le> length (drop u' d)"
  proof -
    from p(6) obtain q where "drop u' d = q @ drop (unhandled_idx res) d" unfolding unescaped_def by blast
    then show ?thesis by (metis length_append le_add2)
  qed
  then have "u' \<le> unhandled_idx res" using assms(2,4) p(2) by auto
  then have "drop (unhandled_idx res) d = drop (unhandled_idx res) data" using assms(5) p(2) by simp
  moreover have "drop u' d = drop u' data" using assms(4,5) by simp
  ultimately show ?thesis using p assms(3) assms(6) [of out] by (auto simp: loop_post_def dr)
qed

lemma unescape_tail_post:
  assumes "w \<le> u" "u \<le> length data" and u: "u = 0 \<or> u + 2 \<le> length data"
    and nw: "find_window [CR, LF, DOT] (drop u data) = None"
  shows "loop_post data w u (unescape_tail data w u)"
proof -
  let ?x = "drop u data"
  have post: "loop_post data w u (unescape_rest data w u k)"
    if k: "k \<le> length ?x" "k \<le> 4" and ov: "\<And>r j. j < length ?x - k \<Longrightarrow> length ?x < j + 3 \<Longrightarrow>
        take 3 (drop j (?x @ r)) \<noteq> [CR, LF, DOT]" for k
  proof -
    have "unescaped ?x (take (length ?x - k) ?x) (drop (length ?x - k) ?x)"
      by (rule unescaped_tail [OF nw]) (use k ov in auto)
    moreover have "drop (length ?x - k) ?x = drop (length data - k) data"
    proof -
      have "length ?x - k + u = length data - k" using k assms(2) by simp
      then show ?thesis by (simp only: drop_drop)
    qed
    moreover have "take (length ?x - k) ?x = subslice data u (length data - k)"
      using k by (simp add: subslice_def add.commute)
    moreover have "w + length data - k - u = w + (length data - k - u)" using assms k by simp
    moreover have "\<not> w + length data - k < u" using assms(1,2) k(1) by auto
    moreover have "move_down data u (length data - k) w = Value (moved data u (length data - k) w)"
      by (rule move_down_ok) (use assms k in auto)
    ultimately show ?thesis
      using loop_post_stop [of w u "length data - k" "length data - k" data] assms k
      by (simp add: unescape_rest_def)
  qed
  have e1: "ends_with data CRLF \<longleftrightarrow> ends_with ?x CRLF"
    and e2: "ends_with data [CR] \<longleftrightarrow> ends_with ?x [CR]"
    using u ends_with_drop [of CRLF u data] ends_with_drop [of "[CR]" u data] by auto
  note nths = ends_with_nths [of ?x]
  show ?thesis
  proof (cases "ends_with data CRLF")
    case True
    then have "loop_post data w u (unescape_rest data w u 2)"
      using e1 nths by (intro post) auto
    with True show ?thesis by (simp add: unescape_tail_def)
  next
    case ncl: False
    show ?thesis
    proof (cases "ends_with data [CR]")
      case True
      have "take 3 (drop j (?x @ r)) \<noteq> [CR, LF, DOT]" if "j < length ?x - 1" "length ?x < j + 3" for r j
      proof
        assume "take 3 (drop j (?x @ r)) = [CR, LF, DOT]"
        note wn = window_nth [OF this]
        have j: "Suc j = length ?x - 1" "Suc j < length ?x" using that by linarith+
        have "?x ! (length ?x - 1) = LF" using wn(2) j by (simp only: nth_append if_True)
        moreover have "?x ! (length ?x - 1) = CR" using True e2 nths(1) by blast
        ultimately show False by simp
      qed
      then have "loop_post data w u (unescape_rest data w u 1)"
        using True e2 nths(1) by (intro post) (auto simp: Suc_le_eq)
      with True ncl show ?thesis by (simp add: unescape_tail_def)
    next
      case False
      have "take 3 (drop j (?x @ r)) \<noteq> [CR, LF, DOT]" if "j < length ?x - 0" "length ?x < j + 3" for r j
      proof
        assume "take 3 (drop j (?x @ r)) = [CR, LF, DOT]"
        note wn = window_nth [OF this]
        have xj: "?x ! j = CR" using wn(1) that by (simp add: nth_append)
        have "j = length ?x - 1 \<or> (j = length ?x - 2 \<and> 2 \<le> length ?x)" using that by arith
        then consider "j = length ?x - 1" | "j = length ?x - 2" "2 \<le> length ?x" by blast
        then show False
        proof cases
          case 1
          with xj that False e2 nths(1) show False by auto
        next
          case 2
          then have "Suc j = length ?x - 1" "Suc j < length ?x" by linarith+
          then have "?x ! (length ?x - 1) = LF" using wn(2) by (simp only: nth_append if_True)
          with xj 2 ncl e1 nths(2) show False by simp
        qed
      qed
      then have "loop_post data w u (unescape_rest data w u 0)"
        by (intro post) auto
      with False ncl show ?thesis by (simp add: unescape_tail_def)
    qed
  qed
qed

text \<open>The whole loop.\<close>

lemma unescape_loop_post:
  assumes "w \<le> u" "u \<le> length data" "u = 0 \<or> u + 2 \<le> length data"
  shows "loop_post data w u (unescape_loop data w u)"
  using assms
proof (induction data w u rule: unescape_loop.induct)
  case (1 data w u)
  let ?x = "drop u data"
  show ?case
  proof (cases "find_window [CR, LF, DOT] ?x")
    case None
    with unescape_tail_post 1(2-4) show ?thesis by (simp add: unescape_loop.simps)
  next
    case (Some i)
    have b: "i + 3 \<le> length ?x" using find_window_Some_bound [OF Some] by simp
    have sub: "subslice ?x (i + 3) (i + 5) = subslice data (u + i + 3) (u + i + 5)"
      by (simp add: subslice_def ac_simps)
    consider (short) "length data \<le> u + i + 4"
      | (esc) "u + i + 5 \<le> length data" "subslice data (u + i + 3) (u + i + 5) \<noteq> CRLF"
      | (stop) "u + i + 5 \<le> length data" "subslice data (u + i + 3) (u + i + 5) = CRLF" by fastforce
    then show ?thesis
    proof cases
      case short
      have "unescaped ?x (take i ?x) (drop i ?x)"
        by (rule unescaped_stop_short [OF Some]) (use short in simp)
      then have "loop_post data w u (Value (moved data u (u + i) w, \<lparr>written = w + (u + i - u), unhandled_idx = u + i\<rparr>))"
        using 1(2) b by (intro loop_post_stop) (auto simp: subslice_def add.commute)
      with short Some 1(2,3) b show ?thesis by (simp add: unescape_loop.simps move_down_ok)
    next
      case esc
      let ?d = "moved data u (u + i + 2) w"
      have mv: "length ?d = length data" "take (w + (i + 2)) ?d = take w data @ take (i + 2) ?x"
        using move_down_props(1,2) [of w u "u + i + 2" data] 1(2) esc(1) by (auto simp: subslice_def)
      have mv3: "drop k ?d = drop k data" if "u + (i + 3) \<le> k" "k \<le> length data" for k
        using move_down_props(3) [of w u "u + i + 2" data k] that 1(2) esc(1) by auto
      have d3: "drop (u + (i + 3)) data = drop (i + 3) ?x" by (simp add: add.commute)
      have "loop_post ?d (w + (i + 2)) (u + (i + 3)) (unescape_loop ?d (w + (i + 2)) (u + (i + 3)))"
      proof (rule 1(1) [OF _ Some])
        show "\<not> length data < u" using 1(3) by simp
        show "move_down data u (u + i + 2) w = Value ?d" using 1(2,3) esc(1) by (simp add: move_down_ok)
        show "\<not> length data \<le> u + i + 4" using esc(1) by simp
        show "subslice data (u + i + 3) (u + i + 5) \<noteq> CRLF" by (rule esc(2))
        show "w + (i + 2) \<le> u + (i + 3)" using 1(2) by simp
        show "u + (i + 3) \<le> length ?d" "u + (i + 3) = 0 \<or> u + (i + 3) + 2 \<le> length ?d"
          using mv(1) esc(1) by simp_all
      qed
      then have "loop_post data w u (unescape_loop ?d (w + (i + 2)) (u + (i + 3)))"
      proof (rule loop_post_step [OF _ mv])
        show "u + (i + 3) \<le> length data" using esc(1) by simp
        show "unescaped ?x (take (i + 2) ?x @ out) l" if "unescaped (drop (u + (i + 3)) data) out l" for out l
        proof (rule unescaped_prepend)
          show "unescaped (drop (i + 3) ?x) out l" using that d3 by simp
          show "?x = take (i + 3) ?x @ drop (i + 3) ?x" by (rule append_take_drop_id [symmetric])
          show "unstuff0 (?x @ r) = take (i + 2) ?x @ unstuff0 (drop (i + 3) ?x @ r) \<and>
              ends0 (?x @ r) = ends0 (drop (i + 3) ?x @ r)" for r
            by (rule unstuff0_at_window(1) [OF Some]) (use esc sub in simp_all)
        qed
      qed (rule mv3)
      moreover have "unescape_loop data w u = unescape_loop ?d (w + (i + 2)) (u + (i + 3))"
        using esc Some 1(2,3) by (subst unescape_loop.simps) (simp add: move_down_ok)
      ultimately show ?thesis by simp
    next
      case stop
      have "unescaped ?x (take (i + 2) ?x) (drop (i + 5) ?x)"
        by (rule unescaped_stop_end [OF Some]) (use stop sub in simp_all)
      then have "loop_post data w u (Value (moved data u (u + i + 2) w,
          \<lparr>written = w + (u + i + 2 - u), unhandled_idx = u + i + 5\<rparr>))"
        using 1(2) stop by (intro loop_post_stop) (auto simp: subslice_def ac_simps)
      with stop Some 1(2,3) show ?thesis by (simp add: unescape_loop.simps move_down_ok)
    qed
  qed
qed

section \<open>Unescaping a stream chunk by chunk\<close>

text \<open>
  The loop a caller runs: each chunk is appended to what the previous call left over, the
  written part is handed on.
\<close>

fun unescape_chunks :: "DataUnescaper \<Rightarrow> bytes \<Rightarrow> bytes list \<Rightarrow> (DataUnescaper \<times> bytes \<times> bytes) run" where
  "unescape_chunks un rest [] = Value (un, [], rest)"
| "unescape_chunks un rest (c # cs) =
     (case unescape un (rest @ c) of
        (un', Panic) \<Rightarrow> Panic
      | (un', Value (buf, res)) \<Rightarrow>
          bind_run (unescape_chunks un' (drop (unhandled_idx res) buf) cs)
            (\<lambda>(un'', out, rest'). Value (un'', take (written res) buf @ out, rest')))"

text \<open>A message read from the beginning of a line is one read behind a line break.\<close>

lemma unstuff_behind_CRLF: "unstuff0 (CRLF @ s) = CRLF @ unstuff s"
proof -
  have two: "unstuff0 (CR # LF # s) = CR # LF # unstuff0 s" if "take 1 s \<noteq> [DOT]"
    using that unstuff0_plain [of CR "LF # s"] unstuff0_plain [of LF s] by (cases s) auto
  show ?thesis
  proof (cases "take 1 s = [DOT]")
    case True
    then obtain s' where s: "s = DOT # s'" by (cases s) auto
    show ?thesis
      using unstuff0_escape [of "CRLF @ s"] unstuff0_end [of "CRLF @ s"] s
      by (cases "take 2 s' = CRLF") (auto simp: unstuff_def numeral_eq_Suc)
  next
    case False
    then have "take 3 s \<noteq> [DOT, CR, LF]" by (cases s) auto
    with False two show ?thesis by (simp add: unstuff_def)
  qed
qed

lemma unescaped_line_start:
  assumes "4 \<le> length data" "take 3 data \<noteq> [DOT, CR, LF]"
  defines "u \<equiv> if data ! 0 = DOT then 1 else 0"
  shows "unstuff (data @ r) = unstuff0 (drop u data @ r) \<and>
    ends0 (CRLF @ data @ r) = ends0 (drop u data @ r)"
proof (cases "data ! 0 = DOT")
  case True
  then obtain d where d: "data = DOT # d" using assms(1) by (cases data) auto
  have "take 2 (d @ r) \<noteq> CRLF" using assms(1,2) d by auto
  then show ?thesis using True d unstuff0_escape [of "CRLF @ data @ r"]
    by (auto simp: unstuff_def u_def numeral_eq_Suc)
next
  case False
  then have "take 1 (data @ r) \<noteq> [DOT]" using assms(1) by (cases data) auto
  with False show ?thesis
    using unstuff0_plain [of CR "LF # data @ r"] unstuff0_plain [of LF "data @ r"] assms(1)
    by (cases "data @ r") (auto simp: unstuff_def u_def)
qed

definition chunks_inv :: "DataUnescaper \<Rightarrow> bytes \<Rightarrow> bytes \<Rightarrow> bytes \<Rightarrow> bool" where
  "chunks_inv un rest seen out \<longleftrightarrow>
     (is_preceded_by_crlf un \<and> rest = seen \<and> out = [] \<and> length seen \<le> 3) \<or>
     (\<not> is_preceded_by_crlf un \<and> suffix rest seen \<and> length rest \<le> 4 \<and>
       (\<forall>r. unstuff (seen @ r) = out @ unstuff0 (rest @ r) \<and>
            ends0 (CRLF @ seen @ r) = ends0 (rest @ r)))"

definition chunks_ended :: "bytes \<Rightarrow> bytes \<Rightarrow> bytes \<Rightarrow> bool" where
  "chunks_ended rest seen out \<longleftrightarrow>
     (\<exists>p. seen = p @ rest \<and> suffix EOD (CRLF @ p) \<and> (\<forall>r. unstuff (seen @ r) = out))"

lemma chunk_loop:
  assumes post: "loop_post data 0 u dr" "u \<le> length data"
    and start: "\<And>r. unstuff (seen @ data @ r) = out @ unstuff0 (drop u data @ r) \<and>
        ends0 (CRLF @ seen @ data @ r) = ends0 (drop u data @ r)"
    and un: "\<not> is_preceded_by_crlf un"
  shows "\<exists>buf res. dr = Value (buf, res) \<and>
    (chunks_inv un (drop (unhandled_idx res) buf) (seen @ data) (out @ take (written res) buf) \<or>
     chunks_ended (drop (unhandled_idx res) buf) (seen @ data) (out @ take (written res) buf))"
proof -
  from post(1) obtain buf res where dr: "dr = Value (buf, res)"
    and l: "drop (unhandled_idx res) buf = drop (unhandled_idx res) data"
    and ue: "unescaped (drop u data) (take (written res) buf) (drop (unhandled_idx res) data)"
    by (auto simp: loop_post_def)
  let ?l = "drop (unhandled_idx res) data"
  from ue obtain p where p: "drop u data = p @ ?l" and
    d: "(length ?l \<le> 4 \<and> (\<forall>r. unstuff0 (drop u data @ r) = take (written res) buf @ unstuff0 (?l @ r) \<and>
          ends0 (drop u data @ r) = ends0 (?l @ r))) \<or>
        (suffix EOD p \<and> (\<forall>r. unstuff0 (drop u data @ r) = take (written res) buf))"
    unfolding unescaped_def by blast
  have sd: "seen @ data = (seen @ take u data @ p) @ ?l" using p by (metis append_assoc append_take_drop_id)
  from d show ?thesis
  proof
    assume "length ?l \<le> 4 \<and> (\<forall>r. unstuff0 (drop u data @ r) = take (written res) buf @ unstuff0 (?l @ r) \<and>
          ends0 (drop u data @ r) = ends0 (?l @ r))"
    moreover have "suffix ?l (seen @ data)" using sd by (metis suffixI)
    ultimately have "chunks_inv un ?l (seen @ data) (out @ take (written res) buf)"
      using un start unfolding chunks_inv_def by simp
    with dr l show ?thesis by simp
  next
    assume e: "suffix EOD p \<and> (\<forall>r. unstuff0 (drop u data @ r) = take (written res) buf)"
    then have "suffix EOD (CRLF @ seen @ take u data @ p)" by (intro suffix_appendI) simp
    with e sd start have "chunks_ended ?l (seen @ data) (out @ take (written res) buf)"
      unfolding chunks_ended_def by (intro exI [of _ "seen @ take u data @ p"]) simp
    with dr l show ?thesis by simp
  qed
qed

lemma chunk_step:
  assumes "chunks_inv un rest seen out"
  shows "\<exists>un' buf res. unescape un (rest @ c) = (un', Value (buf, res)) \<and>
    (chunks_inv un' (drop (unhandled_idx res) buf) (seen @ c) (out @ take (written res) buf) \<or>
     chunks_ended (drop (unhandled_idx res) buf) (seen @ c) (out @ take (written res) buf))"
proof (cases "is_preceded_by_crlf un")
  case True
  with assms have a: "rest = seen" "out = []" "length seen \<le> 3" by (auto simp: chunks_inv_def)
  let ?data = "seen @ c"
  let ?u = "if ?data ! 0 = DOT then 1 else 0 :: nat"
  consider "length ?data \<le> 3" | "4 \<le> length ?data" "take 3 ?data = [DOT, CR, LF]"
    | "4 \<le> length ?data" "take 3 ?data \<noteq> [DOT, CR, LF]" by fastforce
  then show ?thesis
  proof cases
    case 1
    then show ?thesis using True a by (simp add: unescape_def chunks_inv_def)
  next
    case 2
    have "?data = [DOT, CR, LF] @ drop 3 ?data" using 2(2) by (metis append_take_drop_id)
    moreover have "unstuff (?data @ r) = []" for r using 2 by (simp add: unstuff_def)
    ultimately have "chunks_ended (drop 3 ?data) ?data []"
      unfolding chunks_ended_def by (intro exI [of _ "[DOT, CR, LF]"]) simp
    then show ?thesis using 2 True a by (simp add: unescape_def)
  next
    case 3
    have "loop_post ?data 0 ?u (unescape_loop ?data 0 ?u)"
      by (rule unescape_loop_post) (use 3(1) in auto)
    moreover have "?u \<le> length ?data" using 3(1) by auto
    ultimately show ?thesis
      using chunk_loop [of ?data ?u _ "[]" "[]" "un\<lparr>is_preceded_by_crlf := False\<rparr>"]
        unescaped_line_start [OF 3] 3 True a by (simp add: unescape_def)
  qed
next
  case False
  with assms obtain p where p: "seen = p @ rest" "length rest \<le> 4" and
    i: "\<And>r. unstuff (seen @ r) = out @ unstuff0 (rest @ r) \<and> ends0 (CRLF @ seen @ r) = ends0 (rest @ r)"
    by (auto simp: chunks_inv_def suffix_def)
  have "loop_post (rest @ c) 0 0 (unescape_loop (rest @ c) 0 0)"
    by (rule unescape_loop_post) auto
  from chunk_loop [OF this, of p out un] i p(1) False show ?thesis by (simp add: unescape_def)
qed

lemma unescape_nothing: "unescape un [] = (un, Value ([], \<lparr>written = 0, unhandled_idx = 0\<rparr>))"
  by (simp add: unescape_def unescape_loop.simps unescape_tail_def unescape_rest_def move_down_def
      moved_def ends_with_def)

lemma unescape_chunks_nothing:
  "\<forall>c \<in> set cs. c = [] \<Longrightarrow> unescape_chunks un [] cs = Value (un, [], [])"
  by (induction cs) (auto simp: unescape_nothing)

text \<open>Up to the end of the message every byte is accounted for, and there the output is complete.\<close>

lemma unescape_chunks_inv:
  assumes "chunks_inv un rest seen out" "\<And>k. k < length (seen @ concat cs) \<Longrightarrow> \<not> suffix EOD (CRLF @ take k (seen @ concat cs))"
  shows "\<exists>un' out' rest'. unescape_chunks un rest cs = Value (un', out', rest') \<and>
    (chunks_inv un' rest' (seen @ concat cs) (out @ out') \<or>
     (rest' = [] \<and> chunks_ended rest' (seen @ concat cs) (out @ out')))"
  using assms
proof (induction cs arbitrary: un rest seen out)
  case Nil
  then show ?case by simp
next
  case (Cons c cs)
  from chunk_step [OF Cons.prems(1), of c] obtain un' buf res
    where st: "unescape un (rest @ c) = (un', Value (buf, res))" and
      d: "chunks_inv un' (drop (unhandled_idx res) buf) (seen @ c) (out @ take (written res) buf) \<or>
        chunks_ended (drop (unhandled_idx res) buf) (seen @ c) (out @ take (written res) buf)" by blast
  let ?l = "drop (unhandled_idx res) buf"
  from d show ?case
  proof
    assume "chunks_inv un' ?l (seen @ c) (out @ take (written res) buf)"
    from Cons.IH [OF this] Cons.prems(2) st show ?thesis by fastforce
  next
    assume e: "chunks_ended ?l (seen @ c) (out @ take (written res) buf)"
    then obtain p where p: "seen @ c = p @ ?l" "suffix EOD (CRLF @ p)" by (auto simp: chunks_ended_def)
    have "\<not> length p < length (seen @ concat (c # cs))"
    proof
      assume "length p < length (seen @ concat (c # cs))"
      moreover have "seen @ concat (c # cs) = p @ ?l @ concat cs" using p(1) by simp
      then have "take (length p) (seen @ concat (c # cs)) = p" by (metis append_eq_conv_conj)
      ultimately show False using Cons.prems(2) [of "length p"] p(2) by metis
    qed
    moreover have "length (seen @ concat (c # cs)) = length p + length ?l + length (concat cs)"
      using arg_cong [OF p(1), of length] by simp
    ultimately have "length ?l = 0" "length (concat cs) = 0" by linarith+
    then have n: "?l = []" "concat cs = []" by (simp_all only: length_0_conv)
    then have "unescape_chunks un' ?l cs = Value (un', [], [])" using unescape_chunks_nothing by simp
    moreover have "concat (c # cs) = c" by (simp only: concat.simps n(2) append_Nil2)
    ultimately show ?thesis using st e n(1) by (simp only: unescape_chunks.simps) simp
  qed
qed

section \<open>Properties\<close>

lemma unescape_chunks_message:
  assumes "end_of_data (concat cs) (length (concat cs))"
  shows "\<exists>un rest. unescape_chunks (unescaper_new True) [] cs = Value (un, unstuff (concat cs), rest) \<and>
    (rest = [] \<or> (concat cs = [DOT, CR, LF] \<and> rest = concat cs))"
proof -
  let ?m = "concat cs"
  have "chunks_inv (unescaper_new True) [] [] []" by (simp add: chunks_inv_def unescaper_new_def)
  moreover have "\<not> suffix EOD (CRLF @ take k ([] @ ?m))" if "k < length ([] @ ?m)" for k
    using assms that by (simp add: end_of_data_def)
  ultimately obtain un out rest where r: "unescape_chunks (unescaper_new True) [] cs = Value (un, out, rest)" and
    d: "chunks_inv un rest ?m out \<or> (rest = [] \<and> chunks_ended rest ?m out)"
    using unescape_chunks_inv [of "unescaper_new True" "[]" "[]" "[]" cs] by auto
  have eod: "suffix EOD (CRLF @ ?m)" using assms by (simp add: end_of_data_def)
  from d consider (start) "rest = ?m" "out = []" "length ?m \<le> 3"
    | (going) "length rest \<le> 4" "ends0 (CRLF @ ?m @ []) = ends0 (rest @ [])"
    | (ended) "rest = []" "unstuff (?m @ []) = out"
    unfolding chunks_inv_def chunks_ended_def by blast
  then show ?thesis
  proof cases
    case start
    from eod obtain zs where zs: "CRLF @ ?m = zs @ EOD" by (auto simp: suffix_def)
    have "length (CRLF @ ?m) = length (zs @ EOD)" by (simp only: zs)
    with start(3) have "zs = []" by simp
    with zs have "?m = [DOT, CR, LF]" by simp
    with r start show ?thesis by (simp add: unstuff_def)
  next
    case going
    moreover have "ends0 (CRLF @ ?m @ [])" using eod unfolding ends0_occurs suffix_def by (metis append_Nil2)
    ultimately show ?thesis using ends0_short [of rest] by simp
  next
    case ended
    with r show ?thesis by simp
  qed
qed

text \<open>
  Claim C6. However a DATA stream is cut into chunks, unescaping the chunks one after the other,
  each behind the leftover of the previous call, never panics and writes exactly the unescaped
  message: \<open>unstuff\<close> of the whole stream. Of a complete message nothing is left over, except
  for the marker itself when the message is empty.
\<close>

theorem unescape_chunks_correct:
  assumes "end_of_data (concat cs) (length (concat cs))"
  shows "\<exists>un rest. unescape_chunks (unescaper_new True) [] cs = Value (un, unstuff (concat cs), rest) \<and>
    (rest = [] \<or> (concat cs = [DOT, CR, LF] \<and> rest = concat cs))"
  by (rule unescape_chunks_message [OF assms])

text \<open>The message \<^verbatim>\<open>".a\r\n.\r\n"\<close> arriving in three pieces, the marker cut in two.\<close>

lemma unescape_chunks_correct_witness:
  "\<exists>un rest. unescape_chunks (unescaper_new True) [] [''..a'' @ [CR], [LF, DOT], CRLF] =
      Value (un, unstuff (concat [''..a'' @ [CR], [LF, DOT], CRLF]), rest) \<and>
    (rest = [] \<or> (concat [''..a'' @ [CR], [LF, DOT], CRLF] = [DOT, CR, LF] \<and>
      rest = concat [''..a'' @ [CR], [LF, DOT], CRLF]))"
proof (rule unescape_chunks_correct)
  show "end_of_data (concat [''..a'' @ [CR], [LF, DOT], CRLF])
      (length (concat [''..a'' @ [CR], [LF, DOT], CRLF]))"
    by (auto simp: end_of_data_def suffix_def less_Suc_eq_0_disj Cons_eq_append_conv)
qed

text \<open>
  A call of \<^verbatim>\<open>unescape\<close> on any buffer in any state returns without a panic, keeps
  the length of the buffer and leaves the unhandled bytes where they were; and as long as no
  marker has been seen at most 4 bytes are unhandled, so that a buffer of 5 bytes is enough to
  make progress.
\<close>

theorem unescape_leftover:
  "\<exists>un' buf res. unescape un data = (un', Value (buf, res)) \<and> length buf = length data \<and>
     written res \<le> unhandled_idx res \<and> unhandled_idx res \<le> length data \<and>
     drop (unhandled_idx res) buf = drop (unhandled_idx res) data \<and>
     (length (drop (unhandled_idx res) data) \<le> 4 \<or>
      suffix EOD (CRLF @ take (unhandled_idx res) data))"
proof -
  have loop: "\<exists>buf res. unescape_loop data 0 u = Value (buf, res) \<and> length buf = length data \<and>
     written res \<le> unhandled_idx res \<and> unhandled_idx res \<le> length data \<and>
     drop (unhandled_idx res) buf = drop (unhandled_idx res) data \<and>
     (length (drop (unhandled_idx res) data) \<le> 4 \<or>
      suffix EOD (CRLF @ take (unhandled_idx res) data))"
    if u: "u \<le> length data" "u = 0 \<or> u + 2 \<le> length data" for u
  proof -
    have "suffix EOD (CRLF @ take n data)"
      if p: "drop u data = p @ drop n data" "suffix EOD p" "n \<le> length data" for p n
    proof -
      have "data = (take u data @ p) @ drop n data" using p(1) by (metis append_assoc append_take_drop_id)
      then have "take n data = take u data @ p" by (metis append_same_eq append_take_drop_id)
      then show ?thesis using p(2) by (simp add: suffix_appendI suffix_Cons)
    qed
    then show ?thesis using unescape_loop_post [OF _ u, of 0]
      unfolding loop_post_def unescaped_def by fastforce
  qed
  show ?thesis
  proof (cases "is_preceded_by_crlf un")
    case True
    have "\<not> length data \<le> 3 \<Longrightarrow> take 3 data = [DOT, CR, LF] \<Longrightarrow> suffix EOD (CRLF @ take 3 data)"
      by simp
    with True loop [of 0] loop [of 1] show ?thesis by (auto simp: unescape_def)
  next
    case False
    with loop [of 0] show ?thesis by (simp add: unescape_def)
  qed
qed

end
