(* ===== verification/DataWriter.thy ===== *)
theory DataWriter
  imports AsyncIo
begin

text \<open>
  \<^verbatim>\<open>EscapingDataWriter\<close> of \<^verbatim>\<open>smtp-message/src/data.rs\<close>: an \<^verbatim>\<open>AsyncWrite\<close> that doubles the
  dot at the beginning of a line and, on \<^verbatim>\<open>finish\<close>, appends the end-of-data marker. It keeps
  no bytes of its own: before an escape the first dot is written together with what precedes
  it, and the caller, told that the dot was not taken, submits it again. The sink is a
  parameter. The specification is \<open>stuff\<close>, which escapes the whole message at once.
\<close>

section \<open>State and operations\<close>

datatype EscapingDataWriterState = Wr_Start | Wr_Cr | Wr_CrLf

record 'w EscapingDataWriter =
  wr_state :: EscapingDataWriterState
  wr_write :: 'w

definition writer_new :: "'w \<Rightarrow> 'w EscapingDataWriter" where
  "writer_new write = \<lparr>wr_state = Wr_CrLf, wr_write = write\<rparr>"

text \<open>The state behind a byte that is not an escape.\<close>

definition wr_step :: "EscapingDataWriterState \<Rightarrow> byte \<Rightarrow> EscapingDataWriterState" where
  "wr_step st c = (if c = CR then Wr_Cr else if st = Wr_Cr \<and> c = LF then Wr_CrLf else Wr_Start)"

definition wr_after :: "EscapingDataWriterState \<Rightarrow> bytes \<Rightarrow> EscapingDataWriterState" where
  "wr_after st s = foldl wr_step st s"

text \<open>The inner function \<^verbatim>\<open>set_state_until\<close>, with its own counting.\<close>

primrec set_state_until :: "EscapingDataWriterState \<Rightarrow> bytes list \<Rightarrow> nat \<Rightarrow> EscapingDataWriterState" where
  "set_state_until st [] n = st"
| "set_state_until st (buf # bufs) n =
     (if length buf < n - 2 then set_state_until Wr_Start bufs (n - length buf)
      else let seg = subslice buf (n - 2) (min (length buf) n);
               st' = wr_after st seg;
               n' = n - length seg
           in if n' = 0 then st' else set_state_until st' bufs n')"

text \<open>The scan for the first byte that needs an escape: within a buffer and over all of them.\<close>

fun wr_scan :: "EscapingDataWriterState \<Rightarrow> bytes \<Rightarrow> EscapingDataWriterState \<times> nat option" where
  "wr_scan st [] = (st, None)"
| "wr_scan st (c # cs) =
     (if st = Wr_CrLf \<and> c = DOT then (st, Some 0)
      else case wr_scan (wr_step st c) cs of (st', i) \<Rightarrow> (st', map_option Suc i))"

fun wr_scan_bufs ::
  "EscapingDataWriterState \<Rightarrow> bytes list \<Rightarrow> EscapingDataWriterState \<times> (nat \<times> nat) option" where
  "wr_scan_bufs st [] = (st, None)"
| "wr_scan_bufs st (buf # bufs) =
     (case wr_scan st buf of
        (st', Some i) \<Rightarrow> (st', Some (0, i))
      | (st', None) \<Rightarrow> (case wr_scan_bufs st' bufs of
            (st'', bi) \<Rightarrow> (st'', map_option (\<lambda>(b, i). (Suc b, i)) bi)))"

definition wr_poll_write_vectored ::
  "'w poll_write \<Rightarrow> 'w EscapingDataWriter \<Rightarrow> bytes list \<Rightarrow> 'w EscapingDataWriter \<times> nat io_result poll" where
  "wr_poll_write_vectored poll_sink self bufs =
     (let initial_state = wr_state self in
      case wr_scan_bufs initial_state bufs of
        (st, Some (b, i)) \<Rightarrow>
          (let v = take b bufs @ [take (Suc i) (bufs ! b)];
               writing = total_len (take b bufs) + (i + 1)
           in case poll_sink (wr_write self) v of
                (w, Ready (Inr s)) \<Rightarrow>
                  (if s = writing then (self\<lparr>wr_state := Wr_Start, wr_write := w\<rparr>, Ready (Inr (s - 1)))
                   else (self\<lparr>wr_state := set_state_until initial_state bufs s, wr_write := w\<rparr>,
                         Ready (Inr s)))
              | (w, o') \<Rightarrow> (self\<lparr>wr_state := st, wr_write := w\<rparr>, o'))
      | (st, None) \<Rightarrow>
          (case poll_sink (wr_write self) bufs of
             (w, Ready (Inr s)) \<Rightarrow>
               (if s = total_len bufs then (self\<lparr>wr_state := st, wr_write := w\<rparr>, Ready (Inr s))
                else (self\<lparr>wr_state := set_state_until initial_state bufs s, wr_write := w\<rparr>,
                      Ready (Inr s)))
           | (w, o') \<Rightarrow> (self\<lparr>wr_state := st, wr_write := w\<rparr>, o')))"

definition wr_poll_write ::
  "'w poll_write \<Rightarrow> 'w EscapingDataWriter \<Rightarrow> bytes \<Rightarrow> 'w EscapingDataWriter \<times> nat io_result poll" where
  "wr_poll_write poll_sink self buf = wr_poll_write_vectored poll_sink self [buf]"

definition wr_poll_flush ::
  "('w \<Rightarrow> 'w \<times> unit io_result poll) \<Rightarrow> 'w EscapingDataWriter \<Rightarrow> 'w EscapingDataWriter \<times> unit io_result poll" where
  "wr_poll_flush poll_flush self =
     (case poll_flush (wr_write self) of (w, r) \<Rightarrow> (self\<lparr>wr_write := w\<rparr>, r))"

definition wr_poll_close :: "'w EscapingDataWriter \<Rightarrow> 'w EscapingDataWriter \<times> unit io_result poll" where
  "wr_poll_close self =
     (self, Ready (Inl (Io_Error Other ''tried closing a stream during a message'')))"

text \<open>\<^verbatim>\<open>finish\<close>; \<open>write_all\<close> is \<^verbatim>\<open>futures::AsyncWriteExt::write_all\<close> of the sink.\<close>

definition wr_finish :: "('w \<Rightarrow> bytes \<Rightarrow> 'w \<times> unit io_result) \<Rightarrow> 'w EscapingDataWriter \<Rightarrow> 'w \<times> unit io_result" where
  "wr_finish write_all self =
     (case wr_state self of
        Wr_CrLf \<Rightarrow> write_all (wr_write self) [DOT, CR, LF]
      | _ \<Rightarrow> write_all (wr_write self) EOD)"

section \<open>Specification\<close>

fun stuff :: "EscapingDataWriterState \<Rightarrow> bytes \<Rightarrow> bytes" where
  "stuff st [] = []"
| "stuff st (c # cs) =
     (if st = Wr_CrLf \<and> c = DOT then DOT # DOT # stuff Wr_Start cs else c # stuff (wr_step st c) cs)"

definition terminator :: "EscapingDataWriterState \<Rightarrow> bytes" where
  "terminator st = (if st = Wr_CrLf then [DOT, CR, LF] else EOD)"

lemma wr_after_simps [simp]:
  "wr_after st [] = st"
  "wr_after st (c # cs) = wr_after (wr_step st c) cs"
  "wr_after st (xs @ ys) = wr_after (wr_after st xs) ys"
  by (simp_all add: wr_after_def)

lemma stuff_append: "stuff st (xs @ ys) = stuff st xs @ stuff (wr_after st xs) ys"
  by (induction xs arbitrary: st) (auto simp: wr_step_def)

lemma wr_step_nonbreak [simp]: "wr_step st DOT = Wr_Start"
  by (simp add: wr_step_def)

text \<open>The state behind two or more bytes depends on the last two only.\<close>

lemma wr_after_last2: "wr_after st (xs @ [a, b]) = wr_after st' [a, b]"
  by (simp add: wr_step_def)

lemma wr_after_suffix:
  assumes "n \<le> length buf"
  shows "wr_after st (subslice buf (n - 2) n) = wr_after st (take n buf)"
proof (cases "n < 2")
  case True
  then show ?thesis by (simp add: subslice_def)
next
  case False
  have "length (subslice buf (n - 2) n) = 2" using assms False by simp
  then obtain a b where ab: "subslice buf (n - 2) n = [a, b]"
    by (auto simp: length_Suc_conv numeral_2_eq_2)
  have "take n buf = take (n - 2) buf @ subslice buf (n - 2) n"
    using False subslice_split [of 0 "n - 2" n buf] by (simp add: subslice_def)
  with ab show ?thesis using wr_after_last2 [of st "take (n - 2) buf" a b st] by simp
qed

lemma set_state_until_single:
  assumes "n \<le> length buf"
  shows "set_state_until st [buf] n = wr_after st (take n buf)"
proof -
  have "min (length buf) n = n" "\<not> length buf < n - 2" using assms by auto
  moreover have "subslice buf 0 n = take n buf" by (simp add: subslice_def)
  ultimately show ?thesis using wr_after_suffix [OF assms] by (simp add: Let_def)
qed

lemma length_stuff: "length x \<le> length (stuff st x)"
  by (induction x arbitrary: st) (auto simp: le_SucI)

section \<open>The scan\<close>

lemma wr_scan_None:
  "wr_scan st x = (st', None) \<Longrightarrow> stuff st x = x \<and> st' = wr_after st x"
  by (induction st x rule: wr_scan.induct) (auto split: if_splits prod.splits)

lemma wr_scan_Some:
  "wr_scan st x = (st', Some i) \<Longrightarrow> i < length x \<and> x ! i = DOT \<and> stuff st (take i x) = take i x \<and>
     st' = Wr_CrLf \<and> wr_after st (take i x) = Wr_CrLf"
  by (induction st x arbitrary: i rule: wr_scan.induct) (auto split: if_splits prod.splits)

lemma wr_scan_bufs_None:
  "wr_scan_bufs st bufs = (st', None) \<Longrightarrow> stuff st (concat bufs) = concat bufs \<and> st' = wr_after st (concat bufs)"
proof (induction bufs arbitrary: st)
  case Nil
  then show ?case by simp
next
  case (Cons buf bufs)
  then obtain st1 where "wr_scan st buf = (st1, None)" "wr_scan_bufs st1 bufs = (st', None)"
    by (auto split: prod.splits option.splits)
  with Cons.IH wr_scan_None show ?case by (simp add: stuff_append)
qed

text \<open>The part in front of the escape, and the dot behind it.\<close>

lemma wr_scan_bufs_Some:
  assumes "wr_scan_bufs st bufs = (st', Some (b, i))"
  defines "k \<equiv> total_len (take b bufs) + i"
  shows "b < length bufs \<and> i < length (bufs ! b) \<and> k < length (concat bufs) \<and>
    concat (take b bufs @ [take (Suc i) (bufs ! b)]) = take k (concat bufs) @ [DOT] \<and>
    concat bufs ! k = DOT \<and> stuff st (take k (concat bufs)) = take k (concat bufs) \<and>
    wr_after st (take k (concat bufs)) = Wr_CrLf"
  using assms(1) unfolding k_def
proof (induction bufs arbitrary: st b)
  case Nil
  then show ?case by simp
next
  case (Cons buf bufs)
  show ?case
  proof (cases "wr_scan st buf")
    case (Pair st1 r)
    show ?thesis
    proof (cases r)
      case None
      with Pair Cons.prems obtain b' where b': "b = Suc b'" "wr_scan_bufs st1 bufs = (st', Some (b', i))"
        by (auto split: prod.splits)
      have "stuff st buf = buf" "st1 = wr_after st buf" using wr_scan_None Pair None by auto
      with Cons.IH [OF b'(2)] b'(1) show ?thesis by (simp add: stuff_append nth_append)
    next
      case (Some j)
      with Pair Cons.prems have [simp]: "b = 0" "j = i" by auto
      have "wr_scan st buf = (st1, Some i)" using Pair Some by simp
      from wr_scan_Some [OF this] show ?thesis
        by (auto simp: nth_append take_Suc_conv_app_nth)
    qed
  qed
qed

section \<open>A call\<close>

text \<open>
  What one call adds to the wire. Either the \<open>n\<close> bytes it reports, which need no escape; or
  these and the extra dot of an escape.
\<close>

definition wrote :: "EscapingDataWriterState \<Rightarrow> bytes \<Rightarrow> nat \<Rightarrow> EscapingDataWriterState \<Rightarrow> bytes \<Rightarrow> bool" where
  "wrote st x n st' y \<longleftrightarrow> n \<le> length x \<and> stuff st (take n x) = take n x \<and>
     (y = take n x \<and> st' = wr_after st (take n x) \<or>
      y = take n x @ [DOT] \<and> n < length x \<and> x ! n = DOT \<and> wr_after st (take n x) = Wr_CrLf \<and> st' = Wr_Start)"

lemma stuff_prefix: "stuff st (xs @ ys) = xs @ ys \<Longrightarrow> stuff st xs = xs"
proof (induction xs arbitrary: st)
  case Nil
  then show ?case by simp
next
  case (Cons c cs)
  show ?case
  proof (cases "st = Wr_CrLf \<and> c = DOT")
    case True
    with Cons.prems have "DOT # stuff Wr_Start (cs @ ys) = cs @ ys" by simp
    then show ?thesis using length_stuff [of "cs @ ys" Wr_Start] by (metis Suc_n_not_le_n length_Cons)
  next
    case False
    with Cons show ?thesis by auto
  qed
qed

text \<open>
  The bookkeeping after a short write is right for a single buffer; for several buffers it is
  only needed where the sink stops before the end of what it is given.
\<close>

definition eager :: "'w poll_write \<Rightarrow> bool" where
  "eager poll_sink \<longleftrightarrow> (\<forall>w bufs w' n. poll_sink w bufs = (w', Ready (Inr n)) \<longrightarrow> n = total_len bufs)"

context async_write
begin

lemma poll_write_ok:
  assumes call: "wr_poll_write_vectored poll_sink self bufs = (self', Ready (Inr n))"
    and ok: "length bufs \<le> 1 \<or> eager poll_sink"
  shows "\<exists>y. wire (wr_write self') = wire (wr_write self) @ y \<and>
    wrote (wr_state self) (concat bufs) n (wr_state self') y"
proof -
  let ?st = "wr_state self" and ?x = "concat bufs"
  have single: "set_state_until ?st bufs s = wr_after ?st (take s ?x)"
    if "length bufs \<le> 1" "s \<le> length ?x" for s
    using that set_state_until_single [of s _ ?st] by (cases bufs) auto
  obtain st r where sc: "wr_scan_bufs ?st bufs = (st, r)" by force
  show ?thesis
  proof (cases r)
    case None
    note scn = wr_scan_bufs_None [OF sc [unfolded None]]
    from call sc None obtain w where w: "poll_sink (wr_write self) bufs = (w, Ready (Inr n))"
      and s': "wr_write self' = w" "wr_state self' = (if n = total_len bufs then st else set_state_until ?st bufs n)"
      by (auto simp: wr_poll_write_vectored_def Let_def split: prod.splits poll.splits sum.splits if_splits)
    from write_ok [OF w] have n: "n \<le> length ?x" "wire w = wire (wr_write self) @ take n ?x"
      by (simp_all add: total_len_concat)
    have "stuff ?st (take n ?x) = take n ?x"
      using scn stuff_prefix [of ?st "take n ?x" "drop n ?x"] by simp
    moreover have "wr_state self' = wr_after ?st (take n ?x)"
    proof (cases "n = total_len bufs")
      case True
      then show ?thesis using s'(2) scn by (simp add: total_len_concat)
    next
      case False
      with ok w have "length bufs \<le> 1" by (auto simp: eager_def)
      with False s'(2) n(1) single show ?thesis by simp
    qed
    ultimately show ?thesis using n s'(1) by (auto simp: wrote_def)
  next
    case (Some bi)
    then obtain b i where bi: "r = Some (b, i)" by (cases bi) auto
    let ?v = "take b bufs @ [take (Suc i) (bufs ! b)]"
    let ?k = "total_len (take b bufs) + i"
    note scs = wr_scan_bufs_Some [OF sc [unfolded bi]]
    have lv: "total_len ?v = Suc ?k" using scs by simp
    from call sc bi obtain w s where w: "poll_sink (wr_write self) ?v = (w, Ready (Inr s))"
      and s': "wr_write self' = w" "n = (if s = Suc ?k then ?k else s)"
        "wr_state self' = (if s = Suc ?k then Wr_Start else set_state_until ?st bufs s)"
      by (auto simp: wr_poll_write_vectored_def Let_def split: prod.splits poll.splits sum.splits if_splits)
    have cv: "concat ?v = take ?k ?x @ [DOT]" using scs by blast
    from write_ok [OF w] have n: "s \<le> Suc ?k" "wire w = wire (wr_write self) @ take s (take ?k ?x @ [DOT])"
      using lv by (simp_all only: cv)
    show ?thesis
    proof (cases "s = Suc ?k")
      case True
      then have "take s (take ?k ?x @ [DOT]) = take ?k ?x @ [DOT]" using scs by simp
      with True s' n scs show ?thesis by (auto simp: wrote_def)
    next
      case False
      moreover have "eager poll_sink \<Longrightarrow> s = total_len ?v" using w unfolding eager_def by blast
      ultimately have "length bufs \<le> 1" using ok lv by linarith
      moreover have sk: "s \<le> ?k" "n = s" using False n(1) s'(2) by auto
      moreover have t: "take s (take ?k ?x @ [DOT]) = take s ?x" using sk scs by simp
      moreover have "stuff ?st (take s ?x) = take s ?x"
        using scs stuff_prefix [of ?st "take s ?x" "drop s (take ?k ?x)"] sk
        by (metis append_take_drop_id min.absorb1 take_take)
      ultimately show ?thesis using False n(2) s' single [of s] scs by (auto simp: wrote_def)
    qed
  qed
qed

end

section \<open>Writing a message\<close>

text \<open>
  A caller that writes the message \<open>d\<close>: each call submits the next part of what has not been
  taken yet, in one or several buffers, and the reported count says how much of it was taken.
  \<open>writer_run P w0 d self a\<close>: after some such calls on a new writer over \<open>w0\<close>, all answered,
  the writer is \<open>self\<close> and the part \<open>a\<close> of \<open>d\<close> is taken.
\<close>

inductive writer_run ::
  "'w poll_write \<Rightarrow> 'w \<Rightarrow> bytes \<Rightarrow> 'w EscapingDataWriter \<Rightarrow> bytes \<Rightarrow> bool" for poll_sink w0 d where
  writer_start: "writer_run poll_sink w0 d (writer_new w0) []"
| writer_call: "\<lbrakk>writer_run poll_sink w0 d self a; prefix (a @ concat bufs) d;
      length bufs \<le> 1 \<or> eager poll_sink;
      wr_poll_write_vectored poll_sink self bufs = (self', Ready (Inr n))\<rbrakk>
    \<Longrightarrow> writer_run poll_sink w0 d self' (a @ take n (concat bufs))"

text \<open>
  The state between two calls: the taken part is on the wire, escaped; or it is, and so is the
  first dot of an escape whose own dot comes next.
\<close>

definition writer_inv :: "bytes \<Rightarrow> bytes \<Rightarrow> EscapingDataWriterState \<Rightarrow> bytes \<Rightarrow> bool" where
  "writer_inv d a st out \<longleftrightarrow> prefix a d \<and>
     (out = stuff Wr_CrLf a \<and> st = wr_after Wr_CrLf a \<or>
      out = stuff Wr_CrLf a @ [DOT] \<and> st = Wr_Start \<and> wr_after Wr_CrLf a = Wr_CrLf \<and> prefix (a @ [DOT]) d)"

lemma writer_inv_step:
  assumes inv: "writer_inv d a st out" and x: "prefix (a @ x) d" and w: "wrote st x n st' y"
  shows "writer_inv d (a @ take n x) st' (out @ y)"
proof -
  let ?z = "take n x"
  have pz: "prefix (a @ ?z) d"
    using x by (metis append_assoc append_take_drop_id append_prefixD)
  have next_dot: "prefix ((a @ ?z) @ [DOT]) d" if "n < length x" "x ! n = DOT"
  proof -
    have "a @ x = ((a @ ?z) @ [DOT]) @ drop (Suc n) x"
      using that by (metis append_assoc append_Cons append_Nil id_take_nth_drop)
    with x show ?thesis by (metis append_prefixD)
  qed
  from inv consider (A) "out = stuff Wr_CrLf a" "st = wr_after Wr_CrLf a"
    | (B) "out = stuff Wr_CrLf a @ [DOT]" "st = Wr_Start" "wr_after Wr_CrLf a = Wr_CrLf" "prefix (a @ [DOT]) d"
    unfolding writer_inv_def by blast
  then show ?thesis
  proof cases
    case A
    with w pz next_dot show ?thesis by (auto simp: writer_inv_def wrote_def stuff_append)
  next
    case B
    show ?thesis
    proof (cases ?z)
      case Nil
      with w B have "y = []" "st' = Wr_Start" by (auto simp: wrote_def)
      with B pz show ?thesis unfolding Nil by (simp add: writer_inv_def)
    next
      case (Cons c z)
      have "prefix (a @ [c]) d" using pz Cons by (metis append_Cons append_Nil append_assoc append_prefixD)
      with B(4) have "c = DOT"
        by (auto simp: prefix_def)
      then have "stuff Wr_CrLf (a @ ?z) = (stuff Wr_CrLf a @ [DOT]) @ stuff Wr_Start ?z"
          "wr_after Wr_CrLf (a @ ?z) = wr_after Wr_Start ?z"
        using B(3) Cons by (simp_all add: stuff_append)
      with w B(1,2) pz next_dot show ?thesis by (auto simp: writer_inv_def wrote_def)
    qed
  qed
qed

context async_write
begin

lemma writer_run_inv:
  "writer_run poll_sink w0 d self a \<Longrightarrow>
     \<exists>out. wire (wr_write self) = wire w0 @ out \<and> writer_inv d a (wr_state self) out"
proof (induction rule: writer_run.induct)
  case writer_start
  then show ?case by (simp add: writer_new_def writer_inv_def)
next
  case (writer_call self a bufs self' n)
  then obtain out y where "wire (wr_write self) = wire w0 @ out" "writer_inv d a (wr_state self) out"
      "wire (wr_write self') = wire (wr_write self) @ y"
      "wrote (wr_state self) (concat bufs) n (wr_state self') y"
    using poll_write_ok by blast
  with writer_inv_step writer_call.hyps(2) show ?case by (metis append_assoc)
qed

lemma writer_done:
  assumes "writer_run poll_sink w0 d self d"
  shows "wire (wr_write self) = wire w0 @ stuff Wr_CrLf d \<and> wr_state self = wr_after Wr_CrLf d"
  using writer_run_inv [OF assms] by (auto simp: writer_inv_def prefix_def)

end

text \<open>The \<^verbatim>\<open>write_all\<close> extension of a sink: on success everything is on the wire.\<close>

locale async_write_all = async_write +
  fixes write_all :: "'a \<Rightarrow> bytes \<Rightarrow> 'a \<times> unit io_result"
  assumes write_all_ok: "write_all w d = (w', Inr u) \<Longrightarrow> wire w' = wire w @ d"
begin

lemma finish_wire:
  assumes "writer_run poll_sink w0 d self d" "wr_finish write_all self = (w', Inr u)"
  shows "wire w' = wire w0 @ stuff Wr_CrLf d @ terminator (wr_after Wr_CrLf d)"
  using writer_done [OF assms(1)] assms(2) write_all_ok
  by (auto simp: wr_finish_def terminator_def split: EscapingDataWriterState.splits)

end

definition script_write_all :: "(bytes \<times> nat option list) \<Rightarrow> bytes \<Rightarrow> (bytes \<times> nat option list) \<times> unit io_result" where
  "script_write_all w d = ((fst w @ d, snd w), Inr ())"

interpretation script_sink_all: async_write_all script_write fst script_write_all
  by unfold_locales (auto simp: script_write_all_def)

section \<open>Properties\<close>


text \<open>
  The message \<^verbatim>\<open>".x"\<close> through a sink that takes one byte at a time: the first call puts the
  extra dot on the wire and reports that nothing was taken.
\<close>

lemma writer_run_example:
  "writer_run script_write ([], [Some 1, Some 1, Some 1]) ''.x'' \<lparr>wr_state = Wr_Start, wr_write = (''..x'', [])\<rparr> ''.x''"
proof -
  let ?run = "writer_run script_write ([], [Some 1, Some 1, Some 1]) ''.x''"
  have "?run \<lparr>wr_state = Wr_CrLf, wr_write = ([], [Some 1, Some 1, Some 1])\<rparr> []"
    using writer_start [of script_write "([], [Some 1, Some 1, Some 1])" "''.x''"] by (simp add: writer_new_def)
  from writer_call [OF this, of "[''.x'']" "\<lparr>wr_state = Wr_Start, wr_write = (''.'', [Some 1, Some 1])\<rparr>" 0]
  have "?run \<lparr>wr_state = Wr_Start, wr_write = (''.'', [Some 1, Some 1])\<rparr> []"
    by (simp add: wr_poll_write_vectored_def wr_step_def Let_def)
  from writer_call [OF this, of "[''.x'']" "\<lparr>wr_state = Wr_Start, wr_write = (''..'', [Some 1])\<rparr>" 1]
  have "?run \<lparr>wr_state = Wr_Start, wr_write = (''..'', [Some 1])\<rparr> ''.''"
    by (simp add: wr_poll_write_vectored_def wr_step_def Let_def subslice_def wr_after_def)
  from writer_call [OF this, of "[''x'']" "\<lparr>wr_state = Wr_Start, wr_write = (''..x'', [])\<rparr>" 1]
  show ?thesis
    by (simp add: wr_poll_write_vectored_def wr_step_def Let_def)
qed


section \<open>Where the bookkeeping goes wrong\<close>

text \<open>
  Claim C35. The first dot of an escape at the beginning of the submitted data is reported as 0 bytes
  taken, which the \<^verbatim>\<open>write_all\<close> and \<^verbatim>\<open>copy\<close> loops of \<^verbatim>\<open>futures\<close> take for a closed sink: on
  every sink that takes the one byte, a message that begins with a dot is not sent.
\<close>

theorem leading_dot_reports_zero:
  assumes "poll_sink w [[DOT]] = (w', Ready (Inr 1))"
  shows "wr_poll_write poll_sink (writer_new w) (DOT # s) =
    (\<lparr>wr_state = Wr_Start, wr_write = w'\<rparr>, Ready (Inr 0))"
  using assms by (simp add: wr_poll_write_def wr_poll_write_vectored_def writer_new_def)

lemma leading_dot_reports_zero_witness:
  "wr_poll_write script_write (writer_new ([], [])) ''.x'' =
    (\<lparr>wr_state = Wr_Start, wr_write = (''.'', [])\<rparr>, Ready (Inr 0))"
  by (rule leading_dot_reports_zero) simp


text \<open>
  After a short vectored write \<^verbatim>\<open>set_state_until\<close> looks at bytes that were not written: three
  bytes of \<^verbatim>\<open>"xx"\<close>, \<^verbatim>\<open>"\r\n.\r\n"\<close> leave the writer behind a line feed that is still to come,
  and the dot of the next call is not escaped.
\<close>

theorem short_vectored_write_loses_escape:
  "wr_poll_write_vectored script_write (writer_new ([], [Some 3])) [''xx'', EOD] =
     (\<lparr>wr_state = Wr_CrLf, wr_write = (''xx'' @ [CR], [])\<rparr>, Ready (Inr 3)) \<and>
   wr_poll_write script_write \<lparr>wr_state = Wr_CrLf, wr_write = (''xx'' @ [CR], [])\<rparr> [LF, DOT, CR, LF] =
     (\<lparr>wr_state = Wr_CrLf, wr_write = (''xx'' @ EOD, [])\<rparr>, Ready (Inr 4))"
  by (simp add: wr_poll_write_def wr_poll_write_vectored_def writer_new_def wr_step_def Let_def
      subslice_def wr_after_def)

end
