(* ===== verification/DataStream.thy ===== *)
theory DataStream
  imports DataReader DataUnescaper DataWriter
begin

text \<open>
  The three parts of \<^verbatim>\<open>smtp-message/src/data.rs\<close> together: what the escaping writer puts on the
  wire is one message for the reader, and the unescaper gives back what was written. This is
  what the crate's fuzz target \<^verbatim>\<open>escaping_then_unescaping\<close> samples.
\<close>

section \<open>Escaping and unescaping\<close>

text \<open>The line-break bytes a writer state stands for, and what the end of the message adds.\<close>

definition state_bytes :: "EscapingDataWriterState \<Rightarrow> bytes" where
  "state_bytes st = (case st of Wr_Start \<Rightarrow> [] | Wr_Cr \<Rightarrow> [CR] | Wr_CrLf \<Rightarrow> CRLF)"

definition line_closed :: "bytes \<Rightarrow> bytes" where
  "line_closed d = (if d \<noteq> [] \<and> \<not> ends_with d CRLF then d @ CRLF else d)"

definition on_wire :: "bytes \<Rightarrow> bytes" where
  "on_wire d = stuff Wr_CrLf d @ terminator (wr_after Wr_CrLf d)"

lemmas unstuff0_eval = unstuff0.simps(2) numeral_eq_Suc

lemma unstuff_stuff:
  "unstuff0 (state_bytes st @ stuff st d @ terminator (wr_after st d)) =
     state_bytes st @ d @ (if wr_after st d = Wr_CrLf then [] else CRLF)"
proof (induction d arbitrary: st)
  case Nil
  then show ?case
    by (cases st) (auto simp: state_bytes_def terminator_def unstuff0_eval)
next
  case (Cons c cs)
  have plain: "x \<noteq> CR \<Longrightarrow> unstuff0 (x # xs) = x # unstuff0 xs" for x xs
    using unstuff0_plain [of x xs] by (simp add: numeral_eq_Suc)
  note IH = Cons.IH [of "wr_step st c"]
  show ?case
  proof (cases "st = Wr_CrLf \<and> c = DOT")
    case True
    with Cons.IH [of Wr_Start] plain [of DOT] show ?thesis
      using unstuff0_escape [of "CRLF @ [DOT, DOT] @ stuff Wr_Start cs @ terminator (wr_after Wr_Start cs)"]
      by (simp add: state_bytes_def numeral_eq_Suc)
  next
    case False
    then show ?thesis using IH plain
      by (cases st) (auto simp: state_bytes_def wr_step_def unstuff0_eval)
  qed
qed

lemma wr_after_CrLf: "wr_after Wr_CrLf d = Wr_CrLf \<longleftrightarrow> d = [] \<or> ends_with d CRLF"
proof (cases d rule: rev_cases)
  case Nil
  then show ?thesis by simp
next
  case (snoc ys b)
  then show ?thesis by (cases ys rule: rev_cases) (auto simp: ends_with_def wr_step_def)
qed

lemma unstuff_on_wire: "unstuff (on_wire d) = line_closed d"
  using unstuff_stuff [of Wr_CrLf d] unstuff_behind_CRLF [of "on_wire d"] wr_after_CrLf [of d]
  by (auto simp: on_wire_def line_closed_def state_bytes_def)

text \<open>The marker occurs at the end of the wire and nowhere else.\<close>

definition eod_at_end :: "bytes \<Rightarrow> bool" where
  "eod_at_end s \<longleftrightarrow> (\<forall>p q. s = p @ EOD @ q \<longrightarrow> q = [])"

lemma eod_at_end_Cons:
  assumes "take 5 (c # cs) \<noteq> EOD"
  shows "eod_at_end (c # cs) \<longleftrightarrow> eod_at_end cs"
proof
  assume a: "eod_at_end (c # cs)"
  show "eod_at_end cs" unfolding eod_at_end_def
  proof (intro allI impI)
    fix p q assume "cs = p @ EOD @ q"
    then have "c # cs = (c # p) @ EOD @ q" by simp
    with a show "q = []" unfolding eod_at_end_def by blast
  qed
next
  assume a: "eod_at_end cs"
  show "eod_at_end (c # cs)" unfolding eod_at_end_def
  proof (intro allI impI)
    fix p q assume s: "c # cs = p @ EOD @ q"
    with assms obtain p' where "p = c # p'" by (cases p) auto
    with s a show "q = []" unfolding eod_at_end_def by auto
  qed
qed

lemma eod_at_end_marker: "eod_at_end EOD"
  by (auto simp: eod_at_end_def Cons_eq_append_conv)

lemma stuff_eod_at_end:
  "eod_at_end (state_bytes st @ stuff st d @ terminator (wr_after st d))"
proof (induction d arbitrary: st)
  case Nil
  then show ?case using eod_at_end_marker
    by (cases st) (auto simp: state_bytes_def terminator_def eod_at_end_Cons numeral_eq_Suc)
next
  case (Cons c cs)
  note IH = Cons.IH [of "wr_step st c"]
  show ?case
  proof (cases "st = Wr_CrLf \<and> c = DOT")
    case True
    with Cons.IH [of Wr_Start] show ?thesis
      by (simp add: state_bytes_def eod_at_end_Cons numeral_eq_Suc)
  next
    case False
    then show ?thesis using IH
      by (cases st) (auto simp: state_bytes_def wr_step_def eod_at_end_Cons numeral_eq_Suc split: if_splits)
  qed
qed

lemma end_of_data_on_wire: "end_of_data (on_wire d) (length (on_wire d))"
proof -
  have e: "eod_at_end (CRLF @ on_wire d)"
    using stuff_eod_at_end [of Wr_CrLf d] by (simp add: state_bytes_def on_wire_def)
  have "suffix EOD (CRLF @ on_wire d)"
  proof (cases "wr_after Wr_CrLf d = Wr_CrLf")
    case True
    have "suffix CRLF (CRLF @ stuff Wr_CrLf d)"
    proof (cases "d = []")
      case False
      with True obtain d' where "d = d' @ CRLF" by (auto simp: wr_after_CrLf ends_with_iff_suffix suffix_def)
      then have "CRLF @ stuff Wr_CrLf d = (CRLF @ stuff Wr_CrLf d') @ CRLF" by (simp add: stuff_append)
      then show ?thesis by (metis suffixI)
    qed simp
    then obtain z where "CRLF @ stuff Wr_CrLf d = z @ CRLF" by (auto simp: suffix_def)
    then have "CRLF @ on_wire d = z @ EOD" using True by (simp add: on_wire_def terminator_def)
    then show ?thesis by (metis suffixI)
  next
    case False
    then have "CRLF @ on_wire d = (CRLF @ stuff Wr_CrLf d) @ EOD" by (simp add: on_wire_def terminator_def)
    then show ?thesis by (metis suffixI)
  qed
  moreover have "\<not> suffix EOD (CRLF @ take k (on_wire d))" if "k < length (on_wire d)" for k
  proof
    assume "suffix EOD (CRLF @ take k (on_wire d))"
    then obtain p where "CRLF @ take k (on_wire d) = p @ EOD" by (auto simp: suffix_def)
    then have "CRLF @ on_wire d = p @ EOD @ drop k (on_wire d)"
      by (metis append_assoc append_take_drop_id)
    with e have "drop k (on_wire d) = []" unfolding eod_at_end_def by blast
    with that show False by simp
  qed
  ultimately show ?thesis by (simp add: end_of_data_def)
qed

section \<open>Properties\<close>


text \<open>The message \<^verbatim>\<open>".x"\<close> again, with a pipelined \<^verbatim>\<open>QUIT\<close> behind it.\<close>

lemma reader_run_example:
  "\<exists>rd. reader_run script_read (reader_new (''..x'' @ EOD @ ''Q'') 0 9 [''UIT'']) (concat [''..'', ''x'' @ EOD]) rd \<and>
     is_finished rd"
proof -
  let ?d0 = "reader_new (''..x'' @ EOD @ ''Q'') 0 9 [''UIT'']"
  define d1 where "d1 = ?d0\<lparr>rd_start := 2, rd_state := Rd_Start\<rparr>"
  define d2 where "d2 = d1\<lparr>rd_start := 8, rd_state := Rd_End\<rparr>"
  note defs = d2_def d1_def reader_new_def poll_read_vectored_def poll_scan_def
    is_finished_def subslice_def rd_step_def numeral_eq_Suc Let_def
  have p1: "poll_read_vectored script_read ?d0 [''__''] = Value (d1, [''..''], Ready (Inr 2))"
    by (simp add: defs)
  have p2: "poll_read_vectored script_read d1 [''______''] = Value (d2, [''x'' @ EOD], Ready (Inr 6))"
    by (simp add: defs)
  have "reader_run script_read ?d0 (concat [''..'', ''x'' @ EOD]) d2"
    using reader_run.delivered [OF reader_run.delivered [OF reader_run.start p1] p2]
    by (simp add: numeral_eq_Suc)
  moreover have "is_finished d2" by (simp add: defs)
  ultimately show ?thesis by blast
qed


end
