(* ===== verification/Message.thy ===== *)
theory Message
  imports Prelude
begin

text \<open>
  The data model of \<^verbatim>\<open>smtp-message/src/misc.rs\<close>: strings that are ASCII or UTF-8, host names,
  local parts, e-mail addresses and source routes, generic in the string type as in the code;
  their printed forms; the search for a line end over consecutive buffers; and the unquoting of
  local parts. A Rust string is the list of its UTF-8 bytes.
\<close>

section \<open>Finding the end of a line\<close>

datatype NextCrLfState = Nc_Start | Nc_CrPassed

definition next_crlf :: "bytes \<Rightarrow> NextCrLfState \<Rightarrow> nat option \<times> NextCrLfState" where
  "next_crlf buf state =
     (if buf = [] then (None, state)
      else if state = Nc_CrPassed \<and> buf ! 0 = LF then (Some 0, state)
      else case find_window CRLF buf of
             Some p \<Rightarrow> (Some (p + 1), state)
           | None \<Rightarrow> (None, if buf ! (length buf - 1) = CR then Nc_CrPassed else Nc_Start))"

section \<open>Strings\<close>

datatype 's MaybeUtf8 = Ascii 's | Utf8 's

fun maybe_io_slices :: "bytes MaybeUtf8 \<Rightarrow> bytes list" where
  "maybe_io_slices (Ascii s) = [s]"
| "maybe_io_slices (Utf8 s) = [s]"

fun maybe_str :: "'s MaybeUtf8 \<Rightarrow> 's" where
  "maybe_str (Ascii s) = s"
| "maybe_str (Utf8 s) = s"

definition is_ascii :: "bytes \<Rightarrow> bool" where
  "is_ascii s \<longleftrightarrow> (\<forall>c \<in> set s. of_char c < (128 :: nat))"

text \<open>\<^verbatim>\<open>MaybeUtf8::from(&str)\<close>\<close>

definition maybe_from :: "bytes \<Rightarrow> bytes MaybeUtf8" where
  "maybe_from s = (if is_ascii s then Ascii s else Utf8 s)"

text \<open>\<^verbatim>\<open>convert\<close>, and with the identity on the text \<^verbatim>\<open>to_owned\<close>.\<close>

fun maybe_convert :: "('s \<Rightarrow> 't) \<Rightarrow> 's MaybeUtf8 \<Rightarrow> 't MaybeUtf8" where
  "maybe_convert f (Ascii s) = Ascii (f s)"
| "maybe_convert f (Utf8 s) = Utf8 (f s)"

section \<open>Host names\<close>

type_synonym Ipv4Addr = "32 word"
type_synonym Ipv6Addr = "128 word"

datatype 's Hostname =
    Utf8Domain 's bytes
  | AsciiDomain 's
  | Ipv6 's Ipv6Addr
  | Ipv4 's Ipv4Addr

fun hostname_raw :: "'s Hostname \<Rightarrow> 's" where
  "hostname_raw (Utf8Domain raw punycode) = raw"
| "hostname_raw (AsciiDomain raw) = raw"
| "hostname_raw (Ipv4 raw ip) = raw"
| "hostname_raw (Ipv6 raw ip) = raw"

definition hostname_io_slices :: "bytes Hostname \<Rightarrow> bytes list" where
  "hostname_io_slices h = [hostname_raw h]"

text \<open>\<^verbatim>\<open>fmt::Display\<close>\<close>

definition hostname_display :: "bytes Hostname \<Rightarrow> bytes" where
  "hostname_display h = hostname_raw h"

text \<open>\<^verbatim>\<open>PartialEq\<close>: only the \<^verbatim>\<open>raw\<close> field is compared.\<close>

definition hostname_eq :: "'s Hostname \<Rightarrow> 's Hostname \<Rightarrow> bool" where
  "hostname_eq h o' \<longleftrightarrow> hostname_raw h = hostname_raw o'"

fun hostname_deep_equal :: "'s Hostname \<Rightarrow> 's Hostname \<Rightarrow> bool" where
  "hostname_deep_equal (Utf8Domain raw p) (Utf8Domain raw2 p2) \<longleftrightarrow> raw = raw2 \<and> p = p2"
| "hostname_deep_equal (AsciiDomain raw) (AsciiDomain raw2) \<longleftrightarrow> raw = raw2"
| "hostname_deep_equal (Ipv4 raw ip) (Ipv4 raw2 ip2) \<longleftrightarrow> raw = raw2 \<and> ip = ip2"
| "hostname_deep_equal (Ipv6 raw ip) (Ipv6 raw2 ip2) \<longleftrightarrow> raw = raw2 \<and> ip = ip2"
| "hostname_deep_equal _ _ \<longleftrightarrow> False"

text \<open>\<^verbatim>\<open>to_ref\<close> and \<^verbatim>\<open>into_owned\<close>: the same value over another string type.\<close>

fun hostname_convert :: "('s \<Rightarrow> 't) \<Rightarrow> 's Hostname \<Rightarrow> 't Hostname" where
  "hostname_convert f (Utf8Domain raw punycode) = Utf8Domain (f raw) punycode"
| "hostname_convert f (AsciiDomain raw) = AsciiDomain (f raw)"
| "hostname_convert f (Ipv4 raw ip) = Ipv4 (f raw) ip"
| "hostname_convert f (Ipv6 raw ip) = Ipv6 (f raw) ip"

section \<open>Local parts\<close>

datatype 's Localpart =
    Lp_Ascii 's
  | Lp_QuotedAscii 's
  | Lp_Utf8 's
  | Lp_QuotedUtf8 's

fun localpart_raw :: "'s Localpart \<Rightarrow> 's" where
  "localpart_raw (Lp_Ascii raw) = raw"
| "localpart_raw (Lp_QuotedAscii raw) = raw"
| "localpart_raw (Lp_Utf8 raw) = raw"
| "localpart_raw (Lp_QuotedUtf8 raw) = raw"

definition localpart_io_slices :: "bytes Localpart \<Rightarrow> bytes list" where
  "localpart_io_slices l = [localpart_raw l]"

definition localpart_display :: "bytes Localpart \<Rightarrow> bytes" where
  "localpart_display l = localpart_raw l"

definition localpart_eq :: "'s Localpart \<Rightarrow> 's Localpart \<Rightarrow> bool" where
  "localpart_eq l o' \<longleftrightarrow> localpart_raw l = localpart_raw o'"

text \<open>
  The \<^verbatim>\<open>scan\<close> of \<^verbatim>\<open>unquoted\<close>. Its special characters are ASCII and no byte of a multi-byte
  UTF-8 sequence is, so going byte by byte is going character by character.
\<close>

datatype UnquoteState = Uq_Start | Uq_Backslash

fun unquote_scan :: "UnquoteState \<Rightarrow> bytes \<Rightarrow> bytes" where
  "unquote_scan st [] = []"
| "unquote_scan Uq_Backslash (x # xs) = x # unquote_scan Uq_Start xs"
| "unquote_scan Uq_Start (x # xs) =
     (if x = QUOTE then unquote_scan Uq_Start xs
      else if x = BACKSLASH then unquote_scan Uq_Backslash xs
      else x # unquote_scan Uq_Start xs)"

definition unquoted :: "bytes \<Rightarrow> bytes" where
  "unquoted s = unquote_scan Uq_Start (drop 1 s)"

fun localpart_unquote :: "bytes Localpart \<Rightarrow> bytes MaybeUtf8" where
  "localpart_unquote (Lp_Ascii raw) = Ascii raw"
| "localpart_unquote (Lp_Utf8 raw) = Utf8 raw"
| "localpart_unquote (Lp_QuotedAscii raw) = Ascii (unquoted raw)"
| "localpart_unquote (Lp_QuotedUtf8 raw) = Utf8 (unquoted raw)"

fun localpart_convert :: "('s \<Rightarrow> 't) \<Rightarrow> 's Localpart \<Rightarrow> 't Localpart" where
  "localpart_convert f (Lp_Ascii raw) = Lp_Ascii (f raw)"
| "localpart_convert f (Lp_Utf8 raw) = Lp_Utf8 (f raw)"
| "localpart_convert f (Lp_QuotedAscii raw) = Lp_QuotedAscii (f raw)"
| "localpart_convert f (Lp_QuotedUtf8 raw) = Lp_QuotedUtf8 (f raw)"

section \<open>Addresses and routes\<close>

record 's Email =
  em_localpart :: "'s Localpart"
  em_hostname :: "'s Hostname option"

definition email_io_slices :: "bytes Email \<Rightarrow> bytes list" where
  "email_io_slices e = localpart_io_slices (em_localpart e) @
     (case em_hostname e of Some h \<Rightarrow> [''@''] @ hostname_io_slices h | None \<Rightarrow> [])"

definition email_display :: "bytes Email \<Rightarrow> bytes" where
  "email_display e =
     (case em_hostname e of
        Some h \<Rightarrow> ''<'' @ localpart_display (em_localpart e) @ ''@'' @ hostname_display h @ ''>''
      | None \<Rightarrow> ''<'' @ localpart_display (em_localpart e) @ ''>'')"

definition email_convert :: "('s \<Rightarrow> 't) \<Rightarrow> 's Email \<Rightarrow> 't Email" where
  "email_convert f e =
     \<lparr>em_localpart = localpart_convert f (em_localpart e), em_hostname = map_option (hostname_convert f) (em_hostname e)\<rparr>"

record 's Path =
  domains :: "'s Hostname list"

text \<open>\<^verbatim>\<open>"@"\<close> in front of the first domain, \<^verbatim>\<open>",@"\<close> in front of the others.\<close>

definition path_io_slices :: "bytes Path \<Rightarrow> bytes list" where
  "path_io_slices p =
     concat (map (\<lambda>(i, d). [if i = 0 then ''@'' else '',@''] @ hostname_io_slices d)
       (zip [0..<length (domains p)] (domains p)))"

section \<open>Line ends over several buffers\<close>

text \<open>\<open>line_feed st s\<close>: where the first line end is completed, with \<open>st\<close> saying whether a carriage
  return has just passed.\<close>

fun line_feed :: "NextCrLfState \<Rightarrow> bytes \<Rightarrow> nat option" where
  "line_feed st [] = None"
| "line_feed st (c # cs) =
     (if st = Nc_CrPassed \<and> c = LF then Some 0
      else map_option Suc (line_feed (if c = CR then Nc_CrPassed else Nc_Start) cs))"

lemma line_feed_CrPassed:
  "line_feed Nc_CrPassed s = (if s \<noteq> [] \<and> s ! 0 = LF then Some 0 else line_feed Nc_Start s)"
  by (cases s) auto

lemma line_feed_Start: "line_feed Nc_Start s = map_option Suc (find_window CRLF s)"
proof (induction s)
  case Nil
  then show ?case by simp
next
  case (Cons c cs)
  then show ?case by (cases cs) (auto simp: line_feed_CrPassed)
qed

lemma next_crlf_line_feed:
  "next_crlf buf st = (line_feed st buf,
     if line_feed st buf = None \<and> buf \<noteq> [] then (if last buf = CR then Nc_CrPassed else Nc_Start) else st)"
  by (cases st) (auto simp: next_crlf_def line_feed_CrPassed line_feed_Start last_conv_nth split: option.splits)

lemma line_feed_append:
  "line_feed st (xs @ ys) = (case line_feed st xs of
     Some i \<Rightarrow> Some i
   | None \<Rightarrow> map_option (\<lambda>i. i + length xs)
       (line_feed (if xs = [] then st else if last xs = CR then Nc_CrPassed else Nc_Start) ys))"
  by (induction xs arbitrary: st) (auto simp: option.map_comp comp_def option.map_ident split: option.splits)

text \<open>A caller that looks through consecutive buffers with one state.\<close>

fun next_crlf_bufs :: "NextCrLfState \<Rightarrow> bytes list \<Rightarrow> nat option" where
  "next_crlf_bufs st [] = None"
| "next_crlf_bufs st (buf # bufs) =
     (case next_crlf buf st of
        (Some i, st') \<Rightarrow> Some i
      | (None, st') \<Rightarrow> map_option (\<lambda>i. i + length buf) (next_crlf_bufs st' bufs))"

lemma next_crlf_bufs_line_feed: "next_crlf_bufs st bufs = line_feed st (concat bufs)"
proof (induction bufs arbitrary: st)
  case Nil
  then show ?case by simp
next
  case (Cons buf bufs)
  then show ?case by (auto simp: next_crlf_line_feed line_feed_append split: option.splits)
qed

text \<open>
  Claim C8. Called on consecutive buffers with the same state, \<^verbatim>\<open>next_crlf\<close> finds the line feed of
  the first \<^verbatim>\<open>"\r\n"\<close> of the whole stream, also when it is cut between two buffers, and finds
  nothing when there is none.
\<close>

theorem next_crlf_finds_first:
  "next_crlf_bufs Nc_Start bufs = map_option Suc (find_window CRLF (concat bufs))"
  by (simp add: next_crlf_bufs_line_feed line_feed_Start)

section \<open>Quoting\<close>

text \<open>The quoted form of a local part: a backslash in front of quotes and backslashes.\<close>

definition quote :: "bytes \<Rightarrow> bytes" where
  "quote s = [QUOTE] @ concat (map (\<lambda>c. if c = QUOTE \<or> c = BACKSLASH then [BACKSLASH, c] else [c]) s) @ [QUOTE]"

lemma unquote_scan_quoted:
  "unquote_scan Uq_Start (concat (map (\<lambda>c. if c = QUOTE \<or> c = BACKSLASH then [BACKSLASH, c] else [c]) s) @ [QUOTE]) = s"
  by (induction s) auto

text \<open>
  \<^verbatim>\<open>unquote\<close> undoes quoting: the quoted form of any string unquotes to the string, and
  an unquoted local part is returned as it is.
\<close>

theorem unquote_quoted:
  "localpart_unquote (Lp_QuotedAscii (quote s)) = Ascii s \<and>
   localpart_unquote (Lp_QuotedUtf8 (quote s)) = Utf8 s \<and>
   localpart_unquote (Lp_Ascii s) = Ascii s \<and> localpart_unquote (Lp_Utf8 s) = Utf8 s"
  by (simp add: unquoted_def quote_def unquote_scan_quoted)

section \<open>Printed forms\<close>

lemma maybe_wire [message_simps]: "concat (maybe_io_slices m) = maybe_str m"
  by (cases m) auto

lemma hostname_wire [message_simps]: "concat (hostname_io_slices h) = hostname_raw h"
  by (simp add: hostname_io_slices_def)

lemma email_wire [message_simps]:
  "concat (email_io_slices e) = localpart_raw (em_localpart e) @
     (case em_hostname e of Some h \<Rightarrow> ''@'' @ hostname_raw h | None \<Rightarrow> [])"
  by (simp add: email_io_slices_def localpart_io_slices_def hostname_io_slices_def split: option.split)

text \<open>A route, domain after domain.\<close>

fun route :: "bytes Hostname list \<Rightarrow> bytes" where
  "route [] = []"
| "route [d] = ''@'' @ hostname_raw d"
| "route (d # ds) = ''@'' @ hostname_raw d @ '','' @ route ds"

lemma path_wire_from:
  "concat (concat (map (\<lambda>(i, d). [if i = 0 then ''@'' else '',@''] @ hostname_io_slices d)
     (zip [Suc k..<Suc k + length ds] ds))) = (if ds = [] then [] else '','' @ route ds)"
proof (induction ds arbitrary: k)
  case Nil
  then show ?case by simp
next
  case (Cons d ds)
  have "[Suc k..<Suc k + length (d # ds)] = Suc k # [Suc (Suc k)..<Suc (Suc k) + length ds]"
    by (subst upt_conv_Cons) auto
  then show ?case using Cons.IH [of "Suc k"] by (cases ds) (auto simp: hostname_io_slices_def)
qed

lemma path_wire [message_simps]: "concat (path_io_slices p) = route (domains p)"
proof (cases "domains p")
  case Nil
  then show ?thesis by (simp add: path_io_slices_def)
next
  case (Cons d ds)
  have "[0..<length (d # ds)] = 0 # [Suc 0..<Suc 0 + length ds]" by (subst upt_conv_Cons) auto
  with Cons path_wire_from [of 0 ds] show ?thesis
    by (cases ds) (auto simp: path_io_slices_def hostname_io_slices_def)
qed

text \<open>
  Converting the string type of an address changes nothing of what is printed, and back and
  forth is the identity.
\<close>

lemma hostname_raw_convert [simp]: "hostname_raw (hostname_convert f h) = f (hostname_raw h)"
  by (cases h) auto

lemma hostname_convert_convert [simp]:
  "hostname_convert g (hostname_convert f h) = hostname_convert (\<lambda>s. g (f s)) h"
  by (cases h) auto

lemma localpart_convert_convert [simp]:
  "localpart_convert g (localpart_convert f l) = localpart_convert (\<lambda>s. g (f s)) l"
  by (cases l) auto

lemma email_convert_convert:
  "email_convert g (email_convert f e) = email_convert (\<lambda>s. g (f s)) e"
  by (simp add: email_convert_def option.map_comp comp_def)

end
