(* ===== verification/Replies.thy ===== *)
theory Replies
  imports Message
begin

text \<open>
  Replies of \<^verbatim>\<open>smtp-message/src/reply.rs\<close>: reply codes with their kind, category and numeric
  value, the enhanced status codes with the table of named ones, reply lines and replies, and
  their printed forms. The named reply codes keep their names.
\<close>

section \<open>Reply codes\<close>

datatype ReplyCodeKind =
  PositiveCompletion | PositiveIntermediate | TransientNegative | PermanentNegative

datatype ReplyCodeCategory = Syntax | Information | Connection | ReceiverStatus | Unspecified

text \<open>\<^verbatim>\<open>ReplyCode([u8; 3])\<close>\<close>

datatype ReplyCode = ReplyCode byte byte byte

definition SYSTEM_STATUS :: ReplyCode where
  "SYSTEM_STATUS = ReplyCode (CHR ''2'') (CHR ''1'') (CHR ''1'')"

definition HELP_MESSAGE :: ReplyCode where
  "HELP_MESSAGE = ReplyCode (CHR ''2'') (CHR ''1'') (CHR ''4'')"

definition SERVICE_READY :: ReplyCode where
  "SERVICE_READY = ReplyCode (CHR ''2'') (CHR ''2'') (CHR ''0'')"

definition CLOSING_CHANNEL :: ReplyCode where
  "CLOSING_CHANNEL = ReplyCode (CHR ''2'') (CHR ''2'') (CHR ''1'')"

definition OKAY :: ReplyCode where
  "OKAY = ReplyCode (CHR ''2'') (CHR ''5'') (CHR ''0'')"

definition USER_NOT_LOCAL_WILL_FORWARD :: ReplyCode where
  "USER_NOT_LOCAL_WILL_FORWARD = ReplyCode (CHR ''2'') (CHR ''5'') (CHR ''1'')"

definition CANNOT_VRFY_BUT_PLEASE_TRY :: ReplyCode where
  "CANNOT_VRFY_BUT_PLEASE_TRY = ReplyCode (CHR ''2'') (CHR ''5'') (CHR ''2'')"

definition START_MAIL_INPUT :: ReplyCode where
  "START_MAIL_INPUT = ReplyCode (CHR ''3'') (CHR ''5'') (CHR ''4'')"

definition SERVICE_NOT_AVAILABLE :: ReplyCode where
  "SERVICE_NOT_AVAILABLE = ReplyCode (CHR ''4'') (CHR ''2'') (CHR ''1'')"

definition MAILBOX_TEMPORARILY_UNAVAILABLE :: ReplyCode where
  "MAILBOX_TEMPORARILY_UNAVAILABLE = ReplyCode (CHR ''4'') (CHR ''5'') (CHR ''0'')"

definition LOCAL_ERROR :: ReplyCode where
  "LOCAL_ERROR = ReplyCode (CHR ''4'') (CHR ''5'') (CHR ''1'')"

definition INSUFFICIENT_STORAGE :: ReplyCode where
  "INSUFFICIENT_STORAGE = ReplyCode (CHR ''4'') (CHR ''5'') (CHR ''2'')"

definition UNABLE_TO_ACCEPT_PARAMETERS :: ReplyCode where
  "UNABLE_TO_ACCEPT_PARAMETERS = ReplyCode (CHR ''4'') (CHR ''5'') (CHR ''5'')"

definition COMMAND_UNRECOGNIZED :: ReplyCode where
  "COMMAND_UNRECOGNIZED = ReplyCode (CHR ''5'') (CHR ''0'') (CHR ''0'')"

definition SYNTAX_ERROR :: ReplyCode where
  "SYNTAX_ERROR = ReplyCode (CHR ''5'') (CHR ''0'') (CHR ''1'')"

definition COMMAND_UNIMPLEMENTED :: ReplyCode where
  "COMMAND_UNIMPLEMENTED = ReplyCode (CHR ''5'') (CHR ''0'') (CHR ''2'')"

definition BAD_SEQUENCE :: ReplyCode where
  "BAD_SEQUENCE = ReplyCode (CHR ''5'') (CHR ''0'') (CHR ''3'')"

definition PARAMETER_UNIMPLEMENTED :: ReplyCode where
  "PARAMETER_UNIMPLEMENTED = ReplyCode (CHR ''5'') (CHR ''0'') (CHR ''4'')"

definition SERVER_DOES_NOT_ACCEPT_MAIL :: ReplyCode where
  "SERVER_DOES_NOT_ACCEPT_MAIL = ReplyCode (CHR ''5'') (CHR ''2'') (CHR ''1'')"

definition MAILBOX_UNAVAILABLE :: ReplyCode where
  "MAILBOX_UNAVAILABLE = ReplyCode (CHR ''5'') (CHR ''5'') (CHR ''0'')"

definition POLICY_REASON :: ReplyCode where
  "POLICY_REASON = ReplyCode (CHR ''5'') (CHR ''5'') (CHR ''0'')"

definition USER_NOT_LOCAL :: ReplyCode where
  "USER_NOT_LOCAL = ReplyCode (CHR ''5'') (CHR ''5'') (CHR ''1'')"

definition EXCEEDED_STORAGE :: ReplyCode where
  "EXCEEDED_STORAGE = ReplyCode (CHR ''5'') (CHR ''5'') (CHR ''2'')"

definition MAILBOX_NAME_INCORRECT :: ReplyCode where
  "MAILBOX_NAME_INCORRECT = ReplyCode (CHR ''5'') (CHR ''5'') (CHR ''3'')"

definition TRANSACTION_FAILED :: ReplyCode where
  "TRANSACTION_FAILED = ReplyCode (CHR ''5'') (CHR ''5'') (CHR ''4'')"

definition MAIL_OR_RCPT_PARAMETER_UNIMPLEMENTED :: ReplyCode where
  "MAIL_OR_RCPT_PARAMETER_UNIMPLEMENTED = ReplyCode (CHR ''5'') (CHR ''5'') (CHR ''5'')"

definition DOMAIN_DOES_NOT_ACCEPT_MAIL :: ReplyCode where
  "DOMAIN_DOES_NOT_ACCEPT_MAIL = ReplyCode (CHR ''5'') (CHR ''5'') (CHR ''6'')"

lemmas reply_code_consts = SYSTEM_STATUS_def HELP_MESSAGE_def SERVICE_READY_def CLOSING_CHANNEL_def OKAY_def USER_NOT_LOCAL_WILL_FORWARD_def CANNOT_VRFY_BUT_PLEASE_TRY_def START_MAIL_INPUT_def SERVICE_NOT_AVAILABLE_def MAILBOX_TEMPORARILY_UNAVAILABLE_def LOCAL_ERROR_def INSUFFICIENT_STORAGE_def UNABLE_TO_ACCEPT_PARAMETERS_def COMMAND_UNRECOGNIZED_def SYNTAX_ERROR_def COMMAND_UNIMPLEMENTED_def BAD_SEQUENCE_def PARAMETER_UNIMPLEMENTED_def SERVER_DOES_NOT_ACCEPT_MAIL_def MAILBOX_UNAVAILABLE_def POLICY_REASON_def USER_NOT_LOCAL_def EXCEEDED_STORAGE_def MAILBOX_NAME_INCORRECT_def TRANSACTION_FAILED_def MAIL_OR_RCPT_PARAMETER_UNIMPLEMENTED_def DOMAIN_DOES_NOT_ACCEPT_MAIL_def

fun reply_code_kind :: "ReplyCode \<Rightarrow> ReplyCodeKind run" where
  "reply_code_kind (ReplyCode a b c) =
     (if a = CHR ''2'' then Value PositiveCompletion
      else if a = CHR ''3'' then Value PositiveIntermediate
      else if a = CHR ''4'' then Value TransientNegative
      else if a = CHR ''5'' then Value PermanentNegative
      else Panic)"

fun reply_code_category :: "ReplyCode \<Rightarrow> ReplyCodeCategory" where
  "reply_code_category (ReplyCode a b c) =
     (if b = CHR ''0'' then Syntax
      else if b = CHR ''1'' then Information
      else if b = CHR ''2'' then Connection
      else if b = CHR ''5'' then ReceiverStatus
      else Unspecified)"

text \<open>\<^verbatim>\<open>u8 as u16\<close>, and \<^verbatim>\<open>code\<close> in 16-bit arithmetic.\<close>

definition u16_of_byte :: "byte \<Rightarrow> 16 word" where
  "u16_of_byte c = word_of_nat (of_char c)"

fun reply_code_code :: "ReplyCode \<Rightarrow> 16 word" where
  "reply_code_code (ReplyCode a b c) =
     u16_of_byte a * 100 + u16_of_byte b * 10 + u16_of_byte c - u16_of_byte (CHR ''0'') * 111"

fun reply_code_io_slices :: "ReplyCode \<Rightarrow> bytes list" where
  "reply_code_io_slices (ReplyCode a b c) = [[a, b, c]]"

section \<open>Enhanced status codes\<close>

datatype EnhancedReplyCodeClass = Success | PersistentTransient | PermanentFailure

fun class_digit :: "EnhancedReplyCodeClass \<Rightarrow> byte" where
  "class_digit Success = CHR ''2''"
| "class_digit PersistentTransient = CHR ''4''"
| "class_digit PermanentFailure = CHR ''5''"

datatype EnhancedReplyCodeSubject =
  Undefined | Addressing | Mailbox | MailSystem | Network | MailDelivery | Content | Policy

record 's EnhancedReplyCode =
  ec_raw :: 's
  ec_class :: EnhancedReplyCodeClass
  ec_raw_subject :: "16 word"
  ec_raw_detail :: "16 word"

text \<open>A number in decimal, as \<^verbatim>\<open>stringify!\<close> gives a literal.\<close>

definition digit :: "nat \<Rightarrow> byte" where
  "digit n = char_of (48 + n)"

fun decimal :: "nat \<Rightarrow> bytes" where
  "decimal n = (if n < 10 then [digit n] else decimal (n div 10) @ [digit (n mod 10)])"

declare decimal.simps [simp del]

text \<open>One constant of the macro \<^verbatim>\<open>extended_reply_codes!\<close>, and a row of the table.\<close>

definition extended_reply_code :: "EnhancedReplyCodeClass \<Rightarrow> nat \<Rightarrow> nat \<Rightarrow> bytes EnhancedReplyCode" where
  "extended_reply_code cls subject detail =
     \<lparr>ec_raw = [class_digit cls] @ ''.'' @ decimal subject @ ''.'' @ decimal detail,
      ec_class = cls, ec_raw_subject = word_of_nat subject, ec_raw_detail = word_of_nat detail\<rparr>"

definition extended_reply_row ::
  "string option \<times> string option \<times> string option \<times> nat \<times> nat \<Rightarrow> (string \<times> bytes EnhancedReplyCode) list" where
  "extended_reply_row = (\<lambda>(success, transient, permanent, subject, detail).
     (case success of Some n \<Rightarrow> [(n, extended_reply_code Success subject detail)] | None \<Rightarrow> []) @
     (case transient of Some n \<Rightarrow> [(n, extended_reply_code PersistentTransient subject detail)] | None \<Rightarrow> []) @
     (case permanent of Some n \<Rightarrow> [(n, extended_reply_code PermanentFailure subject detail)] | None \<Rightarrow> []))"

definition extended_reply_table ::
  "(string option \<times> string option \<times> string option \<times> nat \<times> nat) list" where
  "extended_reply_table =
    [(Some ''SUCCESS_UNDEFINED'', Some ''TRANSIENT_UNDEFINED'', Some ''PERMANENT_UNDEFINED'', 0, 0),
     (Some ''SUCCESS_ADDRESS_OTHER'', Some ''TRANSIENT_ADDRESS_OTHER'', Some ''PERMANENT_ADDRESS_OTHER'', 1, 0),
     (None, None, Some ''PERMANENT_BAD_DEST_MAILBOX'', 1, 1),
     (None, None, Some ''PERMANENT_BAD_DEST_SYSTEM'', 1, 2),
     (None, None, Some ''PERMANENT_BAD_DEST_MAILBOX_SYNTAX'', 1, 3),
     (Some ''SUCCESS_DEST_MAILBOX_AMBIGUOUS'', Some ''TRANSIENT_DEST_MAILBOX_AMBIGUOUS'', Some ''PERMANENT_DEST_MAILBOX_AMBIGUOUS'', 1, 4),
     (Some ''SUCCESS_DEST_VALID'', None, None, 1, 5),
     (None, None, Some ''PERMANENT_DEST_MAILBOX_HAS_MOVED'', 1, 6),
     (None, None, Some ''PERMANENT_BAD_SENDER_MAILBOX_SYNTAX'', 1, 7),
     (None, Some ''TRANSIENT_BAD_SENDER_SYSTEM'', Some ''PERMANENT_BAD_SENDER_SYSTEM'', 1, 8),
     (Some ''SUCCESS_MESSAGE_RELAYED_TO_NON_COMPLIANT_MAILER'', None, Some ''PERMANENT_MESSAGE_RELAYED_TO_NON_COMPLIANT_MAILER'', 1, 9),
     (None, None, Some ''PERMANENT_RECIPIENT_ADDRESS_HAS_NULL_MX'', 1, 10),
     (Some ''SUCCESS_MAILBOX_OTHER'', Some ''TRANSIENT_MAILBOX_OTHER'', Some ''PERMANENT_MAILBOX_OTHER'', 2, 0),
     (None, Some ''TRANSIENT_MAILBOX_DISABLED'', Some ''PERMANENT_MAILBOX_DISABLED'', 2, 1),
     (None, Some ''TRANSIENT_MAILBOX_FULL'', None, 2, 2),
     (None, None, Some ''PERMANENT_MESSAGE_TOO_LONG_FOR_MAILBOX'', 2, 3),
     (None, Some ''TRANSIENT_MAILING_LIST_EXPANSION_ISSUE'', Some ''PERMANENT_MAILING_LIST_EXPANSION_ISSUE'', 2, 4),
     (Some ''SUCCESS_SYSTEM_OTHER'', Some ''TRANSIENT_SYSTEM_OTHER'', Some ''PERMANENT_SYSTEM_OTHER'', 3, 0),
     (None, Some ''TRANSIENT_SYSTEM_FULL'', None, 3, 1),
     (None, Some ''TRANSIENT_SYSTEM_NOT_ACCEPTING_MESSAGES'', Some ''PERMANENT_SYSTEM_NOT_ACCEPTING_MESSAGES'', 3, 2),
     (None, Some ''TRANSIENT_SYSTEM_INCAPABLE_OF_FEATURE'', Some ''PERMANENT_SYSTEM_INCAPABLE_OF_FEATURE'', 3, 3),
     (None, None, Some ''PERMANENT_MESSAGE_TOO_BIG'', 3, 4),
     (None, Some ''TRANSIENT_SYSTEM_INCORRECTLY_CONFIGURED'', Some ''PERMANENT_SYSTEM_INCORRECTLY_CONFIGURED'', 3, 5),
     (Some ''SUCCESS_REQUESTED_PRIORITY_WAS_CHANGED'', None, None, 3, 6),
     (Some ''SUCCESS_NETWORK_OTHER'', Some ''TRANSIENT_NETWORK_OTHER'', Some ''PERMANENT_NETWORK_OTHER'', 4, 0),
     (None, Some ''TRANSIENT_NO_ANSWER_FROM_HOST'', None, 4, 1),
     (None, Some ''TRANSIENT_BAD_CONNECTION'', None, 4, 2),
     (None, Some ''TRANSIENT_DIRECTORY_SERVER_FAILURE'', None, 4, 3),
     (None, Some ''TRANSIENT_UNABLE_TO_ROUTE'', Some ''PERMANENT_UNABLE_TO_ROUTE'', 4, 4),
     (None, Some ''TRANSIENT_SYSTEM_CONGESTION'', None, 4, 5),
     (None, Some ''TRANSIENT_ROUTING_LOOP_DETECTED'', None, 4, 6),
     (None, Some ''TRANSIENT_DELIVERY_TIME_EXPIRED'', Some ''PERMANENT_DELIVERY_TIME_EXPIRED'', 4, 7),
     (Some ''SUCCESS_DELIVERY_OTHER'', Some ''TRANSIENT_DELIVERY_OTHER'', Some ''PERMANENT_DELIVERY_OTHER'', 5, 0),
     (None, None, Some ''PERMANENT_INVALID_COMMAND'', 5, 1),
     (None, None, Some ''PERMANENT_SYNTAX_ERROR'', 5, 2),
     (None, Some ''TRANSIENT_TOO_MANY_RECIPIENTS'', Some ''PERMANENT_TOO_MANY_RECIPIENTS'', 5, 3),
     (None, None, Some ''PERMANENT_INVALID_COMMAND_ARGUMENTS'', 5, 4),
     (None, Some ''TRANSIENT_WRONG_PROTOCOL_VERSION'', Some ''PERMANENT_WRONG_PROTOCOL_VERSION'', 5, 5),
     (None, Some ''TRANSIENT_AUTH_EXCHANGE_LINE_TOO_LONG'', Some ''PERMANENT_AUTH_EXCHANGE_LINE_TOO_LONG'', 5, 6),
     (Some ''SUCCESS_CONTENT_OTHER'', Some ''TRANSIENT_CONTENT_OTHER'', Some ''PERMANENT_CONTENT_OTHER'', 6, 0),
     (None, None, Some ''PERMANENT_MEDIA_NOT_SUPPORTED'', 6, 1),
     (None, Some ''TRANSIENT_CONVERSION_REQUIRED_AND_PROHIBITED'', Some ''PERMANENT_CONVERSION_REQUIRED_AND_PROHIBITED'', 6, 2),
     (None, Some ''TRANSIENT_CONVERSION_REQUIRED_BUT_NOT_SUPPORTED'', Some ''PERMANENT_CONVERSION_REQUIRED_BUT_NOT_SUPPORTED'', 6, 3),
     (Some ''SUCCESS_CONVERSION_WITH_LOSS_PERFORMED'', Some ''TRANSIENT_CONVERSION_WITH_LOSS_PERFORMED'', Some ''PERMANENT_CONVERSION_WITH_LOSS_PERFORMED'', 6, 4),
     (None, Some ''TRANSIENT_CONVERSION_FAILED'', Some ''PERMANENT_CONVERSION_FAILED'', 6, 5),
     (None, Some ''TRANSIENT_MESSAGE_CONTENT_NOT_AVAILABLE'', Some ''PERMANENT_MESSAGE_CONTENT_NOT_AVAILABLE'', 6, 6),
     (None, None, Some ''PERMANENT_NON_ASCII_ADDRESSES_NOT_PERMITTED'', 6, 7),
     (Some ''SUCCESS_UTF8_WOULD_BE_REQUIRED'', Some ''TRANSIENT_UTF8_WOULD_BE_REQUIRED'', Some ''PERMANENT_UTF8_WOULD_BE_REQUIRED'', 6, 8),
     (None, None, Some ''PERMANENT_UTF8_MESSAGE_CANNOT_BE_TRANSMITTED'', 6, 9),
     (Some ''SUCCESS_UTF8_WOULD_BE_REQUIRED_BIS'', Some ''TRANSIENT_UTF8_WOULD_BE_REQUIRED_BIS'', Some ''PERMANENT_UTF8_WOULD_BE_REQUIRED_BIS'', 6, 10),
     (Some ''SUCCESS_POLICY_OTHER'', Some ''TRANSIENT_POLICY_OTHER'', Some ''PERMANENT_POLICY_OTHER'', 7, 0),
     (None, None, Some ''PERMANENT_DELIVERY_NOT_AUTHORIZED'', 7, 1),
     (None, None, Some ''PERMANENT_MAILING_LIST_EXPANSION_PROHIBITED'', 7, 2),
     (None, None, Some ''PERMANENT_SECURITY_CONVERSION_REQUIRED_BUT_NOT_POSSIBLE'', 7, 3),
     (None, None, Some ''PERMANENT_SECURITY_FEATURES_NOT_SUPPORTED'', 7, 4),
     (None, Some ''TRANSIENT_CRYPTO_FAILURE'', Some ''PERMANENT_CRYPTO_FAILURE'', 7, 5),
     (None, Some ''TRANSIENT_CRYPTO_ALGO_NOT_SUPPORTED'', Some ''PERMANENT_CRYPTO_ALGO_NOT_SUPPORTED'', 7, 6),
     (Some ''SUCCESS_MESSAGE_INTEGRITY_FAILURE'', Some ''TRANSIENT_MESSAGE_INTEGRITY_FAILURE'', Some ''PERMANENT_MESSAGE_INTEGRITY_FAILURE'', 7, 7),
     (None, None, Some ''PERMANENT_AUTH_CREDENTIALS_INVALID'', 7, 8),
     (None, None, Some ''PERMANENT_AUTH_MECHANISM_TOO_WEAK'', 7, 9),
     (None, None, Some ''PERMANENT_ENCRYPTION_NEEDED'', 7, 10),
     (None, None, Some ''PERMANENT_ENCRYPTION_REQUIRED_FOR_REQUESTED_AUTH_MECHANISM'', 7, 11),
     (None, Some ''TRANSIENT_PASSWORD_TRANSITION_NEEDED'', None, 7, 12),
     (None, None, Some ''PERMANENT_USER_ACCOUNT_DISABLED'', 7, 13),
     (None, None, Some ''PERMANENT_TRUST_RELATIONSHIP_REQUIRED'', 7, 14),
     (None, Some ''TRANSIENT_PRIORITY_TOO_LOW'', Some ''PERMANENT_PRIORITY_TOO_LOW'', 7, 15),
     (None, Some ''TRANSIENT_MESSAGE_TOO_BIG_FOR_PRIORITY'', Some ''PERMANENT_MESSAGE_TOO_BIG_FOR_PRIORITY'', 7, 16),
     (None, None, Some ''PERMANENT_MAILBOX_OWNER_HAS_CHANGED'', 7, 17),
     (None, None, Some ''PERMANENT_DOMAIN_OWNER_HAS_CHANGED'', 7, 18),
     (None, None, Some ''PERMANENT_RRVS_CANNOT_BE_COMPLETED'', 7, 19),
     (None, None, Some ''PERMANENT_NO_PASSING_DKIM_SIGNATURE_FOUND'', 7, 20),
     (None, None, Some ''PERMANENT_NO_ACCEPTABLE_DKIM_SIGNATURE_FOUND'', 7, 21),
     (None, None, Some ''PERMANENT_NO_AUTHOR_MATCHED_DKIM_SIGNATURE_FOUND'', 7, 22),
     (None, None, Some ''PERMANENT_SPF_VALIDATION_FAILED'', 7, 23),
     (None, Some ''TRANSIENT_SPF_VALIDATION_ERROR'', Some ''PERMANENT_SPF_VALIDATION_ERROR'', 7, 24),
     (None, None, Some ''PERMANENT_REVERSE_DNS_VALIDATION_FAILED'', 7, 25),
     (None, None, Some ''PERMANENT_MULTIPLE_AUTH_CHECKS_FAILED'', 7, 26),
     (None, None, Some ''PERMANENT_SENDER_ADDRESS_HAS_NULL_MX'', 7, 27),
     (Some ''SUCCESS_MAIL_FLOOD_DETECTED'', Some ''TRANSIENT_MAIL_FLOOD_DETECTED'', Some ''PERMANENT_MAIL_FLOOD_DETECTED'', 7, 28),
     (None, None, Some ''PERMANENT_ARC_VALIDATION_FAILURE'', 7, 29),
     (None, None, Some ''PERMANENT_REQUIRETLS_SUPPORT_REQUIRED'', 7, 30)]"

definition extended_reply_codes :: "(string \<times> bytes EnhancedReplyCode) list" where
  "extended_reply_codes = concat (map extended_reply_row extended_reply_table)"

text \<open>The constants the other crates use.\<close>

definition SUCCESS_UNDEFINED :: "bytes EnhancedReplyCode" where
  "SUCCESS_UNDEFINED = extended_reply_code Success 0 0"

definition SUCCESS_DEST_VALID :: "bytes EnhancedReplyCode" where
  "SUCCESS_DEST_VALID = extended_reply_code Success 1 5"

definition PERMANENT_INVALID_COMMAND :: "bytes EnhancedReplyCode" where
  "PERMANENT_INVALID_COMMAND = extended_reply_code PermanentFailure 5 1"

definition PERMANENT_UNDEFINED :: "bytes EnhancedReplyCode" where
  "PERMANENT_UNDEFINED = extended_reply_code PermanentFailure 0 0"

definition TRANSIENT_UNDEFINED :: "bytes EnhancedReplyCode" where
  "TRANSIENT_UNDEFINED = extended_reply_code PersistentTransient 0 0"

definition TRANSIENT_SYSTEM_INCORRECTLY_CONFIGURED :: "bytes EnhancedReplyCode" where
  "TRANSIENT_SYSTEM_INCORRECTLY_CONFIGURED = extended_reply_code PersistentTransient 3 5"

definition ecode_subject :: "'s EnhancedReplyCode \<Rightarrow> EnhancedReplyCodeSubject" where
  "ecode_subject e =
     (let n = ec_raw_subject e in
      if n = 1 then Addressing else if n = 2 then Mailbox else if n = 3 then MailSystem
      else if n = 4 then Network else if n = 5 then MailDelivery else if n = 6 then Content
      else if n = 7 then Policy else Undefined)"

text \<open>\<^verbatim>\<open>into\<close>, \<^verbatim>\<open>convert\<close>, \<^verbatim>\<open>to_owned\<close>: the raw text in another string type.\<close>

definition ecode_convert :: "('s \<Rightarrow> 't) \<Rightarrow> 's EnhancedReplyCode \<Rightarrow> 't EnhancedReplyCode" where
  "ecode_convert f e =
     \<lparr>ec_raw = f (ec_raw e), ec_class = ec_class e, ec_raw_subject = ec_raw_subject e,
      ec_raw_detail = ec_raw_detail e\<rparr>"

definition ecode_io_slices :: "bytes EnhancedReplyCode \<Rightarrow> bytes list" where
  "ecode_io_slices e = [ec_raw e]"

section \<open>Reply lines and replies\<close>

record 's ReplyLine =
  rl_code :: ReplyCode
  rl_last :: bool
  rl_ecode :: "'s EnhancedReplyCode option"
  rl_text :: "'s MaybeUtf8"

definition line_as_io_slices ::
  "ReplyCode \<Rightarrow> bool \<Rightarrow> bytes EnhancedReplyCode option \<Rightarrow> bytes MaybeUtf8 \<Rightarrow> bytes list" where
  "line_as_io_slices code is_last ecode text =
     reply_code_io_slices code @ [if is_last then '' '' else ''-''] @
     (case ecode of Some c \<Rightarrow> ecode_io_slices c @ ['' ''] | None \<Rightarrow> []) @
     maybe_io_slices text @ [CRLF]"

definition reply_line_io_slices :: "bytes ReplyLine \<Rightarrow> bytes list" where
  "reply_line_io_slices l = line_as_io_slices (rl_code l) (rl_last l) (rl_ecode l) (rl_text l)"

record 's Reply =
  rp_code :: ReplyCode
  rp_ecode :: "'s EnhancedReplyCode option"
  rp_text :: "'s MaybeUtf8 list"

text \<open>\<^verbatim>\<open>let last_i = self.text.len() - 1\<close> overflows on a reply without text.\<close>

definition reply_io_slices :: "bytes Reply \<Rightarrow> bytes list run" where
  "reply_io_slices r =
     (if rp_text r = [] then Panic
      else let last_i = length (rp_text r) - 1 in
        Value (concat (map (\<lambda>(i, l). line_as_io_slices (rp_code r) (i = last_i) (rp_ecode r) l)
          (zip [0..<length (rp_text r)] (rp_text r)))))"

definition reply_display :: "bytes Reply \<Rightarrow> bytes run" where
  "reply_display r = bind_run (reply_io_slices r) (\<lambda>slices. Value (concat slices))"

definition reply_convert :: "('s \<Rightarrow> 't) \<Rightarrow> 's Reply \<Rightarrow> 't Reply" where
  "reply_convert f r =
     \<lparr>rp_code = rp_code r, rp_ecode = map_option (ecode_convert f) (rp_ecode r),
      rp_text = map (maybe_convert f) (rp_text r)\<rparr>"

section \<open>Properties of the codes\<close>

definition is_digit :: "byte \<Rightarrow> bool" where
  "is_digit c \<longleftrightarrow> 48 \<le> (of_char c :: nat) \<and> (of_char c :: nat) \<le> 57"

definition digit_value :: "byte \<Rightarrow> nat" where
  "digit_value c = of_char c - 48"

text \<open>The codes the grammar allows: \<^verbatim>\<open>[2-5][0-9][0-9]\<close>.\<close>

fun valid_reply_code :: "ReplyCode \<Rightarrow> bool" where
  "valid_reply_code (ReplyCode a b c) \<longleftrightarrow>
     a \<in> {CHR ''2'', CHR ''3'', CHR ''4'', CHR ''5''} \<and> is_digit b \<and> is_digit c"

fun reply_code_number :: "ReplyCode \<Rightarrow> nat" where
  "reply_code_number (ReplyCode a b c) = 100 * digit_value a + 10 * digit_value b + digit_value c"

lemma unat_u16: "n < 2 ^ 16 \<Longrightarrow> unat (word_of_nat n :: 16 word) = n"
  by (simp add: unsigned_of_nat take_bit_nat_eq_self)

lemma u16_of_digit: "is_digit c \<Longrightarrow> u16_of_byte c = 48 + word_of_nat (digit_value c)"
proof -
  assume "is_digit c"
  then have "(of_char c :: nat) = 48 + digit_value c" by (simp add: is_digit_def digit_value_def)
  then show ?thesis unfolding u16_of_byte_def by (simp only: of_nat_add) simp
qed

lemma reply_code_code_number:
  assumes "is_digit a" "is_digit b" "is_digit c"
  shows "unat (reply_code_code (ReplyCode a b c)) = reply_code_number (ReplyCode a b c)"
proof -
  have "u16_of_byte (CHR ''0'') = 48" by (simp add: u16_of_byte_def)
  then have "reply_code_code (ReplyCode a b c) = word_of_nat (reply_code_number (ReplyCode a b c))"
    using assms by (simp add: u16_of_digit algebra_simps)
  moreover have "reply_code_number (ReplyCode a b c) < 2 ^ 16"
    using assms by (auto simp: is_digit_def digit_value_def)
  ultimately show ?thesis using unat_u16 [of "reply_code_number (ReplyCode a b c)"] by (simp only:)
qed

text \<open>
  On a code of the grammar \<^verbatim>\<open>code\<close> is its decimal value, computed without wrap-around in
  16 bits and between 200 and 599, and \<^verbatim>\<open>kind\<close> does not panic and is told by the hundreds. All
  named codes are codes of the grammar.
\<close>

theorem reply_code_value:
  assumes "valid_reply_code rc"
  shows "unat (reply_code_code rc) = reply_code_number rc \<and>
    200 \<le> reply_code_number rc \<and> reply_code_number rc \<le> 599 \<and>
    (reply_code_kind rc = Value PositiveCompletion \<longleftrightarrow> reply_code_number rc div 100 = 2) \<and>
    (reply_code_kind rc = Value PositiveIntermediate \<longleftrightarrow> reply_code_number rc div 100 = 3) \<and>
    (reply_code_kind rc = Value TransientNegative \<longleftrightarrow> reply_code_number rc div 100 = 4) \<and>
    (reply_code_kind rc = Value PermanentNegative \<longleftrightarrow> reply_code_number rc div 100 = 5) \<and>
    reply_code_kind rc \<noteq> Panic"
proof -
  obtain a b c where rc: "rc = ReplyCode a b c" by (cases rc)
  with assms have v: "is_digit a" "is_digit b" "is_digit c" "a \<in> {CHR ''2'', CHR ''3'', CHR ''4'', CHR ''5''}"
    by (auto simp: is_digit_def)
  then have "digit_value b \<le> 9" "digit_value c \<le> 9" by (auto simp: is_digit_def digit_value_def)
  with v reply_code_code_number [OF v(1-3)] rc show ?thesis
    by (elim insertE emptyE) (auto simp: digit_value_def)
qed

lemma reply_code_value_witness:
  "unat (reply_code_code MAILBOX_UNAVAILABLE) = 550 \<and> reply_code_kind MAILBOX_UNAVAILABLE = Value PermanentNegative"
proof -
  have "valid_reply_code MAILBOX_UNAVAILABLE" by (simp add: reply_code_consts is_digit_def)
  from reply_code_value [OF this] show ?thesis by (simp add: reply_code_consts digit_value_def)
qed

lemma named_reply_codes_valid:
  "\<forall>rc \<in> {SYSTEM_STATUS, HELP_MESSAGE, SERVICE_READY, CLOSING_CHANNEL, OKAY, USER_NOT_LOCAL_WILL_FORWARD, CANNOT_VRFY_BUT_PLEASE_TRY, START_MAIL_INPUT, SERVICE_NOT_AVAILABLE, MAILBOX_TEMPORARILY_UNAVAILABLE, LOCAL_ERROR, INSUFFICIENT_STORAGE, UNABLE_TO_ACCEPT_PARAMETERS, COMMAND_UNRECOGNIZED, SYNTAX_ERROR, COMMAND_UNIMPLEMENTED, BAD_SEQUENCE, PARAMETER_UNIMPLEMENTED, SERVER_DOES_NOT_ACCEPT_MAIL, MAILBOX_UNAVAILABLE, POLICY_REASON, USER_NOT_LOCAL, EXCEEDED_STORAGE, MAILBOX_NAME_INCORRECT, TRANSACTION_FAILED, MAIL_OR_RCPT_PARAMETER_UNIMPLEMENTED, DOMAIN_DOES_NOT_ACCEPT_MAIL}. valid_reply_code rc"
  by (simp add: reply_code_consts is_digit_def)

subsection \<open>The table of enhanced codes\<close>

lemma digit_inj: "m < 10 \<Longrightarrow> n < 10 \<Longrightarrow> digit m = digit n \<Longrightarrow> m = n"
  by (auto simp: digit_def dest!: arg_cong [of _ _ "of_char :: char \<Rightarrow> nat"])

lemma digit_not_dot: "n < 10 \<Longrightarrow> digit n \<noteq> DOT"
  by (auto simp: digit_def dest!: arg_cong [of _ _ "of_char :: char \<Rightarrow> nat"])

lemma decimal_nonempty: "decimal n \<noteq> []"
  by (subst decimal.simps) simp

lemma decimal_no_dot: "DOT \<notin> set (decimal n)"
proof (induction n rule: decimal.induct)
  case (1 n)
  then show ?case using digit_not_dot [of n] digit_not_dot [of "n mod 10"]
    by (subst decimal.simps) auto
qed

lemma decimal_inj: "decimal m = decimal n \<Longrightarrow> m = n"
proof (induction m arbitrary: n rule: decimal.induct)
  case (1 m)
  have dm: "decimal m = (if m < 10 then [digit m] else decimal (m div 10) @ [digit (m mod 10)])"
    and dn: "decimal n = (if n < 10 then [digit n] else decimal (n div 10) @ [digit (n mod 10)])"
    by (subst decimal.simps, simp)+
  show ?case
  proof (cases "m < 10")
    case True
    with 1(2) dm dn decimal_nonempty [of "n div 10"] have "n < 10" by (auto split: if_splits)
    with True 1(2) dm dn digit_inj show ?thesis by simp
  next
    case False
    with 1(2) dm dn decimal_nonempty [of "m div 10"] have n: "\<not> n < 10" by (auto split: if_splits)
    with False 1(2) dm dn have e: "decimal (m div 10) = decimal (n div 10)" "digit (m mod 10) = digit (n mod 10)"
      by auto
    then have "m div 10 = n div 10" "m mod 10 = n mod 10"
      using 1(1) [OF False e(1)] digit_inj [of "m mod 10" "n mod 10"] by auto
    then show ?thesis by (metis div_mult_mod_eq)
  qed
qed

lemma split_at_dot:
  "xs @ DOT # ys = xs' @ DOT # ys' \<Longrightarrow> DOT \<notin> set xs \<Longrightarrow> DOT \<notin> set xs' \<Longrightarrow> xs = xs' \<and> ys = ys'"
  by (induction xs arbitrary: xs') (case_tac xs'; auto)+

lemma extended_reply_code_raw_inj:
  assumes "ec_raw (extended_reply_code k s d) = ec_raw (extended_reply_code k' s' d')"
  shows "k = k' \<and> s = s' \<and> d = d'"
proof -
  from assms have k: "class_digit k = class_digit k'" and
      sd: "decimal s @ DOT # decimal d = decimal s' @ DOT # decimal d'"
    by (simp_all add: extended_reply_code_def)
  from k have "k = k'" by (cases k; cases k') simp_all
  moreover from split_at_dot [OF sd decimal_no_dot decimal_no_dot] have "s = s'" "d = d'"
    using decimal_inj by blast+
  ultimately show ?thesis by simp
qed

fun increasing :: "nat list \<Rightarrow> bool" where
  "increasing (x # y # xs) \<longleftrightarrow> x < y \<and> increasing (y # xs)"
| "increasing xs \<longleftrightarrow> True"

lemma increasing_distinct: "increasing xs \<Longrightarrow> distinct xs \<and> (\<forall>y \<in> set xs. hd xs \<le> y)"
  by (induction xs rule: increasing.induct) fastforce+

definition row_key :: "string option \<times> string option \<times> string option \<times> nat \<times> nat \<Rightarrow> nat" where
  "row_key = (\<lambda>(_, _, _, s, d). s * 1000 + d)"

lemma table_increasing: "increasing (map row_key extended_reply_table)"
  by (simp add: extended_reply_table_def row_key_def)

lemma table_small: "\<forall>(_, _, _, s, d) \<in> set extended_reply_table. s < 1000 \<and> d < 1000"
  by (simp add: extended_reply_table_def)

lemma row_raws:
  "x \<in> set (map (\<lambda>x. ec_raw (snd x)) (extended_reply_row (a, b, c, s, d))) \<Longrightarrow>
     \<exists>k. x = ec_raw (extended_reply_code k s d)"
  by (auto simp: extended_reply_row_def split: option.splits)

lemma row_distinct: "distinct (map (\<lambda>x. ec_raw (snd x)) (extended_reply_row r))"
proof -
  have "ec_raw (extended_reply_code k s d) = ec_raw (extended_reply_code k' s d) \<longleftrightarrow> k = k'" for k k' s d
    using extended_reply_code_raw_inj by blast
  then show ?thesis by (cases r) (auto simp: extended_reply_row_def split: option.splits)
qed

lemma rows_distinct:
  assumes "distinct (map row_key rows)" "\<forall>(_, _, _, s, d) \<in> set rows. s < 1000 \<and> d < 1000"
  shows "distinct (map (\<lambda>x. ec_raw (snd x)) (concat (map extended_reply_row rows)))"
  using assms
proof (induction rows)
  case Nil
  then show ?case by simp
next
  case (Cons r rows)
  obtain a b c s d where r: "r = (a, b, c, s, d)" by (cases r)
  have "x \<notin> (\<lambda>x. ec_raw (snd x)) ` set (concat (map extended_reply_row rows))"
    if x: "x \<in> (\<lambda>x. ec_raw (snd x)) ` set (extended_reply_row r)" for x
  proof
    assume "x \<in> (\<lambda>x. ec_raw (snd x)) ` set (concat (map extended_reply_row rows))"
    then obtain r' where r': "r' \<in> set rows" "x \<in> (\<lambda>x. ec_raw (snd x)) ` set (extended_reply_row r')"
      by (force simp: image_iff)
    obtain a' b' c' s' d' where r'eq: "r' = (a', b', c', s', d')" by (cases r')
    from x row_raws [of x a b c s d] row_raws [of x a' b' c' s' d'] r' obtain k k'
      where "ec_raw (extended_reply_code k s d) = ec_raw (extended_reply_code k' s' d')"
      unfolding r r'eq by (auto simp: image_comp)
    then have "s = s' \<and> d = d'" using extended_reply_code_raw_inj by blast
    then have "row_key r = row_key r'" by (simp add: row_key_def r r'eq)
    with Cons.prems(1) r'(1) show False by auto
  qed
  moreover have "distinct (map (\<lambda>x. ec_raw (snd x)) (concat (map extended_reply_row rows)))"
    by (rule Cons.IH) (use Cons.prems in auto)
  ultimately show ?case using row_distinct [of r] by (auto simp: image_comp)
qed

text \<open>
  No two of the named enhanced status codes have the same text, and the text of each is
  its class, subject and detail in decimal, so that the table's rows do not contradict each other.
\<close>

theorem extended_reply_codes_distinct:
  "distinct (map (\<lambda>x. ec_raw (snd x)) extended_reply_codes) \<and>
   list_all (\<lambda>(n, e). e = extended_reply_code (ec_class e) (unat (ec_raw_subject e)) (unat (ec_raw_detail e)))
     extended_reply_codes"
proof
  show "distinct (map (\<lambda>x. ec_raw (snd x)) extended_reply_codes)"
    unfolding extended_reply_codes_def
    using rows_distinct increasing_distinct [OF table_increasing] table_small by blast
  have "e = extended_reply_code (ec_class e) (unat (ec_raw_subject e)) (unat (ec_raw_detail e))"
    if row: "(a, b, c, s, d) \<in> set extended_reply_table" "(n, e) \<in> set (extended_reply_row (a, b, c, s, d))"
    for a b c s d n e
  proof -
    have "s < 2 ^ 16" "d < 2 ^ 16" using row(1) table_small by force+
    then have "unat (word_of_nat s :: 16 word) = s" "unat (word_of_nat d :: 16 word) = d"
      using unat_u16 by blast+
    with row(2) show ?thesis
      by (auto simp: extended_reply_row_def extended_reply_code_def split: option.splits)
  qed
  then show "list_all (\<lambda>(n, e). e = extended_reply_code (ec_class e) (unat (ec_raw_subject e)) (unat (ec_raw_detail e)))
      extended_reply_codes"
    unfolding extended_reply_codes_def list_all_iff by fastforce
qed

text \<open>The constants used elsewhere are those of the table.\<close>

lemma used_codes_in_table:
  "map_of extended_reply_codes ''SUCCESS_UNDEFINED'' = Some SUCCESS_UNDEFINED"
  "map_of extended_reply_codes ''SUCCESS_DEST_VALID'' = Some SUCCESS_DEST_VALID"
  "map_of extended_reply_codes ''PERMANENT_UNDEFINED'' = Some PERMANENT_UNDEFINED"
  "map_of extended_reply_codes ''TRANSIENT_UNDEFINED'' = Some TRANSIENT_UNDEFINED"
  "map_of extended_reply_codes ''TRANSIENT_SYSTEM_INCORRECTLY_CONFIGURED'' = Some TRANSIENT_SYSTEM_INCORRECTLY_CONFIGURED"
  "map_of extended_reply_codes ''PERMANENT_INVALID_COMMAND'' = Some PERMANENT_INVALID_COMMAND"
  by (simp_all add: extended_reply_codes_def extended_reply_table_def extended_reply_row_def
      SUCCESS_UNDEFINED_def SUCCESS_DEST_VALID_def PERMANENT_UNDEFINED_def TRANSIENT_UNDEFINED_def
      TRANSIENT_SYSTEM_INCORRECTLY_CONFIGURED_def PERMANENT_INVALID_COMMAND_def)

end
