(* ===== verification/ServerTypes.thy ===== *)
theory ServerTypes
  imports Replies
begin

text \<open>
  \<^verbatim>\<open>smtp-server-types\<close>: the decisions a server configuration takes, the metadata of a connection
  and of a mail, and the stock replies of \<^verbatim>\<open>reply.rs\<close>.
\<close>

section \<open>Decisions\<close>

datatype 'a Decision =
    Accept (accept_reply: "bytes Reply") 'a
  | Reject "bytes Reply"
  | Kill "bytes Reply option" "unit io_result"

datatype 'a SerializableDecision =
    Ser_Accept "bytes Reply" 'a
  | Ser_Reject "bytes Reply"
  | Ser_Kill "bytes Reply option" "string + unit"

fun decision_from :: "'a SerializableDecision \<Rightarrow> 'a Decision" where
  "decision_from (Ser_Accept r res) = Accept r res"
| "decision_from (Ser_Reject r) = Reject r"
| "decision_from (Ser_Kill r res) =
     Kill r (case res of Inl msg \<Rightarrow> Inl (Io_Error Other msg) | Inr u \<Rightarrow> Inr u)"

section \<open>Metadata\<close>

record 'u MailMetadata =
  mm_user :: 'u
  mm_from :: "bytes Email option"
  mm_to :: "bytes Email list"

record HelloInfo =
  hi_is_extended :: bool
  hi_hostname :: "bytes Hostname"

record 'u ConnectionMetadata =
  cm_user :: 'u
  cm_hello :: "HelloInfo option"
  cm_is_encrypted :: bool

section \<open>Stock replies\<close>

definition welcome_banner :: "bytes \<Rightarrow> bytes \<Rightarrow> bytes Reply" where
  "welcome_banner hostname banner =
     \<lparr>rp_code = SERVICE_READY, rp_ecode = None, rp_text = [Utf8 (hostname @ '' '' @ banner)]\<rparr>"

definition okay_hello :: "bool \<Rightarrow> bytes \<Rightarrow> bytes \<Rightarrow> bool \<Rightarrow> bytes Reply" where
  "okay_hello is_extended local_hostname banner can_do_tls =
     \<lparr>rp_code = OKAY, rp_ecode = None,
      rp_text = [Utf8 (local_hostname @ (if banner \<noteq> [] then '' '' @ banner else []))] @
        (if is_extended then
           [Ascii ''8BITMIME'', Ascii ''ENHANCEDSTATUSCODES'', Ascii ''PIPELINING'', Ascii ''SMTPUTF8''] @
           (if can_do_tls then [Ascii ''STARTTLS''] else [])
         else [])\<rparr>"

definition okay :: "bytes EnhancedReplyCode \<Rightarrow> bytes Reply" where
  "okay ecode = \<lparr>rp_code = OKAY, rp_ecode = Some ecode, rp_text = [Ascii ''Okay'']\<rparr>"

definition okay_from :: "bytes Reply" where
  "okay_from = okay SUCCESS_UNDEFINED"

definition okay_to :: "bytes Reply" where
  "okay_to = okay SUCCESS_DEST_VALID"

definition okay_data :: "bytes Reply" where
  "okay_data = \<lparr>rp_code = START_MAIL_INPUT, rp_ecode = None,
     rp_text = [Ascii ''Start mail input; end with <CRLF>.<CRLF>'']\<rparr>"

definition okay_mail :: "bytes Reply" where
  "okay_mail = okay SUCCESS_UNDEFINED"

definition okay_starttls :: "bytes Reply" where
  "okay_starttls = \<lparr>rp_code = SERVICE_READY, rp_ecode = Some SUCCESS_UNDEFINED,
     rp_text = [Ascii ''Ready to start TLS'']\<rparr>"

definition okay_rset :: "bytes Reply" where
  "okay_rset = okay SUCCESS_UNDEFINED"

definition ignore_vrfy :: "bytes Reply" where
  "ignore_vrfy = \<lparr>rp_code = CANNOT_VRFY_BUT_PLEASE_TRY, rp_ecode = Some SUCCESS_DEST_VALID,
     rp_text = [Ascii ''Cannot VRFY user, but will accept message and attempt delivery'']\<rparr>"

definition ignore_help :: "bytes Reply" where
  "ignore_help = \<lparr>rp_code = HELP_MESSAGE, rp_ecode = Some SUCCESS_UNDEFINED,
     rp_text = [Ascii ''See https://tools.ietf.org/html/rfc5321'']\<rparr>"

definition okay_noop :: "bytes Reply" where
  "okay_noop = okay SUCCESS_UNDEFINED"

definition okay_quit :: "bytes Reply" where
  "okay_quit = \<lparr>rp_code = CLOSING_CHANNEL, rp_ecode = Some SUCCESS_UNDEFINED, rp_text = [Utf8 ''Bye'']\<rparr>"

definition bad_sequence :: "bytes Reply" where
  "bad_sequence = \<lparr>rp_code = BAD_SEQUENCE, rp_ecode = Some PERMANENT_INVALID_COMMAND,
     rp_text = [Ascii ''Bad sequence of commands'']\<rparr>"

definition command_unimplemented :: "bytes Reply" where
  "command_unimplemented = \<lparr>rp_code = COMMAND_UNIMPLEMENTED, rp_ecode = Some PERMANENT_INVALID_COMMAND,
     rp_text = [Ascii ''Command not implemented'']\<rparr>"

definition command_unrecognized :: "bytes Reply" where
  "command_unrecognized = \<lparr>rp_code = COMMAND_UNRECOGNIZED, rp_ecode = Some PERMANENT_INVALID_COMMAND,
     rp_text = [Ascii ''Command not recognized'']\<rparr>"

definition command_not_supported :: "bytes Reply" where
  "command_not_supported = \<lparr>rp_code = COMMAND_UNIMPLEMENTED, rp_ecode = Some PERMANENT_INVALID_COMMAND,
     rp_text = [Ascii ''Command not supported'']\<rparr>"

definition pipeline_forbidden_after_starttls :: "bytes Reply" where
  "pipeline_forbidden_after_starttls = \<lparr>rp_code = BAD_SEQUENCE, rp_ecode = Some PERMANENT_INVALID_COMMAND,
     rp_text = [Ascii ''Pipelining after starttls is forbidden'']\<rparr>"

definition line_too_long :: "bytes Reply" where
  "line_too_long = \<lparr>rp_code = COMMAND_UNRECOGNIZED, rp_ecode = Some PERMANENT_UNDEFINED,
     rp_text = [Ascii ''Line too long'']\<rparr>"

definition internal_server_error :: "bytes Reply" where
  "internal_server_error = \<lparr>rp_code = LOCAL_ERROR, rp_ecode = Some TRANSIENT_UNDEFINED,
     rp_text = [Ascii ''Internal server error'']\<rparr>"

definition handle_mail_did_not_call_complete :: "bytes Reply" where
  "handle_mail_did_not_call_complete = \<lparr>rp_code = LOCAL_ERROR,
     rp_ecode = Some TRANSIENT_SYSTEM_INCORRECTLY_CONFIGURED,
     rp_text = [Ascii ''System incorrectly configured'']\<rparr>"

lemmas stock_reply_defs = welcome_banner_def okay_hello_def okay_def okay_from_def okay_to_def
  okay_data_def okay_mail_def okay_starttls_def okay_rset_def ignore_vrfy_def ignore_help_def
  okay_noop_def okay_quit_def bad_sequence_def command_unimplemented_def command_unrecognized_def
  command_not_supported_def pipeline_forbidden_after_starttls_def line_too_long_def
  internal_server_error_def handle_mail_did_not_call_complete_def

section \<open>Well-formed replies\<close>

text \<open>
  A reply that can be sent: some text, a code of the grammar, the class of the enhanced code that
  of the code, and no byte in the text that the grammar of a reply line excludes.
\<close>

fun first_digit :: "ReplyCode \<Rightarrow> byte" where
  "first_digit (ReplyCode a b c) = a"

definition text_byte :: "byte \<Rightarrow> bool" where
  "text_byte c \<longleftrightarrow> c = TAB \<or> (32 \<le> (of_char c :: nat) \<and> (of_char c :: nat) \<noteq> 127)"

definition text_ok :: "bytes MaybeUtf8 \<Rightarrow> bool" where
  "text_ok t \<longleftrightarrow> (\<forall>c \<in> set (maybe_str t). text_byte c) \<and> (\<forall>s. t = Ascii s \<longrightarrow> is_ascii s)"

definition reply_ok :: "bytes Reply \<Rightarrow> bool" where
  "reply_ok r \<longleftrightarrow> rp_text r \<noteq> [] \<and> valid_reply_code (rp_code r) \<and> (\<forall>t \<in> set (rp_text r). text_ok t) \<and>
     (\<forall>e. rp_ecode r = Some e \<longrightarrow> class_digit (ec_class e) = first_digit (rp_code r) \<and>
        e = extended_reply_code (ec_class e) (unat (ec_raw_subject e)) (unat (ec_raw_detail e)))"

lemmas reply_ok_defs = reply_ok_def text_ok_def text_byte_def is_ascii_def reply_code_consts is_digit_def
  SUCCESS_UNDEFINED_def SUCCESS_DEST_VALID_def PERMANENT_INVALID_COMMAND_def PERMANENT_UNDEFINED_def
  TRANSIENT_UNDEFINED_def TRANSIENT_SYSTEM_INCORRECTLY_CONFIGURED_def extended_reply_code_def

text \<open>The replies without an argument, by the place that uses them.\<close>

definition stock_replies :: "bytes Reply list" where
  "stock_replies = [okay_from, okay_to, okay_data, okay_mail, okay_starttls, okay_rset, ignore_vrfy,
     ignore_help, okay_noop, okay_quit, bad_sequence, command_unimplemented, command_unrecognized,
     command_not_supported, pipeline_forbidden_after_starttls, line_too_long, internal_server_error,
     handle_mail_did_not_call_complete]"

lemma stock_replies_ok: "\<forall>r \<in> set stock_replies. reply_ok r"
  by (simp add: stock_replies_def stock_reply_defs reply_ok_defs)

lemma okay_hello_ok:
  assumes "\<forall>c \<in> set (local_hostname @ banner). text_byte c"
  shows "reply_ok (okay_hello is_extended local_hostname banner can_do_tls)"
  using assms
  by (cases "banner = []"; cases is_extended; cases can_do_tls)
     (simp_all add: stock_reply_defs reply_ok_defs ball_Un)

lemma welcome_banner_ok:
  assumes "\<forall>c \<in> set (hostname @ banner). text_byte c"
  shows "reply_ok (welcome_banner hostname banner)"
  using assms by (simp add: stock_reply_defs reply_ok_defs ball_Un)

text \<open>
  Every stock reply can be sent: it has text, so that printing it does not panic, its code is
  one of the grammar, its enhanced code has the class of the code, and its text has no control
  byte; for the greetings this needs a host name and a banner without control bytes.
\<close>

theorem stock_replies_sendable:
  assumes "\<forall>c \<in> set (host @ banner). text_byte c"
    and "r \<in> set stock_replies \<or> r = welcome_banner host banner \<or> r = okay_hello ext host banner tls"
  shows "reply_ok r \<and> reply_io_slices r \<noteq> Panic"
proof -
  have "reply_ok r" using assms stock_replies_ok okay_hello_ok welcome_banner_ok by auto
  moreover from this have "reply_io_slices r \<noteq> Panic"
    by (simp add: reply_ok_def reply_io_slices_def Let_def)
  ultimately show ?thesis by simp
qed

lemma stock_replies_sendable_witness:
  "reply_ok (okay_hello True ''mx'' [] True) \<and> reply_io_slices (okay_hello True ''mx'' [] True) \<noteq> Panic"
  by (rule stock_replies_sendable [where host = "''mx''" and banner = "[]" and ext = True and tls = True]) (simp_all add: text_byte_def)

end
