(* ===== verification/Commands.thy ===== *)
theory Commands
  imports Message
begin

text \<open>
  The commands of \<^verbatim>\<open>smtp-message/src/command.rs\<close>, with their parameters, and their printed form:
  the list of slices \<^verbatim>\<open>as_io_slices\<close> yields.
\<close>

datatype 's ParameterName = Other_Parameter 's

fun parameter_name_io_slices :: "bytes ParameterName \<Rightarrow> bytes list" where
  "parameter_name_io_slices (Other_Parameter s) = [s]"

datatype 's Parameters = Parameters "('s ParameterName \<times> 's MaybeUtf8 option) list"

fun parameters_list :: "'s Parameters \<Rightarrow> ('s ParameterName \<times> 's MaybeUtf8 option) list" where
  "parameters_list (Parameters ps) = ps"

definition parameters_io_slices :: "bytes Parameters \<Rightarrow> bytes list" where
  "parameters_io_slices params =
     concat (map (\<lambda>(name, val). ['' ''] @ parameter_name_io_slices name @
         (case val of None \<Rightarrow> [] | Some v \<Rightarrow> [''=''] @ maybe_io_slices v))
       (parameters_list params))"

datatype 's Command =
    Data
  | Ehlo "'s Hostname"
  | Expn "'s MaybeUtf8"
  | Helo "'s Hostname"
  | Help "'s MaybeUtf8"
  | Lhlo "'s Hostname"
  | Mail "'s Path option" "'s Email option" "'s Parameters"
  | Noop "'s MaybeUtf8"
  | Quit
  | Rcpt "'s Path option" "'s Email" "'s Parameters"
  | Rset
  | Starttls
  | Vrfy "'s MaybeUtf8"

definition opt_path_io_slices :: "bytes Path option \<Rightarrow> bytes list" where
  "opt_path_io_slices path = (case path of Some p \<Rightarrow> path_io_slices p @ ['':''] | None \<Rightarrow> [])"

fun command_io_slices :: "bytes Command \<Rightarrow> bytes list" where
  "command_io_slices Data = [''DATA'' @ CRLF]"
| "command_io_slices (Ehlo h) = [''EHLO ''] @ hostname_io_slices h @ [CRLF]"
| "command_io_slices (Expn name) = [''EXPN ''] @ maybe_io_slices name @ [CRLF]"
| "command_io_slices (Helo h) = [''HELO ''] @ hostname_io_slices h @ [CRLF]"
| "command_io_slices (Help subject) = [''HELP ''] @ maybe_io_slices subject @ [CRLF]"
| "command_io_slices (Lhlo h) = [''LHLO ''] @ hostname_io_slices h @ [CRLF]"
| "command_io_slices (Mail path email params) =
     [''MAIL FROM:<''] @ opt_path_io_slices path @
     (case email of Some e \<Rightarrow> email_io_slices e | None \<Rightarrow> []) @
     [''>''] @ parameters_io_slices params @ [CRLF]"
| "command_io_slices (Noop s) = [''NOOP ''] @ maybe_io_slices s @ [CRLF]"
| "command_io_slices Quit = [''QUIT'' @ CRLF]"
| "command_io_slices (Rcpt path email params) =
     [''RCPT TO:<''] @ opt_path_io_slices path @ email_io_slices email @
     [''>''] @ parameters_io_slices params @ [CRLF]"
| "command_io_slices Rset = [''RSET'' @ CRLF]"
| "command_io_slices Starttls = [''STARTTLS'' @ CRLF]"
| "command_io_slices (Vrfy name) = [''VRFY ''] @ maybe_io_slices name @ [CRLF]"

end
