(* ===== verification/Server.thy ===== *)
theory Server
  imports ServerTypes Commands DataReader
begin

text \<open>
  The server loop of \<^verbatim>\<open>smtp-server/src/lib.rs\<close> and \<^verbatim>\<open>protocol.rs\<close>: reading commands out of a fixed
  buffer, skipping what cannot be parsed, dispatching each command to the configuration and
  writing the replies. Parameters: the parser of commands, the connection (\<open>ServerIo\<close>) and the
  configuration (\<open>Config\<close>, the trait). The connection is a value of type \<open>'io\<close>, and whatever the
  configuration changes outside of its arguments one of type \<open>'w\<close>; every call takes and returns
  the ones it can reach. Awaiting is invisible: an awaited
  read or write is the call that finally answers, and the race with a timer is decided by the
  parameter that says whether the timer fires first.
\<close>

section \<open>Protocols\<close>

datatype ProtocolName = Smtp | Lmtp

text \<open>
  \<^verbatim>\<open>HandleMailReturnType\<close> is one decision for SMTP and a stream of decisions for LMTP.
\<close>

type_synonym handle_mail_return = "unit Decision + unit Decision list"

fun handle_mail_return_type_as_stream :: "handle_mail_return \<Rightarrow> unit Decision list" where
  "handle_mail_return_type_as_stream (Inl resp) = [resp]"
| "handle_mail_return_type_as_stream (Inr resp) = resp"

section \<open>The configuration\<close>

type_synonym 'cu refusal = "'cu ConnectionMetadata \<Rightarrow> 'cu ConnectionMetadata \<times> bytes Reply"

type_synonym ('w, 'cu) simple_handler =
  "'w \<Rightarrow> 'cu ConnectionMetadata \<Rightarrow> 'w \<times> 'cu ConnectionMetadata \<times> unit Decision"

record ('io, 'w, 'cu, 'mu) Config =
  cfg_protocol :: ProtocolName
  cfg_welcome_banner_reply :: "'cu refusal"
  cfg_filter_hello :: "bool \<Rightarrow> bytes Hostname \<Rightarrow> 'w \<Rightarrow> 'cu ConnectionMetadata \<Rightarrow>
     'w \<times> 'cu ConnectionMetadata \<times> HelloInfo Decision"
  cfg_can_do_tls :: "'cu ConnectionMetadata \<Rightarrow> bool"
  cfg_tls_accept :: "'io \<Rightarrow> 'w \<Rightarrow> 'cu ConnectionMetadata \<Rightarrow>
     'io \<times> 'w \<times> 'cu ConnectionMetadata \<times> unit io_result"
  cfg_new_mail :: "'w \<Rightarrow> 'cu ConnectionMetadata \<Rightarrow> 'w \<times> 'cu ConnectionMetadata \<times> 'mu"
  cfg_filter_from :: "bytes Email option \<Rightarrow> 'w \<Rightarrow> 'mu MailMetadata \<Rightarrow> 'cu ConnectionMetadata \<Rightarrow>
     'w \<times> 'mu MailMetadata \<times> 'cu ConnectionMetadata \<times> bytes Email option Decision"
  cfg_filter_to :: "bytes Email \<Rightarrow> 'w \<Rightarrow> 'mu MailMetadata \<Rightarrow> 'cu ConnectionMetadata \<Rightarrow>
     'w \<times> 'mu MailMetadata \<times> 'cu ConnectionMetadata \<times> bytes Email Decision"
  cfg_filter_data :: "'w \<Rightarrow> 'mu MailMetadata \<Rightarrow> 'cu ConnectionMetadata \<Rightarrow>
     'w \<times> 'mu MailMetadata \<times> 'cu ConnectionMetadata \<times> unit Decision"
  cfg_handle_mail :: "'io EscapedDataReader \<Rightarrow> 'w \<Rightarrow> 'mu MailMetadata \<Rightarrow> 'cu ConnectionMetadata \<Rightarrow>
     'io EscapedDataReader \<times> 'w \<times> 'cu ConnectionMetadata \<times> handle_mail_return"
  cfg_handle_rset :: "'w \<Rightarrow> 'mu MailMetadata option \<Rightarrow> 'cu ConnectionMetadata \<Rightarrow>
     'w \<times> 'mu MailMetadata option \<times> 'cu ConnectionMetadata \<times> unit Decision"
  cfg_handle_starttls :: "('w, 'cu) simple_handler"
  cfg_handle_expn :: "bytes MaybeUtf8 \<Rightarrow> ('w, 'cu) simple_handler"
  cfg_handle_vrfy :: "bytes MaybeUtf8 \<Rightarrow> ('w, 'cu) simple_handler"
  cfg_handle_help :: "bytes MaybeUtf8 \<Rightarrow> ('w, 'cu) simple_handler"
  cfg_handle_noop :: "bytes MaybeUtf8 \<Rightarrow> ('w, 'cu) simple_handler"
  cfg_handle_quit :: "('w, 'cu) simple_handler"
  cfg_already_did_hello :: "'cu refusal"
  cfg_mail_before_hello :: "'cu refusal"
  cfg_already_in_mail :: "'cu refusal"
  cfg_rcpt_before_mail :: "'cu refusal"
  cfg_data_before_rcpt :: "'cu refusal"
  cfg_data_before_mail :: "'cu refusal"
  cfg_starttls_unsupported :: "'cu refusal"
  cfg_command_unrecognized :: "'cu refusal"
  cfg_pipeline_forbidden_after_starttls :: "'cu refusal"
  cfg_line_too_long :: "'cu refusal"
  cfg_handle_mail_did_not_call_complete :: "'cu refusal"

subsection \<open>The provided methods of the trait\<close>

definition default_welcome_banner :: bytes where
  "default_welcome_banner = ''Service ready''"

definition default_hello_banner :: bytes where
  "default_hello_banner = []"

definition default_welcome_banner_reply :: "bytes \<Rightarrow> bytes \<Rightarrow> 'cu refusal" where
  "default_welcome_banner_reply host banner conn_meta = (conn_meta, welcome_banner host banner)"

definition default_can_do_tls :: "'cu ConnectionMetadata \<Rightarrow> bool" where
  "default_can_do_tls conn_meta \<longleftrightarrow> \<not> cm_is_encrypted conn_meta \<and>
     (case cm_hello conn_meta of Some h \<Rightarrow> hi_is_extended h | None \<Rightarrow> False)"

definition default_filter_hello ::
  "bytes \<Rightarrow> bytes \<Rightarrow> ('cu ConnectionMetadata \<Rightarrow> bool) \<Rightarrow> bool \<Rightarrow> bytes Hostname \<Rightarrow> 'w \<Rightarrow>
     'cu ConnectionMetadata \<Rightarrow> 'w \<times> 'cu ConnectionMetadata \<times> HelloInfo Decision" where
  "default_filter_hello host hello_banner can_do_tls is_extended hostname w conn_meta =
     (let info = \<lparr>hi_is_extended = is_extended, hi_hostname = hostname\<rparr>;
          conn_meta' = conn_meta\<lparr>cm_hello := Some info\<rparr>
      in (w, conn_meta', Accept (okay_hello is_extended host hello_banner (can_do_tls conn_meta')) info))"

definition default_filter_data ::
  "'w \<Rightarrow> 'mu MailMetadata \<Rightarrow> 'cu ConnectionMetadata \<Rightarrow>
     'w \<times> 'mu MailMetadata \<times> 'cu ConnectionMetadata \<times> unit Decision" where
  "default_filter_data w mail_meta conn_meta = (w, mail_meta, conn_meta, Accept okay_data ())"

definition default_handle_rset ::
  "'w \<Rightarrow> 'mu MailMetadata option \<Rightarrow> 'cu ConnectionMetadata \<Rightarrow>
     'w \<times> 'mu MailMetadata option \<times> 'cu ConnectionMetadata \<times> unit Decision" where
  "default_handle_rset w mail_meta conn_meta = (w, mail_meta, conn_meta, Accept okay_rset ())"

definition default_handle_starttls :: "('cu ConnectionMetadata \<Rightarrow> bool) \<Rightarrow> ('w, 'cu) simple_handler" where
  "default_handle_starttls can_do_tls w conn_meta =
     (w, conn_meta, if can_do_tls conn_meta then Accept okay_starttls () else Reject command_not_supported)"

definition default_handle_expn :: "bytes MaybeUtf8 \<Rightarrow> ('w, 'cu) simple_handler" where
  "default_handle_expn name w conn_meta = (w, conn_meta, Reject command_unimplemented)"

definition default_handle_vrfy :: "bytes MaybeUtf8 \<Rightarrow> ('w, 'cu) simple_handler" where
  "default_handle_vrfy name w conn_meta = (w, conn_meta, Accept ignore_vrfy ())"

definition default_handle_help :: "bytes MaybeUtf8 \<Rightarrow> ('w, 'cu) simple_handler" where
  "default_handle_help subject w conn_meta = (w, conn_meta, Accept ignore_help ())"

definition default_handle_noop :: "bytes MaybeUtf8 \<Rightarrow> ('w, 'cu) simple_handler" where
  "default_handle_noop string w conn_meta = (w, conn_meta, Accept okay_noop ())"

definition default_handle_quit :: "('w, 'cu) simple_handler" where
  "default_handle_quit w conn_meta = (w, conn_meta, Kill (Some okay_quit) (Inr ()))"

definition default_refusal :: "bytes Reply \<Rightarrow> 'cu refusal" where
  "default_refusal r conn_meta = (conn_meta, r)"

text \<open>
  A configuration that overrides nothing: the required methods and the host name are given, the
  provided ones are the trait's.
\<close>

definition default_config ::
  "ProtocolName \<Rightarrow> bytes \<Rightarrow>
   ('io \<Rightarrow> 'w \<Rightarrow> 'cu ConnectionMetadata \<Rightarrow> 'io \<times> 'w \<times> 'cu ConnectionMetadata \<times> unit io_result) \<Rightarrow>
   ('w \<Rightarrow> 'cu ConnectionMetadata \<Rightarrow> 'w \<times> 'cu ConnectionMetadata \<times> 'mu) \<Rightarrow>
   (bytes Email option \<Rightarrow> 'w \<Rightarrow> 'mu MailMetadata \<Rightarrow> 'cu ConnectionMetadata \<Rightarrow>
     'w \<times> 'mu MailMetadata \<times> 'cu ConnectionMetadata \<times> bytes Email option Decision) \<Rightarrow>
   (bytes Email \<Rightarrow> 'w \<Rightarrow> 'mu MailMetadata \<Rightarrow> 'cu ConnectionMetadata \<Rightarrow>
     'w \<times> 'mu MailMetadata \<times> 'cu ConnectionMetadata \<times> bytes Email Decision) \<Rightarrow>
   ('io EscapedDataReader \<Rightarrow> 'w \<Rightarrow> 'mu MailMetadata \<Rightarrow> 'cu ConnectionMetadata \<Rightarrow>
     'io EscapedDataReader \<times> 'w \<times> 'cu ConnectionMetadata \<times> handle_mail_return) \<Rightarrow>
   ('io, 'w, 'cu, 'mu) Config" where
  "default_config proto host tls_accept new_mail filter_from filter_to handle_mail =
     \<lparr>cfg_protocol = proto,
      cfg_welcome_banner_reply = default_welcome_banner_reply host default_welcome_banner,
      cfg_filter_hello = default_filter_hello host default_hello_banner default_can_do_tls,
      cfg_can_do_tls = default_can_do_tls,
      cfg_tls_accept = tls_accept,
      cfg_new_mail = new_mail,
      cfg_filter_from = filter_from,
      cfg_filter_to = filter_to,
      cfg_filter_data = default_filter_data,
      cfg_handle_mail = handle_mail,
      cfg_handle_rset = default_handle_rset,
      cfg_handle_starttls = default_handle_starttls default_can_do_tls,
      cfg_handle_expn = default_handle_expn,
      cfg_handle_vrfy = default_handle_vrfy,
      cfg_handle_help = default_handle_help,
      cfg_handle_noop = default_handle_noop,
      cfg_handle_quit = default_handle_quit,
      cfg_already_did_hello = default_refusal bad_sequence,
      cfg_mail_before_hello = default_refusal bad_sequence,
      cfg_already_in_mail = default_refusal bad_sequence,
      cfg_rcpt_before_mail = default_refusal bad_sequence,
      cfg_data_before_rcpt = default_refusal bad_sequence,
      cfg_data_before_mail = default_refusal bad_sequence,
      cfg_starttls_unsupported = default_refusal command_not_supported,
      cfg_command_unrecognized = default_refusal command_unrecognized,
      cfg_pipeline_forbidden_after_starttls = default_refusal pipeline_forbidden_after_starttls,
      cfg_line_too_long = default_refusal line_too_long,
      cfg_handle_mail_did_not_call_complete = default_refusal handle_mail_did_not_call_complete\<rparr>"

section \<open>The connection and the session\<close>

text \<open>
  \<open>srv_read w n\<close> is an awaited \<^verbatim>\<open>io.read\<close> into \<open>n\<close> bytes; \<open>srv_write\<close> an awaited
  \<^verbatim>\<open>write_all_vectored\<close>; \<open>srv_read_timer\<close> and \<open>srv_write_timer\<close> say whether the timer of
  \<^verbatim>\<open>read_for_command!\<close> and \<^verbatim>\<open>send_reply!\<close> wins, and leave the connection as it then is.
\<close>

record 'io ServerIo =
  srv_read :: "'io \<Rightarrow> nat \<Rightarrow> 'io \<times> bytes io_result"
  srv_write :: "'io \<Rightarrow> bytes list \<Rightarrow> 'io \<times> unit io_result"
  srv_read_timer :: "'io \<Rightarrow> 'io option"
  srv_write_timer :: "'io \<Rightarrow> bytes list \<Rightarrow> 'io option"

definition RDBUF_SIZE :: nat where "RDBUF_SIZE = 16 * 1024"
definition MINIMUM_FREE_BUFSPACE :: nat where "MINIMUM_FREE_BUFSPACE = 128"

record ('io, 'w, 'cu, 'mu) Session =
  ss_io :: 'io
  ss_world :: 'w
  ss_rdbuf :: bytes
  ss_start :: nat
  ss_end :: nat
  ss_conn :: "'cu ConnectionMetadata"
  ss_mail :: "'mu MailMetadata option"

text \<open>
  How a piece of the loop ends: it goes on with a value, \<^verbatim>\<open>interact\<close> returns, panics, or a loop
  inside never ends.
\<close>

datatype ('s, 'a) act = Go 's 'a | Stop 's "unit io_result" | Crash | Diverge

fun bind_act :: "('s, 'a) act \<Rightarrow> ('s \<Rightarrow> 'a \<Rightarrow> ('s, 'b) act) \<Rightarrow> ('s, 'b) act" where
  "bind_act (Go s a) f = f s a"
| "bind_act (Stop s r) f = Stop s r"
| "bind_act Crash f = Crash"
| "bind_act Diverge f = Diverge"

text \<open>\<^verbatim>\<open>send_reply!\<close>\<close>

definition send_reply ::
  "'io ServerIo \<Rightarrow> bytes Reply \<Rightarrow> ('io, 'w, 'cu, 'mu) Session \<Rightarrow> (('io, 'w, 'cu, 'mu) Session, unit) act" where
  "send_reply env reply s =
     (case reply_io_slices reply of
        Panic \<Rightarrow> Crash
      | Value slices \<Rightarrow>
          (case srv_write_timer env (ss_io s) slices of
             Some w \<Rightarrow> Stop (s\<lparr>ss_io := w\<rparr>) (Inl (Io_Error TimedOut ''timed out sending a reply''))
           | None \<Rightarrow>
               (case srv_write env (ss_io s) slices of
                  (w, Inr _) \<Rightarrow> Go (s\<lparr>ss_io := w\<rparr>) ()
                | (w, Inl e) \<Rightarrow> Stop (s\<lparr>ss_io := w\<rparr>) (Inl e))))"

text \<open>\<^verbatim>\<open>read_for_command!\<close> around a reading action.\<close>

definition read_for_command ::
  "'io ServerIo \<Rightarrow> (('io, 'w, 'cu, 'mu) Session \<Rightarrow> (('io, 'w, 'cu, 'mu) Session, 'a) act) \<Rightarrow>
     ('io, 'w, 'cu, 'mu) Session \<Rightarrow> (('io, 'w, 'cu, 'mu) Session, 'a) act" where
  "read_for_command env action s =
     (case srv_read_timer env (ss_io s) of
        Some w \<Rightarrow> Stop (s\<lparr>ss_io := w\<rparr>) (Inl (Io_Error TimedOut ''timed out waiting for a command''))
      | None \<Rightarrow> action s)"

text \<open>Overwriting a buffer from \<open>at\<close> on with what was read.\<close>

definition write_at :: "bytes \<Rightarrow> nat \<Rightarrow> bytes \<Rightarrow> bytes" where
  "write_at buf at bs = take at buf @ bs @ drop (at + length bs) buf"

text \<open>\<^verbatim>\<open>io.read(&mut rdbuf[at..])\<close>: the number of bytes read.\<close>

definition read_into ::
  "'io ServerIo \<Rightarrow> nat \<Rightarrow> ('io, 'w, 'cu, 'mu) Session \<Rightarrow> (('io, 'w, 'cu, 'mu) Session, nat) act" where
  "read_into env at s =
     (case srv_read env (ss_io s) (length (ss_rdbuf s) - at) of
        (w, Inl e) \<Rightarrow> Stop (s\<lparr>ss_io := w\<rparr>) (Inl e)
      | (w, Inr bs) \<Rightarrow> Go (s\<lparr>ss_io := w, ss_rdbuf := write_at (ss_rdbuf s) at bs\<rparr>) (length bs))"

section \<open>Skipping a line\<close>

text \<open>The loop of \<^verbatim>\<open>advance_until_crlf\<close>; \<open>None\<close> if it never returns.\<close>

partial_function (option) advance_loop ::
  "('io \<Rightarrow> nat \<Rightarrow> 'io \<times> bytes io_result) \<Rightarrow> NextCrLfState \<Rightarrow> 'io \<Rightarrow> bytes \<Rightarrow> nat \<Rightarrow> nat \<Rightarrow>
     ('io \<times> bytes \<times> nat \<times> nat \<times> unit io_result) option" where
  "advance_loop read state w buf s e =
     (case next_crlf (subslice buf s e) state of
        (Some p, state') \<Rightarrow> Some (w, buf, s + (p + 1), e, Inr ())
      | (None, state') \<Rightarrow>
          (case read w (length buf) of
             (w', Inl err) \<Rightarrow> Some (w', buf, s, e, Inl err)
           | (w', Inr bs) \<Rightarrow>
               (if bs = [] then
                  Some (w', buf, s, e, Inl (Io_Error ConnectionAborted
                    ''connection shutdown while waiting for crlf after invalid command''))
                else advance_loop read state' w' (write_at buf 0 bs) 0 (length bs))))"

definition advance_until_crlf ::
  "'io ServerIo \<Rightarrow> ('io, 'w, 'cu, 'mu) Session \<Rightarrow> (('io, 'w, 'cu, 'mu) Session, unit) act" where
  "advance_until_crlf env s =
     (case advance_loop (srv_read env) Nc_Start (ss_io s) (ss_rdbuf s) (ss_start s) (ss_end s) of
        None \<Rightarrow> Diverge
      | Some (w, buf, st, e, r) \<Rightarrow>
          (let s' = s\<lparr>ss_io := w, ss_rdbuf := buf, ss_start := st, ss_end := e\<rparr> in
           case r of Inr _ \<Rightarrow> Go s' () | Inl err \<Rightarrow> Stop s' (Inl err)))"

section \<open>Getting a command\<close>

type_synonym command_parser = "bytes \<Rightarrow> bytes Command iresult"

text \<open>A reply of the configuration to something it is not asked to decide.\<close>

definition refuse ::
  "'io ServerIo \<Rightarrow> 'cu refusal \<Rightarrow> ('io, 'w, 'cu, 'mu) Session \<Rightarrow> (('io, 'w, 'cu, 'mu) Session, unit) act" where
  "refuse env refusal s =
     (case refusal (ss_conn s) of (c, reply) \<Rightarrow> send_reply env reply (s\<lparr>ss_conn := c\<rparr>))"

text \<open>Moving the unhandled bytes to the front of the buffer when there is too little room.\<close>

definition make_room :: "needed \<Rightarrow> ('io, 'w, 'cu, 'mu) Session \<Rightarrow> ('io, 'w, 'cu, 'mu) Session" where
  "make_room n s =
     (let missing = (case n of Needed_Unknown \<Rightarrow> MINIMUM_FREE_BUFSPACE
                     | Needed_Size k \<Rightarrow> max MINIMUM_FREE_BUFSPACE k)
      in if ss_start s \<noteq> 0 \<and> length (ss_rdbuf s) - ss_end s < missing
         then s\<lparr>ss_rdbuf := copy_within (ss_rdbuf s) (ss_start s) (ss_end s) 0,
                ss_start := 0, ss_end := ss_end s - ss_start s\<rparr>
         else s)"

text \<open>An incomplete command: fetch more, or give up on a line that fills the buffer.\<close>

definition fetch_more ::
  "'io ServerIo \<Rightarrow> ('io, 'w, 'cu, 'mu) Config \<Rightarrow> ('io, 'w, 'cu, 'mu) Session \<Rightarrow> (('io, 'w, 'cu, 'mu) Session, unit) act" where
  "fetch_more env cfg s =
     (if ss_end s = length (ss_rdbuf s) then
        bind_act (read_for_command env (advance_until_crlf env) s)
          (\<lambda>s _. refuse env (cfg_line_too_long cfg) s)
      else
        bind_act (read_for_command env (read_into env (ss_end s)) s)
          (\<lambda>s read.
             if read = 0 then
               Stop s (Inl (Io_Error ConnectionAborted ''connection shutdown with partial command''))
             else Go (s\<lparr>ss_end := ss_end s + read\<rparr>) ()))"

definition next_command ::
  "command_parser \<Rightarrow> 'io ServerIo \<Rightarrow> ('io, 'w, 'cu, 'mu) Config \<Rightarrow> ('io, 'w, 'cu, 'mu) Session \<Rightarrow>
     (('io, 'w, 'cu, 'mu) Session, bytes Command option) act" where
  "next_command parse env cfg s =
     bind_act
       (if \<not> ss_start s < ss_end s then
          bind_act (read_for_command env (read_into env 0) s)
            (\<lambda>s n. let s' = s\<lparr>ss_start := 0, ss_end := n\<rparr> in if n = 0 then Stop s' (Inr ()) else Go s' ())
        else Go s ())
       (\<lambda>s _.
          case parse (subslice (ss_rdbuf s) (ss_start s) (ss_end s)) of
            Inl (Incomplete n) \<Rightarrow> bind_act (fetch_more env cfg (make_room n s)) (\<lambda>s _. Go s None)
          | Inl _ \<Rightarrow>
              bind_act (read_for_command env (advance_until_crlf env) s)
                (\<lambda>s _. bind_act (refuse env (cfg_command_unrecognized cfg) s) (\<lambda>s _. Go s None))
          | Inr (rem, cmd) \<Rightarrow> Go (s\<lparr>ss_start := ss_end s - length rem\<rparr>) (Some cmd))"

section \<open>Handling a command\<close>

text \<open>\<^verbatim>\<open>dispatch_decision!\<close> and \<^verbatim>\<open>simple_handler!\<close>\<close>

definition dispatch_decision ::
  "'io ServerIo \<Rightarrow> 'a Decision \<Rightarrow>
   (bytes Reply \<Rightarrow> ('io, 'w, 'cu, 'mu) Session \<Rightarrow> (('io, 'w, 'cu, 'mu) Session, unit) act) \<Rightarrow>
   (bytes Reply \<Rightarrow> 'a \<Rightarrow> ('io, 'w, 'cu, 'mu) Session \<Rightarrow> (('io, 'w, 'cu, 'mu) Session, unit) act) \<Rightarrow>
   ('io, 'w, 'cu, 'mu) Session \<Rightarrow> (('io, 'w, 'cu, 'mu) Session, unit) act" where
  "dispatch_decision env d reject accept s =
     (case d of
        Accept reply res \<Rightarrow> accept reply res s
      | Reject reply \<Rightarrow> reject reply s
      | Kill reply res \<Rightarrow>
          bind_act (case reply of Some r \<Rightarrow> send_reply env r s | None \<Rightarrow> Go s ()) (\<lambda>s _. Stop s res))"

definition simple_handler ::
  "'io ServerIo \<Rightarrow> unit Decision \<Rightarrow> ('io, 'w, 'cu, 'mu) Session \<Rightarrow> (('io, 'w, 'cu, 'mu) Session, unit) act" where
  "simple_handler env d = dispatch_decision env d (send_reply env) (\<lambda>reply _. send_reply env reply)"

definition call_simple_handler ::
  "'io ServerIo \<Rightarrow> ('w, 'cu) simple_handler \<Rightarrow> ('io, 'w, 'cu, 'mu) Session \<Rightarrow> (('io, 'w, 'cu, 'mu) Session, unit) act" where
  "call_simple_handler env handler s =
     (case handler (ss_world s) (ss_conn s) of
        (w, c, d) \<Rightarrow> simple_handler env d (s\<lparr>ss_world := w, ss_conn := c\<rparr>))"

text \<open>The three greetings.\<close>

definition handle_hello ::
  "'io ServerIo \<Rightarrow> ('io, 'w, 'cu, 'mu) Config \<Rightarrow> ProtocolName \<Rightarrow> bool \<Rightarrow> bytes Hostname \<Rightarrow>
     ('io, 'w, 'cu, 'mu) Session \<Rightarrow> (('io, 'w, 'cu, 'mu) Session, unit) act" where
  "handle_hello env cfg cmd_proto is_extended hostname s =
     (if cmd_proto \<noteq> cfg_protocol cfg then refuse env (cfg_command_unrecognized cfg) s
      else case cm_hello (ss_conn s) of
        Some _ \<Rightarrow> refuse env (cfg_already_did_hello cfg) s
      | None \<Rightarrow>
          (case cfg_filter_hello cfg is_extended hostname (ss_world s) (ss_conn s) of
             (w, c, d) \<Rightarrow>
               dispatch_decision env d (send_reply env)
                 (\<lambda>reply res s. send_reply env reply (s\<lparr>ss_conn := (ss_conn s)\<lparr>cm_hello := Some res\<rparr>\<rparr>))
                 (s\<lparr>ss_world := w, ss_conn := c\<rparr>)))"

definition handle_mail_from ::
  "'io ServerIo \<Rightarrow> ('io, 'w, 'cu, 'mu) Config \<Rightarrow> bytes Email option \<Rightarrow>
     ('io, 'w, 'cu, 'mu) Session \<Rightarrow> (('io, 'w, 'cu, 'mu) Session, unit) act" where
  "handle_mail_from env cfg email s =
     (if cm_hello (ss_conn s) = None then refuse env (cfg_mail_before_hello cfg) s
      else case ss_mail s of
        Some _ \<Rightarrow> refuse env (cfg_already_in_mail cfg) s
      | None \<Rightarrow>
          (case cfg_new_mail cfg (ss_world s) (ss_conn s) of
             (w, c, user) \<Rightarrow>
               (case cfg_filter_from cfg email w \<lparr>mm_user = user, mm_from = None, mm_to = []\<rparr> c of
                  (w', m, c', d) \<Rightarrow>
                    dispatch_decision env d (send_reply env)
                      (\<lambda>reply res s. send_reply env reply (s\<lparr>ss_mail := Some (m\<lparr>mm_from := res\<rparr>)\<rparr>))
                      (s\<lparr>ss_world := w', ss_conn := c'\<rparr>))))"

definition handle_rcpt_to ::
  "'io ServerIo \<Rightarrow> ('io, 'w, 'cu, 'mu) Config \<Rightarrow> bytes Email \<Rightarrow>
     ('io, 'w, 'cu, 'mu) Session \<Rightarrow> (('io, 'w, 'cu, 'mu) Session, unit) act" where
  "handle_rcpt_to env cfg email s =
     (case ss_mail s of
        None \<Rightarrow> refuse env (cfg_rcpt_before_mail cfg) s
      | Some m \<Rightarrow>
          (case cfg_filter_to cfg email (ss_world s) m (ss_conn s) of
             (w, m', c, d) \<Rightarrow>
               dispatch_decision env d (send_reply env)
                 (\<lambda>reply res s. send_reply env reply (s\<lparr>ss_mail := Some (m'\<lparr>mm_to := mm_to m' @ [res]\<rparr>)\<rparr>))
                 (s\<lparr>ss_world := w, ss_conn := c, ss_mail := Some m'\<rparr>)))"

text \<open>The decisions of \<^verbatim>\<open>handle_mail\<close>, with the count the code asserts.\<close>

fun answer_decisions ::
  "'io ServerIo \<Rightarrow> nat \<Rightarrow> nat \<Rightarrow> unit Decision list \<Rightarrow>
     ('io, 'w, 'cu, 'mu) Session \<Rightarrow> (('io, 'w, 'cu, 'mu) Session, unit) act" where
  "answer_decisions env n_decisions expected [] s = (if n_decisions = expected then Go s () else Crash)"
| "answer_decisions env n_decisions expected (d # ds) s =
     (if expected < n_decisions + 1 then Crash
      else bind_act (simple_handler env d s) (\<lambda>s _. answer_decisions env (n_decisions + 1) expected ds s))"

text \<open>An awaited read of the connection as a poll that always answers.\<close>

definition awaited_read :: "'io ServerIo \<Rightarrow> 'io poll_read" where
  "awaited_read env w bufs =
     (case srv_read env w (total_len bufs) of
        (w', Inl e) \<Rightarrow> (w', bufs, Ready (Inl e))
      | (w', Inr bs) \<Rightarrow> (w', scatter bs bufs, Ready (Inr (length bs))))"

text \<open>\<^verbatim>\<open>while read_for_command!(reader.read(ignore_buf)).await? != 0 {}\<close>\<close>

partial_function (option) drain_loop ::
  "'io ServerIo \<Rightarrow> 'io EscapedDataReader \<Rightarrow> ('io EscapedDataReader \<times> unit io_result) run option" where
  "drain_loop env reader =
     (case srv_read_timer env (rd_read reader) of
        Some w \<Rightarrow> Some (Value (reader\<lparr>rd_read := w\<rparr>,
                    Inl (Io_Error TimedOut ''timed out waiting for a command'')))
      | None \<Rightarrow>
          (case poll_read (awaited_read env) reader (replicate 128 (CHR 0x00)) of
             Panic \<Rightarrow> Some Panic
           | Value (reader', bufs, Pending) \<Rightarrow> drain_loop env reader'
           | Value (reader', bufs, Ready (Inl e)) \<Rightarrow> Some (Value (reader', Inl e))
           | Value (reader', bufs, Ready (Inr n)) \<Rightarrow>
               (if n = 0 then Some (Value (reader', Inr ())) else drain_loop env reader')))"

fun repeat_refuse ::
  "'io ServerIo \<Rightarrow> 'cu refusal \<Rightarrow> nat \<Rightarrow> ('io, 'w, 'cu, 'mu) Session \<Rightarrow> (('io, 'w, 'cu, 'mu) Session, unit) act" where
  "repeat_refuse env refusal 0 s = Go s ()"
| "repeat_refuse env refusal (Suc n) s =
     bind_act (refuse env refusal s) (\<lambda>s _. repeat_refuse env refusal n s)"

definition with_reader ::
  "'io EscapedDataReader \<Rightarrow> nat \<times> nat \<Rightarrow> ('io, 'w, 'cu, 'mu) Session \<Rightarrow> ('io, 'w, 'cu, 'mu) Session" where
  "with_reader reader u s =
     s\<lparr>ss_io := rd_read reader, ss_rdbuf := rd_buf reader, ss_start := fst u, ss_end := snd u\<rparr>"

text \<open>When \<^verbatim>\<open>handle_mail\<close> did not complete the reader: read to the end and refuse.\<close>

definition finish_reception ::
  "'io ServerIo \<Rightarrow> ('io, 'w, 'cu, 'mu) Config \<Rightarrow> nat \<Rightarrow> 'io EscapedDataReader \<Rightarrow>
     ('io, 'w, 'cu, 'mu) Session \<Rightarrow> (('io, 'w, 'cu, 'mu) Session, unit) act" where
  "finish_reception env cfg expected reader s =
     (case drain_loop env reader of
        None \<Rightarrow> Diverge
      | Some Panic \<Rightarrow> Crash
      | Some (Value (reader', Inl e)) \<Rightarrow> Stop (s\<lparr>ss_io := rd_read reader'\<rparr>) (Inl e)
      | Some (Value (reader', Inr _)) \<Rightarrow>
          (if \<not> is_finished reader' then
             Stop (s\<lparr>ss_io := rd_read reader'\<rparr>)
               (Inl (Io_Error ConnectionAborted ''connection shutdown during email reception''))
           else case complete reader' of
             Panic \<Rightarrow> Crash
           | Value reader'' \<Rightarrow>
               (case get_unhandled reader'' of
                  None \<Rightarrow> Crash
                | Some u \<Rightarrow> repeat_refuse env (cfg_handle_mail_did_not_call_complete cfg) expected
                              (with_reader reader'' u s))))"

definition receive_mail ::
  "'io ServerIo \<Rightarrow> ('io, 'w, 'cu, 'mu) Config \<Rightarrow> 'mu MailMetadata \<Rightarrow>
     ('io, 'w, 'cu, 'mu) Session \<Rightarrow> (('io, 'w, 'cu, 'mu) Session, unit) act" where
  "receive_mail env cfg m s =
     (let reader = reader_new (ss_rdbuf s) (ss_start s) (ss_end s) (ss_io s);
          expected = (case cfg_protocol cfg of Smtp \<Rightarrow> 1 | Lmtp \<Rightarrow> length (mm_to m))
      in case cfg_handle_mail cfg reader (ss_world s) m (ss_conn s) of
           (reader', w, c, ret) \<Rightarrow>
             (case get_unhandled reader' of
                Some u \<Rightarrow> answer_decisions env 0 expected (handle_mail_return_type_as_stream ret)
                            (with_reader reader' u (s\<lparr>ss_world := w, ss_conn := c\<rparr>))
              | None \<Rightarrow> finish_reception env cfg expected reader' (s\<lparr>ss_world := w, ss_conn := c\<rparr>)))"

definition handle_data ::
  "'io ServerIo \<Rightarrow> ('io, 'w, 'cu, 'mu) Config \<Rightarrow>
     ('io, 'w, 'cu, 'mu) Session \<Rightarrow> (('io, 'w, 'cu, 'mu) Session, unit) act" where
  "handle_data env cfg s =
     (let taken = ss_mail s; s = s\<lparr>ss_mail := None\<rparr> in
      case taken of
        None \<Rightarrow> refuse env (cfg_data_before_mail cfg) s
      | Some m \<Rightarrow>
          (if mm_to m = [] then refuse env (cfg_data_before_rcpt cfg) s
           else case cfg_filter_data cfg (ss_world s) m (ss_conn s) of
             (w, m', c, d) \<Rightarrow>
               dispatch_decision env d
                 (\<lambda>reply s. send_reply env reply (s\<lparr>ss_mail := Some m'\<rparr>))
                 (\<lambda>reply _ s. bind_act (send_reply env reply s) (\<lambda>s _. receive_mail env cfg m' s))
                 (s\<lparr>ss_world := w, ss_conn := c\<rparr>)))"

definition handle_rset_command ::
  "'io ServerIo \<Rightarrow> ('io, 'w, 'cu, 'mu) Config \<Rightarrow>
     ('io, 'w, 'cu, 'mu) Session \<Rightarrow> (('io, 'w, 'cu, 'mu) Session, unit) act" where
  "handle_rset_command env cfg s =
     (case cfg_handle_rset cfg (ss_world s) (ss_mail s) (ss_conn s) of
        (w, m, c, d) \<Rightarrow>
          dispatch_decision env d (send_reply env)
            (\<lambda>reply _ s. send_reply env reply (s\<lparr>ss_mail := None\<rparr>))
            (s\<lparr>ss_world := w, ss_mail := m, ss_conn := c\<rparr>))"

definition handle_starttls_command ::
  "'io ServerIo \<Rightarrow> ('io, 'w, 'cu, 'mu) Config \<Rightarrow>
     ('io, 'w, 'cu, 'mu) Session \<Rightarrow> (('io, 'w, 'cu, 'mu) Session, unit) act" where
  "handle_starttls_command env cfg s =
     (if \<not> cfg_can_do_tls cfg (ss_conn s) then refuse env (cfg_starttls_unsupported cfg) s
      else if ss_start s < ss_end s then refuse env (cfg_pipeline_forbidden_after_starttls cfg) s
      else case cfg_handle_starttls cfg (ss_world s) (ss_conn s) of
        (w, c, d) \<Rightarrow>
          dispatch_decision env d (send_reply env)
            (\<lambda>reply _ s. bind_act (send_reply env reply s) (\<lambda>s _.
               case cfg_tls_accept cfg (ss_io s) (ss_world s) (ss_conn s) of
                 (io, w', c', Inl e) \<Rightarrow> Stop (s\<lparr>ss_io := io, ss_world := w', ss_conn := c'\<rparr>) (Inl e)
               | (io, w', c', Inr _) \<Rightarrow>
                   Go (s\<lparr>ss_io := io, ss_world := w', ss_mail := None,
                         ss_conn := c'\<lparr>cm_is_encrypted := True, cm_hello := None\<rparr>\<rparr>) ()))
            (s\<lparr>ss_world := w, ss_conn := c\<rparr>))"

fun handle_command ::
  "'io ServerIo \<Rightarrow> ('io, 'w, 'cu, 'mu) Config \<Rightarrow> bytes Command \<Rightarrow>
     ('io, 'w, 'cu, 'mu) Session \<Rightarrow> (('io, 'w, 'cu, 'mu) Session, unit) act" where
  "handle_command env cfg (Ehlo h) s = handle_hello env cfg Smtp True h s"
| "handle_command env cfg (Helo h) s = handle_hello env cfg Smtp False h s"
| "handle_command env cfg (Lhlo h) s = handle_hello env cfg Lmtp True h s"
| "handle_command env cfg (Mail path email params) s = handle_mail_from env cfg email s"
| "handle_command env cfg (Rcpt path email params) s = handle_rcpt_to env cfg email s"
| "handle_command env cfg Data s = handle_data env cfg s"
| "handle_command env cfg Rset s = handle_rset_command env cfg s"
| "handle_command env cfg Starttls s = handle_starttls_command env cfg s"
| "handle_command env cfg (Expn name) s = call_simple_handler env (cfg_handle_expn cfg name) s"
| "handle_command env cfg (Vrfy name) s = call_simple_handler env (cfg_handle_vrfy cfg name) s"
| "handle_command env cfg (Help subject) s = call_simple_handler env (cfg_handle_help cfg subject) s"
| "handle_command env cfg (Noop string) s = call_simple_handler env (cfg_handle_noop cfg string) s"
| "handle_command env cfg Quit s = call_simple_handler env (cfg_handle_quit cfg) s"

section \<open>The loop\<close>

definition interact_step ::
  "command_parser \<Rightarrow> 'io ServerIo \<Rightarrow> ('io, 'w, 'cu, 'mu) Config \<Rightarrow>
     ('io, 'w, 'cu, 'mu) Session \<Rightarrow> (('io, 'w, 'cu, 'mu) Session, unit) act" where
  "interact_step parse env cfg s =
     bind_act (next_command parse env cfg s)
       (\<lambda>s cmd. case cmd of None \<Rightarrow> Go s () | Some c \<Rightarrow> handle_command env cfg c s)"

datatype IsAlreadyTls = Yes | No

definition interact_init :: "'io \<Rightarrow> 'w \<Rightarrow> IsAlreadyTls \<Rightarrow> 'cu \<Rightarrow> ('io, 'w, 'cu, 'mu) Session" where
  "interact_init io w is_already_tls metadata =
     \<lparr>ss_io = io, ss_world = w, ss_rdbuf = replicate RDBUF_SIZE (CHR 0x00), ss_start = 0, ss_end = 0,
      ss_conn = \<lparr>cm_user = metadata, cm_hello = None, cm_is_encrypted = (is_already_tls = Yes)\<rparr>,
      ss_mail = None\<rparr>"

text \<open>The sessions at the head of the loop.\<close>

inductive interact_reaches ::
  "command_parser \<Rightarrow> 'io ServerIo \<Rightarrow> ('io, 'w, 'cu, 'mu) Config \<Rightarrow> ('io, 'w, 'cu, 'mu) Session \<Rightarrow>
     ('io, 'w, 'cu, 'mu) Session \<Rightarrow> bool" for parse env cfg s0 where
  greeted: "refuse env (cfg_welcome_banner_reply cfg) s0 = Go s () \<Longrightarrow>
    interact_reaches parse env cfg s0 s"
| stepped: "\<lbrakk>interact_reaches parse env cfg s0 s; interact_step parse env cfg s = Go s' ()\<rbrakk> \<Longrightarrow>
    interact_reaches parse env cfg s0 s'"

text \<open>
  The whole of \<^verbatim>\<open>interact\<close>: \<open>None\<close> if it never returns, otherwise a panic or the session as it was
  left with the result.
\<close>

partial_function (option) interact_loop ::
  "command_parser \<Rightarrow> 'io ServerIo \<Rightarrow> ('io, 'w, 'cu, 'mu) Config \<Rightarrow> ('io, 'w, 'cu, 'mu) Session \<Rightarrow>
     (('io, 'w, 'cu, 'mu) Session \<times> unit io_result) run option" where
  "interact_loop parse env cfg s =
     (case interact_step parse env cfg s of
        Go s' _ \<Rightarrow> interact_loop parse env cfg s'
      | Stop s' r \<Rightarrow> Some (Value (s', r))
      | Crash \<Rightarrow> Some Panic
      | Diverge \<Rightarrow> None)"

definition interact ::
  "command_parser \<Rightarrow> 'io ServerIo \<Rightarrow> ('io, 'w, 'cu, 'mu) Config \<Rightarrow> 'io \<Rightarrow> 'w \<Rightarrow> IsAlreadyTls \<Rightarrow> 'cu \<Rightarrow>
     (('io, 'w, 'cu, 'mu) Session \<times> unit io_result) run option" where
  "interact parse env cfg io w is_already_tls metadata =
     (case refuse env (cfg_welcome_banner_reply cfg) (interact_init io w is_already_tls metadata) of
        Go s _ \<Rightarrow> interact_loop parse env cfg s
      | Stop s r \<Rightarrow> Some (Value (s, r))
      | Crash \<Rightarrow> Some Panic
      | Diverge \<Rightarrow> None)"

end
