(* ===== verification/ServerSession.thy ===== *)
theory ServerSession
  imports Server
begin

text \<open>
  What the server loop guarantees. The interfaces it relies on are locales: the connection, the
  parser of commands and the configuration. The commands of a session are those of an abstract
  SMTP session, which the loop refines; the bytes of the connection are consumed exactly, and
  every command is answered.
\<close>

section \<open>Reasoning about actions\<close>

text \<open>\<open>ensures x Q\<close>: if the action goes on, \<open>Q\<close> holds of the session and the value.\<close>

definition ensures :: "('s, 'a) act \<Rightarrow> ('s \<Rightarrow> 'a \<Rightarrow> bool) \<Rightarrow> bool" where
  "ensures x Q \<longleftrightarrow> (\<forall>s a. x = Go s a \<longrightarrow> Q s a)"

lemma ensures_simps [simp]:
  "ensures (Go s a) Q \<longleftrightarrow> Q s a" "ensures (Stop s r) Q" "ensures Crash Q" "ensures Diverge Q"
  by (simp_all add: ensures_def)

lemma ensures_bind: "ensures x (\<lambda>s a. ensures (f s a) Q) \<Longrightarrow> ensures (bind_act x f) Q"
  by (cases x) auto

lemma ensures_bind_iff [simp]: "ensures (bind_act x f) Q \<longleftrightarrow> ensures x (\<lambda>s a. ensures (f s a) Q)"
  by (cases x) auto

lemma ensures_mono: "ensures x P \<Longrightarrow> (\<And>s a. P s a \<Longrightarrow> Q s a) \<Longrightarrow> ensures x Q"
  by (cases x) auto

lemma bind_act_Go_iff: "bind_act x f = Go s b \<longleftrightarrow> (\<exists>s1 a. x = Go s1 a \<and> f s1 a = Go s b)"
  by (cases x) auto

lemma line_feed_bound: "line_feed st x = Some i \<Longrightarrow> i < length x"
  by (induction x arbitrary: st i) (auto split: if_splits)

section \<open>The connection\<close>

text \<open>
  \<open>incoming io\<close> is what the peer still sends, \<open>wire io\<close> what has been sent to it.
\<close>

locale connection =
  fixes env :: "'io ServerIo"
    and incoming :: "'io \<Rightarrow> bytes"
    and wire :: "'io \<Rightarrow> bytes"
  assumes srv_read_ok: "srv_read env io n = (io', Inr bs) \<Longrightarrow>
      length bs \<le> n \<and> incoming io = bs @ incoming io' \<and> wire io' = wire io"
    and srv_read_eof: "srv_read env io n = (io', Inr []) \<Longrightarrow> 0 < n \<Longrightarrow> incoming io = []"
    and srv_read_failed: "srv_read env io n = (io', Inl e) \<Longrightarrow> incoming io' = incoming io \<and> wire io' = wire io"
    and srv_write_ok: "srv_write env io slices = (io', Inr u) \<Longrightarrow>
      wire io' = wire io @ concat slices \<and> incoming io' = incoming io"

definition reply_bytes :: "bytes Reply \<Rightarrow> bytes" where
  "reply_bytes r = (case reply_io_slices r of Value slices \<Rightarrow> concat slices | Panic \<Rightarrow> [])"

text \<open>Between two states of the connection exactly \<open>n\<close> replies were sent.\<close>

definition sent :: "('io \<Rightarrow> bytes) \<Rightarrow> nat \<Rightarrow> 'io \<Rightarrow> 'io \<Rightarrow> bool" where
  "sent wire n io io' \<longleftrightarrow> (\<exists>rs. length rs = n \<and> wire io' = wire io @ concat (map reply_bytes rs))"

lemma sent_0 [simp]: "sent wire 0 io io' \<longleftrightarrow> wire io' = wire io"
  by (simp add: sent_def)

lemma sent_trans:
  assumes "sent wire m io io1" "sent wire n io1 io2"
  shows "sent wire (m + n) io io2"
proof -
  from assms obtain rs1 rs2 where "length rs1 = m" "wire io1 = wire io @ concat (map reply_bytes rs1)"
    "length rs2 = n" "wire io2 = wire io1 @ concat (map reply_bytes rs2)"
    by (auto simp: sent_def)
  then show ?thesis by (auto simp: sent_def intro!: exI [of _ "rs1 @ rs2"])
qed

lemma sent_cong: "wire io1 = wire io \<Longrightarrow> sent wire n io1 io' \<longleftrightarrow> sent wire n io io'"
  by (simp add: sent_def)

definition unhandled :: "('io, 'w, 'cu, 'mu) Session \<Rightarrow> bytes" where
  "unhandled s = subslice (ss_rdbuf s) (ss_start s) (ss_end s)"

text \<open>Everything the server has still to process: the unhandled bytes and what is to come.\<close>

definition pending_input :: "('io \<Rightarrow> bytes) \<Rightarrow> ('io, 'w, 'cu, 'mu) Session \<Rightarrow> bytes" where
  "pending_input incoming s = unhandled s @ incoming (ss_io s)"

definition session_wf :: "('io, 'w, 'cu, 'mu) Session \<Rightarrow> bool" where
  "session_wf s \<longleftrightarrow> ss_start s \<le> ss_end s \<and> ss_end s \<le> length (ss_rdbuf s) \<and> length (ss_rdbuf s) = RDBUF_SIZE"

text \<open>Two sessions with the same buffer and the same unhandled bytes.\<close>

definition same_buffer :: "('io, 'w, 'cu, 'mu) Session \<Rightarrow> ('io, 'w, 'cu, 'mu) Session \<Rightarrow> bool" where
  "same_buffer s s' \<longleftrightarrow> ss_rdbuf s' = ss_rdbuf s \<and> ss_start s' = ss_start s \<and> ss_end s' = ss_end s"

lemma same_buffer_unhandled: "same_buffer s s' \<Longrightarrow> unhandled s' = unhandled s \<and> session_wf s' = session_wf s"
  by (simp add: same_buffer_def unhandled_def session_wf_def)

lemma write_at_props:
  assumes "at + length bs \<le> length buf"
  shows "length (write_at buf at bs) = length buf"
    "s \<le> at \<Longrightarrow> subslice (write_at buf at bs) s (at + length bs) = subslice buf s at @ bs"
proof -
  show "length (write_at buf at bs) = length buf" using assms by (simp add: write_at_def)
  assume s: "s \<le> at"
  have l: "length (drop s (take at buf)) = at - s" using assms by simp
  have "drop s (write_at buf at bs) = drop s (take at buf) @ bs @ drop (at + length bs) buf"
    using assms s by (simp add: write_at_def)
  moreover have "at + length bs - s = (at - s) + length bs" using s by simp
  ultimately have "subslice (write_at buf at bs) s (at + length bs) = drop s (take at buf) @ bs"
    using l by (simp add: subslice_def)
  then show "subslice (write_at buf at bs) s (at + length bs) = subslice buf s at @ bs"
    by (simp add: subslice_def drop_take)
qed

context connection
begin

text \<open>An awaited read is a reader in the sense of \<^verbatim>\<open>AsyncRead\<close>.\<close>

lemma awaited_read_cases:
  assumes "awaited_read env io bufs = (io', bufs', res)"
  obtains (failed) e where "res = Ready (Inl e)" "bufs' = bufs" "srv_read env io (total_len bufs) = (io', Inl e)"
    | (read) bs where "res = Ready (Inr (length bs))" "bufs' = scatter bs bufs"
        "srv_read env io (total_len bufs) = (io', Inr bs)"
  using assms by (auto simp: awaited_read_def split: prod.splits sum.splits)

lemma awaited_async_read: "async_read (awaited_read env) incoming"
proof (unfold_locales, goal_cases)
  case (1 r bufs r' bufs' res)
  then show ?case by (rule awaited_read_cases) auto
next
  case (2 r bufs r' bufs' n)
  then show ?case
  proof (rule awaited_read_cases)
    fix bs assume bs: "Ready (Inr n) = Ready (Inr (length bs))" "bufs' = scatter bs bufs"
      "srv_read env r (total_len bufs) = (r', Inr bs)"
    then show ?thesis using srv_read_ok [OF bs(3)] take_concat_scatter [of bs bufs] by simp
  qed auto
next
  case (3 r bufs r' bufs')
  then show ?case by (elim awaited_read_cases) (auto dest: srv_read_eof)
next
  case (4 r bufs r' bufs')
  then show ?case by (rule awaited_read_cases) auto
next
  case (5 r bufs r' bufs' e)
  then show ?case by (rule awaited_read_cases) (auto dest: srv_read_failed)
qed

lemma awaited_read_wire: "awaited_read env io bufs = (io', bufs', res) \<Longrightarrow> wire io' = wire io"
  using srv_read_ok srv_read_failed by (auto simp: awaited_read_def split: prod.splits sum.splits)

lemma poll_read_vectored_wire:
  assumes "poll_read_vectored (awaited_read env) d bufs = Value (d', bufs', res)"
  shows "wire (rd_read d') = wire (rd_read d)"
proof -
  have scan: "rd_read d2 = rd_read d1" if "poll_scan d1 b k = Value (d2, b2, r2)" for d1 d2 b k b2 r2
    using that by (auto simp: poll_scan_def split: if_splits prod.splits option.splits)
  show ?thesis
  proof (cases "is_finished d \<or> rd_start d < rd_end d")
    case True
    with assms scan show ?thesis
      by (fastforce simp: poll_read_vectored_def Let_def split: if_splits)
  next
    case False
    obtain io' b r where io: "awaited_read env (rd_read d) bufs = (io', b, r)" by (metis prod_cases3)
    with awaited_read_wire have "wire io' = wire (rd_read d)" by blast
    with False assms io scan show ?thesis
      by (fastforce simp: poll_read_vectored_def Let_def split: if_splits poll.splits sum.splits)
  qed
qed

lemma reader_run_wire:
  "reader_run (awaited_read env) d out d' \<Longrightarrow> wire (rd_read d') = wire (rd_read d)"
  by (induction rule: reader_run.induct) (auto dest: poll_read_vectored_wire)

end

section \<open>Replies\<close>

text \<open>A session after \<open>n\<close> replies: only the connection has changed.\<close>

definition replied :: "('io \<Rightarrow> bytes) \<Rightarrow> ('io \<Rightarrow> bytes) \<Rightarrow> nat \<Rightarrow>
    ('io, 'w, 'cu, 'mu) Session \<Rightarrow> ('io, 'w, 'cu, 'mu) Session \<Rightarrow> bool" where
  "replied incoming wire n s s' \<longleftrightarrow> s' = s\<lparr>ss_io := ss_io s'\<rparr> \<and>
     incoming (ss_io s') = incoming (ss_io s) \<and> sent wire n (ss_io s) (ss_io s')"

lemma replied_fields:
  assumes "replied incoming wire n s s'"
  shows "ss_mail s' = ss_mail s" "ss_conn s' = ss_conn s" "unhandled s' = unhandled s"
    "session_wf s' = session_wf s" "incoming (ss_io s') = incoming (ss_io s)" "sent wire n (ss_io s) (ss_io s')"
  using assms
  by (auto simp: replied_def unhandled_def session_wf_def)
     (metis Session.select_convs Session.surjective Session.update_convs(1))+

context connection
begin

lemma send_reply_ensures: "ensures (send_reply env r s) (\<lambda>s' _. replied incoming wire 1 s s')"
proof -
  have "sent wire 1 io io' \<and> incoming io' = incoming io"
    if "reply_io_slices r = Value slices" "srv_write env io slices = (io', Inr u)" for slices io io' u
    using srv_write_ok [OF that(2)] that(1)
    by (auto simp: sent_def reply_bytes_def intro!: exI [of _ "[r]"])
  then show ?thesis
    by (auto simp: send_reply_def replied_def split: run.split option.split prod.split sum.split)
qed

section \<open>Skipping a line\<close>

lemma advance_loop_spec:
  assumes "s \<le> e" "e \<le> length buf"
  shows "\<exists>io' buf' s' e' r. advance_loop (srv_read env) st io buf s e = Some (io', buf', s', e', r) \<and>
    length buf' = length buf \<and> s' \<le> e' \<and> e' \<le> length buf' \<and> wire io' = wire io \<and>
    (r = Inr () \<longrightarrow> (\<exists>i. line_feed st (subslice buf s e @ incoming io) = Some i \<and>
       subslice buf' s' e' @ incoming io' = drop (Suc i) (subslice buf s e @ incoming io)))"
  using assms
proof (induction "length (incoming io)" arbitrary: st io buf s e rule: less_induct)
  case less
  let ?x = "subslice buf s e"
  have lx: "length ?x = e - s" using less.prems by simp
  show ?case
  proof (cases "line_feed st ?x")
    case (Some i)
    have i: "i < e - s" using line_feed_bound [OF Some] lx by simp
    have "subslice buf (s + (i + 1)) e = drop (Suc i) ?x"
      by (simp add: subslice_def drop_take add.commute add.left_commute)
    with Some i less.prems lx show ?thesis
      by (subst advance_loop.simps) (auto simp: next_crlf_line_feed line_feed_append)
  next
    case None
    define st' where "st' = (if ?x = [] then st else if last ?x = CR then Nc_CrPassed else Nc_Start)"
    have nc: "next_crlf ?x st = (None, st')" using None by (auto simp: next_crlf_line_feed st'_def)
    have lf: "line_feed st (?x @ incoming io) = map_option (\<lambda>i. i + length ?x) (line_feed st' (incoming io))"
      using None by (simp add: line_feed_append st'_def)
    obtain io1 rd where rd: "srv_read env io (length buf) = (io1, rd)" by force
    show ?thesis
    proof (cases rd)
      case (Inl err)
      with rd nc less.prems srv_read_failed show ?thesis by (subst advance_loop.simps) auto
    next
      case (Inr bs)
      note ok = srv_read_ok [OF rd [unfolded Inr]]
      show ?thesis
      proof (cases "bs = []")
        case True
        with rd Inr nc less.prems ok show ?thesis by (subst advance_loop.simps) auto
      next
        case False
        let ?buf = "write_at buf 0 bs"
        have len: "length ?buf = length buf" and sub: "subslice ?buf 0 (length bs) = bs"
          using write_at_props [of 0 bs buf] write_at_props(2) [of 0 bs buf 0] ok by auto
        have "length (incoming io1) < length (incoming io)" using ok False by simp
        from less.hyps [OF this, of 0 "length bs" ?buf st'] len ok obtain io' buf' s' e' r
          where r: "advance_loop (srv_read env) st' io1 ?buf 0 (length bs) = Some (io', buf', s', e', r)"
            "length buf' = length buf" "s' \<le> e'" "e' \<le> length buf'" "wire io' = wire io1" and
            ri: "r = Inr () \<longrightarrow> (\<exists>i. line_feed st' (incoming io) = Some i \<and>
               subslice buf' s' e' @ incoming io' = drop (Suc i) (incoming io))"
          using sub by auto
        have "advance_loop (srv_read env) st io buf s e = Some (io', buf', s', e', r)"
          using rd Inr nc False r(1) by (subst advance_loop.simps) simp
        then show ?thesis using r ri ok lf by auto
      qed
    qed
  qed
qed

lemma advance_until_crlf_ensures:
  assumes "session_wf s"
  shows "ensures (advance_until_crlf env s) (\<lambda>s' _. session_wf s' \<and> wire (ss_io s') = wire (ss_io s) \<and>
      ss_mail s' = ss_mail s \<and> ss_conn s' = ss_conn s \<and>
      (\<exists>p. find_window CRLF (unhandled s @ incoming (ss_io s)) = Some p \<and>
        unhandled s' @ incoming (ss_io s') = drop (p + 2) (unhandled s @ incoming (ss_io s))))"
    and "advance_until_crlf env s \<noteq> Diverge \<and> advance_until_crlf env s \<noteq> Crash"
proof -
  have b: "ss_start s \<le> ss_end s" "ss_end s \<le> length (ss_rdbuf s)" using assms by (auto simp: session_wf_def)
  from advance_loop_spec [OF b, of Nc_Start "ss_io s"] obtain io' buf' s' e' r
    where r: "advance_loop (srv_read env) Nc_Start (ss_io s) (ss_rdbuf s) (ss_start s) (ss_end s) =
        Some (io', buf', s', e', r)"
      "length buf' = length (ss_rdbuf s)" "s' \<le> e'" "e' \<le> length buf'" "wire io' = wire (ss_io s)" and
      ri: "r = Inr () \<longrightarrow> (\<exists>i. line_feed Nc_Start (unhandled s @ incoming (ss_io s)) = Some i \<and>
        subslice buf' s' e' @ incoming io' = drop (Suc i) (unhandled s @ incoming (ss_io s)))"
    unfolding unhandled_def by blast
  show "ensures (advance_until_crlf env s) (\<lambda>s' _. session_wf s' \<and> wire (ss_io s') = wire (ss_io s) \<and>
      ss_mail s' = ss_mail s \<and> ss_conn s' = ss_conn s \<and>
      (\<exists>p. find_window CRLF (unhandled s @ incoming (ss_io s)) = Some p \<and>
        unhandled s' @ incoming (ss_io s') = drop (p + 2) (unhandled s @ incoming (ss_io s))))"
  proof (cases r)
    case (Inl err)
    with r show ?thesis by (simp add: advance_until_crlf_def Let_def)
  next
    case (Inr u)
    with ri obtain p where "find_window CRLF (unhandled s @ incoming (ss_io s)) = Some p"
      "subslice buf' s' e' @ incoming io' = drop (p + 2) (unhandled s @ incoming (ss_io s))"
      by (auto simp: line_feed_Start)
    with Inr r assms show ?thesis
      by (simp add: advance_until_crlf_def Let_def session_wf_def unhandled_def)
  qed
  show "advance_until_crlf env s \<noteq> Diverge \<and> advance_until_crlf env s \<noteq> Crash"
    using r(1) by (auto simp: advance_until_crlf_def Let_def split: sum.splits)
qed

end

section \<open>Getting a command\<close>

text \<open>The parser: what it does not consume is the end of its input, and it consumes something.\<close>

locale command_parsing =
  fixes parse :: command_parser
  assumes parse_rest: "parse b = Inr (rem, c) \<Longrightarrow> strict_suffix rem b"

text \<open>What a configuration may not change behind the server's back.\<close>

definition keeps :: "'cu ConnectionMetadata \<Rightarrow> 'cu ConnectionMetadata \<Rightarrow> bool" where
  "keeps c c' \<longleftrightarrow> cm_hello c' = cm_hello c \<and> cm_is_encrypted c' = cm_is_encrypted c"

lemma keeps_refl [simp]: "keeps c c"
  by (simp add: keeps_def)

lemma keeps_trans: "keeps c c1 \<Longrightarrow> keeps c1 c2 \<Longrightarrow> keeps c c2"
  by (simp add: keeps_def)

definition refusals :: "('io, 'w, 'cu, 'mu) Config \<Rightarrow> 'cu refusal set" where
  "refusals cfg = {cfg_welcome_banner_reply cfg, cfg_already_did_hello cfg, cfg_mail_before_hello cfg,
     cfg_already_in_mail cfg, cfg_rcpt_before_mail cfg, cfg_data_before_rcpt cfg, cfg_data_before_mail cfg,
     cfg_starttls_unsupported cfg, cfg_command_unrecognized cfg, cfg_pipeline_forbidden_after_starttls cfg,
     cfg_line_too_long cfg, cfg_handle_mail_did_not_call_complete cfg}"

definition simple_handlers :: "('io, 'w, 'cu, 'mu) Config \<Rightarrow> ('w, 'cu) simple_handler set" where
  "simple_handlers cfg = {cfg_handle_starttls cfg, cfg_handle_quit cfg} \<union> range (cfg_handle_expn cfg) \<union>
     range (cfg_handle_vrfy cfg) \<union> range (cfg_handle_help cfg) \<union> range (cfg_handle_noop cfg)"

text \<open>
  The contract of a configuration: only \<^verbatim>\<open>filter_hello\<close> touches what the server knows of the
  greeting, only when it accepts; nothing but the server touches \<^verbatim>\<open>is_encrypted\<close>; the filters
  leave sender and recipients to the server; \<^verbatim>\<open>handle_mail\<close> reads the message through its reader
  only; a TLS handshake sends no reply.
\<close>

definition skipped_line :: "('io \<Rightarrow> bytes) \<Rightarrow> ('io \<Rightarrow> bytes) \<Rightarrow>
    ('io, 'w, 'cu, 'mu) Session \<Rightarrow> ('io, 'w, 'cu, 'mu) Session \<Rightarrow> bool" where
  "skipped_line incoming wire s s' \<longleftrightarrow> sent wire 1 (ss_io s) (ss_io s') \<and>
     (\<exists>p. find_window CRLF (pending_input incoming s) = Some p \<and>
        pending_input incoming s' = drop (p + 2) (pending_input incoming s))"

text \<open>More of the input has been fetched, and nothing else has happened.\<close>

definition fetched :: "('io \<Rightarrow> bytes) \<Rightarrow> ('io \<Rightarrow> bytes) \<Rightarrow>
    ('io, 'w, 'cu, 'mu) Session \<Rightarrow> ('io, 'w, 'cu, 'mu) Session \<Rightarrow> bool" where
  "fetched incoming wire s s' \<longleftrightarrow> pending_input incoming s' = pending_input incoming s \<and>
     wire (ss_io s') = wire (ss_io s) \<and> length (incoming (ss_io s')) < length (incoming (ss_io s))"

definition took_command :: "('io \<Rightarrow> bytes) \<Rightarrow> ('io \<Rightarrow> bytes) \<Rightarrow> command_parser \<Rightarrow> bytes Command \<Rightarrow>
    ('io, 'w, 'cu, 'mu) Session \<Rightarrow> ('io, 'w, 'cu, 'mu) Session \<Rightarrow> bool" where
  "took_command incoming wire parse c s s' \<longleftrightarrow> wire (ss_io s') = wire (ss_io s) \<and>
     (\<exists>q. q \<noteq> [] \<and> pending_input incoming s = q @ pending_input incoming s' \<and>
        parse (q @ unhandled s') = Inr (unhandled s', c))"

locale server_config = connection env incoming wire
  for env :: "'io ServerIo" and incoming wire +
  fixes cfg :: "('io, 'w, 'cu, 'mu) Config"
  assumes refusal_keeps: "r \<in> refusals cfg \<Longrightarrow> keeps c (fst (r c))"
    and simple_keeps: "h \<in> simple_handlers cfg \<Longrightarrow> h w c = (w', c', du) \<Longrightarrow> keeps c c'"
    and hello_keeps: "cfg_filter_hello cfg ext host w c = (w', c', dh) \<Longrightarrow>
      cm_is_encrypted c' = cm_is_encrypted c \<and>
      ((\<forall>r h. dh \<noteq> Accept r h) \<longrightarrow> cm_hello c' = cm_hello c)"
    and new_mail_keeps: "cfg_new_mail cfg w c = (w', c', u) \<Longrightarrow> keeps c c'"
    and from_keeps: "cfg_filter_from cfg from w m c = (w', m', c', df) \<Longrightarrow>
      keeps c c' \<and> mm_to m' = mm_to m"
    and to_keeps: "cfg_filter_to cfg to w m c = (w', m', c', dt) \<Longrightarrow>
      keeps c c' \<and> mm_to m' = mm_to m \<and> mm_from m' = mm_from m"
    and data_keeps: "cfg_filter_data cfg w m c = (w', m', c', du) \<Longrightarrow>
      keeps c c' \<and> mm_to m' = mm_to m \<and> mm_from m' = mm_from m"
    and rset_keeps: "cfg_handle_rset cfg w mo c = (w', mo', c', du) \<Longrightarrow> keeps c c' \<and> mo' = mo"
    and tls_keeps: "cfg_tls_accept cfg io w c = (io', w', c', r') \<Longrightarrow> keeps c c' \<and> wire io' = wire io"
    and mail_keeps: "cfg_handle_mail cfg reader w m c = (reader', w', c', ret) \<Longrightarrow>
      keeps c c' \<and> (\<exists>out d. reader_run (awaited_read env) reader out d \<and>
         (reader' = d \<or> complete d = Value reader'))"
begin

lemma refuse_ensures:
  assumes "r \<in> refusals cfg"
  shows "ensures (refuse env r s) (\<lambda>s' _. \<exists>c. keeps (ss_conn s) c \<and>
    replied incoming wire 1 (s\<lparr>ss_conn := c\<rparr>) s')"
proof -
  obtain c reply where c: "r (ss_conn s) = (c, reply)" by force
  have "keeps (ss_conn s) c" using refusal_keeps [OF assms, of "ss_conn s"] c by simp
  then show ?thesis using send_reply_ensures [of reply "s\<lparr>ss_conn := c\<rparr>"] c
    by (auto simp: refuse_def elim!: ensures_mono)
qed

lemma read_for_command_ensures:
  "ensures (action s) Q \<Longrightarrow> ensures (read_for_command env action s) Q"
  by (simp add: read_for_command_def split: option.split)

lemma read_into_ensures:
  assumes "session_wf s" "at \<le> length (ss_rdbuf s)"
  shows "ensures (read_into env at s) (\<lambda>s' n. \<exists>bs. n = length bs \<and> at + n \<le> length (ss_rdbuf s) \<and>
     incoming (ss_io s) = bs @ incoming (ss_io s') \<and> wire (ss_io s') = wire (ss_io s) \<and>
     s' = s\<lparr>ss_io := ss_io s', ss_rdbuf := write_at (ss_rdbuf s) at bs\<rparr>)"
proof -
  obtain io r where io: "srv_read env (ss_io s) (length (ss_rdbuf s) - at) = (io, r)" by force
  show ?thesis
  proof (cases r)
    case (Inl e)
    with io show ?thesis by (simp add: read_into_def)
  next
    case (Inr bs)
    from srv_read_ok [OF io [unfolded Inr]] assms io Inr show ?thesis
      by (auto simp: read_into_def)
  qed
qed

lemma skip_line_ensures:
  assumes "session_wf s" "r \<in> refusals cfg"
  shows "ensures (bind_act (read_for_command env (advance_until_crlf env) s) (\<lambda>s _. refuse env r s))
    (\<lambda>s' _. session_wf s' \<and> ss_mail s' = ss_mail s \<and> keeps (ss_conn s) (ss_conn s') \<and>
       skipped_line incoming wire s s')"
proof -
  have "ensures (refuse env r s1)
      (\<lambda>s' _. session_wf s' \<and> ss_mail s' = ss_mail s \<and> keeps (ss_conn s) (ss_conn s') \<and>
       skipped_line incoming wire s s')"
    if s1: "session_wf s1" "wire (ss_io s1) = wire (ss_io s)" "ss_mail s1 = ss_mail s" "ss_conn s1 = ss_conn s"
      "find_window CRLF (pending_input incoming s) = Some p"
      "pending_input incoming s1 = drop (p + 2) (pending_input incoming s)" for s1 p
  proof (rule ensures_mono [OF refuse_ensures [OF assms(2), of s1]])
    fix s' and u :: unit
    assume "\<exists>c. keeps (ss_conn s1) c \<and> replied incoming wire 1 (s1\<lparr>ss_conn := c\<rparr>) s'"
    then obtain c where c: "keeps (ss_conn s1) c" and r: "replied incoming wire 1 (s1\<lparr>ss_conn := c\<rparr>) s'" by blast
    from replied_fields [OF r] s1 c
    show "session_wf s' \<and> ss_mail s' = ss_mail s \<and> keeps (ss_conn s) (ss_conn s') \<and> skipped_line incoming wire s s'"
      by (auto simp: skipped_line_def pending_input_def unhandled_def session_wf_def sent_def)
  qed
  then show ?thesis
    unfolding ensures_bind_iff
    by (intro read_for_command_ensures ensures_mono [OF advance_until_crlf_ensures(1) [OF assms(1)]])
       (auto simp: pending_input_def)
qed

lemma make_room_props:
  assumes "session_wf s"
  shows "session_wf (make_room n s)" "unhandled (make_room n s) = unhandled s"
    "ss_io (make_room n s) = ss_io s" "ss_mail (make_room n s) = ss_mail s" "ss_conn (make_room n s) = ss_conn s"
proof -
  let ?k = "ss_end s - ss_start s"
  have b: "ss_start s \<le> ss_end s" "ss_end s \<le> length (ss_rdbuf s)" "0 + ?k \<le> length (ss_rdbuf s)"
    using assms by (auto simp: session_wf_def)
  have "take ?k (copy_within (ss_rdbuf s) (ss_start s) (ss_end s) 0) = unhandled s"
    using take_copy_within [OF b] by (simp add: unhandled_def subslice_def)
  then show "session_wf (make_room n s)" "unhandled (make_room n s) = unhandled s"
    "ss_io (make_room n s) = ss_io s" "ss_mail (make_room n s) = ss_mail s" "ss_conn (make_room n s) = ss_conn s"
    using assms b by (auto simp: make_room_def Let_def session_wf_def unhandled_def subslice_def)
qed

lemma fetch_more_ensures:
  assumes "session_wf s"
  shows "ensures (fetch_more env cfg s) (\<lambda>s' _. session_wf s' \<and> ss_mail s' = ss_mail s \<and>
      keeps (ss_conn s) (ss_conn s') \<and>
      (fetched incoming wire s s' \<or>
       skipped_line incoming wire s s'))"
proof (cases "ss_end s = length (ss_rdbuf s)")
  case True
  have "ensures (fetch_more env cfg s) (\<lambda>s' _. session_wf s' \<and> ss_mail s' = ss_mail s \<and>
      keeps (ss_conn s) (ss_conn s') \<and> skipped_line incoming wire s s')"
    using skip_line_ensures [OF assms, of "cfg_line_too_long cfg"] True
    by (simp only: fetch_more_def if_True refusals_def) simp
  then show ?thesis by (rule ensures_mono) auto
next
  case False
  have e: "ss_end s \<le> length (ss_rdbuf s)" using assms by (simp add: session_wf_def)
  have "ensures (read_for_command env (read_into env (ss_end s)) s)
      (\<lambda>s1 n. ensures (if n = 0 then Stop s1 (Inl (Io_Error ConnectionAborted ''connection shutdown with partial command''))
          else Go (s1\<lparr>ss_end := ss_end s1 + n\<rparr>) ())
        (\<lambda>s' _. session_wf s' \<and> ss_mail s' = ss_mail s \<and> keeps (ss_conn s) (ss_conn s') \<and>
           fetched incoming wire s s'))"
  proof (intro read_for_command_ensures ensures_mono [OF read_into_ensures [OF assms e]], elim exE conjE)
    fix s1 n bs
    assume n: "n = length bs" "ss_end s + n \<le> length (ss_rdbuf s)"
      and inc: "incoming (ss_io s) = bs @ incoming (ss_io s1)" "wire (ss_io s1) = wire (ss_io s)"
      and s1: "s1 = s\<lparr>ss_io := ss_io s1, ss_rdbuf := write_at (ss_rdbuf s) (ss_end s) bs\<rparr>"
    let ?s' = "s\<lparr>ss_io := ss_io s1, ss_rdbuf := write_at (ss_rdbuf s) (ss_end s) bs, ss_end := ss_end s + n\<rparr>"
    have "unhandled ?s' = unhandled s @ bs" "session_wf ?s'"
      using write_at_props [of "ss_end s" bs "ss_rdbuf s"] assms n
      by (auto simp: unhandled_def session_wf_def)
    then have q: "session_wf ?s' \<and> pending_input incoming ?s' = pending_input incoming s"
      using inc by (simp add: pending_input_def)
    have "s1\<lparr>ss_end := ss_end s1 + n\<rparr> = ?s'" by (subst (1 2) s1) simp
    with q inc show "ensures (if n = 0 then Stop s1 (Inl (Io_Error ConnectionAborted ''connection shutdown with partial command''))
          else Go (s1\<lparr>ss_end := ss_end s1 + n\<rparr>) ())
        (\<lambda>s' _. session_wf s' \<and> ss_mail s' = ss_mail s \<and> keeps (ss_conn s) (ss_conn s') \<and>
           fetched incoming wire s s')"
      using n by (simp add: fetched_def)
  qed
  then have "ensures (fetch_more env cfg s) (\<lambda>s' _. session_wf s' \<and> ss_mail s' = ss_mail s \<and>
      keeps (ss_conn s) (ss_conn s') \<and>
      fetched incoming wire s s')"
    using False by (simp only: fetch_more_def if_False ensures_bind_iff)
  then show ?thesis by (rule ensures_mono) auto
qed

lemma refill_ensures:
  assumes "session_wf s"
  shows "ensures (if \<not> ss_start s < ss_end s then
        bind_act (read_for_command env (read_into env 0) s)
          (\<lambda>s n. let s' = s\<lparr>ss_start := 0, ss_end := n\<rparr> in if n = 0 then Stop s' (Inr ()) else Go s' ())
      else Go s ())
    (\<lambda>s' _. session_wf s' \<and> ss_mail s' = ss_mail s \<and> ss_conn s' = ss_conn s \<and>
       pending_input incoming s' = pending_input incoming s \<and> wire (ss_io s') = wire (ss_io s) \<and>
       length (incoming (ss_io s')) \<le> length (incoming (ss_io s)))"
    (is "ensures (if ?c then bind_act ?rd ?f else Go s ()) ?Q")
proof (cases "ss_start s < ss_end s")
  case True
  with assms show ?thesis by simp
next
  case False
  have "ensures ?rd (\<lambda>s1 n. ensures (?f s1 n) ?Q)"
  proof (intro read_for_command_ensures ensures_mono [OF read_into_ensures [OF assms le0]], elim exE conjE)
    fix s1 n bs
    assume n: "n = length bs" "0 + n \<le> length (ss_rdbuf s)"
      and inc: "incoming (ss_io s) = bs @ incoming (ss_io s1)" "wire (ss_io s1) = wire (ss_io s)"
      and s1: "s1 = s\<lparr>ss_io := ss_io s1, ss_rdbuf := write_at (ss_rdbuf s) 0 bs\<rparr>"
    let ?s' = "s\<lparr>ss_io := ss_io s1, ss_rdbuf := write_at (ss_rdbuf s) 0 bs, ss_start := 0, ss_end := n\<rparr>"
    have "unhandled s = []" using False by (simp add: unhandled_def subslice_def)
    moreover have "unhandled ?s' = bs" "session_wf ?s'"
      using write_at_props [of 0 bs "ss_rdbuf s"] write_at_props(2) [of 0 bs "ss_rdbuf s" 0] assms n
      by (auto simp: unhandled_def session_wf_def)
    ultimately have q: "session_wf ?s' \<and> pending_input incoming ?s' = pending_input incoming s"
      using inc by (simp add: pending_input_def)
    have "s1\<lparr>ss_start := 0, ss_end := n\<rparr> = ?s'" by (subst s1) simp
    with q inc show "ensures (?f s1 n) ?Q" by (simp add: Let_def)
  qed
  with False show ?thesis by simp
qed

end

locale smtp_server = server_config env incoming wire cfg + command_parsing parse
  for env :: "'io ServerIo" and incoming wire and cfg :: "('io, 'w, 'cu, 'mu) Config" and parse
begin

lemma parsed_ensures:
  assumes "session_wf s"
  shows "ensures
     (case parse (subslice (ss_rdbuf s) (ss_start s) (ss_end s)) of
        Inl (Incomplete n) \<Rightarrow> bind_act (fetch_more env cfg (make_room n s)) (\<lambda>s _. Go s None)
      | Inl _ \<Rightarrow>
          bind_act (read_for_command env (advance_until_crlf env) s)
            (\<lambda>s _. bind_act (refuse env (cfg_command_unrecognized cfg) s) (\<lambda>s _. Go s None))
      | Inr (rem, cmd) \<Rightarrow> Go (s\<lparr>ss_start := ss_end s - length rem\<rparr>) (Some cmd))
    (\<lambda>s' cmd. session_wf s' \<and> ss_mail s' = ss_mail s \<and> keeps (ss_conn s) (ss_conn s') \<and>
       (case cmd of
          Some c \<Rightarrow> took_command incoming wire parse c s s'
        | None \<Rightarrow> fetched incoming wire s s' \<or>
                  skipped_line incoming wire s s'))"
    (is "ensures (case ?p of Inl x \<Rightarrow> ?err x | Inr (rem, cmd) \<Rightarrow> ?ok rem cmd) ?Q")
proof -
  have bad: "ensures (bind_act (read_for_command env (advance_until_crlf env) s)
            (\<lambda>s _. bind_act (refuse env (cfg_command_unrecognized cfg) s) (\<lambda>s _. Go s None))) ?Q"
    using skip_line_ensures [OF assms, of "cfg_command_unrecognized cfg"]
    by (simp add: refusals_def) (erule ensures_mono, erule ensures_mono, auto)
  have more: "ensures (bind_act (fetch_more env cfg (make_room n s)) (\<lambda>s _. Go s None)) ?Q" for n
    using fetch_more_ensures [OF make_room_props(1) [OF assms], of n] make_room_props [OF assms, of n]
    by (simp add: pending_input_def skipped_line_def fetched_def)
  have ok: "?Q (s\<lparr>ss_start := ss_end s - length rem\<rparr>) (Some c)" if p: "?p = Inr (rem, c)" for rem c
  proof -
    let ?s' = "s\<lparr>ss_start := ss_end s - length rem\<rparr>"
    from parse_rest [OF p] obtain q where q: "unhandled s = q @ rem" "q \<noteq> []"
      by (auto simp: unhandled_def strict_suffix_def suffix_def)
    have len: "length (unhandled s) = ss_end s - ss_start s" using assms by (simp add: unhandled_def session_wf_def)
    have l: "ss_end s - length rem = ss_start s + length q" "length rem \<le> ss_end s"
      using q(1) len arg_cong [OF q(1), of length] assms by (auto simp: session_wf_def)
    have "unhandled ?s' = rem"
    proof -
      have "unhandled ?s' = drop (length q) (unhandled s)"
        using l by (simp add: unhandled_def subslice_def drop_take add.commute)
      then show ?thesis using q(1) by simp
    qed
    moreover have "session_wf ?s'" using assms by (simp add: session_wf_def)
    ultimately show ?thesis using q p by (auto simp: took_command_def pending_input_def unhandled_def)
  qed
  show ?thesis
    using bad more ok by (auto split: sum.split nom_err.split)
qed

lemma next_command_ensures:
  assumes "session_wf s"
  shows "ensures (next_command parse env cfg s)
    (\<lambda>s' cmd. session_wf s' \<and> ss_mail s' = ss_mail s \<and> keeps (ss_conn s) (ss_conn s') \<and>
       (case cmd of
          Some c \<Rightarrow> took_command incoming wire parse c s s'
        | None \<Rightarrow> fetched incoming wire s s' \<or>
                  skipped_line incoming wire s s'))"
  unfolding next_command_def ensures_bind_iff
proof (rule ensures_mono [OF refill_ensures [OF assms]], elim conjE)
  fix s1 :: "('io, 'w, 'cu, 'mu) Session" and u :: unit
  assume s1: "session_wf s1" "ss_mail s1 = ss_mail s" "ss_conn s1 = ss_conn s"
    "pending_input incoming s1 = pending_input incoming s" "wire (ss_io s1) = wire (ss_io s)"
    "length (incoming (ss_io s1)) \<le> length (incoming (ss_io s))"
  have fe: "fetched incoming wire s1 s' \<Longrightarrow> fetched incoming wire s s'" for s'
    using s1 by (simp add: fetched_def)
  have tc: "took_command incoming wire parse c s1 s' = took_command incoming wire parse c s s'"
    and sk: "skipped_line incoming wire s1 s' = skipped_line incoming wire s s'" for c s'
    using s1 by (simp_all add: took_command_def skipped_line_def sent_def)
  show "ensures
     (case parse (subslice (ss_rdbuf s1) (ss_start s1) (ss_end s1)) of
        Inl (Incomplete n) \<Rightarrow> bind_act (fetch_more env cfg (make_room n s1)) (\<lambda>s _. Go s None)
      | Inl _ \<Rightarrow>
          bind_act (read_for_command env (advance_until_crlf env) s1)
            (\<lambda>s _. bind_act (refuse env (cfg_command_unrecognized cfg) s) (\<lambda>s _. Go s None))
      | Inr (rem, cmd) \<Rightarrow> Go (s1\<lparr>ss_start := ss_end s1 - length rem\<rparr>) (Some cmd))
    (\<lambda>s' cmd. session_wf s' \<and> ss_mail s' = ss_mail s \<and> keeps (ss_conn s) (ss_conn s') \<and>
       (case cmd of
          Some c \<Rightarrow> took_command incoming wire parse c s s'
        | None \<Rightarrow> fetched incoming wire s s' \<or>
                  skipped_line incoming wire s s'))"
    using parsed_ensures [OF s1(1)] unfolding tc sk s1(2-5)
    by (rule ensures_mono) (use fe in \<open>auto split: option.splits\<close>)
qed

end

end
