(* ===== verification/SmtpMachine.thy ===== *)
theory SmtpMachine
  imports ServerSession
begin

text \<open>
  The abstract SMTP session and the refinement: every command the server loop handles is a step
  of the abstract machine, with the number of replies the machine says, and it leaves the input
  behind the command (for DATA: behind the message) untouched.
\<close>

section \<open>The abstract machine\<close>

record smtp_state =
  ab_hello :: "HelloInfo option"
  ab_encrypted :: bool
  ab_mail :: "(bytes Email option \<times> bytes Email list) option"

text \<open>The protocol a greeting belongs to, and the replies to a message that was accepted.\<close>

fun greeting :: "bytes Command \<Rightarrow> ProtocolName option" where
  "greeting (Ehlo h) = Some Smtp"
| "greeting (Helo h) = Some Smtp"
| "greeting (Lhlo h) = Some Lmtp"
| "greeting _ = None"

fun message_replies :: "ProtocolName \<Rightarrow> 'a list \<Rightarrow> nat" where
  "message_replies Smtp to = 1"
| "message_replies Lmtp to = length to"

text \<open>\<open>smtp_step proto c n a a'\<close>: on the command \<open>c\<close>, answered with \<open>n\<close> replies, \<open>a\<close> becomes \<open>a'\<close>.\<close>

inductive smtp_step :: "ProtocolName \<Rightarrow> bytes Command \<Rightarrow> nat \<Rightarrow> smtp_state \<Rightarrow> smtp_state \<Rightarrow> bool" for proto where
  refused: "smtp_step proto c 1 a a"
| greeted: "\<lbrakk>greeting c = Some proto; ab_hello a = None\<rbrakk> \<Longrightarrow>
    smtp_step proto c 1 a (a\<lparr>ab_hello := Some h\<rparr>)"
| mail_begun: "\<lbrakk>ab_hello a \<noteq> None; ab_mail a = None\<rbrakk> \<Longrightarrow>
    smtp_step proto (Mail path email params) 1 a (a\<lparr>ab_mail := Some (sender, [])\<rparr>)"
| rcpt_added: "ab_mail a = Some (sender, to) \<Longrightarrow>
    smtp_step proto (Rcpt path email params) 1 a (a\<lparr>ab_mail := Some (sender, to @ [rcpt])\<rparr>)"
| data_without_rcpt: "ab_mail a = Some (sender, []) \<Longrightarrow>
    smtp_step proto Data 1 a (a\<lparr>ab_mail := None\<rparr>)"
| data_received: "\<lbrakk>ab_mail a = Some (sender, to); to \<noteq> []\<rbrakk> \<Longrightarrow>
    smtp_step proto Data (1 + message_replies proto to) a (a\<lparr>ab_mail := None\<rparr>)"
| reset: "smtp_step proto Rset 1 a (a\<lparr>ab_mail := None\<rparr>)"
| encrypted: "smtp_step proto Starttls 1 a \<lparr>ab_hello = None, ab_encrypted = True, ab_mail = None\<rparr>"

definition machine_inv :: "smtp_state \<Rightarrow> bool" where
  "machine_inv a \<longleftrightarrow> (ab_mail a \<noteq> None \<longrightarrow> ab_hello a \<noteq> None)"

lemma smtp_step_inv: "smtp_step proto c n a a' \<Longrightarrow> machine_inv a \<Longrightarrow> machine_inv a'"
  by (cases rule: smtp_step.cases) (auto simp: machine_inv_def)

definition abs_mail :: "'mu MailMetadata option \<Rightarrow> (bytes Email option \<times> bytes Email list) option" where
  "abs_mail = map_option (\<lambda>m. (mm_from m, mm_to m))"

definition abs_session :: "('io, 'w, 'cu, 'mu) Session \<Rightarrow> smtp_state" where
  "abs_session s = \<lparr>ab_hello = cm_hello (ss_conn s), ab_encrypted = cm_is_encrypted (ss_conn s),
     ab_mail = abs_mail (ss_mail s)\<rparr>"

lemma abs_session_eq:
  "keeps (ss_conn s) (ss_conn s') \<Longrightarrow> abs_mail (ss_mail s') = abs_mail (ss_mail s) \<Longrightarrow> abs_session s' = abs_session s"
  by (simp add: abs_session_def keeps_def)

text \<open>\<open>returns x\<close>: no loop inside the action runs forever.\<close>

definition returns :: "('s, 'a) act \<Rightarrow> bool" where
  "returns x \<longleftrightarrow> x \<noteq> Diverge"

lemma returns_simps [simp]: "returns (Go s a)" "returns (Stop s r)" "returns Crash" "\<not> returns Diverge"
  by (simp_all add: returns_def)

lemma bind_returns: "returns x \<Longrightarrow> (\<And>s a. x = Go s a \<Longrightarrow> returns (f s a)) \<Longrightarrow> returns (bind_act x f)"
  by (cases x) auto

text \<open>What handling a command does.\<close>

definition handled :: "('io \<Rightarrow> bytes) \<Rightarrow> ('io \<Rightarrow> bytes) \<Rightarrow> ProtocolName \<Rightarrow> bytes Command \<Rightarrow>
    ('io, 'w, 'cu, 'mu) Session \<Rightarrow> ('io, 'w, 'cu, 'mu) Session \<Rightarrow> bool" where
  "handled incoming wire proto c s s' \<longleftrightarrow> session_wf s' \<and>
     (\<exists>n. smtp_step proto c n (abs_session s) (abs_session s') \<and> sent wire n (ss_io s) (ss_io s') \<and>
        (if 1 < n then \<exists>k. end_of_data (pending_input incoming s) k \<and>
             pending_input incoming s' = drop k (pending_input incoming s)
         else pending_input incoming s' = pending_input incoming s \<or>
           c = Starttls \<and> unhandled s' = [] \<and> cm_is_encrypted (ss_conn s') \<and> cm_hello (ss_conn s') = None)) \<and>
     (cm_is_encrypted (ss_conn s') = cm_is_encrypted (ss_conn s) \<or>
        unhandled s' = [] \<and> cm_hello (ss_conn s') = None \<and> ss_mail s' = None)"

context async_read
begin

lemma reader_run_buf:
  assumes "reader_run poll_inner d out d'" "rd_wf d" "\<not> is_finished d"
  shows "length (rd_buf d') = length (rd_buf d)"
  using assms
proof (induction rule: reader_run.induct)
  case (start d)
  then show ?case by simp
next
  case (delivered d out d1 bufs d2 bufs' n)
  have wf: "rd_wf d1" using reader_run_inv [OF delivered.hyps(1) delivered.prems] by blast
  show ?case
  proof (cases "is_finished d1")
    case True
    with delivered show ?thesis by (simp add: poll_read_vectored_def)
  next
    case False
    with poll_ok [OF wf False delivered.hyps(2)] delivered show ?thesis by simp
  qed
next
  case (blocked d out d1 bufs d2 bufs')
  have "rd_wf d1" using reader_run_inv [OF blocked.hyps(1) blocked.prems] by blast
  with poll_stuck [OF _ blocked.hyps(2)] blocked show ?case by simp
next
  case (failed d out d1 bufs d2 bufs' e)
  have "rd_wf d1" using reader_run_inv [OF failed.hyps(1) failed.prems] by blast
  with poll_stuck [OF _ failed.hyps(2)] failed show ?case by simp
qed

end

context server_config
begin

section \<open>Handlers\<close>

text \<open>One reply, and the abstract state as it was.\<close>

lemma replied_refused:
  assumes r: "replied incoming wire 1 (s\<lparr>ss_world := w, ss_conn := c, ss_mail := m\<rparr>) s'"
    and "keeps (ss_conn s) c" "abs_mail m = abs_mail (ss_mail s)" "session_wf s"
  shows "handled incoming wire proto cmd s s'"
proof -
  let ?s1 = "s\<lparr>ss_world := w, ss_conn := c, ss_mail := m\<rparr>"
  note f = replied_fields [OF r]
  have "abs_session s' = abs_session s"
    by (rule abs_session_eq) (use f assms(2,3) in simp_all)
  moreover have "unhandled ?s1 = unhandled s" "session_wf ?s1 = session_wf s"
    by (simp_all add: unhandled_def session_wf_def)
  moreover have "cm_is_encrypted (ss_conn s') = cm_is_encrypted (ss_conn s)"
    using f assms(2) by (simp add: keeps_def)
  ultimately show ?thesis using f assms(4) smtp_step.refused
    unfolding handled_def by (auto simp: pending_input_def intro!: exI [of _ 1])
qed

text \<open>One reply, and the abstract state changed by the step given.\<close>

lemma replied_step:
  assumes r: "replied incoming wire 1 (s\<lparr>ss_world := w, ss_conn := c, ss_mail := m\<rparr>) s'"
    and "smtp_step proto cmd 1 (abs_session s)
      \<lparr>ab_hello = cm_hello c, ab_encrypted = cm_is_encrypted c, ab_mail = abs_mail m\<rparr>" "session_wf s"
      "cm_is_encrypted c = cm_is_encrypted (ss_conn s)"
  shows "handled incoming wire proto cmd s s'"
proof -
  let ?s1 = "s\<lparr>ss_world := w, ss_conn := c, ss_mail := m\<rparr>"
  note f = replied_fields [OF r]
  have "abs_session s' = \<lparr>ab_hello = cm_hello c, ab_encrypted = cm_is_encrypted c, ab_mail = abs_mail m\<rparr>"
    using f by (simp add: abs_session_def)
  moreover have "unhandled ?s1 = unhandled s" "session_wf ?s1 = session_wf s"
    by (simp_all add: unhandled_def session_wf_def)
  moreover have "cm_is_encrypted (ss_conn s') = cm_is_encrypted (ss_conn s)" using f assms(4) by simp
  ultimately show ?thesis using f assms(2,3)
    unfolding handled_def by (auto simp: pending_input_def intro!: exI [of _ 1])
qed

lemma refuse_handled:
  assumes "r \<in> refusals cfg" "session_wf s"
  shows "ensures (refuse env r s) (\<lambda>s' _. handled incoming wire proto cmd s s')"
  using refuse_ensures [OF assms(1), of s]
proof (rule ensures_mono, elim exE conjE)
  fix s' and u :: unit and c
  assume "keeps (ss_conn s) c" "replied incoming wire 1 (s\<lparr>ss_conn := c\<rparr>) s'"
  then show "handled incoming wire proto cmd s s'"
    using replied_refused [where s = s and w = "ss_world s" and c = c and m = "ss_mail s"] assms(2) by simp
qed

lemma dispatch_ensures:
  assumes "\<And>reply. d = Reject reply \<Longrightarrow> ensures (reject reply s) Q"
    and "\<And>reply res. d = Accept reply res \<Longrightarrow> ensures (accept reply res s) Q"
  shows "ensures (dispatch_decision env d reject accept s) Q"
proof (cases d)
  case (Kill reply res)
  then show ?thesis by (cases reply) (auto simp: dispatch_decision_def ensures_def bind_act_Go_iff)
qed (use assms in \<open>auto simp: dispatch_decision_def\<close>)

lemma simple_handler_handled:
  assumes "h \<in> simple_handlers cfg" "session_wf s"
  shows "ensures (call_simple_handler env h s) (\<lambda>s' _. handled incoming wire proto cmd s s')"
proof -
  obtain w c d where h: "h (ss_world s) (ss_conn s) = (w, c, d)" by (metis prod_cases3)
  have k: "keeps (ss_conn s) c" using simple_keeps [OF assms(1) h] .
  have "ensures (send_reply env r (s\<lparr>ss_world := w, ss_conn := c\<rparr>)) (\<lambda>s' _. handled incoming wire proto cmd s s')" for r
    using send_reply_ensures [of r "s\<lparr>ss_world := w, ss_conn := c\<rparr>"]
    by (rule ensures_mono) (use replied_refused [where s = s and w = w and c = c and m = "ss_mail s"] k assms(2) in simp)
  with h show ?thesis
    by (auto simp: call_simple_handler_def simple_handler_def intro!: dispatch_ensures)
qed

lemma handle_hello_handled:
  assumes "session_wf s" "greeting cmd = Some proto"
  shows "ensures (handle_hello env cfg proto ext host s)
    (\<lambda>s' _. handled incoming wire (cfg_protocol cfg) cmd s s')"
proof (cases "proto = cfg_protocol cfg \<and> cm_hello (ss_conn s) = None")
  case False
  with refuse_handled [OF _ assms(1), of "cfg_command_unrecognized cfg"]
    refuse_handled [OF _ assms(1), of "cfg_already_did_hello cfg"]
  show ?thesis by (auto simp: handle_hello_def refusals_def split: option.split)
next
  case True
  obtain w c d where h: "cfg_filter_hello cfg ext host (ss_world s) (ss_conn s) = (w, c, d)"
    by (metis prod_cases3)
  let ?s1 = "s\<lparr>ss_world := w, ss_conn := c\<rparr>"
  note k = hello_keeps [OF h]
  have "ensures (send_reply env reply ?s1) (\<lambda>s' _. handled incoming wire (cfg_protocol cfg) cmd s s')"
    if "d = Reject reply" for reply
    using send_reply_ensures [of reply ?s1]
    by (rule ensures_mono)
       (use replied_refused [where s = s and w = w and c = c and m = "ss_mail s"] k that assms(1) in
        \<open>simp add: keeps_def\<close>)
  moreover have "ensures (send_reply env reply (?s1\<lparr>ss_conn := (ss_conn ?s1)\<lparr>cm_hello := Some res\<rparr>\<rparr>))
      (\<lambda>s' _. handled incoming wire (cfg_protocol cfg) cmd s s')" for reply res
  proof (rule ensures_mono [OF send_reply_ensures])
    fix s' and u :: unit
    assume "replied incoming wire 1 (?s1\<lparr>ss_conn := (ss_conn ?s1)\<lparr>cm_hello := Some res\<rparr>\<rparr>) s'"
    moreover have "smtp_step (cfg_protocol cfg) cmd 1 (abs_session s) ((abs_session s)\<lparr>ab_hello := Some res\<rparr>)"
      by (rule smtp_step.greeted) (use assms(2) True in \<open>simp_all add: abs_session_def\<close>)
    ultimately show "handled incoming wire (cfg_protocol cfg) cmd s s'"
      using replied_step [where s = s and w = w and c = "c\<lparr>cm_hello := Some res\<rparr>" and m = "ss_mail s"] assms(1) k
      by (simp add: abs_session_def)
  qed
  ultimately show ?thesis using True h by (auto simp: handle_hello_def intro!: dispatch_ensures)
qed

lemma handle_mail_from_handled:
  assumes "session_wf s"
  shows "ensures (handle_mail_from env cfg email s)
    (\<lambda>s' _. handled incoming wire (cfg_protocol cfg) (Mail path email params) s s')"
proof (cases "cm_hello (ss_conn s) \<noteq> None \<and> ss_mail s = None")
  case False
  with refuse_handled [OF _ assms(1), of "cfg_mail_before_hello cfg"]
    refuse_handled [OF _ assms(1), of "cfg_already_in_mail cfg"]
  show ?thesis by (auto simp: handle_mail_from_def refusals_def split: option.split)
next
  case True
  obtain w c u where n: "cfg_new_mail cfg (ss_world s) (ss_conn s) = (w, c, u)" by (metis prod_cases3)
  obtain w' m c' d where h: "cfg_filter_from cfg email w \<lparr>mm_user = u, mm_from = None, mm_to = []\<rparr> c = (w', m, c', d)"
    by (metis prod_cases4)
  let ?s1 = "s\<lparr>ss_world := w', ss_conn := c'\<rparr>"
  have k: "keeps (ss_conn s) c'" "mm_to m = []"
    using new_mail_keeps [OF n] from_keeps [OF h] keeps_trans by auto
  have "ensures (send_reply env reply ?s1)
      (\<lambda>s' _. handled incoming wire (cfg_protocol cfg) (Mail path email params) s s')" for reply
    using send_reply_ensures [of reply ?s1]
    by (rule ensures_mono)
       (use replied_refused [where s = s and w = w' and c = c' and m = "ss_mail s"] k assms(1) in simp)
  moreover have "ensures (send_reply env reply (?s1\<lparr>ss_mail := Some (m\<lparr>mm_from := res\<rparr>)\<rparr>))
      (\<lambda>s' _. handled incoming wire (cfg_protocol cfg) (Mail path email params) s s')" for reply res
  proof (rule ensures_mono [OF send_reply_ensures])
    fix s' and u :: unit
    assume "replied incoming wire 1 (?s1\<lparr>ss_mail := Some (m\<lparr>mm_from := res\<rparr>)\<rparr>) s'"
    moreover have "smtp_step (cfg_protocol cfg) (Mail path email params) 1 (abs_session s)
        ((abs_session s)\<lparr>ab_mail := Some (res, [])\<rparr>)"
      by (rule smtp_step.mail_begun) (use True in \<open>simp_all add: abs_session_def abs_mail_def\<close>)
    ultimately show "handled incoming wire (cfg_protocol cfg) (Mail path email params) s s'"
      using replied_step [where s = s and w = w' and c = c' and m = "Some (m\<lparr>mm_from := res\<rparr>)"] assms(1) k
      by (simp add: abs_session_def keeps_def abs_mail_def)
  qed
  ultimately show ?thesis using True n h by (auto simp: handle_mail_from_def intro!: dispatch_ensures)
qed

lemma handle_rcpt_to_handled:
  assumes "session_wf s"
  shows "ensures (handle_rcpt_to env cfg email s)
    (\<lambda>s' _. handled incoming wire (cfg_protocol cfg) (Rcpt path email params) s s')"
proof (cases "ss_mail s")
  case None
  with refuse_handled [OF _ assms(1), of "cfg_rcpt_before_mail cfg"]
  show ?thesis by (simp add: handle_rcpt_to_def refusals_def)
next
  case (Some m)
  obtain w m' c d where h: "cfg_filter_to cfg email (ss_world s) m (ss_conn s) = (w, m', c, d)"
    by (metis prod_cases4)
  let ?s1 = "s\<lparr>ss_world := w, ss_conn := c, ss_mail := Some m'\<rparr>"
  note k = to_keeps [OF h]
  have am: "abs_mail (Some m') = abs_mail (ss_mail s)" using k Some by (simp add: abs_mail_def)
  have "ensures (send_reply env reply ?s1)
      (\<lambda>s' _. handled incoming wire (cfg_protocol cfg) (Rcpt path email params) s s')" for reply
    using send_reply_ensures [of reply ?s1]
    by (rule ensures_mono)
       (use replied_refused [where s = s and w = w and c = c and m = "Some m'"] k am assms(1) in simp)
  moreover have "ensures (send_reply env reply (?s1\<lparr>ss_mail := Some (m'\<lparr>mm_to := mm_to m' @ [res]\<rparr>)\<rparr>))
      (\<lambda>s' _. handled incoming wire (cfg_protocol cfg) (Rcpt path email params) s s')" for reply res
  proof (rule ensures_mono [OF send_reply_ensures])
    fix s' and u :: unit
    assume "replied incoming wire 1 (?s1\<lparr>ss_mail := Some (m'\<lparr>mm_to := mm_to m' @ [res]\<rparr>)\<rparr>) s'"
    moreover have "smtp_step (cfg_protocol cfg) (Rcpt path email params) 1 (abs_session s)
        ((abs_session s)\<lparr>ab_mail := Some (mm_from m, mm_to m @ [res])\<rparr>)"
      by (rule smtp_step.rcpt_added) (use Some in \<open>simp add: abs_session_def abs_mail_def\<close>)
    ultimately show "handled incoming wire (cfg_protocol cfg) (Rcpt path email params) s s'"
      using replied_step [where s = s and w = w and c = c and m = "Some (m'\<lparr>mm_to := mm_to m' @ [res]\<rparr>)"] assms(1) k
      by (simp add: abs_session_def keeps_def abs_mail_def)
  qed
  ultimately show ?thesis using Some h by (auto simp: handle_rcpt_to_def intro!: dispatch_ensures)
qed

lemma handle_rset_handled:
  assumes "session_wf s"
  shows "ensures (handle_rset_command env cfg s) (\<lambda>s' _. handled incoming wire (cfg_protocol cfg) Rset s s')"
proof -
  obtain w m c d where h: "cfg_handle_rset cfg (ss_world s) (ss_mail s) (ss_conn s) = (w, m, c, d)"
    by (metis prod_cases4)
  let ?s1 = "s\<lparr>ss_world := w, ss_mail := m, ss_conn := c\<rparr>"
  note k = rset_keeps [OF h]
  have "ensures (send_reply env reply ?s1) (\<lambda>s' _. handled incoming wire (cfg_protocol cfg) Rset s s')" for reply
    using send_reply_ensures [of reply ?s1]
    by (rule ensures_mono)
       (use replied_refused [where s = s and w = w and c = c and m = m] k assms(1) in simp)
  moreover have "ensures (send_reply env reply (?s1\<lparr>ss_mail := None\<rparr>))
      (\<lambda>s' _. handled incoming wire (cfg_protocol cfg) Rset s s')" for reply
    using send_reply_ensures [of reply "?s1\<lparr>ss_mail := None\<rparr>"]
    by (rule ensures_mono)
       (use replied_step [where s = s and w = w and c = c and m = None and cmd = Rset
            and proto = "cfg_protocol cfg"] smtp_step.reset [of "cfg_protocol cfg" "abs_session s"] k assms(1) in
        \<open>simp add: abs_session_def keeps_def abs_mail_def\<close>)
  ultimately show ?thesis using h by (auto simp: handle_rset_command_def intro!: dispatch_ensures)
qed

lemma handle_starttls_handled:
  assumes "session_wf s"
  shows "ensures (handle_starttls_command env cfg s)
    (\<lambda>s' _. handled incoming wire (cfg_protocol cfg) Starttls s s')"
proof (cases "cfg_can_do_tls cfg (ss_conn s) \<and> \<not> ss_start s < ss_end s")
  case False
  with refuse_handled [OF _ assms(1), of "cfg_starttls_unsupported cfg"]
    refuse_handled [OF _ assms(1), of "cfg_pipeline_forbidden_after_starttls cfg"]
  show ?thesis by (auto simp: handle_starttls_command_def refusals_def)
next
  case True
  obtain w c d where h: "cfg_handle_starttls cfg (ss_world s) (ss_conn s) = (w, c, d)" by (metis prod_cases3)
  let ?s1 = "s\<lparr>ss_world := w, ss_conn := c\<rparr>"
  have k: "keeps (ss_conn s) c" 
    using simple_keeps [of "cfg_handle_starttls cfg"] h by (simp add: simple_handlers_def)
  let ?Q = "\<lambda>s' (u :: unit). handled incoming wire (cfg_protocol cfg) Starttls s s'"
  let ?tls = "\<lambda>s (u :: unit). case cfg_tls_accept cfg (ss_io s) (ss_world s) (ss_conn s) of
                 (io, w', c', Inl e) \<Rightarrow> Stop (s\<lparr>ss_io := io, ss_world := w', ss_conn := c'\<rparr>) (Inl e)
               | (io, w', c', Inr _) \<Rightarrow>
                   Go (s\<lparr>ss_io := io, ss_world := w', ss_mail := None,
                         ss_conn := c'\<lparr>cm_is_encrypted := True, cm_hello := None\<rparr>\<rparr>) ()"
  have "ensures (send_reply env reply ?s1) ?Q" for reply
    using send_reply_ensures [of reply ?s1]
    by (rule ensures_mono)
       (use replied_refused [where s = s and w = w and c = c and m = "ss_mail s"] k assms(1) in simp)
  moreover have "ensures (send_reply env reply ?s1) (\<lambda>s2 u. ensures (?tls s2 u) ?Q)" for reply
  proof (rule ensures_mono [OF send_reply_ensures])
    fix s2 and u :: unit
    assume r: "replied incoming wire 1 ?s1 s2"
    note f = replied_fields [OF r]
    obtain io w' c' e where t: "cfg_tls_accept cfg (ss_io s2) (ss_world s2) (ss_conn s2) = (io, w', c', e)"
      by (metis prod_cases4)
    let ?s' = "s2\<lparr>ss_io := io, ss_world := w', ss_mail := None,
                  ss_conn := c'\<lparr>cm_is_encrypted := True, cm_hello := None\<rparr>\<rparr>"
    have "unhandled ?s' = unhandled s2" "session_wf ?s' = session_wf s2" by (simp_all add: unhandled_def session_wf_def)
    moreover have "unhandled s2 = []" "session_wf s2"
      using f True assms by (auto simp: unhandled_def subslice_def session_wf_def)
    moreover have "sent wire 1 (ss_io s) (ss_io ?s')" using f(6) tls_keeps [OF t] by (simp add: sent_def)
    moreover have "smtp_step (cfg_protocol cfg) Starttls 1 (abs_session s) (abs_session ?s')"
      using smtp_step.encrypted by (simp add: abs_session_def abs_mail_def)
    ultimately have "handled incoming wire (cfg_protocol cfg) Starttls s ?s'"
      unfolding handled_def by (auto intro!: exI [of _ 1])
    with t show "ensures (?tls s2 u) ?Q" by (cases e) auto
  qed
  ultimately show ?thesis using True h by (auto simp: handle_starttls_command_def intro!: dispatch_ensures)
qed

section \<open>Receiving a message\<close>

lemma replied_refl: "replied incoming wire 0 s s"
  by (simp add: replied_def)

lemma replied_trans:
  assumes "replied incoming wire m s s1" "replied incoming wire n s1 s2"
  shows "replied incoming wire (m + n) s s2"
  using assms sent_trans [of wire m "ss_io s" "ss_io s1" n "ss_io s2"]
  by (auto simp: replied_def) (metis Session.surjective Session.update_convs(1))

lemma answer_decisions_ensures:
  "ensures (answer_decisions env n expected ds s)
     (\<lambda>s' _. replied incoming wire (length ds) s s' \<and> n + length ds = expected)"
proof (induction ds arbitrary: n s)
  case Nil
  then show ?case by (simp add: replied_refl)
next
  case (Cons d ds)
  have step: "ensures (answer_decisions env (n + 1) expected ds s1)
      (\<lambda>s' _. replied incoming wire (length (d # ds)) s s' \<and> n + length (d # ds) = expected)"
    if "replied incoming wire 1 s s1" for s1
    by (rule ensures_mono [OF Cons.IH [of "n + 1" s1]]) (use replied_trans [OF that] in fastforce)
  have "ensures (simple_handler env d s) (\<lambda>s1 _. replied incoming wire 1 s s1)"
    unfolding simple_handler_def by (rule dispatch_ensures) (rule send_reply_ensures)+
  then have "ensures (simple_handler env d s) (\<lambda>s1 _. ensures (answer_decisions env (n + 1) expected ds s1)
      (\<lambda>s' _. replied incoming wire (length (d # ds)) s s' \<and> n + length (d # ds) = expected))"
    by (rule ensures_mono) (rule step)
  then show ?case by simp
qed

lemma repeat_refuse_ensures:
  assumes "r \<in> refusals cfg"
  shows "ensures (repeat_refuse env r n s) (\<lambda>s' _. \<exists>c. keeps (ss_conn s) c \<and>
    replied incoming wire n (s\<lparr>ss_conn := c\<rparr>) s')"
proof (induction n arbitrary: s)
  case 0
  then show ?case by (auto intro!: exI [of _ "ss_conn s"] simp: replied_refl)
next
  case (Suc n)
  have "ensures (repeat_refuse env r n s1) (\<lambda>s' _. \<exists>c. keeps (ss_conn s) c \<and>
      replied incoming wire (Suc n) (s\<lparr>ss_conn := c\<rparr>) s')"
    if c: "keeps (ss_conn s) c" and r: "replied incoming wire 1 (s\<lparr>ss_conn := c\<rparr>) s1" for s1 c
  proof (rule ensures_mono [OF Suc.IH [of s1]], elim exE conjE)
    fix s' and u :: unit and c'
    assume c': "keeps (ss_conn s1) c'" "replied incoming wire n (s1\<lparr>ss_conn := c'\<rparr>) s'"
    have "ss_conn s1 = c" using replied_fields(2) [OF r] by simp
    moreover have "replied incoming wire 1 (s\<lparr>ss_conn := c'\<rparr>) (s1\<lparr>ss_conn := c'\<rparr>)"
    proof -
      have "s1 = s\<lparr>ss_conn := c, ss_io := ss_io s1\<rparr>" using r by (simp add: replied_def)
      then have "s1\<lparr>ss_conn := c'\<rparr> = s\<lparr>ss_conn := c', ss_io := ss_io s1\<rparr>"
        by (metis Session.update_convs(6) Session.surjective Session.update_convs(1))
      with r show ?thesis by (simp add: replied_def)
    qed
    ultimately show "\<exists>c. keeps (ss_conn s) c \<and> replied incoming wire (Suc n) (s\<lparr>ss_conn := c\<rparr>) s'"
      using c c' keeps_trans replied_trans [of 1 "s\<lparr>ss_conn := c'\<rparr>" "s1\<lparr>ss_conn := c'\<rparr>" n s']
      by (auto intro!: exI [of _ c'])
  qed
  then have "ensures (refuse env r s) (\<lambda>s1 _. ensures (repeat_refuse env r n s1) (\<lambda>s' _. \<exists>c. keeps (ss_conn s) c \<and>
      replied incoming wire (Suc n) (s\<lparr>ss_conn := c\<rparr>) s'))"
    by (intro ensures_mono [OF refuse_ensures [OF assms, of s]]) blast
  then show ?case by simp
qed

lemma awaited_not_pending:
  "poll_read_vectored (awaited_read env) d bufs \<noteq> Value (d', bufs', Pending)"
proof
  assume a: "poll_read_vectored (awaited_read env) d bufs = Value (d', bufs', Pending)"
  have scan: "poll_scan d1 b k \<noteq> Value (d2, b2, Pending)" for d1 d2 :: "'io EscapedDataReader" and b k b2
    by (auto simp: poll_scan_def split: if_splits prod.splits option.splits)
  obtain io b r where io: "awaited_read env (rd_read d) bufs = (io, b, r)" by (metis prod_cases3)
  have "r \<noteq> Pending" using io by (elim awaited_read_cases) auto
  with a io scan show False
    by (auto simp: poll_read_vectored_def Let_def split: if_splits poll.splits sum.splits)
qed

lemma drain_loop_spec:
  assumes "reader_run (awaited_read env) d0 out0 d" "rd_wf d" "128 \<le> length (rd_buf d)"
  shows "\<exists>d' res. drain_loop env d = Some (Value (d', res)) \<and>
    (\<forall>u. res = Inr u \<longrightarrow> is_finished d' \<and> (\<exists>out. reader_run (awaited_read env) d0 out d'))"
  using assms
proof (induction "length (rd_remaining incoming d)" arbitrary: d out0 rule: less_induct)
  case less
  let ?b = "replicate 128 (CHR 0x00)"
  note ar = awaited_async_read
  show ?case
  proof (cases "srv_read_timer env (rd_read d)")
    case (Some io)
    then show ?thesis by (subst drain_loop.simps) simp
  next
    case None
    obtain d1 bufs r where p: "poll_read_vectored (awaited_read env) d [?b] = Value (d1, bufs, r)"
      using async_read.poll_no_panic [OF ar less.prems(2), of "[?b]"] less.prems(3)
      by (cases "poll_read_vectored (awaited_read env) d [?b]") auto
    note unfold = drain_loop.simps [of env d] poll_read_def
    consider (failed) e where "r = Ready (Inl e)" | (ended) "r = Ready (Inr 0)"
      | (going) n where "r = Ready (Inr n)" "0 < n"
      using awaited_not_pending [of d "[?b]" d1 bufs] p
      by (metis poll.exhaust sum.exhaust gr0I)
    then show ?thesis
    proof cases
      case failed
      with p None show ?thesis by (subst drain_loop.simps) (simp add: poll_read_def)
    next
      case ended
      have "is_finished d"
        using async_read.poll_progress [OF ar _ _ less.prems(2), of "[?b]" d1 bufs 0] p ended by auto
      then have "d1 = d" using p by (simp add: poll_read_vectored_def)
      with p ended None \<open>is_finished d\<close> less.prems(1) show ?thesis
        by (subst drain_loop.simps) (auto simp: poll_read_def)
    next
      case going
      have nf: "\<not> is_finished d"
      proof
        assume "is_finished d"
        with p going show False by (simp add: poll_read_vectored_def)
      qed
      note ok = async_read.poll_ok [OF ar less.prems(2) nf p [unfolded going(1)]]
      have "reader_run (awaited_read env) d0 (out0 @ take n (concat bufs)) d1"
        using reader_run.delivered [OF less.prems(1) p [unfolded going(1)]] .
      moreover have "length (rd_remaining incoming d1) < length (rd_remaining incoming d)"
        using ok going(2) by auto
      moreover have "rd_wf d1" "128 \<le> length (rd_buf d1)" using ok less.prems(3) by simp_all
      ultimately show ?thesis using less.hyps [of d1] p going None
        by (subst drain_loop.simps) (simp add: poll_read_def)
    qed
  qed
qed

text \<open>The session behind a completed reader.\<close>

lemma with_reader_received:
  assumes run: "reader_run (awaited_read env) (reader_new (ss_rdbuf s) (ss_start s) (ss_end s) (ss_io s)) out d"
    and fin: "is_finished d" and c: "complete d = Value d'" and u: "get_unhandled d' = Some u" and wf: "session_wf s"
  shows "session_wf (with_reader d' u s) \<and> wire (ss_io (with_reader d' u s)) = wire (ss_io s) \<and>
    (\<exists>k. end_of_data (pending_input incoming s) k \<and>
      pending_input incoming (with_reader d' u s) = drop k (pending_input incoming s))"
proof -
  let ?d0 = "reader_new (ss_rdbuf s) (ss_start s) (ss_end s) (ss_io s)"
  note ar = awaited_async_read
  have b: "ss_start s \<le> ss_end s" "ss_end s \<le> length (ss_rdbuf s)" using wf by (auto simp: session_wf_def)
  have d0: "rd_wf ?d0" "\<not> is_finished ?d0" using b by (auto simp: rd_wf_def is_finished_def reader_new_def)
  have P: "subslice (ss_rdbuf s) (ss_start s) (ss_end s) @ incoming (ss_io s) = pending_input incoming s"
    by (simp add: pending_input_def unhandled_def)
  note msg = reader_run_message [OF ar b run, unfolded P]
  have e: "end_of_data (pending_input incoming s) (length out)"
    "pending_input incoming s = out @ rd_remaining incoming d" using msg fin by auto
  have "rd_wf d" using async_read.reader_run_inv [OF ar run d0] by blast
  moreover have "length (rd_buf d) = length (ss_rdbuf s)"
    using async_read.reader_run_buf [OF ar run d0] by (simp add: reader_new_def)
  moreover have d': "d' = d\<lparr>rd_state := Rd_Completed\<rparr>" using c fin by (simp add: complete_def)
  moreover have "u = (rd_start d, rd_end d)" using u d' by (simp add: get_unhandled_def)
  moreover have "wire (rd_read d) = wire (ss_io s)" using reader_run_wire [OF run] by (simp add: reader_new_def)
  ultimately show ?thesis using e wf
    by (auto simp: with_reader_def session_wf_def rd_wf_def pending_input_def unhandled_def rd_remaining_def
        intro!: exI [of _ "length out"])
qed

lemma receive_mail_ensures:
  assumes wf: "session_wf s" and m: "mm_to m \<noteq> []"
  shows "ensures (receive_mail env cfg m s) (\<lambda>s' _. session_wf s' \<and> ss_mail s' = ss_mail s \<and>
     keeps (ss_conn s) (ss_conn s') \<and>
     sent wire (message_replies (cfg_protocol cfg) (mm_to m)) (ss_io s) (ss_io s') \<and>
     (\<exists>k. end_of_data (pending_input incoming s) k \<and>
        pending_input incoming s' = drop k (pending_input incoming s)))"
    (is "ensures _ ?Q")
proof -
  let ?d0 = "reader_new (ss_rdbuf s) (ss_start s) (ss_end s) (ss_io s)"
  let ?n = "message_replies (cfg_protocol cfg) (mm_to m)"
  note ar = awaited_async_read
  have n: "(case cfg_protocol cfg of Smtp \<Rightarrow> 1 | Lmtp \<Rightarrow> length (mm_to m)) = ?n"
    by (cases "cfg_protocol cfg") auto
  obtain reader' w c ret where h: "cfg_handle_mail cfg ?d0 (ss_world s) m (ss_conn s) = (reader', w, c, ret)"
    by (metis prod_cases4)
  from mail_keeps [OF h] obtain out d where kc: "keeps (ss_conn s) c"
    and run: "reader_run (awaited_read env) ?d0 out d" and rd: "reader' = d \<or> complete d = Value reader'" by blast
  let ?s1 = "s\<lparr>ss_world := w, ss_conn := c\<rparr>"
  have b: "ss_start s \<le> ss_end s" "ss_end s \<le> length (ss_rdbuf s)" using wf by (auto simp: session_wf_def)
  have d0: "rd_wf ?d0" "\<not> is_finished ?d0" "rd_state ?d0 = Rd_CrLf"
    using b by (auto simp: rd_wf_def is_finished_def reader_new_def)
  note inv = async_read.reader_run_inv [OF ar run d0(1,2)]
  have nc: "rd_state d \<noteq> Rd_Completed" using inv d0(3) rd_scan_Completed [of Rd_CrLf out "rd_state d"] by auto
  have wf1: "session_wf ?s1" using wf by (simp add: session_wf_def)
  have run1: "reader_run (awaited_read env) (reader_new (ss_rdbuf ?s1) (ss_start ?s1) (ss_end ?s1) (ss_io ?s1)) out d"
    using run by simp
  have same: "pending_input incoming ?s1 = pending_input incoming s" by (simp add: pending_input_def unhandled_def)
  have finish: "?Q s' v" if s': "replied incoming wire ?n s2 s'" and s2: "s2 = (with_reader d' u ?s1)\<lparr>ss_conn := c2\<rparr>"
    "keeps c c2" and d': "reader_run (awaited_read env) (reader_new (ss_rdbuf ?s1) (ss_start ?s1) (ss_end ?s1) (ss_io ?s1)) out' d1"
      "is_finished d1" "complete d1 = Value d'" "get_unhandled d' = Some u" for s' s2 d' d1 u c2 out' and v :: unit
  proof -
    note wr = with_reader_received [OF d' wf1] and f = replied_fields [OF s']
    have "unhandled s2 = unhandled (with_reader d' u ?s1)" "session_wf s2 = session_wf (with_reader d' u ?s1)"
      "ss_io s2 = ss_io (with_reader d' u ?s1)" "ss_mail s2 = ss_mail s" "ss_conn s2 = c2"
      using s2(1) by (simp_all add: unhandled_def session_wf_def with_reader_def)
    with wr f s2(2) kc same show ?thesis
      using keeps_trans by (auto simp: pending_input_def sent_def)
  qed
  show ?thesis
  proof (cases "get_unhandled reader'")
    case (Some u)
    then have st: "rd_state reader' = Rd_Completed" by (auto simp: get_unhandled_def split: if_splits)
    with nc rd have cd: "complete d = Value reader'" by auto
    then have fin: "is_finished d" by (auto simp: complete_def split: if_splits)
    have "ensures (answer_decisions env 0 ?n (handle_mail_return_type_as_stream ret) (with_reader reader' u ?s1)) ?Q"
      by (rule ensures_mono [OF answer_decisions_ensures])
         (use finish [OF _ _ _ run1 fin cd Some, of "with_reader reader' u ?s1" _ c] in
           \<open>auto simp: with_reader_def\<close>)
    then show ?thesis using Some h n by (simp add: receive_mail_def Let_def)
  next
    case None
    have rd': "reader' = d"
      using rd None by (auto simp: complete_def get_unhandled_def split: if_splits)
    have "rd_wf d" "128 \<le> length (rd_buf d)"
      using inv async_read.reader_run_buf [OF ar run d0(1,2)] wf
      by (auto simp: reader_new_def session_wf_def RDBUF_SIZE_def)
    from drain_loop_spec [OF run1 this] obtain d1 res where dr: "drain_loop env d = Some (Value (d1, res))"
      and ok: "\<And>u. res = Inr u \<Longrightarrow> is_finished d1 \<and> (\<exists>out. reader_run (awaited_read env)
         (reader_new (ss_rdbuf ?s1) (ss_start ?s1) (ss_end ?s1) (ss_io ?s1)) out d1)" by blast
    have "ensures (finish_reception env cfg ?n d ?s1) ?Q"
    proof (cases res)
      case (Inl e)
      with dr show ?thesis by (simp add: finish_reception_def)
    next
      case (Inr u)
      from ok [OF Inr] obtain out1 where f1: "is_finished d1" and r1: "reader_run (awaited_read env)
         (reader_new (ss_rdbuf ?s1) (ss_start ?s1) (ss_end ?s1) (ss_io ?s1)) out1 d1" by blast
      let ?d2 = "d1\<lparr>rd_state := Rd_Completed\<rparr>" and ?u = "(rd_start d1, rd_end d1)"
      have c2: "complete d1 = Value ?d2" "get_unhandled ?d2 = Some ?u"
        using f1 by (simp_all add: complete_def get_unhandled_def)
      have "ensures (repeat_refuse env (cfg_handle_mail_did_not_call_complete cfg) ?n (with_reader ?d2 ?u ?s1)) ?Q"
        by (rule ensures_mono [OF repeat_refuse_ensures])
           (use finish [OF _ refl _ r1 f1 c2] in \<open>auto simp: refusals_def with_reader_def\<close>)
      with dr Inr f1 c2 show ?thesis by (simp add: finish_reception_def)
    qed
    then show ?thesis using None h n rd' by (simp add: receive_mail_def Let_def)
  qed
qed

lemma handle_data_handled:
  assumes wf: "session_wf s"
  shows "ensures (handle_data env cfg s) (\<lambda>s' _. handled incoming wire (cfg_protocol cfg) Data s s')"
    (is "ensures _ ?Q")
proof -
  let ?p = "cfg_protocol cfg" and ?s0 = "s\<lparr>ss_mail := None\<rparr>"
  have wf0: "session_wf ?s0" and p0: "pending_input incoming ?s0 = pending_input incoming s"
    using wf by (simp_all add: session_wf_def pending_input_def unhandled_def)
  consider (none) "ss_mail s = None" | (no_rcpt) m where "ss_mail s = Some m" "mm_to m = []"
    | (mail) m where "ss_mail s = Some m" "mm_to m \<noteq> []" by (cases "ss_mail s") auto
  then show ?thesis
  proof cases
    case none
    then have s: "s\<lparr>ss_mail := None\<rparr> = s" by (cases s) simp
    have "handle_data env cfg s = refuse env (cfg_data_before_mail cfg) (s\<lparr>ss_mail := None\<rparr>)"
      using none by (simp add: handle_data_def Let_def)
    also have "\<dots> = refuse env (cfg_data_before_mail cfg) s" by (simp only: s)
    finally show ?thesis using refuse_handled [OF _ wf, of "cfg_data_before_mail cfg"]
      by (simp add: refusals_def)
  next
    case no_rcpt
    have "ensures (refuse env (cfg_data_before_rcpt cfg) ?s0) ?Q"
    proof (rule ensures_mono [OF refuse_ensures [of _ ?s0]], simp add: refusals_def, elim exE conjE)
      fix s' :: "('io, 'w, 'cu, 'mu) Session" and v :: unit and c
      assume c: "keeps (ss_conn ?s0) c" and r: "replied incoming wire 1 (?s0\<lparr>ss_conn := c\<rparr>) s'"
      have "smtp_step ?p Data 1 (abs_session s) ((abs_session s)\<lparr>ab_mail := None\<rparr>)"
        by (rule smtp_step.data_without_rcpt [where sender = "mm_from m"])
           (use no_rcpt in \<open>simp add: abs_session_def abs_mail_def\<close>)
      then have "smtp_step ?p Data 1 (abs_session s)
          \<lparr>ab_hello = cm_hello c, ab_encrypted = cm_is_encrypted c, ab_mail = abs_mail None\<rparr>"
        using c by (simp add: abs_session_def abs_mail_def keeps_def)
      moreover have "replied incoming wire 1 (s\<lparr>ss_world := ss_world s, ss_conn := c, ss_mail := None\<rparr>) s'"
      proof -
        have "?s0\<lparr>ss_conn := c\<rparr> = s\<lparr>ss_world := ss_world s, ss_conn := c, ss_mail := None\<rparr>"
          by (cases s) simp
        with r show ?thesis by (simp only:)
      qed
      moreover have "cm_is_encrypted c = cm_is_encrypted (ss_conn s)" using c by (simp add: keeps_def)
      ultimately show "?Q s' v" using wf replied_step [where s = s and w = "ss_world s" and c = c and m = None]
        by blast
    qed
    with no_rcpt show ?thesis by (simp add: handle_data_def Let_def)
  next
    case mail
    obtain w m' c d where h: "cfg_filter_data cfg (ss_world s) m (ss_conn s) = (w, m', c, d)"
      by (metis prod_cases4)
    note k = data_keeps [OF h]
    let ?s1 = "?s0\<lparr>ss_world := w, ss_conn := c\<rparr>"
    have wf1: "session_wf ?s1" and p1: "pending_input incoming ?s1 = pending_input incoming s"
      using wf by (simp_all add: session_wf_def pending_input_def unhandled_def)
    have am: "abs_mail (Some m') = abs_mail (ss_mail s)" using k mail by (simp add: abs_mail_def)
    have rej: "ensures (send_reply env reply (?s1\<lparr>ss_mail := Some m'\<rparr>)) ?Q" for reply
      using send_reply_ensures [of reply "?s1\<lparr>ss_mail := Some m'\<rparr>"]
      by (rule ensures_mono)
         (use replied_refused [where s = s and w = w and c = c and m = "Some m'"] k am wf in simp)
    have step: "smtp_step ?p Data (1 + message_replies ?p (mm_to m)) (abs_session s) ((abs_session s)\<lparr>ab_mail := None\<rparr>)"
      by (rule smtp_step.data_received [where sender = "mm_from m"])
         (use mail in \<open>simp_all add: abs_session_def abs_mail_def\<close>)
    have pos: "0 < message_replies ?p (mm_to m)" using mail(2) by (cases ?p) auto
    have "ensures (receive_mail env cfg m' s2) ?Q" if r: "replied incoming wire 1 ?s1 s2" for s2
    proof (rule ensures_mono [OF receive_mail_ensures])
      note f = replied_fields [OF r]
      show "session_wf s2" using f wf1 by simp
      show "mm_to m' \<noteq> []" using k mail by simp
      have p2: "pending_input incoming s2 = pending_input incoming s"
        using f p1 by (simp add: pending_input_def)
      fix s' :: "('io, 'w, 'cu, 'mu) Session" and v :: unit
      assume a: "session_wf s' \<and> ss_mail s' = ss_mail s2 \<and> keeps (ss_conn s2) (ss_conn s') \<and>
        sent wire (message_replies ?p (mm_to m')) (ss_io s2) (ss_io s') \<and>
        (\<exists>k. end_of_data (pending_input incoming s2) k \<and>
          pending_input incoming s' = drop k (pending_input incoming s2))"
      have "abs_session s' = (abs_session s)\<lparr>ab_mail := None\<rparr>"
        using a f k by (simp add: abs_session_def keeps_def abs_mail_def)
      moreover have "sent wire (1 + message_replies ?p (mm_to m)) (ss_io s) (ss_io s')"
        using sent_trans [of wire 1 "ss_io s" "ss_io s2"] f(6) a k by simp
      moreover have "cm_is_encrypted (ss_conn s') = cm_is_encrypted (ss_conn s)"
        using a f k by (simp add: keeps_def)
      ultimately show "?Q s' v"
        unfolding handled_def using a p2 step pos by (auto intro!: exI [of _ "1 + message_replies ?p (mm_to m)"])
    qed
    then have acc: "ensures (bind_act (send_reply env reply ?s1) (\<lambda>s _. receive_mail env cfg m' s)) ?Q" for reply
      unfolding ensures_bind_iff by (intro ensures_mono [OF send_reply_ensures]) blast
    show ?thesis using mail h
      by (simp add: handle_data_def Let_def) (rule dispatch_ensures, rule rej, rule acc)
  qed
qed

lemma handle_command_handled:
  assumes "session_wf s"
  shows "ensures (handle_command env cfg c s) (\<lambda>s' _. handled incoming wire (cfg_protocol cfg) c s s')"
  using assms
  by (cases c)
     (auto intro: handle_hello_handled handle_mail_from_handled handle_rcpt_to_handled handle_data_handled
        handle_rset_handled handle_starttls_handled intro!: simple_handler_handled simp: simple_handlers_def)

section \<open>Every action returns\<close>


lemma send_reply_returns: "returns (send_reply env r s)"
  by (simp add: send_reply_def split: run.split option.split prod.split sum.split)

lemma refuse_returns: "returns (refuse env r s)"
  by (simp add: refuse_def send_reply_returns split: prod.split)

lemma dispatch_returns:
  assumes "\<And>r. returns (reject r s)" "\<And>r a. returns (accept r a s)"
  shows "returns (dispatch_decision env d reject accept s)"
  using assms send_reply_returns
  by (auto simp: dispatch_decision_def split: Decision.split option.split intro!: bind_returns)

lemma read_into_returns: "returns (read_into env at s)"
  by (simp add: read_into_def split: prod.split sum.split)

lemma read_for_command_returns: "returns (action s) \<Longrightarrow> returns (read_for_command env action s)"
  by (simp add: read_for_command_def split: option.split)

lemma answer_decisions_returns: "returns (answer_decisions env n expected ds s)"
  by (induction ds arbitrary: n s)
     (auto simp: simple_handler_def intro!: bind_returns dispatch_returns send_reply_returns)

lemma repeat_refuse_returns: "returns (repeat_refuse env r n s)"
  by (induction n arbitrary: s) (auto intro!: bind_returns refuse_returns)

lemma receive_mail_returns:
  assumes wf: "session_wf s"
  shows "returns (receive_mail env cfg m s)"
proof -
  let ?d0 = "reader_new (ss_rdbuf s) (ss_start s) (ss_end s) (ss_io s)"
  note ar = awaited_async_read
  obtain reader' w c ret where h: "cfg_handle_mail cfg ?d0 (ss_world s) m (ss_conn s) = (reader', w, c, ret)"
    by (metis prod_cases4)
  from mail_keeps [OF h] obtain out d where run: "reader_run (awaited_read env) ?d0 out d"
    and rd: "reader' = d \<or> complete d = Value reader'" by blast
  have d0: "rd_wf ?d0" "\<not> is_finished ?d0" using wf by (auto simp: rd_wf_def is_finished_def reader_new_def session_wf_def)
  have fin: "returns (finish_reception env cfg n reader' s1)" if "get_unhandled reader' = None" for n s1
  proof -
    have r: "reader' = d" using rd that by (auto simp: complete_def get_unhandled_def split: if_splits)
    have "rd_wf d" "128 \<le> length (rd_buf d)"
      using async_read.reader_run_inv [OF ar run d0] async_read.reader_run_buf [OF ar run d0] wf
      by (auto simp: reader_new_def session_wf_def RDBUF_SIZE_def)
    from drain_loop_spec [OF run this] obtain d1 res where "drain_loop env reader' = Some (Value (d1, res))"
      using r by blast
    then show ?thesis
      by (auto simp: finish_reception_def repeat_refuse_returns split: sum.split run.split option.split)
  qed
  with h show ?thesis
    by (auto simp: receive_mail_def Let_def answer_decisions_returns split: option.split)
qed

lemma handle_command_returns:
  assumes wf: "session_wf s"
  shows "returns (handle_command env cfg c s)"
proof -
  have simple: "returns (call_simple_handler env h s)" for h
    by (auto simp: call_simple_handler_def simple_handler_def split: prod.split
        intro!: dispatch_returns send_reply_returns)
  have hello: "returns (handle_hello env cfg p e h s)" for p e h
    by (auto simp: handle_hello_def refuse_returns split: prod.split option.split
        intro!: dispatch_returns send_reply_returns)
  have mail: "returns (handle_mail_from env cfg e s)" for e
    by (auto simp: handle_mail_from_def refuse_returns split: prod.split option.split
        intro!: dispatch_returns send_reply_returns)
  have rcpt: "returns (handle_rcpt_to env cfg e s)" for e
    by (auto simp: handle_rcpt_to_def refuse_returns split: prod.split option.split
        intro!: dispatch_returns send_reply_returns)
  have rset: "returns (handle_rset_command env cfg s)"
    by (auto simp: handle_rset_command_def split: prod.split intro!: dispatch_returns send_reply_returns)
  have tls: "returns (handle_starttls_command env cfg s)"
    by (auto simp: handle_starttls_command_def refuse_returns split: prod.split sum.split
        intro!: dispatch_returns send_reply_returns bind_returns)
  have received: "returns (bind_act (send_reply env r s1) (\<lambda>s _. receive_mail env cfg m s))"
    if "session_wf s1" for r s1 m
  proof (rule bind_returns [OF send_reply_returns])
    fix s2 and u :: unit
    assume "send_reply env r s1 = Go s2 u"
    then have "replied incoming wire 1 s1 s2" using send_reply_ensures [of r s1] by (simp add: ensures_def)
    then show "returns (receive_mail env cfg m s2)"
      using replied_fields(4) that receive_mail_returns by blast
  qed
  have "returns (handle_data env cfg s)"
    using wf
    by (auto simp: handle_data_def Let_def refuse_returns session_wf_def split: prod.split option.split
        intro!: dispatch_returns send_reply_returns received)
  with simple hello mail rcpt rset tls show ?thesis by (cases c) auto
qed

end

text \<open>Handling a command does not make the input longer, if the TLS handshake does not.\<close>

definition tls_shortens :: "('io \<Rightarrow> bytes) \<Rightarrow> ('io, 'w, 'cu, 'mu) Config \<Rightarrow> bool" where
  "tls_shortens incoming cfg \<longleftrightarrow> (\<forall>io w c io' w' c' r.
     cfg_tls_accept cfg io w c = (io', w', c', r) \<longrightarrow> length (incoming io') \<le> length (incoming io))"

context server_config
begin

lemma handle_starttls_shortens:
  assumes "tls_shortens incoming cfg"
  shows "ensures (handle_starttls_command env cfg s)
    (\<lambda>s' _. length (pending_input incoming s') \<le> length (pending_input incoming s))"
proof -
  have kept: "length (pending_input incoming s') \<le> length (pending_input incoming s)"
    if "replied incoming wire 1 (s\<lparr>ss_world := w, ss_conn := c\<rparr>) s'" for s' w c
    using replied_fields [OF that] by (simp add: pending_input_def unhandled_def)
  have refused: "ensures (refuse env r s) (\<lambda>s' _. length (pending_input incoming s') \<le> length (pending_input incoming s))"
    if "r \<in> refusals cfg" for r
    using refuse_ensures [OF that, of s] kept [where w = "ss_world s"] by (auto elim!: ensures_mono)
  obtain w c d where h: "cfg_handle_starttls cfg (ss_world s) (ss_conn s) = (w, c, d)" by (metis prod_cases3)
  let ?s1 = "s\<lparr>ss_world := w, ss_conn := c\<rparr>"
  have "ensures (case cfg_tls_accept cfg (ss_io s2) (ss_world s2) (ss_conn s2) of
         (io, w', c', Inl e) \<Rightarrow> Stop (s2\<lparr>ss_io := io, ss_world := w', ss_conn := c'\<rparr>) (Inl e)
       | (io, w', c', Inr _) \<Rightarrow>
           Go (s2\<lparr>ss_io := io, ss_world := w', ss_mail := None,
                 ss_conn := c'\<lparr>cm_is_encrypted := True, cm_hello := None\<rparr>\<rparr>) ())
      (\<lambda>s' _. length (pending_input incoming s') \<le> length (pending_input incoming s))"
    if r: "replied incoming wire 1 ?s1 s2" for s2
  proof -
    obtain io w' c' res where t: "cfg_tls_accept cfg (ss_io s2) (ss_world s2) (ss_conn s2) = (io, w', c', res)"
      by (metis prod_cases4)
    with assms have "length (incoming io) \<le> length (incoming (ss_io s2))" unfolding tls_shortens_def by blast
    with t kept [OF r] show ?thesis by (cases res) (auto simp: pending_input_def unhandled_def)
  qed
  with kept refused h show ?thesis
    by (auto simp: handle_starttls_command_def refusals_def intro!: dispatch_ensures
        ensures_mono [OF send_reply_ensures])
qed

end

context smtp_server
begin

lemma next_command_returns:
  assumes wf: "session_wf s"
  shows "returns (next_command parse env cfg s)"
proof -
  have adv: "returns (advance_until_crlf env s1)" if "session_wf s1" for s1 :: "('io, 'w, 'cu, 'mu) Session"
    using advance_until_crlf_ensures(2) [OF that] by (simp add: returns_def)
  have more: "returns (fetch_more env cfg s1)" if "session_wf s1" for s1
    using adv [OF that]
    by (auto simp: fetch_more_def refuse_returns intro!: bind_returns read_for_command_returns read_into_returns)
  let ?fill = "if \<not> ss_start s < ss_end s then
        bind_act (read_for_command env (read_into env 0) s)
          (\<lambda>s n. let s' = s\<lparr>ss_start := 0, ss_end := n\<rparr> in if n = 0 then Stop s' (Inr ()) else Go s' ())
      else Go s ()"
  have "returns (?fill)"
    by (auto simp: Let_def intro!: bind_returns read_for_command_returns read_into_returns)
  then show ?thesis unfolding next_command_def
  proof (rule bind_returns)
    fix s1 and u :: unit
    assume "?fill = Go s1 u"
    then have wf1: "session_wf s1" using refill_ensures [OF wf] by (simp add: ensures_def)
    have "returns (bind_act (refuse env (cfg_command_unrecognized cfg) s2) (\<lambda>s _. Go s None))" for s2
      by (rule bind_returns) (simp_all add: refuse_returns)
    then show "returns (case parse (subslice (ss_rdbuf s1) (ss_start s1) (ss_end s1)) of
        Inl (Incomplete n) \<Rightarrow> bind_act (fetch_more env cfg (make_room n s1)) (\<lambda>s _. Go s None)
      | Inl _ \<Rightarrow>
          bind_act (read_for_command env (advance_until_crlf env) s1)
            (\<lambda>s _. bind_act (refuse env (cfg_command_unrecognized cfg) s) (\<lambda>s _. Go s None))
      | Inr (rem, cmd) \<Rightarrow> Go (s1\<lparr>ss_start := ss_end s1 - length rem\<rparr>) (Some cmd))"
      using adv [OF wf1] more [OF make_room_props(1) [OF wf1]]
      by (auto split: sum.split nom_err.split intro!: bind_returns read_for_command_returns refuse_returns)
  qed
qed

lemma interact_step_returns: "session_wf s \<Longrightarrow> returns (interact_step parse env cfg s)"
  unfolding interact_step_def
proof (rule bind_returns [OF next_command_returns])
  fix s1 cmd
  assume wf: "session_wf s" and "next_command parse env cfg s = Go s1 cmd"
  then have "session_wf s1" using next_command_ensures [OF wf] by (simp add: ensures_def)
  then show "returns ((case cmd of None \<Rightarrow> Go s1 () | Some c \<Rightarrow> handle_command env cfg c s1))"
    using handle_command_returns by (simp split: option.split)
qed

section \<open>The loop\<close>

text \<open>A turn of the loop: more input, a line that is skipped with an error reply, or a command.\<close>

lemma interact_step_ensures:
  assumes "session_wf s"
  shows "ensures (interact_step parse env cfg s) (\<lambda>s' _. session_wf s' \<and>
     (abs_session s' = abs_session s \<and>
        (fetched incoming wire s s' \<or>
         skipped_line incoming wire s s') \<or>
      (\<exists>c s1. took_command incoming wire parse c s s1 \<and> abs_session s1 = abs_session s \<and>
         handled incoming wire (cfg_protocol cfg) c s1 s')))"
  unfolding interact_step_def ensures_bind_iff
proof (rule ensures_mono [OF next_command_ensures [OF assms]], elim conjE)
  fix s1 cmd
  assume s1: "session_wf s1" "ss_mail s1 = ss_mail s" "keeps (ss_conn s) (ss_conn s1)"
    and cmd: "case cmd of
          Some c \<Rightarrow> took_command incoming wire parse c s s1
        | None \<Rightarrow> fetched incoming wire s s1 \<or>
                  skipped_line incoming wire s s1"
  have a: "abs_session s1 = abs_session s" by (rule abs_session_eq) (use s1 in simp_all)
  show "ensures (case cmd of None \<Rightarrow> Go s1 () | Some c \<Rightarrow> handle_command env cfg c s1)
     (\<lambda>s' _. session_wf s' \<and>
     (abs_session s' = abs_session s \<and>
        (fetched incoming wire s s' \<or>
         skipped_line incoming wire s s') \<or>
      (\<exists>c s1. took_command incoming wire parse c s s1 \<and> abs_session s1 = abs_session s \<and>
         handled incoming wire (cfg_protocol cfg) c s1 s')))"
  proof (cases cmd)
    case None
    with cmd s1 a show ?thesis by auto
  next
    case (Some c)
    have "ensures (handle_command env cfg c s1) (\<lambda>s' _. session_wf s' \<and>
       (\<exists>c s1. took_command incoming wire parse c s s1 \<and> abs_session s1 = abs_session s \<and>
         handled incoming wire (cfg_protocol cfg) c s1 s'))"
    proof (rule ensures_mono [OF handle_command_handled [OF s1(1)]])
      fix s' and u :: unit
      assume h: "handled incoming wire (cfg_protocol cfg) c s1 s'"
      then have "session_wf s'" by (simp add: handled_def)
      moreover have "took_command incoming wire parse c s s1" using cmd Some by simp
      ultimately show "session_wf s' \<and> (\<exists>c s1. took_command incoming wire parse c s s1 \<and>
         abs_session s1 = abs_session s \<and> handled incoming wire (cfg_protocol cfg) c s1 s')"
        using a h by blast
    qed
    then show ?thesis unfolding Some by (simp, rule ensures_mono) auto
  qed
qed

lemma interact_step_inv:
  assumes "session_wf s" "machine_inv (abs_session s)" "interact_step parse env cfg s = Go s' ()"
  shows "session_wf s' \<and> machine_inv (abs_session s')"
proof -
  from interact_step_ensures [OF assms(1)] assms(3)
  have "session_wf s'" and d: "abs_session s' = abs_session s \<or> (\<exists>c s1. abs_session s1 = abs_session s \<and>
         handled incoming wire (cfg_protocol cfg) c s1 s')" by (auto simp: ensures_def)
  moreover from d assms(2) have "machine_inv (abs_session s')"
    using smtp_step_inv unfolding handled_def by metis
  ultimately show ?thesis by blast
qed

lemma reaches_inv:
  assumes "interact_reaches parse env cfg (interact_init io w tls user) s"
  shows "session_wf s \<and> machine_inv (abs_session s)"
  using assms
proof (induction rule: interact_reaches.induct)
  case (greeted s)
  let ?s0 = "interact_init io w tls user :: ('io, 'w, 'cu, 'mu) Session"
  have "ensures (refuse env (cfg_welcome_banner_reply cfg) ?s0) (\<lambda>s' _. \<exists>c. keeps (ss_conn ?s0) c \<and>
      replied incoming wire 1 (?s0\<lparr>ss_conn := c\<rparr>) s')"
    by (rule refuse_ensures) (simp add: refusals_def)
  with greeted obtain c where c: "keeps (ss_conn ?s0) c" and r: "replied incoming wire 1 (?s0\<lparr>ss_conn := c\<rparr>) s"
    by (auto simp: ensures_def)
  note f = replied_fields [OF r]
  have "session_wf s" using f by (simp add: session_wf_def interact_init_def)
  moreover have "ab_mail (abs_session s) = None" using f by (simp add: abs_session_def abs_mail_def interact_init_def)
  ultimately show ?case by (simp add: machine_inv_def)
next
  case (stepped s s')
  then show ?case using interact_step_inv by blast
qed

text \<open>Every turn takes some of the input, or fetches some of it.\<close>

lemma handle_command_shortens:
  assumes "session_wf s" "tls_shortens incoming cfg" "handle_command env cfg c s = Go s' u"
  shows "length (pending_input incoming s') \<le> length (pending_input incoming s)"
proof (cases "c = Starttls")
  case True
  with handle_starttls_shortens [OF assms(2), of s] assms(3) show ?thesis by (simp add: ensures_def)
next
  case False
  have "handled incoming wire (cfg_protocol cfg) c s s'"
    using handle_command_handled [OF assms(1), of c] assms(3) by (simp add: ensures_def)
  with False show ?thesis unfolding handled_def by (auto split: if_splits)
qed

lemma interact_step_progress:
  assumes wf: "session_wf s" and tls: "tls_shortens incoming cfg" and step: "interact_step parse env cfg s = Go s' u"
  shows "length (pending_input incoming s') < length (pending_input incoming s) \<or>
    length (pending_input incoming s') = length (pending_input incoming s) \<and>
      length (incoming (ss_io s')) < length (incoming (ss_io s))"
proof -
  from step obtain s1 cmd where n: "next_command parse env cfg s = Go s1 cmd"
    and h: "(case cmd of None \<Rightarrow> Go s1 () | Some c \<Rightarrow> handle_command env cfg c s1) = Go s' u"
    by (auto simp: interact_step_def bind_act_Go_iff)
  have s1: "session_wf s1" and r: "case cmd of
          Some c \<Rightarrow> took_command incoming wire parse c s s1
        | None \<Rightarrow> fetched incoming wire s s1 \<or> skipped_line incoming wire s s1"
    using next_command_ensures [OF wf] n by (simp_all add: ensures_def)
  show ?thesis
  proof (cases cmd)
    case None
    then have "s1 = s'" using h by simp
    moreover have "p + 2 \<le> length x" if "find_window CRLF x = Some p" for p x
      using find_window_Some_bound [OF that] by simp
    ultimately show ?thesis using r None by (fastforce simp: fetched_def skipped_line_def)
  next
    case (Some c)
    with r have "length (pending_input incoming s1) < length (pending_input incoming s)"
      by (auto simp: took_command_def)
    with handle_command_shortens [OF s1 tls, of c s' u] h Some show ?thesis by simp
  qed
qed

lemma interact_loop_returns:
  assumes "session_wf s" "tls_shortens incoming cfg"
  shows "\<exists>r. interact_loop parse env cfg s = Some r"
  using assms(1)
proof (induction s rule: wf_induct_rule [OF wf_measures [of
      "[\<lambda>s. length (pending_input incoming s), \<lambda>s. length (incoming (ss_io s))]"], case_names turn])
  case (turn s)
  show ?case
  proof (cases "interact_step parse env cfg s")
    case (Go s' u)
    moreover have "session_wf s'" using interact_step_ensures [OF turn.prems] Go by (simp add: ensures_def)
    ultimately show ?thesis using interact_step_progress [OF turn.prems assms(2) Go] turn.IH
      by (subst interact_loop.simps) auto
  next
    case Diverge
    with interact_step_returns [OF turn.prems] show ?thesis by (simp add: returns_def)
  qed (subst interact_loop.simps, simp)+
qed

lemma interact_returns:
  assumes "tls_shortens incoming cfg"
  shows "\<exists>r. interact parse env cfg io w tls user = Some r"
proof -
  let ?s0 = "interact_init io w tls user :: ('io, 'w, 'cu, 'mu) Session"
  have "session_wf s" if "refuse env (cfg_welcome_banner_reply cfg) ?s0 = Go s u" for s u
    using reaches_inv [OF interact_reaches.greeted] that by simp
  then show ?thesis using interact_loop_returns [OF _ assms] refuse_returns [of "cfg_welcome_banner_reply cfg" ?s0]
    by (cases "refuse env (cfg_welcome_banner_reply cfg) ?s0") (simp_all add: interact_def returns_def)
qed

text \<open>\<^verbatim>\<open>handle_mail\<close> is only asked about mails with recipients from clients that have greeted.\<close>

lemma bind_act_cong: "(\<And>s a. x = Go s a \<Longrightarrow> f s a = g s a) \<Longrightarrow> bind_act x f = bind_act x g"
  by (cases x) auto

lemma handle_mail_only_asked:
  assumes wf: "session_wf s" and inv: "machine_inv (abs_session s)"
    and h: "\<And>reader w m c. mm_to m \<noteq> [] \<Longrightarrow> cm_hello c \<noteq> None \<Longrightarrow> h reader w m c = cfg_handle_mail cfg reader w m c"
  shows "interact_step parse env (cfg\<lparr>cfg_handle_mail := h\<rparr>) s = interact_step parse env cfg s"
proof -
  let ?cfg' = "cfg\<lparr>cfg_handle_mail := h\<rparr>"
  have next_same: "next_command parse env ?cfg' s = next_command parse env cfg s"
  proof -
    have f: "fetch_more env ?cfg' = fetch_more env cfg" by (rule ext) (simp add: fetch_more_def)
    have u: "cfg_command_unrecognized ?cfg' = cfg_command_unrecognized cfg" by simp
    show ?thesis by (simp only: next_command_def f u)
  qed
  have data_same: "handle_data env ?cfg' s1 = handle_data env cfg s1" if s1: "machine_inv (abs_session s1)" for s1
  proof (cases "\<exists>m. ss_mail s1 = Some m \<and> mm_to m \<noteq> []")
    case False
    then show ?thesis by (auto simp: handle_data_def Let_def split: option.split)
  next
    case True
    then obtain m where m: "ss_mail s1 = Some m" "mm_to m \<noteq> []" by blast
    obtain w m' c d where f: "cfg_filter_data cfg (ss_world s1) m (ss_conn s1) = (w, m', c, d)" by (metis prod_cases4)
    have hello: "cm_hello (ss_conn s1) \<noteq> None" using s1 m(1) by (simp add: machine_inv_def abs_session_def abs_mail_def)
    have "receive_mail env ?cfg' m' s2 = receive_mail env cfg m' s2"
      if "send_reply env r (s1\<lparr>ss_mail := None, ss_world := w, ss_conn := c\<rparr>) = Go s2 u" for r s2 u
    proof -
      have "replied incoming wire 1 (s1\<lparr>ss_mail := None, ss_world := w, ss_conn := c\<rparr>) s2"
        using send_reply_ensures [of r "s1\<lparr>ss_mail := None, ss_world := w, ss_conn := c\<rparr>"] that
        by (simp add: ensures_def)
      from replied_fields(2) [OF this] have "ss_conn s2 = c" by simp
      then have "cm_hello (ss_conn s2) \<noteq> None" "mm_to m' \<noteq> []"
        using data_keeps [OF f] hello m(2) by (auto simp: keeps_def)
      moreover have "finish_reception env ?cfg' = finish_reception env cfg"
      proof -
        have n: "cfg_handle_mail_did_not_call_complete ?cfg' = cfg_handle_mail_did_not_call_complete cfg" by simp
        show ?thesis by (intro ext) (simp only: finish_reception_def n)
      qed
      ultimately show ?thesis using h by (simp add: receive_mail_def Let_def split: prod.split option.split)
    qed
    then show ?thesis using m f
      by (auto simp: handle_data_def Let_def dispatch_decision_def split: Decision.split intro!: bind_act_cong)
  qed
  have handle_same: "handle_command env ?cfg' c s1 = handle_command env cfg c s1"
    if "machine_inv (abs_session s1)" for c s1
    using data_same [OF that]
    by (cases c) (simp_all add: handle_hello_def handle_mail_from_def handle_rcpt_to_def handle_rset_command_def
        handle_starttls_command_def dispatch_decision_def
        split: prod.split option.split Decision.split)
  show ?thesis unfolding interact_step_def next_same
  proof (rule bind_act_cong)
    fix s1 cmd
    assume n: "next_command parse env cfg s = Go s1 cmd"
    then have "ss_mail s1 = ss_mail s \<and> keeps (ss_conn s) (ss_conn s1)"
      using next_command_ensures [OF wf] by (simp add: ensures_def)
    then have "abs_session s1 = abs_session s" by (intro abs_session_eq) simp_all
    with inv handle_same [of s1] show "(case cmd of None \<Rightarrow> Go s1 () | Some c \<Rightarrow> handle_command env ?cfg' c s1) =
        (case cmd of None \<Rightarrow> Go s1 () | Some c \<Rightarrow> handle_command env cfg c s1)"
      by (simp split: option.split)
  qed
qed

end

end
