(* ===== verification/Regex.thy ===== *)
theory Regex
  imports Prelude
begin

text \<open>
  The regular expressions of \<^verbatim>\<open>smtp-message\<close> and their use: \<^verbatim>\<open>find_dfa\<close> and \<^verbatim>\<open>apply_regex\<close> of
  \<^verbatim>\<open>misc.rs\<close> run an automaton of the \<^verbatim>\<open>regex_automata\<close> crate, a parameter here. What the code
  relies on is the locale \<open>automaton\<close>: the automaton built for an expression is in a match state
  exactly when the bytes read so far match it, and in a dead state exactly when nothing that
  could follow leads to a match. An automaton whose states are expressions implements it.
\<close>

section \<open>Regular expressions over bytes\<close>

text \<open>A character class is a list of ranges of byte values.\<close>

type_synonym byte_class = "(nat \<times> nat) list"

definition in_class :: "byte_class \<Rightarrow> byte \<Rightarrow> bool" where
  "in_class rs c \<longleftrightarrow> list_ex (\<lambda>(lo, hi). lo \<le> of_char c \<and> of_char c \<le> hi) rs"

datatype re = Zero | One | Cls byte_class | Plus re re | Times re re | Star re

primrec lang :: "re \<Rightarrow> bytes set" where
  "lang Zero = {}"
| "lang One = {[]}"
| "lang (Cls rs) = {[c] |c. in_class rs c}"
| "lang (Plus r s) = lang r \<union> lang s"
| "lang (Times r s) = {u @ v |u v. u \<in> lang r \<and> v \<in> lang s}"
| "lang (Star r) = {concat ws |ws. set ws \<subseteq> lang r}"

definition Lit :: "bytes \<Rightarrow> re" where
  "Lit s = foldr (\<lambda>c. Times (Cls [(of_char c, of_char c)])) s One"

definition Opt_re :: "re \<Rightarrow> re" where
  "Opt_re r = Plus r One"

definition Plus1 :: "re \<Rightarrow> re" where
  "Plus1 r = Times r (Star r)"

section \<open>Derivatives\<close>

primrec nullable :: "re \<Rightarrow> bool" where
  "nullable Zero = False"
| "nullable One = True"
| "nullable (Cls rs) = False"
| "nullable (Plus r s) = (nullable r \<or> nullable s)"
| "nullable (Times r s) = (nullable r \<and> nullable s)"
| "nullable (Star r) = True"

text \<open>Sums and products without the terms that match nothing, so that derivatives stay small.\<close>

definition sum_re :: "re \<Rightarrow> re \<Rightarrow> re" where
  "sum_re r s = (if r = Zero then s else if s = Zero \<or> s = r then r else Plus r s)"

definition prod_re :: "re \<Rightarrow> re \<Rightarrow> re" where
  "prod_re r s = (if r = Zero \<or> s = Zero then Zero else if r = One then s else Times r s)"

lemma lang_sum_re [simp]: "lang (sum_re r s) = lang (Plus r s)"
  by (auto simp: sum_re_def)

lemma lang_prod_re [simp]: "lang (prod_re r s) = lang (Times r s)"
  by (auto simp: prod_re_def)

primrec deriv :: "byte \<Rightarrow> re \<Rightarrow> re" where
  "deriv c Zero = Zero"
| "deriv c One = Zero"
| "deriv c (Cls rs) = (if in_class rs c then One else Zero)"
| "deriv c (Plus r s) = sum_re (deriv c r) (deriv c s)"
| "deriv c (Times r s) =
     (if nullable r then sum_re (prod_re (deriv c r) s) (deriv c s) else prod_re (deriv c r) s)"
| "deriv c (Star r) = prod_re (deriv c r) (Star r)"

text \<open>An expression that matches nothing.\<close>

primrec no_match :: "re \<Rightarrow> bool" where
  "no_match Zero = True"
| "no_match One = False"
| "no_match (Cls rs) = list_all (\<lambda>(lo, hi). hi < lo \<or> 255 < lo) rs"
| "no_match (Plus r s) = (no_match r \<and> no_match s)"
| "no_match (Times r s) = (no_match r \<or> no_match s)"
| "no_match (Star r) = False"

lemma nullable_iff: "nullable r \<longleftrightarrow> [] \<in> lang r"
  by (induction r) (auto intro: exI [of _ "[]"])

lemma in_class_empty: "(\<forall>c. \<not> in_class rs c) \<longleftrightarrow> list_all (\<lambda>(lo, hi). hi < lo \<or> 255 < lo) rs"
proof -
  have "(\<exists>c :: byte. lo \<le> of_char c \<and> of_char c \<le> hi) \<longleftrightarrow> lo \<le> hi \<and> lo \<le> 255" for lo hi :: nat
  proof
    assume "\<exists>c :: byte. lo \<le> of_char c \<and> of_char c \<le> hi"
    then obtain c :: byte where "lo \<le> of_char c" "of_char c \<le> hi" by blast
    moreover have "(of_char c :: nat) < 256" by (rule nat_of_char_less_256)
    ultimately show "lo \<le> hi \<and> lo \<le> 255" by linarith
  next
    assume "lo \<le> hi \<and> lo \<le> 255"
    then have "lo \<le> of_char (char_of lo :: byte) \<and> of_char (char_of lo :: byte) \<le> hi"
      by (simp add: of_char_of)
    then show "\<exists>c :: byte. lo \<le> of_char c \<and> of_char c \<le> hi" by blast
  qed
  then have "(\<exists>c. in_class rs c) \<longleftrightarrow> (\<exists>x \<in> set rs. case x of (lo, hi) \<Rightarrow> lo \<le> hi \<and> lo \<le> 255)"
    unfolding in_class_def list_ex_iff by (simp add: split_def) blast
  then have "(\<forall>c. \<not> in_class rs c) \<longleftrightarrow> (\<forall>x \<in> set rs. case x of (lo, hi) \<Rightarrow> \<not> (lo \<le> hi \<and> lo \<le> 255))"
    by (simp add: split_def) blast
  then show ?thesis by (simp add: list_all_iff split_def not_le de_Morgan_conj)
qed

lemma no_match_iff: "no_match r \<longleftrightarrow> lang r = {}"
proof (induction r)
  case (Cls rs)
  show ?case using in_class_empty [of rs] by auto
qed (auto intro: exI [of _ "[]"])

lemma star_Cons:
  "c # w \<in> lang (Star r) \<longleftrightarrow> (\<exists>u v. w = u @ v \<and> c # u \<in> lang r \<and> v \<in> lang (Star r))"
proof
  assume "c # w \<in> lang (Star r)"
  then obtain ws where ws: "c # w = concat ws" "set ws \<subseteq> lang r" by auto
  then show "\<exists>u v. w = u @ v \<and> c # u \<in> lang r \<and> v \<in> lang (Star r)"
  proof (induction ws)
    case Nil
    then show ?case by simp
  next
    case (Cons x xs)
    then show ?case
    proof (cases x)
      case Nil
      with Cons show ?thesis by simp
    next
      case (Cons a as)
      with Cons.prems have "w = as @ concat xs" "c # as \<in> lang r" "concat xs \<in> lang (Star r)" by auto
      then show ?thesis by blast
    qed
  qed
next
  assume "\<exists>u v. w = u @ v \<and> c # u \<in> lang r \<and> v \<in> lang (Star r)"
  then obtain u vs where "w = u @ concat vs" "c # u \<in> lang r" "set vs \<subseteq> lang r" by auto
  then show "c # w \<in> lang (Star r)" by (auto intro!: exI [of _ "(c # u) # vs"])
qed

lemma times_Cons:
  "c # w \<in> lang (Times r s) \<longleftrightarrow>
     (\<exists>u v. w = u @ v \<and> c # u \<in> lang r \<and> v \<in> lang s) \<or> ([] \<in> lang r \<and> c # w \<in> lang s)"
  by (auto simp: Cons_eq_append_conv append_eq_Cons_conv)

lemma deriv_iff: "w \<in> lang (deriv c r) \<longleftrightarrow> c # w \<in> lang r"
proof (induction r arbitrary: w)
  case (Times r s)
  show ?case unfolding times_Cons using Times by (auto simp: nullable_iff)
next
  case (Star r)
  show ?case unfolding star_Cons using Star by auto
qed auto

text \<open>Matching, and the words of the compound expressions the grammar uses.\<close>

definition matches :: "re \<Rightarrow> bytes \<Rightarrow> bool" where
  "matches r w \<longleftrightarrow> nullable (foldl (\<lambda>r c. deriv c r) r w)"

lemma deriv_run: "v \<in> lang (foldl (\<lambda>r c. deriv c r) r w) \<longleftrightarrow> w @ v \<in> lang r"
  by (induction w arbitrary: r) (auto simp: deriv_iff)

lemma matches_iff: "matches r w \<longleftrightarrow> w \<in> lang r"
  using deriv_run [of "[]" r w] by (simp add: matches_def nullable_iff)

lemma in_class_single: "in_class [(of_char c, of_char c)] d \<longleftrightarrow> d = c"
  unfolding in_class_def by (auto intro: le_antisym dest: antisym)

lemma lang_Lit [simp]: "lang (Lit s) = {s}"
proof (induction s)
  case Nil
  show ?case by (simp add: Lit_def)
next
  case (Cons c s)
  have "Lit (c # s) = Times (Cls [(of_char c, of_char c)]) (Lit s)" by (simp add: Lit_def)
  then show ?case by (simp add: Cons in_class_single)
qed

lemma mem_Times_Cls: "w \<in> lang (Times (Cls rs) r) \<longleftrightarrow> (\<exists>c v. w = c # v \<and> in_class rs c \<and> v \<in> lang r)"
proof
  assume "\<exists>c v. w = c # v \<and> in_class rs c \<and> v \<in> lang r"
  then obtain c v where "w = [c] @ v" "in_class rs c" "v \<in> lang r" by auto
  then show "w \<in> lang (Times (Cls rs) r)" by (auto simp del: append_Cons)
qed auto

lemma mem_Times_Lit: "w \<in> lang (Times (Lit s) r) \<longleftrightarrow> (\<exists>v. w = s @ v \<and> v \<in> lang r)"
  by simp

lemma mem_Times: "w \<in> lang (Times r s) \<longleftrightarrow> (\<exists>u v. w = u @ v \<and> u \<in> lang r \<and> v \<in> lang s)"
  by simp

lemma lang_Opt_re [simp]: "lang (Opt_re r) = insert [] (lang r)"
  by (auto simp: Opt_re_def)

lemma lang_Plus1: "lang (Plus1 r) = {concat ws |ws. ws \<noteq> [] \<and> set ws \<subseteq> lang r}"
proof -
  have "w \<in> lang (Plus1 r) \<longleftrightarrow> w \<in> {concat ws |ws. ws \<noteq> [] \<and> set ws \<subseteq> lang r}" for w
  proof
    assume "w \<in> lang (Plus1 r)"
    then obtain u vs where "w = concat (u # vs)" "set (u # vs) \<subseteq> lang r" by (auto simp: Plus1_def)
    then show "w \<in> {concat ws |ws. ws \<noteq> [] \<and> set ws \<subseteq> lang r}" by blast
  next
    assume "w \<in> {concat ws |ws. ws \<noteq> [] \<and> set ws \<subseteq> lang r}"
    then obtain u vs where "w = u @ concat vs" "u \<in> lang r" "set vs \<subseteq> lang r" by (auto simp: neq_Nil_conv)
    then show "w \<in> lang (Plus1 r)" by (auto simp: Plus1_def)
  qed
  then show ?thesis by blast
qed

lemma lang_Star_Cls: "lang (Star (Cls rs)) = {w. \<forall>c \<in> set w. in_class rs c}"
proof -
  have "w \<in> lang (Star (Cls rs)) \<longleftrightarrow> (\<forall>c \<in> set w. in_class rs c)" for w
  proof
    assume "w \<in> lang (Star (Cls rs))"
    then obtain ws where "w = concat ws" "set ws \<subseteq> lang (Cls rs)" by auto
    then show "\<forall>c \<in> set w. in_class rs c" by fastforce
  next
    assume "\<forall>c \<in> set w. in_class rs c"
    then have "w = concat (map (\<lambda>c. [c]) w)" "set (map (\<lambda>c. [c]) w) \<subseteq> lang (Cls rs)"
      by (induction w) auto
    then show "w \<in> lang (Star (Cls rs))" unfolding lang.simps(6) by blast
  qed
  then show ?thesis by blast
qed

lemma lang_Plus1_Cls: "lang (Plus1 (Cls rs)) = {w. w \<noteq> [] \<and> (\<forall>c \<in> set w. in_class rs c)}"
proof -
  have "w \<in> lang (Plus1 (Cls rs)) \<longleftrightarrow> w \<noteq> [] \<and> (\<forall>c \<in> set w. in_class rs c)" for w
    unfolding Plus1_def lang.simps(5) lang_Star_Cls by (cases w) (auto intro: exI [of _ "[hd w]"])
  then show ?thesis by blast
qed

lemma lang_mono:
  "lang r \<subseteq> lang r' \<Longrightarrow> lang (Star r) \<subseteq> lang (Star r')"
  "lang r \<subseteq> lang r' \<Longrightarrow> lang (Plus1 r) \<subseteq> lang (Plus1 r')"
  "lang r \<subseteq> lang r' \<Longrightarrow> lang s \<subseteq> lang s' \<Longrightarrow> lang (Times r s) \<subseteq> lang (Times r' s')"
  "lang r \<subseteq> lang r' \<Longrightarrow> lang s \<subseteq> lang s' \<Longrightarrow> lang (Plus r s) \<subseteq> lang (Plus r' s')"
  by (auto simp: lang_Plus1)

section \<open>Prefix-free languages\<close>

text \<open>No word is the beginning of another: after a word of such a language nothing can follow.\<close>

definition prefix_free :: "bytes set \<Rightarrow> bool" where
  "prefix_free L \<longleftrightarrow> (\<forall>u \<in> L. \<forall>v \<in> L. \<forall>x y. u @ x = v @ y \<longrightarrow> u = v)"

lemma prefix_freeD: "prefix_free L \<Longrightarrow> u \<in> L \<Longrightarrow> v \<in> L \<Longrightarrow> u @ x = v @ y \<Longrightarrow> u = v"
  unfolding prefix_free_def by blast

lemma prefix_free_subset: "prefix_free L \<Longrightarrow> M \<subseteq> L \<Longrightarrow> prefix_free M"
  by (simp add: prefix_free_def subset_iff)

lemma prefix_free_dead: "prefix_free L \<Longrightarrow> w \<in> L \<Longrightarrow> w @ c # v \<notin> L"
  using prefix_freeD [of L w "w @ c # v" "c # v" "[]"] by auto

lemma prefix_free_Un:
  assumes "prefix_free A" and "prefix_free B" and "\<And>u v. u \<in> A \<Longrightarrow> v \<in> B \<Longrightarrow> u \<noteq> [] \<and> v \<noteq> [] \<and> hd u \<noteq> hd v"
  shows "prefix_free (A \<union> B)"
proof -
  have "u @ x \<noteq> v @ y" if "u \<in> A" "v \<in> B" for u v x y
    using assms(3) [OF that] by (metis hd_append2)
  then have "u = v" if "u \<in> A \<union> B" "v \<in> A \<union> B" "u @ x = v @ y" for u v x y
    using that prefix_freeD [OF assms(1)] prefix_freeD [OF assms(2)] by (metis Un_iff)
  then show ?thesis unfolding prefix_free_def by blast
qed

lemma prefix_free_Cls: "prefix_free (lang (Cls rs))"
  by (auto simp: prefix_free_def)

lemma prefix_free_Lit: "prefix_free L \<Longrightarrow> prefix_free {s @ w |w. w \<in> L}"
proof -
  assume L: "prefix_free L"
  have "s @ u = s @ v" if "u \<in> L" "v \<in> L" "(s @ u) @ x = (s @ v) @ y" for u v x y
    using prefix_freeD [OF L, of u v x y] that by simp
  then show ?thesis unfolding prefix_free_def by blast
qed

lemma prefix_free_length: "(\<And>w. w \<in> L \<Longrightarrow> w \<noteq> [] \<and> length w = f (hd w)) \<Longrightarrow> prefix_free L"
  unfolding prefix_free_def by (metis append_eq_append_conv hd_append2)

text \<open>A sequence of words closed by a byte that begins none of them.\<close>

lemma prefix_free_closed:
  assumes "prefix_free L" and "\<And>w. w \<in> L \<Longrightarrow> w \<noteq> [] \<and> hd w \<noteq> q"
  shows "prefix_free {concat ws @ [q] |ws. set ws \<subseteq> L}"
proof -
  have "concat ws = concat vs" if "(concat ws @ [q]) @ x = (concat vs @ [q]) @ y" "set ws \<subseteq> L" "set vs \<subseteq> L" for ws vs x y
    using that
  proof (induction ws arbitrary: vs)
    case Nil
    then show ?case
    proof (cases vs)
      case (Cons v vs')
      with Nil assms(2) [of v] show ?thesis by (cases v) auto
    qed simp
  next
    case (Cons w ws)
    then show ?case
    proof (cases vs)
      case Nil
      with Cons.prems assms(2) [of w] show ?thesis by (cases w) auto
    next
      case (Cons v vs')
      with Cons.prems have "w @ (concat ws @ [q] @ x) = v @ (concat vs' @ [q] @ y)" "w \<in> L" "v \<in> L" by auto
      with assms(1) have "w = v" by (meson prefix_freeD)
      with Cons Cons.prems Cons.IH [of vs'] show ?thesis by simp
    qed
  qed
  then show ?thesis unfolding prefix_free_def by blast
qed

section \<open>Automata\<close>

text \<open>What the code uses of \<^verbatim>\<open>regex_automata::DFA\<close>.\<close>

record 'q dfa =
  start_state :: 'q
  next_state :: "'q \<Rightarrow> byte \<Rightarrow> 'q"
  is_match_state :: "'q \<Rightarrow> bool"
  is_dead_state :: "'q \<Rightarrow> bool"

definition dfa_run :: "'q dfa \<Rightarrow> bytes \<Rightarrow> 'q" where
  "dfa_run D w = foldl (next_state D) (start_state D) w"

text \<open>
  \<^verbatim>\<open>find_dfa\<close>: the loop keeps the last position at which a match state was seen and stops in a
  dead state.
\<close>

fun find_dfa_loop :: "'q dfa \<Rightarrow> 'q \<Rightarrow> nat option \<Rightarrow> nat \<Rightarrow> bytes \<Rightarrow> 'q + nat" where
  "find_dfa_loop D state last_match i [] = (case last_match of Some n \<Rightarrow> Inr n | None \<Rightarrow> Inl state)"
| "find_dfa_loop D state last_match i (b # buf) =
     (let state' = next_state D state b in
      if is_match_state D state' \<or> is_dead_state D state' then
        if is_dead_state D state' then (case last_match of Some n \<Rightarrow> Inr n | None \<Rightarrow> Inl state')
        else find_dfa_loop D state' (Some (i + 1)) (i + 1) buf
      else find_dfa_loop D state' last_match (i + 1) buf)"

definition find_dfa :: "'q dfa \<Rightarrow> bytes \<Rightarrow> 'q + nat" where
  "find_dfa D buf =
     (let state = start_state D in
      if is_dead_state D state then Inl state
      else find_dfa_loop D state (if is_match_state D state then Some 0 else None) 0 buf)"

definition apply_regex :: "'q dfa \<Rightarrow> bytes \<Rightarrow> bytes iresult" where
  "apply_regex D buf =
     (case find_dfa D buf of
        Inr e \<Rightarrow> Inr (drop e buf, take e buf)
      | Inl s \<Rightarrow> Inl (if is_dead_state D s then Nom_Error else Incomplete Needed_Unknown))"

locale automaton =
  fixes D :: "'q dfa" and r :: re
  assumes match_iff: "is_match_state D (dfa_run D w) \<longleftrightarrow> w \<in> lang r"
    and dead_iff: "is_dead_state D (dfa_run D w) \<longleftrightarrow> (\<forall>v. w @ v \<notin> lang r)"

text \<open>The automaton of derivatives.\<close>

definition deriv_dfa :: "re \<Rightarrow> re dfa" where
  "deriv_dfa r = \<lparr>start_state = r, next_state = (\<lambda>r c. deriv c r), is_match_state = nullable,
     is_dead_state = no_match\<rparr>"

interpretation deriv_dfa: automaton "deriv_dfa r" r
proof
  fix w
  have run: "dfa_run (deriv_dfa r) w = foldl (\<lambda>r c. deriv c r) r w" by (simp add: dfa_run_def deriv_dfa_def)
  show "is_match_state (deriv_dfa r) (dfa_run (deriv_dfa r) w) \<longleftrightarrow> w \<in> lang r"
    using deriv_run [of "[]" r w] unfolding run by (simp add: deriv_dfa_def nullable_iff)
  show "is_dead_state (deriv_dfa r) (dfa_run (deriv_dfa r) w) \<longleftrightarrow> (\<forall>v. w @ v \<notin> lang r)"
    using deriv_run [of _ r w] unfolding run by (auto simp: deriv_dfa_def no_match_iff)
qed

section \<open>The search finds the longest match\<close>

definition longest :: "re \<Rightarrow> bytes \<Rightarrow> nat \<Rightarrow> bool" where
  "longest r buf n \<longleftrightarrow> n \<le> length buf \<and> take n buf \<in> lang r \<and>
     (\<forall>k. n < k \<longrightarrow> k \<le> length buf \<longrightarrow> take k buf \<notin> lang r)"

lemma longest_unique: "longest r buf m \<Longrightarrow> longest r buf n \<Longrightarrow> m = n"
  unfolding longest_def by (meson linorder_neqE_nat)

definition search_ok :: "'q dfa \<Rightarrow> re \<Rightarrow> bytes \<Rightarrow> 'q + nat \<Rightarrow> bool" where
  "search_ok D r buf x \<longleftrightarrow>
     (case x of
        Inr n \<Rightarrow> longest r buf n
      | Inl q \<Rightarrow> (\<forall>k \<le> length buf. take k buf \<notin> lang r) \<and> (is_dead_state D q \<longleftrightarrow> (\<forall>v. buf @ v \<notin> lang r)))"

primrec alpha :: "re \<Rightarrow> byte \<Rightarrow> bool" where
  "alpha Zero c = False"
| "alpha One c = False"
| "alpha (Cls rs) c = in_class rs c"
| "alpha (Plus r s) c = (alpha r c \<or> alpha s c)"
| "alpha (Times r s) c = (alpha r c \<or> alpha s c)"
| "alpha (Star r) c = alpha r c"

lemma lang_alpha: "w \<in> lang r \<Longrightarrow> c \<in> set w \<Longrightarrow> alpha r c"
proof (induction r arbitrary: w)
  case (Star r)
  then obtain ws where "w = concat ws" "set ws \<subseteq> lang r" by auto
  with Star.prems(2) Star.IH show ?case by auto
qed (fastforce+)

lemma foreign_dead: "\<not> alpha r c \<Longrightarrow> w @ c # v \<notin> lang r"
  using lang_alpha [of "w @ c # v" r] by auto

context automaton
begin

lemma find_dfa_loop_spec:
  assumes "last_match = None \<longrightarrow> (\<forall>k \<le> length w. take k w \<notin> lang r)"
    "\<And>n. last_match = Some n \<Longrightarrow> longest r w n" "i = length w"
  shows "search_ok D r (w @ buf) (find_dfa_loop D (dfa_run D w) last_match i buf)"
  using assms
proof (induction buf arbitrary: w last_match i)
  case Nil
  then show ?case by (auto simp: search_ok_def dead_iff split: option.split)
next
  case (Cons b buf)
  let ?w = "w @ [b]"
  have run: "next_state D (dfa_run D w) b = dfa_run D ?w" by (simp add: dfa_run_def)
  have longer: "k \<le> length ?w \<Longrightarrow> take k ?w = (if k = length ?w then ?w else take k w)" for k by auto
  show ?case
  proof (cases "is_dead_state D (dfa_run D ?w)")
    case True
    then have dead: "w @ b # v \<notin> lang r" for v by (simp add: dead_iff)
    have none: "take k (w @ b # buf) \<notin> lang r" if "length w < k" for k
    proof -
      have "take k (w @ b # buf) = take k w @ take (k - length w) (b # buf)" by (rule take_append)
      also have "take k w = w" using that by simp
      also have "take (k - length w) (b # buf) = b # take (k - length w - 1) buf"
        using that by (cases "k - length w") simp_all
      finally show ?thesis using dead by (simp only: not_False_eq_True simp_thms)
    qed
    have "longest r (w @ b # buf) n" if n: "longest r w n" for n
    proof -
      have "take k (w @ b # buf) \<notin> lang r" if "n < k" for k
      proof (cases "length w < k")
        case False
        then have "take k (w @ b # buf) = take k w" by simp
        with n that False show ?thesis unfolding longest_def by (metis not_le)
      qed (rule none)
      moreover have "take n (w @ b # buf) = take n w" "n \<le> length (w @ b # buf)" using n by (simp_all add: longest_def)
      ultimately show ?thesis using n unfolding longest_def by metis
    qed
    moreover have "take k (w @ b # buf) \<notin> lang r" if "\<forall>k \<le> length w. take k w \<notin> lang r" for k
    proof (cases "length w < k")
      case False
      then have "take k (w @ b # buf) = take k w" by simp
      with that False show ?thesis by (metis not_le)
    qed (rule none)
    ultimately show ?thesis using True Cons.prems dead run by (auto simp: search_ok_def split: option.split)
  next
    case False
    have "search_ok D r (?w @ buf) (find_dfa_loop D (dfa_run D ?w) (if ?w \<in> lang r then Some (i + 1) else last_match) (i + 1) buf)"
    proof (rule Cons.IH)
      show "(if ?w \<in> lang r then Some (i + 1) else last_match) = None \<longrightarrow> (\<forall>k \<le> length ?w. take k ?w \<notin> lang r)"
        using Cons.prems longer by (auto split: if_splits simp del: take_append)
      show "longest r ?w n" if "(if ?w \<in> lang r then Some (i + 1) else last_match) = Some n" for n
      proof (cases "?w \<in> lang r")
        case True
        with that Cons.prems(3) show ?thesis by (simp add: longest_def)
      next
        case f: False
        with that Cons.prems(2) have "longest r w n" by simp
        with f longer show ?thesis unfolding longest_def
          by (auto simp del: take_append)
      qed
      show "i + 1 = length ?w" using Cons.prems(3) by simp
    qed
    then show ?thesis using False run by (simp add: match_iff Let_def cong: if_cong split: if_splits)
  qed
qed

lemma find_dfa_spec: "search_ok D r buf (find_dfa D buf)"
proof (cases "is_dead_state D (start_state D)")
  case True
  then have "v \<notin> lang r" for v using dead_iff [of "[]"] by (simp add: dfa_run_def)
  with True show ?thesis by (simp add: find_dfa_def search_ok_def)
next
  case False
  have "search_ok D r ([] @ buf)
      (find_dfa_loop D (dfa_run D []) (if is_match_state D (start_state D) then Some 0 else None) 0 buf)"
    using match_iff [of "[]"] by (intro find_dfa_loop_spec) (auto simp: dfa_run_def longest_def split: if_splits)
  with False show ?thesis by (simp add: find_dfa_def dfa_run_def Let_def)
qed

lemma apply_regex_Inr: "apply_regex D buf = Inr (rest, w) \<longleftrightarrow> buf = w @ rest \<and> longest r buf (length w)"
proof (cases "find_dfa D buf")
  case (Inl q)
  with find_dfa_spec [of buf] have "\<forall>k \<le> length buf. take k buf \<notin> lang r" by (simp add: search_ok_def)
  then have "\<not> longest r buf (length w)" unfolding longest_def by blast
  with Inl show ?thesis by (simp add: apply_regex_def)
next
  case (Inr n)
  with find_dfa_spec [of buf] have n: "longest r buf n" by (simp add: search_ok_def)
  then have le: "n \<le> length buf" by (simp add: longest_def)
  show ?thesis
  proof
    assume "apply_regex D buf = Inr (rest, w)"
    with Inr n le show "buf = w @ rest \<and> longest r buf (length w)" by (auto simp: apply_regex_def)
  next
    assume "buf = w @ rest \<and> longest r buf (length w)"
    with n longest_unique have "n = length w" "buf = w @ rest" by blast+
    with Inr show "apply_regex D buf = Inr (rest, w)" by (simp add: apply_regex_def)
  qed
qed

lemma apply_regex_Inl:
  "apply_regex D buf = Inl e \<longleftrightarrow> (\<forall>k \<le> length buf. take k buf \<notin> lang r) \<and>
     e = (if \<forall>v. buf @ v \<notin> lang r then Nom_Error else Incomplete Needed_Unknown)"
proof (cases "find_dfa D buf")
  case (Inl q)
  with find_dfa_spec [of buf] show ?thesis by (auto simp: apply_regex_def search_ok_def)
next
  case (Inr n)
  with find_dfa_spec [of buf] have "n \<le> length buf" "take n buf \<in> lang r" by (simp_all add: search_ok_def longest_def)
  then have "\<not> (\<forall>k \<le> length buf. take k buf \<notin> lang r)" by blast
  with Inr show ?thesis by (simp add: apply_regex_def)
qed

lemma apply_regex_lang: "apply_regex D buf = Inr (rest, w) \<Longrightarrow> buf = w @ rest \<and> w \<in> lang r"
  unfolding apply_regex_Inr longest_def by auto

text \<open>The match ends where no continuation can match.\<close>

lemma apply_regex_stop:
  assumes "w \<in> lang r" and "rest = c # rest'" and "\<And>v. w @ c # v \<notin> lang r"
  shows "apply_regex D (w @ rest) = Inr (rest, w)"
proof -
  have "take k (w @ c # rest') \<notin> lang r" if "length w < k" for k
  proof -
    have "take k (w @ c # rest') = take k w @ take (k - length w) (c # rest')" by (rule take_append)
    also have "take k w = w" using that by simp
    also have "take (k - length w) (c # rest') = c # take (k - length w - 1) rest'"
      using that by (cases "k - length w") simp_all
    finally show ?thesis using assms(3) by (simp only: not_False_eq_True simp_thms)
  qed
  with assms show ?thesis unfolding apply_regex_Inr longest_def by simp
qed

text \<open>In particular when all words have one length,\<close>

lemma apply_regex_fixed:
  assumes "w \<in> lang r" and "\<And>u. u \<in> lang r \<Longrightarrow> length u = length w"
  shows "apply_regex D (w @ rest) = Inr (rest, w)"
proof -
  have "take k (w @ rest) \<notin> lang r" if "length w < k" "k \<le> length (w @ rest)" for k
    using that assms(2) [of "take k (w @ rest)"] by auto
  with assms(1) show ?thesis unfolding apply_regex_Inr longest_def by simp
qed

text \<open>and before a byte that occurs in no class of the expression.\<close>

lemma apply_regex_foreign:
  assumes "w \<in> lang r" and "\<not> alpha r c"
  shows "apply_regex D (w @ c # rest) = Inr (c # rest, w)"
  by (rule apply_regex_stop [OF assms(1) refl foreign_dead [OF assms(2)]])

text \<open>
  When nothing that goes on with \<open>c\<close> matches, the search does not run out of input at \<open>c\<close>; and if
  the whole text in front of it does not match, what is left begins with a byte of that text.
\<close>

lemma apply_regex_decided:
  assumes "\<And>v. s @ c # v \<notin> lang r" and "apply_regex D (s @ c # rest) = Inl e"
  shows "e = Nom_Error"
  using assms unfolding apply_regex_Inl by simp

lemma apply_regex_inside:
  assumes "\<And>v. s @ c # v \<notin> lang r" and "s \<notin> lang r" and "apply_regex D (s @ c # rest) = Inr (rest', w)"
  obtains b u where "rest' = b # u @ c # rest" and "s = w @ b # u"
proof -
  from assms(3) have w: "s @ c # rest = w @ rest'" "w \<in> lang r" using apply_regex_lang by blast+
  then have "\<nexists>v. w = s @ c # v" using assms(1) by blast
  with w(1) obtain u where u: "s = w @ u" "rest' = u @ c # rest"
    by (auto simp: append_eq_append_conv2 append_eq_Cons_conv Cons_eq_append_conv)
  with w(2) assms(2) obtain b u' where "u = b # u'" by (cases u) auto
  with u show ?thesis by (intro that) auto
qed

end

text \<open>
  Any two automata of an expression give the same search results, so the search on a parameter
  automaton can be evaluated on derivatives.
\<close>

lemma apply_regex_deriv:
  assumes "automaton D r"
  shows "apply_regex D buf = apply_regex (deriv_dfa r) buf"
proof (cases "apply_regex (deriv_dfa r) buf")
  case (Inl e)
  then show ?thesis
    using automaton.apply_regex_Inl [OF assms] deriv_dfa.apply_regex_Inl by metis
next
  case (Inr p)
  then show ?thesis
    using automaton.apply_regex_Inr [OF assms] deriv_dfa.apply_regex_Inr by (cases p) metis
qed

end
