(* ===== verification/Nom.thy ===== *)
theory Nom
  imports Commands Replies Regex
begin

text \<open>
  The parser combinators of the \<^verbatim>\<open>nom\<close> crate (version 7.1, streaming variants) that the grammar of
  \<^verbatim>\<open>smtp-message\<close> is written with. The crate is not part of the repository: its combinators are
  the fields of the record \<open>nom\<close>, a parameter of every parser, and the locale \<open>nom_laws\<close> states
  their documented behaviour. An implementation of the record for which the laws hold is given,
  so that the parsers can be run.

  HOL has no polymorphic record fields, so the values parsers produce are one datatype \<open>pv\<close>.
\<close>

section \<open>Values and parsers\<close>

datatype pv =
    PUnit
  | PBytes bytes
  | PChar byte
  | PNat nat
  | PBool bool
  | PNone
  | PSome pv
  | PPair pv pv
  | PList "pv list"
  | PHostname "bytes Hostname"
  | PLocalpart "bytes Localpart"
  | PEmail "bytes Email"
  | PPath "bytes Path"
  | PName "bytes ParameterName"
  | PParameters "bytes Parameters"
  | PText "bytes MaybeUtf8"
  | PCommand "bytes Command"
  | PCode ReplyCode
  | PECode "bytes EnhancedReplyCode"
  | PLine "bytes ReplyLine"
  | PReply "bytes Reply"
  | PPanic

type_synonym parser = "bytes \<Rightarrow> pv iresult"

fun ires_bind :: "'a iresult \<Rightarrow> (bytes \<Rightarrow> 'a \<Rightarrow> 'b iresult) \<Rightarrow> 'b iresult" where
  "ires_bind (Inl e) k = Inl e"
| "ires_bind (Inr (i, v)) k = k i v"

definition ires_map :: "('a \<Rightarrow> 'b) \<Rightarrow> 'a iresult \<Rightarrow> 'b iresult" where
  "ires_map f r = ires_bind r (\<lambda>i v. Inr (i, f v))"

lemma ires_map_simps [simp]:
  "ires_map f (Inl e) = Inl e"
  "ires_map f (Inr (i, v)) = Inr (i, f v)"
  by (simp_all add: ires_map_def)

lemma ires_bind_Inr: "ires_bind r k = Inr x \<longleftrightarrow> (\<exists>i v. r = Inr (i, v) \<and> k i v = Inr x)"
  by (cases "(r, k)" rule: ires_bind.cases) auto

lemma ires_map_Inr: "ires_map f r = Inr (i, w) \<longleftrightarrow> (\<exists>v. r = Inr (i, v) \<and> w = f v)"
  by (auto simp: ires_map_def ires_bind_Inr)

text \<open>Another attempt when a parser rejects the input.\<close>

definition or_else :: "'a iresult \<Rightarrow> (unit \<Rightarrow> 'a iresult) \<Rightarrow> 'a iresult" where
  "or_else r k = (if r = Inl Nom_Error then k () else r)"

lemma or_else_simps [simp]:
  "or_else (Inl Nom_Error) k = k ()"
  "or_else (Inr x) k = Inr x"
  "or_else (Inl (Incomplete n)) k = Inl (Incomplete n)"
  "or_else (Inl Nom_Failure) k = Inl Nom_Failure"
  by (simp_all add: or_else_def)

text \<open>The value a parser of this crate hands to its caller.\<close>

definition ires_extract :: "(pv \<Rightarrow> 'a option) \<Rightarrow> pv iresult \<Rightarrow> 'a iresult" where
  "ires_extract f r = ires_bind r (\<lambda>i v. case f v of Some a \<Rightarrow> Inr (i, a) | None \<Rightarrow> Inl Nom_Failure)"

section \<open>The combinators\<close>

record nom =
  nom_alt :: "parser list \<Rightarrow> parser"
  nom_map :: "parser \<Rightarrow> (pv \<Rightarrow> pv) \<Rightarrow> parser"
  nom_map_opt :: "parser \<Rightarrow> (pv \<Rightarrow> pv option) \<Rightarrow> parser"
  nom_map_res :: "parser \<Rightarrow> (pv \<Rightarrow> pv option) \<Rightarrow> parser"
  nom_opt :: "parser \<Rightarrow> parser"
  nom_peek :: "parser \<Rightarrow> parser"
  nom_value :: "pv \<Rightarrow> parser \<Rightarrow> parser"
  nom_verify :: "parser \<Rightarrow> (pv \<Rightarrow> bool) \<Rightarrow> parser"
  nom_tag :: "bytes \<Rightarrow> parser"
  nom_tag_no_case :: "bytes \<Rightarrow> parser"
  nom_take :: "nat \<Rightarrow> parser"
  nom_take_until :: "bytes \<Rightarrow> parser"
  nom_is_a :: "bytes \<Rightarrow> parser"
  nom_one_of :: "bytes \<Rightarrow> parser"
  nom_many0 :: "parser \<Rightarrow> parser"
  nom_many1_count :: "parser \<Rightarrow> parser"
  nom_separated_list1 :: "parser \<Rightarrow> parser \<Rightarrow> parser"
  nom_pair :: "parser \<Rightarrow> parser \<Rightarrow> parser"
  nom_preceded :: "parser \<Rightarrow> parser \<Rightarrow> parser"
  nom_terminated :: "parser \<Rightarrow> parser \<Rightarrow> parser"
  nom_tuple :: "parser list \<Rightarrow> parser"

text \<open>
  Comparison of the input with an expected text, under an equivalence of bytes: the text is there,
  or the input ends inside it, or a byte differs.
\<close>

definition compare_tag :: "(byte \<Rightarrow> byte \<Rightarrow> bool) \<Rightarrow> bytes \<Rightarrow> bytes \<Rightarrow> pv iresult" where
  "compare_tag eq t i =
     (if \<not> list_all (\<lambda>(a, b). eq a b) (zip i t) then Inl Nom_Error
      else if length t \<le> length i then Inr (drop (length t) i, PBytes (take (length t) i))
      else Inl (Incomplete (Needed_Size (length t - length i))))"

definition lower :: "byte \<Rightarrow> byte" where
  "lower c = (if 65 \<le> (of_char c :: nat) \<and> (of_char c :: nat) \<le> 90 then char_of ((of_char c :: nat) + 32) else c)"

definition same_letter :: "byte \<Rightarrow> byte \<Rightarrow> bool" where
  "same_letter a b \<longleftrightarrow> lower a = lower b"

text \<open>Values in front of the list of values the rest of a sequence gives, and counting.\<close>

definition push_value :: "pv \<Rightarrow> pv \<Rightarrow> pv" where
  "push_value v l = (case l of PList vs \<Rightarrow> PList (v # vs) | _ \<Rightarrow> PUnit)"

definition count_value :: "pv \<Rightarrow> pv" where
  "count_value n = (case n of PNat k \<Rightarrow> PNat (Suc k) | _ \<Rightarrow> PUnit)"

lemma push_count_value [simp]:
  "push_value v (PList vs) = PList (v # vs)"
  "count_value (PNat k) = PNat (Suc k)"
  by (simp_all add: push_value_def count_value_def)

text \<open>A parser that gives back a suffix of its input, and one that takes at least a byte.\<close>

named_theorems consumption \<open>parsers give back a suffix of their input\<close>

definition consumes :: "parser \<Rightarrow> bool" where
  "consumes p \<longleftrightarrow> (\<forall>i r v. p i = Inr (r, v) \<longrightarrow> suffix r i)"

definition eats :: "parser \<Rightarrow> bool" where
  "eats p \<longleftrightarrow> (\<forall>i r v. p i = Inr (r, v) \<longrightarrow> strict_suffix r i)"

lemma consumesI: "(\<And>i r v. p i = Inr (r, v) \<Longrightarrow> suffix r i) \<Longrightarrow> consumes p"
  by (simp add: consumes_def)

lemma consumesD: "consumes p \<Longrightarrow> p i = Inr (r, v) \<Longrightarrow> suffix r i"
  unfolding consumes_def by blast

lemma eatsI: "(\<And>i r v. p i = Inr (r, v) \<Longrightarrow> strict_suffix r i) \<Longrightarrow> eats p"
  by (simp add: eats_def)

lemma eatsD: "eats p \<Longrightarrow> p i = Inr (r, v) \<Longrightarrow> strict_suffix r i"
  unfolding eats_def by blast

lemma eats_consumes: "eats p \<Longrightarrow> consumes p"
  by (rule consumesI) (auto dest: eatsD simp: strict_suffix_def)

lemmas suffix_chain = suffix_order.trans suffix_order.less_trans suffix_order.le_less_trans suffix_order.less_le_trans

lemma seq_consumes: "consumes p \<Longrightarrow> consumes q \<Longrightarrow> p i = Inr (a, x) \<Longrightarrow> q a = Inr (r, y) \<Longrightarrow> suffix r i"
  by (meson consumesD suffix_order.trans)

lemma seq_eats: "eats p \<Longrightarrow> consumes q \<Longrightarrow> p i = Inr (a, x) \<Longrightarrow> q a = Inr (r, y) \<Longrightarrow> strict_suffix r i"
  by (meson consumesD eatsD suffix_order.le_less_trans)

lemma seq_eats_second: "consumes p \<Longrightarrow> eats q \<Longrightarrow> p i = Inr (a, x) \<Longrightarrow> q a = Inr (r, y) \<Longrightarrow> strict_suffix r i"
  by (meson consumesD eatsD suffix_order.less_le_trans)

lemma strict_suffix_drop: "n \<noteq> 0 \<Longrightarrow> n \<le> length xs \<Longrightarrow> strict_suffix (drop n xs) xs"
  by (auto simp: strict_suffix_def suffix_drop dest: arg_cong [of _ _ length])

locale nom_laws =
  fixes N :: nom
  assumes alt_single: "nom_alt N [p] i = p i"
    and alt_more: "nom_alt N (p # q # ps) i = or_else (p i) (\<lambda>_. nom_alt N (q # ps) i)"
    and map_law: "nom_map N p f i = ires_map f (p i)"
    and map_opt_law: "nom_map_opt N p g i =
      ires_bind (p i) (\<lambda>r v. case g v of Some w \<Rightarrow> Inr (r, w) | None \<Rightarrow> Inl Nom_Error)"
    and map_res_law: "nom_map_res N p g i =
      ires_bind (p i) (\<lambda>r v. case g v of Some w \<Rightarrow> Inr (r, w) | None \<Rightarrow> Inl Nom_Error)"
    and opt_law: "nom_opt N p i = or_else (ires_map PSome (p i)) (\<lambda>_. Inr (i, PNone))"
    and peek_law: "nom_peek N p i = ires_bind (p i) (\<lambda>r v. Inr (i, v))"
    and value_law: "nom_value N w p i = ires_map (\<lambda>v. w) (p i)"
    and verify_law: "nom_verify N p P i = ires_bind (p i) (\<lambda>r v. if P v then Inr (r, v) else Inl Nom_Error)"
    and tag_law: "nom_tag N t i = compare_tag (=) t i"
    and tag_no_case_law: "nom_tag_no_case N t i = compare_tag same_letter t i"
    and take_law: "nom_take N n i =
      (if n \<le> length i then Inr (drop n i, PBytes (take n i)) else Inl (Incomplete (Needed_Size (n - length i))))"
    and take_until_law: "nom_take_until N t i =
      (case find_window t i of Some n \<Rightarrow> Inr (drop n i, PBytes (take n i)) | None \<Rightarrow> Inl (Incomplete Needed_Unknown))"
    and is_a_law: "nom_is_a N cs i =
      (if dropWhile (\<lambda>c. c \<in> set cs) i = [] then Inl (Incomplete (Needed_Size 1))
       else if takeWhile (\<lambda>c. c \<in> set cs) i = [] then Inl Nom_Error
       else Inr (dropWhile (\<lambda>c. c \<in> set cs) i, PBytes (takeWhile (\<lambda>c. c \<in> set cs) i)))"
    and one_of_law: "nom_one_of N cs i =
      (case i of [] \<Rightarrow> Inl (Incomplete (Needed_Size 1)) | c # r \<Rightarrow> if c \<in> set cs then Inr (r, PChar c) else Inl Nom_Error)"
    and many0_stop: "p i = Inl Nom_Error \<Longrightarrow> nom_many0 N p i = Inr (i, PList [])"
    and many0_fail: "p i = Inl e \<Longrightarrow> e \<noteq> Nom_Error \<Longrightarrow> nom_many0 N p i = Inl e"
    and many0_stuck: "p i = Inr (r, v) \<Longrightarrow> length r = length i \<Longrightarrow> nom_many0 N p i = Inl Nom_Error"
    and many0_step: "p i = Inr (r, v) \<Longrightarrow> length r < length i \<Longrightarrow>
      nom_many0 N p i = ires_map (push_value v) (nom_many0 N p r)"
    and many1_count_fail: "p i = Inl e \<Longrightarrow> nom_many1_count N p i = Inl e"
    and many1_count_one: "p i = Inr (r, v) \<Longrightarrow> p r = Inl Nom_Error \<Longrightarrow> nom_many1_count N p i = Inr (r, PNat 1)"
    and many1_count_step: "p i = Inr (r, v) \<Longrightarrow> length r < length i \<Longrightarrow> p r = Inr (r', v') \<Longrightarrow> length r' < length r \<Longrightarrow>
      nom_many1_count N p i = ires_map count_value (nom_many1_count N p r)"
    and many1_count_stuck: "p i = Inr (r, v) \<Longrightarrow> p r = Inr (r', v') \<Longrightarrow> length r' = length r \<Longrightarrow>
      nom_many1_count N p i = Inl Nom_Error"
    and many1_count_later: "p i = Inr (r, v) \<Longrightarrow> p r = Inl e \<Longrightarrow> e \<noteq> Nom_Error \<Longrightarrow> nom_many1_count N p i = Inl e"
    and separated_list1_fail: "p i = Inl e \<Longrightarrow> nom_separated_list1 N sep p i = Inl e"
    and separated_list1_end: "p i = Inr (r, v) \<Longrightarrow> sep r = Inl Nom_Error \<Longrightarrow>
      nom_separated_list1 N sep p i = Inr (r, PList [v])"
    and separated_list1_sep: "p i = Inr (r, v) \<Longrightarrow> sep r = Inl e \<Longrightarrow> e \<noteq> Nom_Error \<Longrightarrow>
      nom_separated_list1 N sep p i = Inl e"
    and separated_list1_stuck: "p i = Inr (r, v) \<Longrightarrow> sep r = Inr (r', v') \<Longrightarrow> length r' = length r \<Longrightarrow>
      nom_separated_list1 N sep p i = Inl Nom_Error"
    and separated_list1_last: "p i = Inr (r, v) \<Longrightarrow> length r \<le> length i \<Longrightarrow> sep r = Inr (r', v') \<Longrightarrow> length r' < length r \<Longrightarrow>
      p r' = Inl Nom_Error \<Longrightarrow> nom_separated_list1 N sep p i = Inr (r, PList [v])"
    and separated_list1_step: "p i = Inr (r, v) \<Longrightarrow> length r \<le> length i \<Longrightarrow> sep r = Inr (r', v') \<Longrightarrow> length r' < length r \<Longrightarrow>
      p r' \<noteq> Inl Nom_Error \<Longrightarrow> nom_separated_list1 N sep p i =
        ires_map (push_value v) (nom_separated_list1 N sep p r')"
    and pair_law: "nom_pair N p q i = ires_bind (p i) (\<lambda>r a. ires_map (PPair a) (q r))"
    and preceded_law: "nom_preceded N p q i = ires_bind (p i) (\<lambda>r a. q r)"
    and terminated_law: "nom_terminated N p q i = ires_bind (p i) (\<lambda>r a. ires_map (\<lambda>b. a) (q r))"
    and tuple_Nil: "nom_tuple N [] i = Inr (i, PList [])"
    and tuple_Cons: "nom_tuple N (p # ps) i =
      ires_bind (p i) (\<lambda>r a. ires_map (push_value a) (nom_tuple N ps r))"
begin

lemmas [simp] = alt_single alt_more map_law map_opt_law map_res_law opt_law peek_law value_law verify_law
  tag_law tag_no_case_law take_law take_until_law is_a_law one_of_law pair_law preceded_law terminated_law
  tuple_Nil tuple_Cons

lemma consumes_tag [consumption]: "consumes (nom_tag N t)" "consumes (nom_tag_no_case N t)"
  by (auto simp: consumes_def compare_tag_def suffix_drop split: if_splits)

lemma eats_tag [consumption]: "t \<noteq> [] \<Longrightarrow> eats (nom_tag N t)" "t \<noteq> [] \<Longrightarrow> eats (nom_tag_no_case N t)"
  by (auto intro!: eatsI strict_suffix_drop simp: compare_tag_def split: if_splits)

lemma consumes_take [consumption]: "consumes (nom_take N n)" "consumes (nom_take_until N t)"
  by (auto simp: consumes_def suffix_drop split: if_splits option.splits)

lemma eats_one_of [consumption]: "eats (nom_one_of N cs)"
  by (auto simp: eats_def strict_suffix_def suffix_def split: list.splits if_splits)

lemma eats_is_a [consumption]: "eats (nom_is_a N cs)"
proof -
  have "strict_suffix (dropWhile P i) i" if "takeWhile P i \<noteq> []" for P and i :: bytes
    using that by (auto simp: strict_suffix_def suffix_dropWhile) (metis append_self_conv2 takeWhile_dropWhile_id)
  then show ?thesis by (auto simp: eats_def split: if_splits)
qed

lemma consumes_map [consumption]:
  "consumes p \<Longrightarrow> consumes (nom_map N p f)"
  "consumes p \<Longrightarrow> consumes (nom_map_opt N p g)"
  "consumes p \<Longrightarrow> consumes (nom_map_res N p g)"
  "consumes p \<Longrightarrow> consumes (nom_value N w p)"
  "consumes p \<Longrightarrow> consumes (nom_verify N p P)"
  by (auto simp: consumes_def ires_map_Inr ires_bind_Inr split: option.splits if_splits)

lemma eats_map [consumption]:
  "eats p \<Longrightarrow> eats (nom_map N p f)"
  "eats p \<Longrightarrow> eats (nom_map_opt N p g)"
  "eats p \<Longrightarrow> eats (nom_map_res N p g)"
  "eats p \<Longrightarrow> eats (nom_value N w p)"
  "eats p \<Longrightarrow> eats (nom_verify N p P)"
  by (auto simp: eats_def ires_map_Inr ires_bind_Inr split: option.splits if_splits)

lemma consumes_opt [consumption]: "consumes p \<Longrightarrow> consumes (nom_opt N p)"
  by (auto simp: consumes_def or_else_def ires_map_Inr split: if_splits)

lemma consumes_peek [consumption]: "consumes (nom_peek N p)"
  by (auto simp: consumes_def ires_bind_Inr)

lemma consumes_pair [consumption]:
  assumes "consumes p" and "consumes q"
  shows "consumes (nom_pair N p q)" "consumes (nom_preceded N p q)" "consumes (nom_terminated N p q)"
  by (auto intro!: consumesI simp: ires_bind_Inr ires_map_Inr intro: seq_consumes [OF assms])

lemma eats_pair [consumption]:
  assumes "eats p" and "consumes q"
  shows "eats (nom_pair N p q)" "eats (nom_preceded N p q)" "eats (nom_terminated N p q)"
  by (auto intro!: eatsI simp: ires_bind_Inr ires_map_Inr intro: seq_eats [OF assms])

lemma eats_preceded [consumption]:
  assumes "consumes p" and "eats q"
  shows "eats (nom_preceded N p q)"
  by (auto intro!: eatsI simp: ires_bind_Inr intro: seq_eats_second [OF assms])

lemma consumes_tuple_Nil [consumption]: "consumes (nom_tuple N [])"
  by (auto simp: consumes_def)

lemma consumes_tuple [consumption]:
  assumes "consumes p" and "consumes (nom_tuple N ps)"
  shows "consumes (nom_tuple N (p # ps))"
  by (auto intro!: consumesI simp: ires_bind_Inr ires_map_Inr intro: seq_consumes [OF assms])

lemma eats_tuple [consumption]:
  assumes "eats p" and "consumes (nom_tuple N ps)"
  shows "eats (nom_tuple N (p # ps))"
  by (auto intro!: eatsI simp: ires_bind_Inr ires_map_Inr intro: seq_eats [OF assms])

lemma consumes_alt [consumption]: "consumes p \<Longrightarrow> consumes (nom_alt N [p])"
  "consumes p \<Longrightarrow> consumes (nom_alt N (q # ps)) \<Longrightarrow> consumes (nom_alt N (p # q # ps))"
  by (auto simp: consumes_def or_else_def split: if_splits)

lemma eats_alt [consumption]: "eats p \<Longrightarrow> eats (nom_alt N [p])"
  "eats p \<Longrightarrow> eats (nom_alt N (q # ps)) \<Longrightarrow> eats (nom_alt N (p # q # ps))"
  by (auto simp: eats_def or_else_def split: if_splits)

lemma consumes_many0 [consumption]: "consumes p \<Longrightarrow> consumes (nom_many0 N p)"
proof -
  assume p: "consumes p"
  have "nom_many0 N p i = Inr (r, v) \<Longrightarrow> suffix r i" for i r v
  proof (induction i arbitrary: r v rule: length_induct)
    case (1 i)
    show ?case
    proof (cases "p i")
      case (Inl e)
      with 1 show ?thesis using many0_stop many0_fail by (cases "e = Nom_Error") fastforce+
    next
      case (Inr x)
      then obtain r1 v1 where x: "p i = Inr (r1, v1)" by (cases x) auto
      with p have s: "suffix r1 i" by (rule consumesD)
      show ?thesis
      proof (cases "length r1 = length i")
        case True
        with 1 x many0_stuck show ?thesis by fastforce
      next
        case False
        with s have "length r1 < length i" by (meson le_neq_implies_less suffix_length_le)
        with 1 x s many0_step [where p = p and i = i and r = r1 and v = v1] show ?thesis by (auto simp: ires_map_Inr intro: suffix_chain)
      qed
    qed
  qed
  then show ?thesis by (rule consumesI)
qed

lemma eats_many1_count [consumption]: "eats p \<Longrightarrow> eats (nom_many1_count N p)"
proof -
  assume p: "eats p"
  have "nom_many1_count N p i = Inr (r, v) \<Longrightarrow> strict_suffix r i" for i r v
  proof (induction i arbitrary: r v rule: length_induct)
    case (1 i)
    then obtain r1 v1 where x: "p i = Inr (r1, v1)" using many1_count_fail by (cases "p i") fastforce+
    with p have s: "strict_suffix r1 i" by (rule eatsD)
    then have len: "length r1 < length i" by (rule suffix_length_less)
    show ?case
    proof (cases "p r1")
      case (Inl e)
      with 1 x s show ?thesis using many1_count_one many1_count_later by (cases "e = Nom_Error") fastforce+
    next
      case (Inr y)
      then obtain r2 v2 where y: "p r1 = Inr (r2, v2)" by (cases y) auto
      with p have "length r2 < length r1" using eatsD suffix_length_less by blast
      with 1 many1_count_step [where p = p and i = i and r = r1 and v = v1, OF x len y] len s show ?thesis
        by (auto simp: ires_map_Inr intro: suffix_chain)
    qed
  qed
  then show ?thesis by (rule eatsI)
qed

lemma eats_separated_list1 [consumption]: "eats p \<Longrightarrow> eats sep \<Longrightarrow> eats (nom_separated_list1 N sep p)"
proof -
  assume p: "eats p" and sep: "eats sep"
  have "nom_separated_list1 N sep p i = Inr (r, v) \<Longrightarrow> strict_suffix r i" for i r v
  proof (induction i arbitrary: r v rule: length_induct)
    case (1 i)
    then obtain r1 v1 where x: "p i = Inr (r1, v1)" using separated_list1_fail by (cases "p i") fastforce+
    with p have s: "strict_suffix r1 i" by (rule eatsD)
    then have len: "length r1 \<le> length i" using suffix_length_less by fastforce
    show ?case
    proof (cases "sep r1")
      case (Inl e)
      with 1 x s show ?thesis using separated_list1_end separated_list1_sep by (cases "e = Nom_Error") fastforce+
    next
      case (Inr y)
      then obtain r2 v2 where y: "sep r1 = Inr (r2, v2)" by (cases y) auto
      with sep have s2: "strict_suffix r2 r1" by (rule eatsD)
      then have len2: "length r2 < length r1" by (rule suffix_length_less)
      show ?thesis
      proof (cases "p r2 = Inl Nom_Error")
        case True
        with 1 s separated_list1_last [where p = p and i = i and r = r1 and v = v1 and sep = sep, OF x len y len2] show ?thesis by auto
      next
        case False
        with 1 obtain w where "nom_separated_list1 N sep p r2 = Inr (r, w)"
          by (auto simp: separated_list1_step [where p = p and i = i and r = r1 and v = v1 and sep = sep, OF x len y len2 False] ires_map_Inr)
        with 1 len len2 have "strict_suffix r r2" by auto
        with s s2 show ?thesis by (meson suffix_order.less_trans)
      qed
    qed
  qed
  then show ?thesis by (rule eatsI)
qed

end

section \<open>An implementation\<close>

fun ref_alt :: "parser list \<Rightarrow> parser" where
  "ref_alt [] i = Inl Nom_Error"
| "ref_alt [p] i = p i"
| "ref_alt (p # q # ps) i = or_else (p i) (\<lambda>_. ref_alt (q # ps) i)"

fun ref_tuple :: "parser list \<Rightarrow> parser" where
  "ref_tuple [] i = Inr (i, PList [])"
| "ref_tuple (p # ps) i = ires_bind (p i) (\<lambda>r a. ires_map (push_value a) (ref_tuple ps r))"

fun ref_many0 :: "parser \<Rightarrow> parser" where
  "ref_many0 p i =
     (case p i of
        Inl e \<Rightarrow> if e = Nom_Error then Inr (i, PList []) else Inl e
      | Inr (r, v) \<Rightarrow> if length r < length i then ires_map (push_value v) (ref_many0 p r) else Inl Nom_Error)"

fun ref_many1_count :: "parser \<Rightarrow> parser" where
  "ref_many1_count p i =
     (case p i of
        Inl e \<Rightarrow> Inl e
      | Inr (r, v) \<Rightarrow>
          (case p r of
             Inl e \<Rightarrow> if e = Nom_Error then Inr (r, PNat 1) else Inl e
           | Inr (r', v') \<Rightarrow>
               if length r < length i \<and> length r' < length r then
                 ires_map count_value (ref_many1_count p r)
               else Inl Nom_Error))"

fun ref_separated_list1 :: "parser \<Rightarrow> parser \<Rightarrow> parser" where
  "ref_separated_list1 sep p i =
     (case p i of
        Inl e \<Rightarrow> Inl e
      | Inr (r, v) \<Rightarrow>
          (case sep r of
             Inl e \<Rightarrow> if e = Nom_Error then Inr (r, PList [v]) else Inl e
           | Inr (r', v') \<Rightarrow>
               if length r' < length r \<and> length r \<le> length i then
                 if p r' = Inl Nom_Error then Inr (r, PList [v])
                 else ires_map (push_value v) (ref_separated_list1 sep p r')
               else Inl Nom_Error))"

declare ref_many0.simps [simp del] ref_many1_count.simps [simp del] ref_separated_list1.simps [simp del]

definition nom_ref :: nom where
  "nom_ref =
     \<lparr>nom_alt = ref_alt,
      nom_map = (\<lambda>p f i. ires_map f (p i)),
      nom_map_opt = (\<lambda>p g i. ires_bind (p i) (\<lambda>r v. case g v of Some w \<Rightarrow> Inr (r, w) | None \<Rightarrow> Inl Nom_Error)),
      nom_map_res = (\<lambda>p g i. ires_bind (p i) (\<lambda>r v. case g v of Some w \<Rightarrow> Inr (r, w) | None \<Rightarrow> Inl Nom_Error)),
      nom_opt = (\<lambda>p i. or_else (ires_map PSome (p i)) (\<lambda>_. Inr (i, PNone))),
      nom_peek = (\<lambda>p i. ires_bind (p i) (\<lambda>r v. Inr (i, v))),
      nom_value = (\<lambda>w p i. ires_map (\<lambda>v. w) (p i)),
      nom_verify = (\<lambda>p P i. ires_bind (p i) (\<lambda>r v. if P v then Inr (r, v) else Inl Nom_Error)),
      nom_tag = compare_tag (=),
      nom_tag_no_case = compare_tag same_letter,
      nom_take = (\<lambda>n i. if n \<le> length i then Inr (drop n i, PBytes (take n i))
                  else Inl (Incomplete (Needed_Size (n - length i)))),
      nom_take_until = (\<lambda>t i. case find_window t i of
          Some n \<Rightarrow> Inr (drop n i, PBytes (take n i)) | None \<Rightarrow> Inl (Incomplete Needed_Unknown)),
      nom_is_a = (\<lambda>cs i.
        if dropWhile (\<lambda>c. c \<in> set cs) i = [] then Inl (Incomplete (Needed_Size 1))
        else if takeWhile (\<lambda>c. c \<in> set cs) i = [] then Inl Nom_Error
        else Inr (dropWhile (\<lambda>c. c \<in> set cs) i, PBytes (takeWhile (\<lambda>c. c \<in> set cs) i))),
      nom_one_of = (\<lambda>cs i. case i of [] \<Rightarrow> Inl (Incomplete (Needed_Size 1))
        | c # r \<Rightarrow> if c \<in> set cs then Inr (r, PChar c) else Inl Nom_Error),
      nom_many0 = ref_many0,
      nom_many1_count = ref_many1_count,
      nom_separated_list1 = ref_separated_list1,
      nom_pair = (\<lambda>p q i. ires_bind (p i) (\<lambda>r a. ires_map (PPair a) (q r))),
      nom_preceded = (\<lambda>p q i. ires_bind (p i) (\<lambda>r a. q r)),
      nom_terminated = (\<lambda>p q i. ires_bind (p i) (\<lambda>r a. ires_map (\<lambda>b. a) (q r))),
      nom_tuple = ref_tuple\<rparr>"

interpretation nom_ref: nom_laws nom_ref
  by unfold_locales (auto simp: nom_ref_def ref_many0.simps ref_many1_count.simps
      ref_separated_list1.simps split: list.split)

end
