(* ===== verification/StdParse.thy ===== *)
theory StdParse
  imports Message Regex
begin

text \<open>
  What the grammar uses of the Rust standard library: \<^verbatim>\<open>FromStr\<close> of \<^verbatim>\<open>Ipv4Addr\<close>, \<^verbatim>\<open>Ipv6Addr\<close>
  and \<^verbatim>\<open>u16\<close>, and \<^verbatim>\<open>str::from_utf8\<close>. The address readers follow the library's own: a reader takes
  a prefix of the text or leaves it untouched, and an address is valid when nothing is left over.
\<close>

section \<open>Numbers and separators\<close>

definition to_digit :: "nat \<Rightarrow> byte \<Rightarrow> nat option" where
  "to_digit radix c =
     (let n = of_char c :: nat;
          d = (if 48 \<le> n \<and> n \<le> 57 then n - 48
               else if 97 \<le> n \<and> n \<le> 122 then n - 87
               else if 65 \<le> n \<and> n \<le> 90 then n - 55 else radix)
      in if d < radix then Some d else None)"

fun read_digits :: "nat \<Rightarrow> bytes \<Rightarrow> nat list \<times> bytes" where
  "read_digits radix [] = ([], [])"
| "read_digits radix (c # cs) =
     (case to_digit radix c of
        Some d \<Rightarrow> (case read_digits radix cs of (ds, r) \<Rightarrow> (d # ds, r))
      | None \<Rightarrow> ([], c # cs))"

definition digits_value :: "nat \<Rightarrow> nat list \<Rightarrow> nat" where
  "digits_value radix ds = foldl (\<lambda>n d. n * radix + d) 0 ds"

definition read_number :: "nat \<Rightarrow> nat \<Rightarrow> bool \<Rightarrow> nat \<Rightarrow> bytes \<Rightarrow> (nat \<times> bytes) option" where
  "read_number radix max_digits allow_zero_prefix limit s =
     (case read_digits radix s of
        (ds, r) \<Rightarrow>
          if ds = [] \<or> max_digits < length ds \<or> (\<not> allow_zero_prefix \<and> hd ds = 0 \<and> 1 < length ds)
             \<or> limit < digits_value radix ds then None
          else Some (digits_value radix ds, r))"

definition read_given_char :: "byte \<Rightarrow> bytes \<Rightarrow> bytes option" where
  "read_given_char c s = (case s of [] \<Rightarrow> None | x # xs \<Rightarrow> if x = c then Some xs else None)"

definition read_separator :: "byte \<Rightarrow> nat \<Rightarrow> (bytes \<Rightarrow> ('a \<times> bytes) option) \<Rightarrow> bytes \<Rightarrow> ('a \<times> bytes) option" where
  "read_separator sep index inner s =
     (if 0 < index then Option.bind (read_given_char sep s) inner else inner s)"

section \<open>Addresses\<close>

primrec read_octets :: "nat \<Rightarrow> nat \<Rightarrow> bytes \<Rightarrow> (nat list \<times> bytes) option" where
  "read_octets 0 i s = Some ([], s)"
| "read_octets (Suc k) i s =
     Option.bind (read_separator DOT i (read_number 10 3 False 255) s)
       (\<lambda>(b, s). Option.bind (read_octets k (Suc i) s) (\<lambda>(bs, s). Some (b # bs, s)))"

definition read_ipv4_addr :: "bytes \<Rightarrow> (nat \<times> bytes) option" where
  "read_ipv4_addr s = map_option (\<lambda>(bs, r). (digits_value 256 bs, r)) (read_octets 4 0 s)"

definition ipv4_parse :: "bytes \<Rightarrow> Ipv4Addr option" where
  "ipv4_parse s =
     (if 15 < length s then None
      else case read_ipv4_addr s of Some (n, []) \<Rightarrow> Some (word_of_nat n) | _ \<Rightarrow> None)"

text \<open>Up to \<open>k\<close> groups of an IPv6 address, a dotted IPv4 address standing for the last two.\<close>

primrec read_groups :: "nat \<Rightarrow> nat \<Rightarrow> bytes \<Rightarrow> nat list \<times> bool \<times> bytes" where
  "read_groups 0 i s = ([], False, s)"
| "read_groups (Suc k) i s =
     (case (if 0 < k then read_separator (CHR '':'') i read_ipv4_addr s else None) of
        Some (v4, r) \<Rightarrow> ([v4 div 65536, v4 mod 65536], True, r)
      | None \<Rightarrow>
          (case read_separator (CHR '':'') i (read_number 16 4 True 65535) s of
             Some (g, r) \<Rightarrow> (case read_groups k (Suc i) r of (gs, v4, r) \<Rightarrow> (g # gs, v4, r))
           | None \<Rightarrow> ([], False, s)))"

definition read_ipv6_addr :: "bytes \<Rightarrow> (nat \<times> bytes) option" where
  "read_ipv6_addr s =
     (case read_groups 8 0 s of
        (head, head_ipv4, r) \<Rightarrow>
          if length head = 8 then Some (digits_value 65536 head, r)
          else if head_ipv4 then None
          else Option.bind (read_given_char (CHR '':'') r) (\<lambda>r.
               Option.bind (read_given_char (CHR '':'') r) (\<lambda>r.
               case read_groups (7 - length head) 0 r of
                 (tail, _, r) \<Rightarrow>
                   Some (digits_value 65536 (head @ replicate (8 - length head - length tail) 0 @ tail), r))))"

definition ipv6_parse :: "bytes \<Rightarrow> Ipv6Addr option" where
  "ipv6_parse s = (case read_ipv6_addr s of Some (n, []) \<Rightarrow> Some (word_of_nat n) | _ \<Rightarrow> None)"

definition u16_parse :: "bytes \<Rightarrow> 16 word option" where
  "u16_parse s =
     (case read_digits 10 s of
        (ds, []) \<Rightarrow> if ds = [] \<or> 65535 < digits_value 10 ds then None else Some (word_of_nat (digits_value 10 ds))
      | _ \<Rightarrow> None)"

section \<open>UTF-8\<close>

text \<open>One scalar value beyond ASCII, in UTF-8: no overlong form, no surrogate.\<close>

definition non_ascii :: re where
  "non_ascii =
     (let tail = Cls [(128, 191)] in
      Plus (Times (Cls [(194, 223)]) tail)
     (Plus (Times (Cls [(224, 224)]) (Times (Cls [(160, 191)]) tail))
     (Plus (Times (Cls [(225, 236), (238, 239)]) (Times tail tail))
     (Plus (Times (Cls [(237, 237)]) (Times (Cls [(128, 159)]) tail))
     (Plus (Times (Cls [(240, 240)]) (Times (Cls [(144, 191)]) (Times tail tail)))
     (Plus (Times (Cls [(241, 243)]) (Times tail (Times tail tail)))
           (Times (Cls [(244, 244)]) (Times (Cls [(128, 143)]) (Times tail tail)))))))))"

definition utf8_text :: re where
  "utf8_text = Star (Plus (Cls [(0, 127)]) non_ascii)"

definition valid_utf8 :: "bytes \<Rightarrow> bool" where
  "valid_utf8 s \<longleftrightarrow> matches utf8_text s"

lemma valid_utf8_iff: "valid_utf8 s \<longleftrightarrow> s \<in> lang utf8_text"
  by (simp add: valid_utf8_def matches_iff)

text \<open>Every byte of a scalar value beyond ASCII is itself beyond ASCII.\<close>

lemma non_ascii_alpha: "alpha non_ascii c \<Longrightarrow> 128 \<le> (of_char c :: nat)"
  by (auto simp: non_ascii_def in_class_def Let_def)

lemma ascii_valid_utf8: "is_ascii s \<Longrightarrow> valid_utf8 s"
proof -
  assume "is_ascii s"
  then have "set (map (\<lambda>c. [c]) s) \<subseteq> lang (Plus (Cls [(0, 127)]) non_ascii)"
    by (auto simp: is_ascii_def in_class_def less_Suc_eq_le [of _ 127, simplified])
  moreover have "concat (map (\<lambda>c. [c]) s) = s" by (induction s) auto
  ultimately show ?thesis unfolding valid_utf8_iff utf8_text_def lang.simps by (metis (mono_tags, lifting) mem_Collect_eq)
qed

end
