(* ===== verification/Grammar.thy ===== *)
theory Grammar
  imports Nom StdParse
begin

text \<open>
  The grammar of \<^verbatim>\<open>smtp-message\<close>: the regular expressions and the parsers of \<^verbatim>\<open>misc.rs\<close>,
  \<^verbatim>\<open>command.rs\<close> and \<^verbatim>\<open>reply.rs\<close>, combinator by combinator as in the code. \<open>N\<close> stands for the
  \<^verbatim>\<open>nom\<close> crate, \<open>X\<close> for the automata \<^verbatim>\<open>regex_automata\<close> builds and for \<^verbatim>\<open>idna\<close>'s
  \<^verbatim>\<open>to_ascii\<close>. A closure that would panic yields \<open>PPanic\<close>.
\<close>

section \<open>Regular expressions\<close>

definition alnum :: byte_class where
  "alnum = [(48, 57), (65, 90), (97, 122)]"

definition Domain_label :: re where
  "Domain_label = Times (Cls alnum) (Opt_re (Times (Star (Cls ((45, 45) # alnum))) (Cls alnum)))"

definition HOSTNAME_ASCII_re :: re where
  "HOSTNAME_ASCII_re =
     Plus (Times (Lit ''[IPv6:'') (Times (Plus1 (Cls [(58, 58), (46, 46), (48, 57), (65, 70), (97, 102)])) (Lit '']'')))
    (Plus (Times (Lit ''['') (Times (Plus1 (Cls [(46, 46), (48, 57)])) (Lit '']'')))
          (Times Domain_label (Star (Times (Lit ''.'') Domain_label))))"

definition HOSTNAME_UTF8_re :: re where
  "HOSTNAME_UTF8_re = Plus1 (Plus (Cls ([(45, 45), (46, 46)] @ alnum)) non_ascii)"

text \<open>
  In the class of the unquoted local part the code writes \<^verbatim>\<open>+-/\<close>, which is the range from
  \<^verbatim>\<open>+\<close> to \<^verbatim>\<open>/\<close> and holds the comma and the dot.
\<close>

definition atext_range :: byte_class where
  "atext_range = alnum @ [(33, 33), (35, 39), (42, 42), (43, 47), (61, 61), (63, 63), (94, 96), (123, 126)]"

definition atext :: byte_class where
  "atext = alnum @ [(33, 33), (35, 39), (42, 42), (43, 43), (47, 47), (61, 61), (63, 63), (94, 96), (123, 126), (45, 45)]"

definition quoted_text :: byte_class where
  "quoted_text = [(32, 33), (35, 91), (93, 126)]"

definition printable :: byte_class where
  "printable = [(32, 126)]"

definition Quoted_string :: "re \<Rightarrow> re \<Rightarrow> re" where
  "Quoted_string plain escaped =
     Times (Lit [QUOTE]) (Times (Plus1 (Plus plain (Times (Lit [BACKSLASH]) escaped))) (Lit [QUOTE]))"

definition LOCALPART_ASCII_re :: re where
  "LOCALPART_ASCII_re =
     Plus (Quoted_string (Cls quoted_text) (Cls printable))
          (Times (Plus1 (Cls atext_range)) (Star (Times (Lit ''.'') (Plus1 (Cls atext)))))"

definition LOCALPART_UTF8_re :: re where
  "LOCALPART_UTF8_re =
     Plus (Quoted_string (Plus (Cls quoted_text) non_ascii) (Plus (Cls printable) non_ascii))
          (Times (Plus1 (Plus (Cls atext_range) non_ascii))
                 (Star (Times (Lit ''.'') (Plus1 (Plus (Cls atext_range) non_ascii)))))"

definition PARAMETER_NAME_re :: re where
  "PARAMETER_NAME_re = Times (Cls alnum) (Star (Cls (alnum @ [(45, 45)])))"

definition PARAMETER_VALUE_ASCII_re :: re where
  "PARAMETER_VALUE_ASCII_re = Plus1 (Cls [(33, 60), (62, 126)])"

definition PARAMETER_VALUE_UTF8_re :: re where
  "PARAMETER_VALUE_UTF8_re = Plus1 (Plus (Cls [(33, 60), (62, 126)]) non_ascii)"

definition REPLY_CODE_re :: re where
  "REPLY_CODE_re = Times (Cls [(50, 53)]) (Times (Cls [(48, 57)]) (Cls [(48, 57)]))"

definition Up_to_three_digits :: re where
  "Up_to_three_digits = (let d = Cls [(48, 57)] in Times d (Opt_re (Times d (Opt_re d))))"

definition EXTENDED_REPLY_CODE_re :: re where
  "EXTENDED_REPLY_CODE_re =
     Times (Cls [(50, 50), (52, 52), (53, 53)])
       (Times (Lit ''.'') (Times Up_to_three_digits (Times (Lit ''.'') Up_to_three_digits)))"

definition REPLY_TEXT_ASCII_re :: re where
  "REPLY_TEXT_ASCII_re = Star (Cls [(9, 9), (32, 126)])"

definition REPLY_TEXT_UTF8_re :: re where
  "REPLY_TEXT_UTF8_re = Star (Plus (Cls [(9, 9), (32, 126)]) non_ascii)"

text \<open>The automata the crate builds for them, and \<^verbatim>\<open>idna\<close>.\<close>

record 'q lexers =
  HOSTNAME_ASCII :: "'q dfa"
  HOSTNAME_UTF8 :: "'q dfa"
  LOCALPART_ASCII :: "'q dfa"
  LOCALPART_UTF8 :: "'q dfa"
  PARAMETER_NAME :: "'q dfa"
  PARAMETER_VALUE_ASCII :: "'q dfa"
  PARAMETER_VALUE_UTF8 :: "'q dfa"
  REPLY_CODE :: "'q dfa"
  EXTENDED_REPLY_CODE :: "'q dfa"
  REPLY_TEXT_ASCII :: "'q dfa"
  REPLY_TEXT_UTF8 :: "'q dfa"
  idna_to_ascii :: "bytes \<Rightarrow> bytes option"

section \<open>misc.rs\<close>

text \<open>A component of the value of a \<^verbatim>\<open>tuple\<close>.\<close>

definition component :: "nat \<Rightarrow> pv \<Rightarrow> pv" where
  "component k v = (case v of PList vs \<Rightarrow> if k < length vs then vs ! k else PUnit | _ \<Rightarrow> PUnit)"

definition regex :: "'q dfa \<Rightarrow> parser" where
  "regex D i = ires_map PBytes (apply_regex D i)"

definition terminate :: "nom \<Rightarrow> bytes \<Rightarrow> parser" where
  "terminate N term = nom_peek N (nom_one_of N term)"

text \<open>The two closures of \<^verbatim>\<open>parse_hostname!\<close>.\<close>

fun hostname_ascii_value :: "(bytes \<Rightarrow> bool) \<Rightarrow> pv \<Rightarrow> pv option" where
  "hostname_ascii_value check (PBytes b) =
     (if \<not> check b then None
      else if b = [] then Some PPanic
      else if b ! 0 \<noteq> CHR ''['' then Some (PHostname (AsciiDomain b))
      else if length b < 2 then Some PPanic
      else if b ! 1 = CHR ''I'' then
        (if length b < 7 then Some PPanic
         else map_option (\<lambda>ip. PHostname (Ipv6 b ip)) (ipv6_parse (subslice b 6 (length b - 1))))
      else map_option (\<lambda>ip. PHostname (Ipv4 b ip)) (ipv4_parse (subslice b 1 (length b - 1))))"
| "hostname_ascii_value check _ = None"

fun hostname_utf8_value :: "(bytes \<Rightarrow> bytes option) \<Rightarrow> (bytes \<Rightarrow> bool) \<Rightarrow> pv \<Rightarrow> pv option" where
  "hostname_utf8_value to_ascii check (PBytes b) =
     (if \<not> check b then None else map_option (\<lambda>punycode. PHostname (Utf8Domain b punycode)) (to_ascii b))"
| "hostname_utf8_value to_ascii check _ = None"

definition parse_hostname :: "nom \<Rightarrow> 'q lexers \<Rightarrow> parser \<Rightarrow> parser \<Rightarrow> (bytes \<Rightarrow> bool) \<Rightarrow> parser" where
  "parse_hostname N X ascii_regex utf8_regex check =
     nom_alt N
       [nom_map_opt N ascii_regex (hostname_ascii_value check),
        nom_map_opt N utf8_regex (hostname_utf8_value (idna_to_ascii X) check)]"

definition hostname_parse :: "nom \<Rightarrow> 'q lexers \<Rightarrow> parser" where
  "hostname_parse N X data =
     parse_hostname N X (regex (HOSTNAME_ASCII X)) (regex (HOSTNAME_UTF8 X)) (\<lambda>b. length data = length b) data"

definition hostname_parse_until :: "nom \<Rightarrow> 'q lexers \<Rightarrow> bytes \<Rightarrow> parser" where
  "hostname_parse_until N X term =
     parse_hostname N X
       (nom_terminated N (regex (HOSTNAME_ASCII X)) (terminate N term))
       (nom_terminated N (regex (HOSTNAME_UTF8 X)) (terminate N term)) (\<lambda>_. True)"

fun localpart_value :: "(bytes \<Rightarrow> bytes Localpart) \<Rightarrow> (bytes \<Rightarrow> bytes Localpart) \<Rightarrow> pv \<Rightarrow> pv" where
  "localpart_value plain quoted (PBytes b) =
     (if b = [] then PPanic else if b ! 0 \<noteq> QUOTE then PLocalpart (plain b) else PLocalpart (quoted b))"
| "localpart_value plain quoted _ = PUnit"

definition localpart_parse_until :: "nom \<Rightarrow> 'q lexers \<Rightarrow> bytes \<Rightarrow> parser" where
  "localpart_parse_until N X term =
     nom_alt N
       [nom_map N (nom_terminated N (regex (LOCALPART_ASCII X)) (terminate N term))
          (localpart_value Lp_Ascii Lp_QuotedAscii),
        nom_map N (nom_terminated N (regex (LOCALPART_UTF8 X)) (terminate N term))
          (localpart_value Lp_Utf8 Lp_QuotedUtf8)]"

definition email_value :: "pv \<Rightarrow> pv" where
  "email_value v =
     (case v of
        PPair l h \<Rightarrow>
          (case (l, h) of
             (PLocalpart localpart, PNone) \<Rightarrow> PEmail \<lparr>em_localpart = localpart, em_hostname = None\<rparr>
           | (PLocalpart localpart, PSome (PHostname hostname)) \<Rightarrow>
               PEmail \<lparr>em_localpart = localpart, em_hostname = Some hostname\<rparr>
           | _ \<Rightarrow> PUnit)
      | _ \<Rightarrow> PUnit)"

definition email_parse_until :: "nom \<Rightarrow> 'q lexers \<Rightarrow> bytes \<Rightarrow> bytes \<Rightarrow> parser" where
  "email_parse_until N X term term_with_atsign =
     nom_map N
       (nom_pair N (localpart_parse_until N X term_with_atsign)
          (nom_opt N (nom_preceded N (nom_tag N ''@'') (hostname_parse_until N X term))))
       email_value"

definition email_parse_bracketed :: "nom \<Rightarrow> 'q lexers \<Rightarrow> bytes \<Rightarrow> nom_err + pv" where
  "email_parse_bracketed N X buf =
     (case nom_preceded N (nom_tag N ''<'')
             (nom_terminated N (email_parse_until N X ''>'' ''@>'') (nom_tag N ''>'')) buf of
        Inl e \<Rightarrow> Inl e
      | Inr ([], r) \<Rightarrow> Inr r
      | Inr (_, _) \<Rightarrow> Inl Nom_Failure)"

definition hostnames_of :: "pv list \<Rightarrow> bytes Hostname list" where
  "hostnames_of vs = List.map_filter (\<lambda>v. case v of PHostname h \<Rightarrow> Some h | _ \<Rightarrow> None) vs"

fun path_value :: "pv \<Rightarrow> pv" where
  "path_value (PList vs) = PPath \<lparr>domains = hostnames_of vs\<rparr>"
| "path_value _ = PUnit"

definition path_parse_until :: "nom \<Rightarrow> 'q lexers \<Rightarrow> bytes \<Rightarrow> parser" where
  "path_parse_until N X term_with_comma =
     nom_map N
       (nom_separated_list1 N (nom_tag N '','')
          (nom_preceded N (nom_tag N ''@'') (hostname_parse_until N X term_with_comma)))
       path_value"

definition unbracketed_email_with_path :: "nom \<Rightarrow> 'q lexers \<Rightarrow> bytes \<Rightarrow> bytes \<Rightarrow> parser" where
  "unbracketed_email_with_path N X term term_with_atsign =
     nom_pair N
       (nom_opt N (nom_terminated N (path_parse_until N X '':,'') (nom_tag N '':'')))
       (email_parse_until N X term term_with_atsign)"

definition email_with_path :: "nom \<Rightarrow> 'q lexers \<Rightarrow> bytes \<Rightarrow> bytes \<Rightarrow> bytes \<Rightarrow> bytes \<Rightarrow> parser" where
  "email_with_path N X term term_with_atsign term_with_bracket term_with_bracket_atsign =
     nom_alt N
       [nom_preceded N (nom_tag N ''<'')
          (nom_terminated N (unbracketed_email_with_path N X term_with_bracket term_with_bracket_atsign)
             (nom_tag N ''>'')),
        unbracketed_email_with_path N X term term_with_atsign]"

section \<open>command.rs\<close>

abbreviation blanks :: bytes where "blanks \<equiv> [CHR '' '', TAB]"
abbreviation blanks_cr :: bytes where "blanks_cr \<equiv> [CHR '' '', TAB, CR]"

fun parameter_name_value :: "pv \<Rightarrow> pv" where
  "parameter_name_value (PBytes b) = PName (Other_Parameter b)"
| "parameter_name_value _ = PUnit"

definition parameter_name_parse :: "nom \<Rightarrow> 'q lexers \<Rightarrow> parser" where
  "parameter_name_parse N X = nom_map N (regex (PARAMETER_NAME X)) parameter_name_value"

fun text_value :: "(bytes \<Rightarrow> bytes MaybeUtf8) \<Rightarrow> pv \<Rightarrow> pv" where
  "text_value kind (PBytes b) = PText (kind b)"
| "text_value kind _ = PUnit"

definition parameter_value_parse :: "nom \<Rightarrow> 'q lexers \<Rightarrow> bytes \<Rightarrow> parser" where
  "parameter_value_parse N X term_with_sp_tab =
     nom_alt N
       [nom_map N (nom_terminated N (regex (PARAMETER_VALUE_ASCII X)) (terminate N term_with_sp_tab)) (text_value Ascii),
        nom_map N (nom_terminated N (regex (PARAMETER_VALUE_UTF8 X)) (terminate N term_with_sp_tab)) (text_value Utf8)]"

definition parameter_of :: "pv \<Rightarrow> (bytes ParameterName \<times> bytes MaybeUtf8 option) option" where
  "parameter_of v =
     (case v of
        PPair n t \<Rightarrow>
          (case (n, t) of
             (PName name, PNone) \<Rightarrow> Some (name, None)
           | (PName name, PSome (PText text)) \<Rightarrow> Some (name, Some text)
           | _ \<Rightarrow> None)
      | _ \<Rightarrow> None)"

definition parameters_of :: "pv list \<Rightarrow> (bytes ParameterName \<times> bytes MaybeUtf8 option) list" where
  "parameters_of vs = List.map_filter parameter_of vs"

fun parameters_value :: "pv \<Rightarrow> pv" where
  "parameters_value (PList vs) = PParameters (Parameters (parameters_of vs))"
| "parameters_value _ = PUnit"

definition parameter_parse :: "nom \<Rightarrow> 'q lexers \<Rightarrow> bytes \<Rightarrow> parser" where
  "parameter_parse N X term_with_sp_tab =
     nom_preceded N (nom_many1_count N (nom_one_of N blanks))
       (nom_pair N (parameter_name_parse N X)
          (nom_opt N (nom_preceded N (nom_tag N ''='') (parameter_value_parse N X term_with_sp_tab))))"

definition parameters_parse_until :: "nom \<Rightarrow> 'q lexers \<Rightarrow> bytes \<Rightarrow> parser" where
  "parameters_parse_until N X term_with_sp_tab =
     nom_map N (nom_many0 N (parameter_parse N X term_with_sp_tab)) parameters_value"

text \<open>A command without argument, a greeting, and the commands with a free text.\<close>

definition bare_command :: "nom \<Rightarrow> bytes \<Rightarrow> bytes Command \<Rightarrow> parser" where
  "bare_command N name cmd =
     nom_map N (nom_tuple N [nom_tag_no_case N name, nom_opt N (nom_is_a N blanks), nom_tag N CRLF]) (\<lambda>_. PCommand cmd)"

definition third_hostname :: "(bytes Hostname \<Rightarrow> bytes Command) \<Rightarrow> pv \<Rightarrow> pv" where
  "third_hostname f v = (case component 2 v of PHostname hostname \<Rightarrow> PCommand (f hostname) | _ \<Rightarrow> PUnit)"

definition hello_command :: "nom \<Rightarrow> 'q lexers \<Rightarrow> bytes \<Rightarrow> (bytes Hostname \<Rightarrow> bytes Command) \<Rightarrow> parser" where
  "hello_command N X name f =
     nom_map N
       (nom_tuple N
          [nom_tag_no_case N name, nom_is_a N blanks, hostname_parse_until N X blanks_cr,
           nom_opt N (nom_is_a N blanks), nom_tag N CRLF])
       (third_hostname f)"

definition utf8_command :: "(bytes MaybeUtf8 \<Rightarrow> bytes Command) \<Rightarrow> bytes \<Rightarrow> pv option" where
  "utf8_command f s = (if valid_utf8 s then Some (PCommand (f (maybe_from s))) else None)"

definition third_text :: "(bytes MaybeUtf8 \<Rightarrow> bytes Command) \<Rightarrow> pv \<Rightarrow> pv option" where
  "third_text f v = (case component 2 v of PBytes s \<Rightarrow> utf8_command f s | _ \<Rightarrow> None)"

fun only_text :: "(bytes MaybeUtf8 \<Rightarrow> bytes Command) \<Rightarrow> pv \<Rightarrow> pv option" where
  "only_text f (PBytes s) = utf8_command f s"
| "only_text f _ = None"

definition text_command :: "nom \<Rightarrow> bytes \<Rightarrow> (bytes MaybeUtf8 \<Rightarrow> bytes Command) \<Rightarrow> parser" where
  "text_command N name f =
     nom_map_res N
       (nom_tuple N [nom_tag_no_case N name, nom_one_of N blanks, nom_take_until N CRLF, nom_tag N CRLF])
       (third_text f)"

definition opt_text_command :: "nom \<Rightarrow> bytes \<Rightarrow> (bytes MaybeUtf8 \<Rightarrow> bytes Command) \<Rightarrow> parser" where
  "opt_text_command N name f =
     nom_map_res N
       (nom_preceded N (nom_tag_no_case N name)
          (nom_alt N
             [nom_preceded N (nom_one_of N blanks) (nom_terminated N (nom_take_until N CRLF) (nom_tag N CRLF)),
              nom_value N (PBytes []) (nom_tag N CRLF)]))
       (only_text f)"

definition opt_path :: "pv \<Rightarrow> bytes Path option" where
  "opt_path v = (case v of PSome (PPath p) \<Rightarrow> Some p | _ \<Rightarrow> None)"

definition mail_value :: "pv \<Rightarrow> pv" where
  "mail_value v =
     (case component 3 v of
        PParameters params \<Rightarrow>
          (case component 2 v of
             PNone \<Rightarrow> PCommand (Mail None None params)
           | PSome w \<Rightarrow>
               (case w of
                  PPair path e \<Rightarrow>
                    (case e of PEmail email \<Rightarrow> PCommand (Mail (opt_path path) (Some email) params) | _ \<Rightarrow> PUnit)
                | _ \<Rightarrow> PUnit)
           | _ \<Rightarrow> PUnit)
      | _ \<Rightarrow> PUnit)"

definition rcpt_value :: "pv \<Rightarrow> pv" where
  "rcpt_value v =
     (case component 3 v of
        PParameters params \<Rightarrow>
          (case component 2 v of
             PPair path e \<Rightarrow> (case e of PEmail email \<Rightarrow> PCommand (Rcpt (opt_path path) email params) | _ \<Rightarrow> PUnit)
           | _ \<Rightarrow> PUnit)
      | _ \<Rightarrow> PUnit)"

definition address :: "nom \<Rightarrow> 'q lexers \<Rightarrow> parser" where
  "address N X =
     email_with_path N X blanks_cr (blanks_cr @ ''@'') (blanks_cr @ ''>'') (blanks_cr @ ''@>'')"

definition mail_command :: "nom \<Rightarrow> 'q lexers \<Rightarrow> parser" where
  "mail_command N X =
     nom_map N
       (nom_tuple N
          [nom_tag_no_case N ''MAIL FROM:'', nom_opt N (nom_is_a N blanks),
           nom_alt N [nom_map N (nom_tag N ''<>'') (\<lambda>_. PNone), nom_map N (address N X) PSome],
           parameters_parse_until N X blanks_cr, nom_opt N (nom_is_a N blanks), nom_tag N CRLF])
       mail_value"

definition rcpt_command :: "nom \<Rightarrow> 'q lexers \<Rightarrow> parser" where
  "rcpt_command N X =
     nom_map N
       (nom_tuple N
          [nom_tag_no_case N ''RCPT TO:'', nom_opt N (nom_is_a N blanks), address N X,
           parameters_parse_until N X blanks_cr, nom_opt N (nom_is_a N blanks), nom_tag N CRLF])
       rcpt_value"

definition command_alternatives :: "nom \<Rightarrow> 'q lexers \<Rightarrow> parser list" where
  "command_alternatives N X =
     [bare_command N ''DATA'' Data,
      hello_command N X ''EHLO'' Ehlo,
      text_command N ''EXPN'' Expn,
      hello_command N X ''HELO'' Helo,
      opt_text_command N ''HELP'' Help,
      hello_command N X ''LHLO'' Lhlo,
      mail_command N X,
      opt_text_command N ''NOOP'' Noop,
      bare_command N ''QUIT'' Quit,
      rcpt_command N X,
      bare_command N ''RSET'' Rset,
      bare_command N ''STARTTLS'' Starttls,
      text_command N ''VRFY'' Vrfy]"

definition get_command :: "pv \<Rightarrow> bytes Command option" where
  "get_command v = (case v of PCommand c \<Rightarrow> Some c | _ \<Rightarrow> None)"

definition command_parse :: "nom \<Rightarrow> 'q lexers \<Rightarrow> bytes \<Rightarrow> bytes Command iresult" where
  "command_parse N X buf = ires_extract get_command (nom_alt N (command_alternatives N X) buf)"

section \<open>reply.rs\<close>

definition reply_code_value_of :: "pv \<Rightarrow> pv" where
  "reply_code_value_of v =
     (case v of
        PBytes b \<Rightarrow> if length b = 3 then PCode (ReplyCode (b ! 0) (b ! 1) (b ! 2)) else PPanic
      | _ \<Rightarrow> PUnit)"

definition reply_code_parse :: "nom \<Rightarrow> 'q lexers \<Rightarrow> parser" where
  "reply_code_parse N X = nom_map N (regex (REPLY_CODE X)) reply_code_value_of"

definition class_of_digit :: "byte \<Rightarrow> EnhancedReplyCodeClass option" where
  "class_of_digit c =
     (if c = CHR ''2'' then Some Success else if c = CHR ''4'' then Some PersistentTransient
      else if c = CHR ''5'' then Some PermanentFailure else None)"

fun ecode_value :: "pv \<Rightarrow> pv" where
  "ecode_value (PBytes raw) =
     (case raw of
        [] \<Rightarrow> PPanic
      | c # rest \<Rightarrow>
          (case class_of_digit c of
             None \<Rightarrow> PPanic
           | Some cls \<Rightarrow>
               if rest = [] then PPanic
               else let after_class = drop 2 raw in
                 (case find_window [DOT] after_class of
                    None \<Rightarrow> PPanic
                  | Some second_dot \<Rightarrow>
                      (case (u16_parse (take second_dot after_class), u16_parse (drop (second_dot + 1) after_class)) of
                         (Some s, Some d) \<Rightarrow>
                           PECode \<lparr>ec_raw = raw, ec_class = cls, ec_raw_subject = s, ec_raw_detail = d\<rparr>
                       | _ \<Rightarrow> PPanic))))"
| "ecode_value _ = PUnit"

definition ecode_parse :: "nom \<Rightarrow> 'q lexers \<Rightarrow> parser" where
  "ecode_parse N X = nom_map N (regex (EXTENDED_REPLY_CODE X)) ecode_value"

definition opt_ecode :: "pv \<Rightarrow> bytes EnhancedReplyCode option" where
  "opt_ecode v = (case v of PSome (PECode e) \<Rightarrow> Some e | _ \<Rightarrow> None)"

definition reply_line_value :: "pv \<Rightarrow> pv" where
  "reply_line_value v =
     (case (component 0 v, component 1 v, component 3 v) of
        (PCode code, PBool is_last, PText text) \<Rightarrow>
          PLine \<lparr>rl_code = code, rl_last = is_last, rl_ecode = opt_ecode (component 2 v), rl_text = text\<rparr>
      | _ \<Rightarrow> PUnit)"

definition reply_text_parse :: "nom \<Rightarrow> 'q lexers \<Rightarrow> parser" where
  "reply_text_parse N X =
     nom_alt N
       [nom_map N (nom_terminated N (regex (REPLY_TEXT_ASCII X)) (nom_tag N CRLF)) (text_value Ascii),
        nom_map N (nom_terminated N (regex (REPLY_TEXT_UTF8 X)) (nom_tag N CRLF)) (text_value Utf8)]"

definition reply_line_parse :: "nom \<Rightarrow> 'q lexers \<Rightarrow> parser" where
  "reply_line_parse N X =
     nom_map N
       (nom_tuple N
          [reply_code_parse N X,
           nom_alt N [nom_value N (PBool False) (nom_tag N ''-''), nom_value N (PBool True) (nom_opt N (nom_tag N '' ''))],
           nom_opt N (nom_terminated N (ecode_parse N X) (nom_alt N [nom_tag N '' '', nom_peek N (nom_tag N CRLF)])),
           reply_text_parse N X])
       reply_line_value"

fun line_is_last :: "pv \<Rightarrow> bool" where
  "line_is_last (PLine l) = rl_last l"
| "line_is_last _ = False"

definition line_texts :: "pv list \<Rightarrow> bytes MaybeUtf8 list" where
  "line_texts vs = List.map_filter (\<lambda>v. case v of PLine l \<Rightarrow> Some (rl_text l) | _ \<Rightarrow> None) vs"

definition reply_value :: "pv \<Rightarrow> pv" where
  "reply_value v =
     (case v of
        PPair b e \<Rightarrow>
          (case (b, e) of
             (PList beg, PLine l) \<Rightarrow>
               PReply \<lparr>rp_code = rl_code l, rp_ecode = rl_ecode l, rp_text = line_texts beg @ [rl_text l]\<rparr>
           | _ \<Rightarrow> PUnit)
      | _ \<Rightarrow> PUnit)"

definition continuation_line :: "nom \<Rightarrow> 'q lexers \<Rightarrow> parser" where
  "continuation_line N X =
     nom_preceded N (nom_peek N (nom_pair N (nom_take N 3) (nom_tag N ''-''))) (reply_line_parse N X)"

definition reply_parse_pv :: "nom \<Rightarrow> 'q lexers \<Rightarrow> parser" where
  "reply_parse_pv N X =
     nom_map N
       (nom_pair N
          (nom_many0 N (continuation_line N X))
          (nom_verify N (reply_line_parse N X) line_is_last))
       reply_value"

definition get_reply :: "pv \<Rightarrow> bytes Reply option" where
  "get_reply v = (case v of PReply r \<Rightarrow> Some r | _ \<Rightarrow> None)"

definition reply_parse :: "nom \<Rightarrow> 'q lexers \<Rightarrow> bytes \<Rightarrow> bytes Reply iresult" where
  "reply_parse N X buf = ires_extract get_reply (reply_parse_pv N X buf)"

section \<open>What the crates promise\<close>

locale lexer_laws =
    hostname_ascii: automaton "HOSTNAME_ASCII X" HOSTNAME_ASCII_re +
    hostname_utf8: automaton "HOSTNAME_UTF8 X" HOSTNAME_UTF8_re +
    localpart_ascii: automaton "LOCALPART_ASCII X" LOCALPART_ASCII_re +
    localpart_utf8: automaton "LOCALPART_UTF8 X" LOCALPART_UTF8_re +
    parameter_name: automaton "PARAMETER_NAME X" PARAMETER_NAME_re +
    parameter_value_ascii: automaton "PARAMETER_VALUE_ASCII X" PARAMETER_VALUE_ASCII_re +
    parameter_value_utf8: automaton "PARAMETER_VALUE_UTF8 X" PARAMETER_VALUE_UTF8_re +
    reply_code: automaton "REPLY_CODE X" REPLY_CODE_re +
    extended_reply_code: automaton "EXTENDED_REPLY_CODE X" EXTENDED_REPLY_CODE_re +
    reply_text_ascii: automaton "REPLY_TEXT_ASCII X" REPLY_TEXT_ASCII_re +
    reply_text_utf8: automaton "REPLY_TEXT_UTF8 X" REPLY_TEXT_UTF8_re
  for X :: "'q lexers"

locale grammar = nom_laws N + lexer_laws X
  for N :: nom and X :: "'q lexers"

definition lexers_ref :: "(bytes \<Rightarrow> bytes option) \<Rightarrow> re lexers" where
  "lexers_ref to_ascii =
     \<lparr>HOSTNAME_ASCII = deriv_dfa HOSTNAME_ASCII_re, HOSTNAME_UTF8 = deriv_dfa HOSTNAME_UTF8_re,
      LOCALPART_ASCII = deriv_dfa LOCALPART_ASCII_re, LOCALPART_UTF8 = deriv_dfa LOCALPART_UTF8_re,
      PARAMETER_NAME = deriv_dfa PARAMETER_NAME_re, PARAMETER_VALUE_ASCII = deriv_dfa PARAMETER_VALUE_ASCII_re,
      PARAMETER_VALUE_UTF8 = deriv_dfa PARAMETER_VALUE_UTF8_re, REPLY_CODE = deriv_dfa REPLY_CODE_re,
      EXTENDED_REPLY_CODE = deriv_dfa EXTENDED_REPLY_CODE_re, REPLY_TEXT_ASCII = deriv_dfa REPLY_TEXT_ASCII_re,
      REPLY_TEXT_UTF8 = deriv_dfa REPLY_TEXT_UTF8_re, idna_to_ascii = to_ascii\<rparr>"

interpretation grammar_ref: grammar nom_ref "lexers_ref to_ascii"
  by unfold_locales (simp_all add: lexers_ref_def deriv_dfa.match_iff deriv_dfa.dead_iff)

end
