(* ===== verification/Parsing.thy ===== *)
theory Parsing
  imports Grammar ServerSession
begin

text \<open>
  What every parser of the grammar keeps: it gives back a suffix of its input, a command takes at
  least a byte, and no closure of a parser panics. The first is what the server loop relies on
  (\<open>command_parsing\<close>).
\<close>

section \<open>Parsers give back a suffix\<close>

lemma regex_consumes [consumption]: "consumes (regex D)"
  by (auto intro!: consumesI simp: regex_def ires_map_Inr apply_regex_def suffix_drop split: sum.splits)

context nom_laws
begin

lemmas consumes_eaters [consumption] =
  eats_consumes [OF eats_one_of] eats_consumes [OF eats_is_a] eats_consumes [OF eats_many1_count]
  eats_consumes [OF eats_separated_list1]

lemma terminate_consumes [consumption]: "consumes (terminate N t)"
  unfolding terminate_def by (intro consumption)

lemma hostname_consumes [consumption]: "consumes (hostname_parse_until N X t)"
  unfolding hostname_parse_until_def parse_hostname_def by (intro consumption)

lemma localpart_consumes [consumption]: "consumes (localpart_parse_until N X t)"
  unfolding localpart_parse_until_def by (intro consumption)

lemma email_consumes [consumption]: "consumes (email_parse_until N X t ta)"
  unfolding email_parse_until_def by (intro consumption)

lemma path_consumes [consumption]: "consumes (path_parse_until N X t)"
  unfolding path_parse_until_def by (intro consumption) simp_all

lemma address_consumes [consumption]: "consumes (address N X)"
  unfolding address_def email_with_path_def unbracketed_email_with_path_def by (intro consumption)

lemma parameters_consumes [consumption]: "consumes (parameters_parse_until N X t)"
  unfolding parameters_parse_until_def parameter_parse_def parameter_name_parse_def parameter_value_parse_def
  by (intro consumption)

lemma bare_command_eats [consumption]: "name \<noteq> [] \<Longrightarrow> eats (bare_command N name c)"
  unfolding bare_command_def by (intro consumption)

lemma hello_command_eats [consumption]: "name \<noteq> [] \<Longrightarrow> eats (hello_command N X name f)"
  unfolding hello_command_def by (intro consumption)

lemma text_command_eats [consumption]: "name \<noteq> [] \<Longrightarrow> eats (text_command N name f)"
  unfolding text_command_def by (intro consumption)

lemma opt_text_command_eats [consumption]: "name \<noteq> [] \<Longrightarrow> eats (opt_text_command N name f)"
  unfolding opt_text_command_def by (intro consumption)

lemma mail_command_eats [consumption]: "eats (mail_command N X)"
  unfolding mail_command_def by (intro consumption) simp

lemma rcpt_command_eats [consumption]: "eats (rcpt_command N X)"
  unfolding rcpt_command_def by (intro consumption) simp

lemma command_parse_rest: "command_parse N X b = Inr (rem, c) \<Longrightarrow> strict_suffix rem b"
proof -
  have "eats (nom_alt N (command_alternatives N X))"
    unfolding command_alternatives_def by (intro consumption) simp_all
  moreover assume "command_parse N X b = Inr (rem, c)"
  then obtain v where "nom_alt N (command_alternatives N X) b = Inr (rem, v)"
    by (auto simp: command_parse_def ires_extract_def ires_bind_Inr split: option.splits)
  ultimately show ?thesis by (rule eatsD)
qed

end

sublocale grammar \<subseteq> command_parsing "command_parse N X"
  by unfold_locales (rule command_parse_rest)

interpretation command_parse: command_parsing "command_parse nom_ref (lexers_ref to_ascii)"
  by unfold_locales (rule nom_ref.command_parse_rest)

end
