(* ===== verification/ReplyParsing.thy ===== *)
theory ReplyParsing
  imports Parsing
begin

text \<open>
  Replies: what \<^verbatim>\<open>Reply::parse\<close> makes of the printed form of a reply, and that no closure of the
  reply parsers panics.
\<close>

section \<open>Replies that can be printed and read back\<close>

text \<open>
  The code is one of the grammar; the enhanced code is made of numbers of at most three digits; a
  text is in the class its constructor says; and without an enhanced code no text begins with
  something that reads as one.
\<close>

definition ecode_printable :: "bytes EnhancedReplyCode \<Rightarrow> bool" where
  "ecode_printable e \<longleftrightarrow> unat (ec_raw_subject e) < 1000 \<and> unat (ec_raw_detail e) < 1000 \<and>
     e = extended_reply_code (ec_class e) (unat (ec_raw_subject e)) (unat (ec_raw_detail e))"

fun text_printable :: "bytes MaybeUtf8 \<Rightarrow> bool" where
  "text_printable (Ascii s) \<longleftrightarrow> matches REPLY_TEXT_ASCII_re s"
| "text_printable (Utf8 s) \<longleftrightarrow> matches REPLY_TEXT_UTF8_re s"

text \<open>The parser tags a text by its bytes, whatever the tag of the text that was printed.\<close>

definition read_text :: "bytes MaybeUtf8 \<Rightarrow> bytes MaybeUtf8" where
  "read_text t = (if matches REPLY_TEXT_ASCII_re (maybe_str t) then Ascii (maybe_str t) else Utf8 (maybe_str t))"

definition reply_as_read :: "bytes Reply \<Rightarrow> bytes Reply" where
  "reply_as_read r = r\<lparr>rp_text := map read_text (rp_text r)\<rparr>"

definition begins_with_ecode :: "bytes \<Rightarrow> bool" where
  "begins_with_ecode t \<longleftrightarrow>
     list_ex (\<lambda>n. matches EXTENDED_REPLY_CODE_re (take n t) \<and> (drop n t = [] \<or> hd (drop n t) = CHR '' ''))
       [0..<Suc (length t)]"

definition reply_printable :: "bytes Reply \<Rightarrow> bool" where
  "reply_printable r \<longleftrightarrow> valid_reply_code (rp_code r) \<and> rp_text r \<noteq> [] \<and> list_all text_printable (rp_text r) \<and>
     (case rp_ecode r of
        Some e \<Rightarrow> ecode_printable e
      | None \<Rightarrow> list_all (\<lambda>t. \<not> begins_with_ecode (maybe_str t)) (rp_text r))"

lemma begins_with_ecode_iff:
  "begins_with_ecode t \<longleftrightarrow> (\<exists>e u. t = e @ u \<and> e \<in> lang EXTENDED_REPLY_CODE_re \<and> (u = [] \<or> hd u = CHR '' ''))"
proof
  assume "begins_with_ecode t"
  then obtain n where "take n t \<in> lang EXTENDED_REPLY_CODE_re" "drop n t = [] \<or> hd (drop n t) = CHR '' ''"
    unfolding begins_with_ecode_def list_ex_iff matches_iff by blast
  then show "\<exists>e u. t = e @ u \<and> e \<in> lang EXTENDED_REPLY_CODE_re \<and> (u = [] \<or> hd u = CHR '' '')"
    by (metis append_take_drop_id)
next
  assume "\<exists>e u. t = e @ u \<and> e \<in> lang EXTENDED_REPLY_CODE_re \<and> (u = [] \<or> hd u = CHR '' '')"
  then obtain e u where "t = e @ u" "e \<in> lang EXTENDED_REPLY_CODE_re" "u = [] \<or> hd u = CHR '' ''" by blast
  then show "begins_with_ecode t"
    by (auto simp: begins_with_ecode_def list_ex_iff matches_iff intro!: bexI [of _ "length e"])
qed

lemma ascii_text_printable:
  "text_printable (Ascii s) \<longleftrightarrow> (\<forall>c \<in> set s. c = TAB \<or> (32 \<le> (of_char c :: nat) \<and> (of_char c :: nat) \<le> 126))"
proof -
  have "in_class [(9, 9), (32, 126)] c \<longleftrightarrow>
      in_class [(of_char TAB, of_char TAB)] c \<or> (32 \<le> (of_char c :: nat) \<and> (of_char c :: nat) \<le> 126)" for c
    by (simp add: in_class_def)
  then show ?thesis unfolding text_printable.simps matches_iff REPLY_TEXT_ASCII_re_def lang_Star_Cls in_class_single
    by simp
qed

lemma stock_ecodes:
  "ecode_printable SUCCESS_UNDEFINED" "ecode_printable SUCCESS_DEST_VALID" "ecode_printable PERMANENT_INVALID_COMMAND"
  "ecode_printable PERMANENT_UNDEFINED" "ecode_printable TRANSIENT_UNDEFINED"
  "ecode_printable TRANSIENT_SYSTEM_INCORRECTLY_CONFIGURED"
  by (simp_all add: ecode_printable_def extended_reply_code_def SUCCESS_UNDEFINED_def SUCCESS_DEST_VALID_def
      PERMANENT_INVALID_COMMAND_def PERMANENT_UNDEFINED_def TRANSIENT_UNDEFINED_def
      TRANSIENT_SYSTEM_INCORRECTLY_CONFIGURED_def)

section \<open>Numbers\<close>

definition digits3 :: "bytes \<Rightarrow> bool" where
  "digits3 s \<longleftrightarrow> s \<noteq> [] \<and> length s \<le> 3 \<and> (\<forall>c \<in> set s. is_digit c)"

lemma in_class_digit: "in_class [(48, 57)] c \<longleftrightarrow> is_digit c"
  by (simp add: in_class_def is_digit_def)

lemma lang_three_digits: "s \<in> lang Up_to_three_digits \<longleftrightarrow> digits3 s"
proof -
  have "s \<in> lang Up_to_three_digits \<longleftrightarrow>
      (\<exists>a. s = [a] \<and> is_digit a) \<or> (\<exists>a b. s = [a, b] \<and> is_digit a \<and> is_digit b) \<or>
      (\<exists>a b c. s = [a, b, c] \<and> is_digit a \<and> is_digit b \<and> is_digit c)"
    unfolding Up_to_three_digits_def Let_def mem_Times_Cls lang_Opt_re insert_iff in_class_digit
    by (auto simp: in_class_digit)
  also have "\<dots> \<longleftrightarrow> digits3 s"
    unfolding digits3_def by (cases s; cases "tl s"; cases "tl (tl s)") auto
  finally show ?thesis .
qed

lemma lang_ecode:
  "w \<in> lang EXTENDED_REPLY_CODE_re \<longleftrightarrow>
     (\<exists>c s d. w = c # DOT # s @ DOT # d \<and> class_of_digit c \<noteq> None \<and> digits3 s \<and> digits3 d)"
proof -
  have "in_class [(50, 50), (52, 52), (53, 53)] c \<longleftrightarrow> class_of_digit c \<noteq> None" for c
  proof -
    have "in_class [(50, 50), (52, 52), (53, 53)] c \<longleftrightarrow>
        in_class [(of_char (CHR ''2''), of_char (CHR ''2''))] c \<or> in_class [(of_char (CHR ''4''), of_char (CHR ''4''))] c \<or>
        in_class [(of_char (CHR ''5''), of_char (CHR ''5''))] c"
      by (simp add: in_class_def)
    then show ?thesis unfolding in_class_single by (auto simp: class_of_digit_def)
  qed
  then show ?thesis
    unfolding EXTENDED_REPLY_CODE_re_def mem_Times_Cls mem_Times_Lit mem_Times [of _ Up_to_three_digits] lang_three_digits
    by auto blast
qed

lemma to_digit_10: "to_digit 10 c = (if is_digit c then Some (digit_value c) else None)"
  by (auto simp: to_digit_def is_digit_def digit_value_def Let_def)

lemma read_digits_all: "\<forall>c \<in> set s. is_digit c \<Longrightarrow> read_digits 10 s = (map digit_value s, [])"
  by (induction s) (auto simp: to_digit_10)

lemma digits_value_append: "digits_value b (xs @ [x]) = digits_value b xs * b + x"
  by (simp add: digits_value_def)

lemma digits_value_less: "\<forall>x \<in> set xs. x < 10 \<Longrightarrow> digits_value 10 xs < 10 ^ length xs"
  by (induction xs rule: rev_induct) (auto simp: digits_value_append digits_value_def)

lemma u16_parse_digits3:
  assumes "digits3 s"
  shows "u16_parse s = Some (word_of_nat (digits_value 10 (map digit_value s)))"
proof -
  have d: "\<forall>x \<in> set (map digit_value s). x < 10" using assms by (auto simp: digits3_def is_digit_def digit_value_def)
  have "digits_value 10 (map digit_value s) < 10 ^ length s" using digits_value_less [OF d] by simp
  also have "(10 :: nat) ^ length s \<le> 10 ^ 3" using assms by (intro power_increasing) (auto simp: digits3_def)
  finally have "\<not> 65535 < digits_value 10 (map digit_value s)" by simp
  with assms show ?thesis by (simp add: u16_parse_def digits3_def read_digits_all)
qed

lemma digit_value_digit: "n < 10 \<Longrightarrow> digit_value (digit n) = n \<and> is_digit (digit n)"
  by (simp add: digit_value_def digit_def is_digit_def of_char_of)

lemma decimal_digits:
  "(\<forall>c \<in> set (decimal n). is_digit c) \<and> digits_value 10 (map digit_value (decimal n)) = n"
proof (induction n rule: decimal.induct)
  case (1 n)
  have dn: "decimal n = (if n < 10 then [digit n] else decimal (n div 10) @ [digit (n mod 10)])"
    by (subst decimal.simps) simp
  show ?case
  proof (cases "n < 10")
    case True
    with digit_value_digit [of n] show ?thesis by (simp add: dn digits_value_def)
  next
    case False
    with 1 digit_value_digit [of "n mod 10"] show ?thesis by (simp add: dn digits_value_append)
  qed
qed

lemma length_decimal: "n < 1000 \<Longrightarrow> length (decimal n) \<le> 3"
  by (subst decimal.simps, subst decimal.simps, subst decimal.simps) auto

lemma decimal_digits3: "n < 1000 \<Longrightarrow> digits3 (decimal n)"
  using decimal_digits [of n] decimal_nonempty length_decimal by (auto simp: digits3_def)

section \<open>Codes\<close>

lemma find_window_single: "x \<notin> set s \<Longrightarrow> find_window [x] (s @ x # d) = Some (length s)"
  by (induction s) auto

lemma ecode_value_word:
  assumes "class_of_digit c = Some cls" and "digits3 s" and "digits3 d"
  shows "ecode_value (PBytes (c # DOT # s @ DOT # d)) =
    PECode \<lparr>ec_raw = c # DOT # s @ DOT # d, ec_class = cls,
      ec_raw_subject = word_of_nat (digits_value 10 (map digit_value s)),
      ec_raw_detail = word_of_nat (digits_value 10 (map digit_value d))\<rparr>"
proof -
  have "DOT \<notin> set s" using assms(2) by (auto simp: digits3_def is_digit_def)
  then have "find_window [DOT] (s @ DOT # d) = Some (length s)" by (rule find_window_single)
  with assms u16_parse_digits3 show ?thesis by simp
qed

lemma ecode_value_printable:
  assumes "ecode_printable e"
  shows "ec_raw e \<in> lang EXTENDED_REPLY_CODE_re \<and> ecode_value (PBytes (ec_raw e)) = PECode e"
proof -
  let ?s = "unat (ec_raw_subject e)" and ?d = "unat (ec_raw_detail e)"
  have e: "e = extended_reply_code (ec_class e) ?s ?d" and lt: "?s < 1000" "?d < 1000"
    using assms unfolding ecode_printable_def by blast+
  have cls: "class_of_digit (class_digit (ec_class e)) = Some (ec_class e)"
    by (cases "ec_class e") (simp_all add: class_of_digit_def)
  from e have raw: "ec_raw e = class_digit (ec_class e) # DOT # decimal ?s @ DOT # decimal ?d"
    by (metis EnhancedReplyCode.select_convs(1) append.simps extended_reply_code_def)
  have "ecode_value (PBytes (ec_raw e)) =
      PECode \<lparr>ec_raw = ec_raw e, ec_class = ec_class e, ec_raw_subject = word_of_nat ?s, ec_raw_detail = word_of_nat ?d\<rparr>"
    unfolding raw ecode_value_word [OF cls decimal_digits3 [OF lt(1)] decimal_digits3 [OF lt(2)]]
    using decimal_digits by simp
  moreover have "ec_raw e \<in> lang EXTENDED_REPLY_CODE_re"
    unfolding lang_ecode using raw cls decimal_digits3 [OF lt(1)] decimal_digits3 [OF lt(2)] by blast
  ultimately show ?thesis by simp
qed

lemma ecode_alpha: "alpha EXTENDED_REPLY_CODE_re c \<longleftrightarrow> c = DOT \<or> is_digit c"
proof -
  have "in_class [(50, 50), (52, 52), (53, 53)] c \<Longrightarrow> is_digit c" by (auto simp: in_class_def is_digit_def)
  moreover have "alpha (Lit ''.'') c \<longleftrightarrow> c = DOT" using in_class_single [of DOT c] by (simp add: Lit_def)
  ultimately show ?thesis
    by (auto simp: EXTENDED_REPLY_CODE_re_def Up_to_three_digits_def Opt_re_def Let_def in_class_digit)
qed

lemma valid_reply_code_iff: "[a, b, c] \<in> lang REPLY_CODE_re \<longleftrightarrow> valid_reply_code (ReplyCode a b c)"
proof -
  have "in_class [(50, 53)] a \<longleftrightarrow> a \<in> {CHR ''2'', CHR ''3'', CHR ''4'', CHR ''5''}"
  proof -
    have "in_class [(50, 53)] a \<longleftrightarrow>
        in_class [(of_char (CHR ''2''), of_char (CHR ''2''))] a \<or> in_class [(of_char (CHR ''3''), of_char (CHR ''3''))] a \<or>
        in_class [(of_char (CHR ''4''), of_char (CHR ''4''))] a \<or> in_class [(of_char (CHR ''5''), of_char (CHR ''5''))] a"
      by (simp add: in_class_def) linarith
    then show ?thesis unfolding in_class_single by simp
  qed
  then show ?thesis unfolding REPLY_CODE_re_def mem_Times_Cls by (simp add: in_class_digit)
qed

lemma reply_code_length: "w \<in> lang REPLY_CODE_re \<Longrightarrow> length w = 3"
  unfolding REPLY_CODE_re_def mem_Times_Cls by auto

section \<open>Reading a line back\<close>

definition reply_line_wire :: "ReplyCode \<Rightarrow> bool \<Rightarrow> bytes EnhancedReplyCode option \<Rightarrow> bytes MaybeUtf8 \<Rightarrow> bytes" where
  "reply_line_wire code is_last ecode t = concat (line_as_io_slices code is_last ecode t)"

lemma reply_line_wire_eq:
  "reply_line_wire (ReplyCode a b c) is_last ecode t =
     [a, b, c] @ (if is_last then '' '' else ''-'') @
     (case ecode of Some e \<Rightarrow> ec_raw e @ '' '' | None \<Rightarrow> []) @ maybe_str t @ CRLF"
  by (cases t) (simp_all add: reply_line_wire_def line_as_io_slices_def ecode_io_slices_def split: option.split)

context grammar
begin

lemma tag_prefix: "nom_tag N t (t @ i) = Inr (i, PBytes t)"
proof -
  have "list_all (\<lambda>(a, b). a = b) (zip (t @ i) t)" by (simp add: list_all_iff in_set_zip set_zip nth_append) blast
  then show ?thesis by (simp add: compare_tag_def)
qed

lemma tag_differs: "a \<noteq> b \<Longrightarrow> nom_tag N (a # t) (b # i) = Inl Nom_Error"
  by (auto simp: compare_tag_def)

lemma reply_code_parse_word:
  assumes "valid_reply_code (ReplyCode a b c)"
  shows "reply_code_parse N X ([a, b, c] @ i) = Inr (i, PCode (ReplyCode a b c))"
proof -
  have "[a, b, c] \<in> lang REPLY_CODE_re" using assms valid_reply_code_iff by blast
  then have "apply_regex (REPLY_CODE X) ([a, b, c] @ i) = Inr (i, [a, b, c])"
    by (rule reply_code.apply_regex_fixed) (simp add: reply_code_length)
  then show ?thesis by (simp add: reply_code_parse_def regex_def reply_code_value_of_def)
qed

lemma ecode_part:
  assumes "ecode_printable e"
  shows "nom_opt N (nom_terminated N (ecode_parse N X) (nom_alt N [nom_tag N '' '', nom_peek N (nom_tag N CRLF)]))
      (ec_raw e @ '' '' @ i) = Inr (i, PSome (PECode e))"
proof -
  have raw: "ec_raw e \<in> lang EXTENDED_REPLY_CODE_re" "ecode_value (PBytes (ec_raw e)) = PECode e"
    using ecode_value_printable [OF assms] by blast+
  have "\<not> alpha EXTENDED_REPLY_CODE_re (CHR '' '')" by (simp add: ecode_alpha is_digit_def)
  from extended_reply_code.apply_regex_foreign [OF raw(1) this]
  have "apply_regex (EXTENDED_REPLY_CODE X) (ec_raw e @ CHR '' '' # i) = Inr (CHR '' '' # i, ec_raw e)" .
  then have "ecode_parse N X (ec_raw e @ CHR '' '' # i) = Inr (CHR '' '' # i, PECode e)"
    using raw(2) by (simp add: ecode_parse_def regex_def)
  with tag_prefix [of "'' ''" i] show ?thesis by (simp del: tag_law)
qed

lemma no_ecode_part:
  assumes "\<not> begins_with_ecode t" and "CR \<notin> set t"
  shows "nom_opt N (nom_terminated N (ecode_parse N X) (nom_alt N [nom_tag N '' '', nom_peek N (nom_tag N CRLF)]))
      (t @ CRLF @ i) = Inr (t @ CRLF @ i, PNone)"
proof -
  have cr: "\<not> alpha EXTENDED_REPLY_CODE_re CR" by (simp add: ecode_alpha is_digit_def)
  have "nom_terminated N (ecode_parse N X) (nom_alt N [nom_tag N '' '', nom_peek N (nom_tag N CRLF)]) (t @ CRLF @ i) =
      Inl Nom_Error"
  proof (cases "apply_regex (EXTENDED_REPLY_CODE X) (t @ CR # LF # i)")
    case (Inl x)
    with extended_reply_code.apply_regex_decided [OF foreign_dead [OF cr]] have "x = Nom_Error" by blast
    with Inl show ?thesis by (simp add: ecode_parse_def regex_def)
  next
    case (Inr x)
    then obtain rest w where x: "apply_regex (EXTENDED_REPLY_CODE X) (t @ CR # LF # i) = Inr (rest, w)" by (cases x) auto
    have "t \<notin> lang EXTENDED_REPLY_CODE_re" using assms(1) unfolding begins_with_ecode_iff by auto
    from extended_reply_code.apply_regex_inside [OF foreign_dead [OF cr] this x]
    obtain b u where b: "rest = b # u @ CR # LF # i" "t = w @ b # u" .
    have "w \<in> lang EXTENDED_REPLY_CODE_re" using x extended_reply_code.apply_regex_lang by blast
    with assms(1) b(2) have "b \<noteq> CHR '' ''" unfolding begins_with_ecode_iff by auto
    moreover have "b \<noteq> CR" using assms(2) b(2) by auto
    ultimately show ?thesis using x b(1) tag_differs [of "CHR '' ''" b "[]"] tag_differs [of CR b "[LF]"]
      by (simp add: ecode_parse_def regex_def del: tag_law)
  qed
  then show ?thesis by simp
qed

lemma reply_text_cr:
  "\<not> alpha REPLY_TEXT_ASCII_re CR" "\<not> alpha REPLY_TEXT_UTF8_re CR"
  using non_ascii_alpha [of CR] by (auto simp: REPLY_TEXT_ASCII_re_def REPLY_TEXT_UTF8_re_def in_class_def)

lemma text_printable_cr: "text_printable t \<Longrightarrow> CR \<notin> set (maybe_str t)"
  using reply_text_cr lang_alpha by (cases t) (auto simp: matches_iff)

lemma reply_text_parse_word:
  assumes "text_printable t"
  shows "reply_text_parse N X (maybe_str t @ CRLF @ i) = Inr (i, PText (read_text t))"
proof (cases "matches REPLY_TEXT_ASCII_re (maybe_str t)")
  case True
  then have "apply_regex (REPLY_TEXT_ASCII X) (maybe_str t @ CR # LF # i) = Inr (CR # LF # i, maybe_str t)"
    using reply_text_ascii.apply_regex_foreign reply_text_cr by (simp add: matches_iff)
  with True tag_prefix [of CRLF i] show ?thesis
    by (simp add: reply_text_parse_def regex_def read_text_def del: tag_law)
next
  case False
  let ?s = "maybe_str t"
  have s: "?s \<in> lang REPLY_TEXT_UTF8_re" "?s \<notin> lang REPLY_TEXT_ASCII_re"
    using assms False by (cases t; simp add: matches_iff)+
  have "CR \<notin> set ?s" by (rule text_printable_cr [OF assms])
  have ascii: "nom_terminated N (regex (REPLY_TEXT_ASCII X)) (nom_tag N CRLF) (?s @ CR # LF # i) = Inl Nom_Error"
  proof (cases "apply_regex (REPLY_TEXT_ASCII X) (?s @ CR # LF # i)")
    case (Inl x)
    with reply_text_ascii.apply_regex_decided [OF foreign_dead [OF reply_text_cr(1)]] have "x = Nom_Error" by blast
    with Inl show ?thesis by (simp add: regex_def)
  next
    case (Inr x)
    then obtain rest w where x: "apply_regex (REPLY_TEXT_ASCII X) (?s @ CR # LF # i) = Inr (rest, w)" by (cases x) auto
    from reply_text_ascii.apply_regex_inside [OF foreign_dead [OF reply_text_cr(1)] s(2) x]
    obtain b u where b: "rest = b # u @ CR # LF # i" "?s = w @ b # u" .
    with \<open>CR \<notin> set ?s\<close> have "CR \<noteq> b" by auto
    with x b tag_differs [of CR b "[LF]"] show ?thesis by (simp add: regex_def del: tag_law)
  qed
  have "apply_regex (REPLY_TEXT_UTF8 X) (?s @ CR # LF # i) = Inr (CR # LF # i, ?s)"
    using reply_text_utf8.apply_regex_foreign [OF s(1) reply_text_cr(2)] .
  with ascii False tag_prefix [of CRLF i] show ?thesis
    by (simp add: reply_text_parse_def regex_def read_text_def del: tag_law)
qed

lemma reply_line_parse_wire:
  assumes "valid_reply_code code" and "text_printable t"
    and "case ecode of Some e \<Rightarrow> ecode_printable e | None \<Rightarrow> \<not> begins_with_ecode (maybe_str t)"
  shows "reply_line_parse N X (reply_line_wire code is_last ecode t @ i) =
    Inr (i, PLine \<lparr>rl_code = code, rl_last = is_last, rl_ecode = ecode, rl_text = read_text t\<rparr>)"
proof -
  obtain a b c where code: "code = ReplyCode a b c" by (cases code)
  let ?rest = "(case ecode of Some e \<Rightarrow> ec_raw e @ '' '' | None \<Rightarrow> []) @ maybe_str t @ CRLF @ i"
  let ?sep = "nom_alt N [nom_value N (PBool False) (nom_tag N ''-''), nom_value N (PBool True) (nom_opt N (nom_tag N '' ''))]"
  let ?ecode = "nom_opt N (nom_terminated N (ecode_parse N X) (nom_alt N [nom_tag N '' '', nom_peek N (nom_tag N CRLF)]))"
  have 1: "reply_code_parse N X (reply_line_wire code is_last ecode t @ i) =
      Inr ((if is_last then '' '' else ''-'') @ ?rest, PCode code)"
    using reply_code_parse_word assms(1) unfolding code reply_line_wire_eq by simp
  have 2: "?sep ((if is_last then '' '' else ''-'') @ ?rest) = Inr (?rest, PBool is_last)"
    using tag_prefix [of "''-''" ?rest] tag_prefix [of "'' ''" ?rest] tag_differs [of "CHR ''-''" "CHR '' ''" "[]" ?rest]
    by (simp del: tag_law)
  have 3: "?ecode ?rest = Inr (maybe_str t @ CRLF @ i, case ecode of Some e \<Rightarrow> PSome (PECode e) | None \<Rightarrow> PNone)"
    using ecode_part [of _ "maybe_str t @ CRLF @ i"] no_ecode_part text_printable_cr [OF assms(2)] assms(3)
    by (cases ecode) simp_all
  have 4: "reply_text_parse N X (maybe_str t @ CRLF @ i) = Inr (i, PText (read_text t))"
    using assms(2) by (rule reply_text_parse_word)
  show ?thesis
    unfolding reply_line_parse_def map_law tuple_Cons 1 ires_bind.simps 2 3 4
    by (simp add: reply_line_value_def component_def opt_ecode_def split: option.split)
qed

lemma line_start:
  assumes "valid_reply_code code"
  shows "nom_peek N (nom_pair N (nom_take N 3) (nom_tag N ''-'')) (reply_line_wire code is_last ecode t @ i) =
    (if is_last then Inl Nom_Error
     else Inr (reply_line_wire code is_last ecode t @ i, PPair (PBytes (concat (reply_code_io_slices code))) (PBytes ''-'')))"
proof -
  obtain a b c where code: "code = ReplyCode a b c" by (cases code)
  show ?thesis unfolding code reply_line_wire_eq by (simp add: compare_tag_def)
qed

lemma continuation_lines:
  assumes "valid_reply_code code" and "list_all text_printable ts"
    and "case ecode of Some e \<Rightarrow> ecode_printable e | None \<Rightarrow> list_all (\<lambda>t. \<not> begins_with_ecode (maybe_str t)) ts"
    and "nom_peek N (nom_pair N (nom_take N 3) (nom_tag N ''-'')) i = Inl Nom_Error"
  shows "nom_many0 N (continuation_line N X) (concat (map (reply_line_wire code False ecode) ts) @ i) =
    Inr (i, PList (map (\<lambda>t. PLine \<lparr>rl_code = code, rl_last = False, rl_ecode = ecode, rl_text = read_text t\<rparr>) ts))"
  using assms(2,3)
proof (induction ts)
  case Nil
  have "continuation_line N X i = Inl Nom_Error"
    unfolding continuation_line_def preceded_law assms(4) by simp
  then show ?case by (simp add: many0_stop)
next
  case (Cons t ts)
  let ?rest = "concat (map (reply_line_wire code False ecode) ts) @ i"
  let ?line = "PLine \<lparr>rl_code = code, rl_last = False, rl_ecode = ecode, rl_text = read_text t\<rparr>"
  have "reply_line_parse N X (reply_line_wire code False ecode t @ ?rest) = Inr (?rest, ?line)"
    using Cons.prems assms(1) by (intro reply_line_parse_wire) (auto split: option.splits)
  then have step: "continuation_line N X (reply_line_wire code False ecode t @ ?rest) = Inr (?rest, ?line)"
    unfolding continuation_line_def preceded_law line_start [OF assms(1)] by simp
  have "length ?rest < length (reply_line_wire code False ecode t @ ?rest)"
    by (cases code) (simp add: reply_line_wire_eq)
  with many0_step [where p = "continuation_line N X", OF step] Cons show ?case by (auto split: option.splits)
qed

lemma reply_parse_wire:
  assumes "reply_printable r"
  shows "reply_parse N X (concat (map (reply_line_wire (rp_code r) False (rp_ecode r)) (butlast (rp_text r))) @
      reply_line_wire (rp_code r) True (rp_ecode r) (last (rp_text r)) @ i) = Inr (i, reply_as_read r)"
proof -
  let ?last = "reply_line_wire (rp_code r) True (rp_ecode r) (last (rp_text r)) @ i"
  from assms have code: "valid_reply_code (rp_code r)" and ne: "rp_text r \<noteq> []"
    and texts: "list_all text_printable (butlast (rp_text r))" "text_printable (last (rp_text r))"
    and ec: "case rp_ecode r of Some e \<Rightarrow> ecode_printable e
        | None \<Rightarrow> list_all (\<lambda>t. \<not> begins_with_ecode (maybe_str t)) (butlast (rp_text r))"
    and ec': "case rp_ecode r of Some e \<Rightarrow> ecode_printable e | None \<Rightarrow> \<not> begins_with_ecode (maybe_str (last (rp_text r)))"
    by (auto simp: reply_printable_def list_all_iff in_set_butlastD split: option.splits)
  have "nom_peek N (nom_pair N (nom_take N 3) (nom_tag N ''-'')) ?last = Inl Nom_Error"
    using line_start [OF code] by simp
  note many = continuation_lines [OF code texts(1) ec this]
  note last = reply_line_parse_wire [OF code texts(2) ec']
  have "line_texts (map (\<lambda>t. PLine \<lparr>rl_code = rp_code r, rl_last = False, rl_ecode = rp_ecode r, rl_text = read_text t\<rparr>) ts) = map read_text ts" for ts
    by (induction ts) (simp_all add: line_texts_def List.map_filter_def)
  moreover have "map read_text (butlast (rp_text r)) @ [read_text (last (rp_text r))] = map read_text (rp_text r)"
    using append_butlast_last_id [OF ne] by (metis list.simps(8,9) map_append)
  ultimately show ?thesis
    unfolding reply_parse_def reply_parse_pv_def map_law pair_law many ires_bind.simps verify_law last
    by (simp add: reply_value_def ires_extract_def get_reply_def reply_as_read_def)
qed

text \<open>No closure of the grammar panics: the expressions allow no text on which one would.\<close>

lemma reply_code_no_panic: "reply_code_parse N X i \<noteq> Inr (rest, PPanic)"
proof
  assume "reply_code_parse N X i = Inr (rest, PPanic)"
  then obtain w where "apply_regex (REPLY_CODE X) i = Inr (rest, w)" "reply_code_value_of (PBytes w) = PPanic"
    by (auto simp: reply_code_parse_def regex_def ires_map_Inr)
  then show False
    using reply_code.apply_regex_lang reply_code_length by (fastforce simp: reply_code_value_of_def split: if_splits)
qed

lemma ecode_no_panic: "ecode_parse N X i \<noteq> Inr (rest, PPanic)"
proof
  assume "ecode_parse N X i = Inr (rest, PPanic)"
  then obtain w where w: "apply_regex (EXTENDED_REPLY_CODE X) i = Inr (rest, w)" "ecode_value (PBytes w) = PPanic"
    by (auto simp: ecode_parse_def regex_def ires_map_Inr)
  from w(1) have "w \<in> lang EXTENDED_REPLY_CODE_re" using extended_reply_code.apply_regex_lang by blast
  then show False unfolding lang_ecode using ecode_value_word w(2) by fastforce
qed

end

text \<open>The slices of a reply, joined.\<close>

lemma concat_concat: "concat (concat xss) = concat (map concat xss)"
  by (induction xss) auto

lemma reply_io_slices_wire:
  assumes "rp_text r \<noteq> []"
  shows "\<exists>slices. reply_io_slices r = Value slices \<and>
    concat slices = concat (map (reply_line_wire (rp_code r) False (rp_ecode r)) (butlast (rp_text r))) @
      reply_line_wire (rp_code r) True (rp_ecode r) (last (rp_text r))"
proof -
  let ?line = "\<lambda>n (k, l). line_as_io_slices (rp_code r) (k = n) (rp_ecode r) l"
  obtain ts t where r: "rp_text r = ts @ [t]" using assms by (metis append_butlast_last_id)
  have "concat (concat (map (?line (length ts)) (zip [0..<length ts] ts))) =
      concat (map (reply_line_wire (rp_code r) False (rp_ecode r)) ts)"
  proof -
    have "map (?line (length ts)) (zip [0..<length ts] ts) = map (\<lambda>l. line_as_io_slices (rp_code r) False (rp_ecode r) l) ts"
      by (rule nth_equalityI) auto
    then show ?thesis by (simp add: concat_concat reply_line_wire_def o_def cong: map_cong)
  qed
  then show ?thesis using r by (simp add: reply_io_slices_def Let_def reply_line_wire_def)
qed

section \<open>Print and parse\<close>

text \<open>
  Claim C10. A reply whose parts the grammar allows is read back from its printed form by
  \<^verbatim>\<open>Reply::parse\<close>, whatever follows it: the same code, enhanced code and lines, and exactly the
  printed bytes are taken. A line comes back tagged as ASCII or UTF-8 by its bytes. Printing it
  does not panic.
\<close>

theorem reply_round_trip:
  assumes "grammar N X" and "reply_printable r"
  shows "\<exists>slices. reply_io_slices r = Value slices \<and> reply_parse N X (concat slices @ i) = Inr (i, reply_as_read r)"
proof -
  have "rp_text r \<noteq> []" using assms(2) by (simp add: reply_printable_def)
  with reply_io_slices_wire grammar.reply_parse_wire [OF assms] show ?thesis by fastforce
qed

lemma reply_round_trip_witness:
  "\<exists>slices. reply_io_slices okay_rset = Value slices \<and>
     reply_parse nom_ref (lexers_ref Some) (concat slices @ ''rest'') = Inr (''rest'', reply_as_read okay_rset)"
proof (rule reply_round_trip)
  show "grammar nom_ref (lexers_ref Some)" by (rule grammar_ref.grammar_axioms)
  show "reply_printable okay_rset"
    unfolding reply_printable_def okay_rset_def okay_def
    by (simp add: ascii_text_printable stock_ecodes reply_code_consts is_digit_def del: text_printable.simps)
qed

end
