(* ===== verification/CommandParsing.thy ===== *)
theory CommandParsing
  imports ReplyParsing
begin

text \<open>
  Commands: what \<^verbatim>\<open>Command::parse\<close> makes of the printed form of a command. The parts are taken in
  turn: host names, local parts, addresses, routes, parameters.
\<close>

section \<open>Host names\<close>

fun hostname_printable :: "(bytes \<Rightarrow> bytes option) \<Rightarrow> bytes Hostname \<Rightarrow> bool" where
  "hostname_printable to_ascii (AsciiDomain raw) \<longleftrightarrow> matches HOSTNAME_ASCII_re raw \<and> raw ! 0 \<noteq> CHR ''[''"
| "hostname_printable to_ascii (Utf8Domain raw punycode) \<longleftrightarrow>
     matches HOSTNAME_UTF8_re raw \<and> \<not> matches HOSTNAME_ASCII_re raw \<and> to_ascii raw = Some punycode"
| "hostname_printable to_ascii (Ipv6 raw ip) \<longleftrightarrow>
     matches HOSTNAME_ASCII_re raw \<and> raw ! 0 = CHR ''['' \<and> raw ! 1 = CHR ''I'' \<and>
     ipv6_parse (subslice raw 6 (length raw - 1)) = Some ip"
| "hostname_printable to_ascii (Ipv4 raw ip) \<longleftrightarrow>
     matches HOSTNAME_ASCII_re raw \<and> raw ! 0 = CHR ''['' \<and> raw ! 1 \<noteq> CHR ''I'' \<and>
     ipv4_parse (subslice raw 1 (length raw - 1)) = Some ip"

definition Domain_re :: re where
  "Domain_re = Times Domain_label (Star (Times (Lit ''.'') Domain_label))"

text \<open>A word is a domain, or is between brackets with no closing bracket inside.\<close>

lemma hostname_ascii_cases:
  assumes "w \<in> lang HOSTNAME_ASCII_re"
  obtains "w \<in> lang Domain_re"
  | m where "w = ''[IPv6:'' @ m @ '']''" "m \<noteq> []" "CHR '']'' \<notin> set m"
  | m where "w = ''['' @ m @ '']''" "m \<noteq> []" "CHR '']'' \<notin> set m" "hd m \<noteq> CHR ''I''"
proof -
  from assms consider "w \<in> lang Domain_re"
    | m where "w = ''[IPv6:'' @ m @ '']''" "m \<in> lang (Plus1 (Cls [(58, 58), (46, 46), (48, 57), (65, 70), (97, 102)]))"
    | m where "w = ''['' @ m @ '']''" "m \<in> lang (Plus1 (Cls [(46, 46), (48, 57)]))"
    unfolding HOSTNAME_ASCII_re_def Domain_re_def lang.simps(4) Un_iff mem_Times_Lit mem_Times [of _ "Plus1 _"] lang_Lit by blast
  then show ?thesis
  proof cases
    case (2 m)
    then have "m \<noteq> []" "CHR '']'' \<notin> set m" by (auto simp: lang_Plus1_Cls in_class_def)
    with 2(1) that(2) show ?thesis by blast
  next
    case (3 m)
    then have m: "m \<noteq> []" "\<forall>c \<in> set m. in_class [(46, 46), (48, 57)] c" by (simp_all add: lang_Plus1_Cls)
    then have "in_class [(46, 46), (48, 57)] (hd m)" by simp
    then have "hd m \<noteq> CHR ''I''" by (auto simp: in_class_def)
    moreover have "CHR '']'' \<notin> set m" using m(2) by (auto simp: in_class_def)
    moreover note m(1)
    ultimately have "m \<noteq> []" "CHR '']'' \<notin> set m" "hd m \<noteq> CHR ''I''" by blast+
    with 3(1) that(3) show ?thesis by blast
  qed (rule that(1))
qed

definition domain_byte :: "byte \<Rightarrow> bool" where
  "domain_byte c \<longleftrightarrow> in_class alnum c \<or> c = CHR ''-'' \<or> c = DOT"

lemma domain_alpha: "alpha Domain_re c \<Longrightarrow> domain_byte c"
proof -
  have "alpha (Lit ''.'') c \<longleftrightarrow> c = DOT" using in_class_single [of DOT c] by (simp add: Lit_def)
  moreover have "in_class ((45, 45) # alnum) c \<Longrightarrow> domain_byte c"
    using in_class_single [of "CHR ''-''" c] by (auto simp: in_class_def domain_byte_def)
  ultimately show "alpha Domain_re c \<Longrightarrow> domain_byte c"
    by (auto simp: Domain_re_def Domain_label_def Opt_re_def domain_byte_def)
qed

lemma domain_starts: "w \<in> lang Domain_re \<Longrightarrow> w \<noteq> [] \<and> in_class alnum (hd w)"
  unfolding Domain_re_def Domain_label_def mem_Times [of _ _ "Star _"] mem_Times_Cls by auto

lemma hostname_bracketed:
  assumes "w \<in> lang HOSTNAME_ASCII_re"
  obtains "w \<in> lang Domain_re" | m where "w = ''['' @ m @ '']''" "CHR '']'' \<notin> set m"
  using assms
proof (cases rule: hostname_ascii_cases)
  case (2 m)
  then show ?thesis using that(2) [of "''IPv6:'' @ m"] by simp
qed (use that in blast)+

lemma hostname_ascii_dead:
  assumes "w \<noteq> []" and "hd w = CHR ''['' \<Longrightarrow> w \<in> lang HOSTNAME_ASCII_re" and "\<not> domain_byte c"
  shows "w @ c # v \<notin> lang HOSTNAME_ASCII_re"
proof
  assume "w @ c # v \<in> lang HOSTNAME_ASCII_re"
  then show False
  proof (cases rule: hostname_bracketed)
    case 1
    then have "alpha Domain_re c" by (rule lang_alpha) simp
    with assms(3) domain_alpha show False by blast
  next
    case (2 m)
    have hd: "hd w = CHR ''[''" using 2(1) assms(1) by (cases w) auto
    with assms(2) have "w \<in> lang HOSTNAME_ASCII_re" by blast
    then obtain m' where "w = ''['' @ m' @ '']''"
      using hd by (cases rule: hostname_bracketed) (auto dest: domain_starts simp: alnum_def in_class_def)
    with 2 show False
      by (auto simp: append_eq_append_conv2 append_eq_Cons_conv Cons_eq_append_conv)
  qed
qed

lemma hostname_ascii_nonempty: "w \<in> lang HOSTNAME_ASCII_re \<Longrightarrow> w \<noteq> []"
  by (cases rule: hostname_ascii_cases) (auto dest: domain_starts)

text \<open>A byte that can end a host name: no byte of one.\<close>

definition ends_hostname :: "byte \<Rightarrow> bool" where
  "ends_hostname c \<longleftrightarrow> \<not> alpha HOSTNAME_UTF8_re c"

lemma ends_hostname_iff: "ends_hostname c \<longleftrightarrow> \<not> domain_byte c \<and> \<not> alpha non_ascii c"
proof -
  have "in_class ([(45, 45), (46, 46)] @ alnum) c \<longleftrightarrow> domain_byte c"
    using in_class_single [of "CHR ''-''" c] in_class_single [of DOT c]
    by (auto simp: in_class_def domain_byte_def)
  then show ?thesis by (simp add: ends_hostname_def HOSTNAME_UTF8_re_def Plus1_def)
qed

lemma terminators_end_hostname:
  "ends_hostname (CHR '' '')" "ends_hostname TAB" "ends_hostname CR" "ends_hostname (CHR ''>'')"
  "ends_hostname (CHR '':'')" "ends_hostname (CHR '','')"
proof -
  have "\<not> alpha non_ascii c" if "(of_char c :: nat) < 128" for c using non_ascii_alpha [of c] that by auto
  then show "ends_hostname (CHR '' '')" "ends_hostname TAB" "ends_hostname CR" "ends_hostname (CHR ''>'')"
    "ends_hostname (CHR '':'')" "ends_hostname (CHR '','')"
    by (simp_all add: ends_hostname_iff domain_byte_def in_class_def alnum_def)
qed

lemma hostname_utf8_nonempty: "w \<in> lang HOSTNAME_UTF8_re \<Longrightarrow> w \<noteq> []"
proof -
  have "[] \<notin> lang non_ascii" by (auto simp: non_ascii_def Let_def)
  then show "w \<in> lang HOSTNAME_UTF8_re \<Longrightarrow> w \<noteq> []" unfolding HOSTNAME_UTF8_re_def Plus1_def mem_Times by auto
qed

lemma hostname_utf8_bytes: "w \<in> lang HOSTNAME_UTF8_re \<Longrightarrow> b \<in> set w \<Longrightarrow> \<not> ends_hostname b"
  unfolding ends_hostname_def using lang_alpha by blast

lemma hostname_ascii_value_word:
  assumes "w \<in> lang HOSTNAME_ASCII_re"
  shows "hostname_ascii_value (\<lambda>_. True) (PBytes w) \<noteq> Some PPanic"
  using assms
proof (cases rule: hostname_ascii_cases)
  case 1
  with domain_starts [of w] show ?thesis by (cases w) (auto simp: alnum_def in_class_def)
next
  case (2 m)
  then show ?thesis by (cases m) (auto split: if_splits)
next
  case (3 m)
  then show ?thesis by (cases m) (auto split: if_splits)
qed

lemma hostname_printable_value:
  assumes "hostname_printable to_ascii h" and "\<nexists>raw p. h = Utf8Domain raw p"
  shows "hostname_raw h \<in> lang HOSTNAME_ASCII_re \<and>
    hostname_ascii_value (\<lambda>_. True) (PBytes (hostname_raw h)) = Some (PHostname h)"
proof -
  have w: "hostname_raw h \<in> lang HOSTNAME_ASCII_re" using assms by (cases h) (auto simp: matches_iff)
  then have "hostname_raw h \<noteq> []" by (rule hostname_ascii_nonempty)
  moreover have "hostname_ascii_value (\<lambda>_. True) (PBytes (hostname_raw h)) \<noteq> Some PPanic"
    using w by (rule hostname_ascii_value_word)
  ultimately have "hostname_ascii_value (\<lambda>_. True) (PBytes (hostname_raw h)) = Some (PHostname h)"
    using assms by (cases h) (auto split: if_splits)
  with w show ?thesis by blast
qed

context grammar
begin

lemma terminate_hit: "c \<in> set term \<Longrightarrow> terminate N term (c # i) = Inr (c # i, PChar c)"
  by (simp add: terminate_def)

lemma terminate_miss: "c \<notin> set term \<Longrightarrow> terminate N term (c # i) = Inl Nom_Error"
  by (simp add: terminate_def)

lemma ascii_hostname_rejected:
  assumes "matches HOSTNAME_UTF8_re s" and "\<not> matches HOSTNAME_ASCII_re s" and "c \<in> set term" and "\<forall>c \<in> set term. ends_hostname c"
  shows "nom_terminated N (regex (HOSTNAME_ASCII X)) (terminate N term) (s @ c # i) = Inl Nom_Error"
proof -
  have s: "s \<in> lang HOSTNAME_UTF8_re" "s \<notin> lang HOSTNAME_ASCII_re" using assms(1,2) by (simp_all add: matches_iff)
  note bytes = hostname_utf8_bytes [OF s(1)] and ne = hostname_utf8_nonempty [OF s(1)]
  have "hd s \<noteq> CHR ''[''" using bytes [of "hd s"] ne non_ascii_alpha [of "CHR ''[''"]
    by (auto simp: ends_hostname_iff domain_byte_def in_class_def alnum_def)
  then have dead: "s @ c # v \<notin> lang HOSTNAME_ASCII_re" for v
    using assms(3,4) ne by (intro hostname_ascii_dead) (auto simp: ends_hostname_iff)
  show ?thesis
  proof (cases "apply_regex (HOSTNAME_ASCII X) (s @ c # i)")
    case (Inl x)
    with hostname_ascii.apply_regex_decided [OF dead] have "x = Nom_Error" by blast
    with Inl show ?thesis by (simp add: regex_def)
  next
    case (Inr x)
    then obtain rest w where x: "apply_regex (HOSTNAME_ASCII X) (s @ c # i) = Inr (rest, w)" by (cases x) auto
    from hostname_ascii.apply_regex_inside [OF dead s(2) x]
    obtain b u where b: "rest = b # u @ c # i" "s = w @ b # u" .
    with bytes assms(4) have "b \<notin> set term" by auto
    with x b terminate_miss show ?thesis by (simp add: regex_def)
  qed
qed

lemma hostname_parse_until_raw:
  assumes "hostname_printable (idna_to_ascii X) h" and "c \<in> set term" and "\<forall>c \<in> set term. ends_hostname c"
  shows "hostname_parse_until N X term (hostname_raw h @ c # i) = Inr (c # i, PHostname h)"
proof (cases "\<exists>raw p. h = Utf8Domain raw p")
  case True
  then obtain raw p where h: "h = Utf8Domain raw p" by blast
  with assms(1) have raw: "matches HOSTNAME_UTF8_re raw" "\<not> matches HOSTNAME_ASCII_re raw" "idna_to_ascii X raw = Some p"
    by simp_all
  have "\<not> alpha HOSTNAME_UTF8_re c" using assms(2,3) by (auto simp: ends_hostname_def)
  with raw(1) hostname_utf8.apply_regex_foreign
  have "apply_regex (HOSTNAME_UTF8 X) (raw @ c # i) = Inr (c # i, raw)" by (simp add: matches_iff)
  then show ?thesis
    using ascii_hostname_rejected [OF raw(1,2) assms(2,3)] terminate_hit [OF assms(2)] raw(3) h
    by (simp add: hostname_parse_until_def parse_hostname_def regex_def)
next
  case False
  with hostname_printable_value [OF assms(1)]
  have raw: "hostname_raw h \<in> lang HOSTNAME_ASCII_re"
    "hostname_ascii_value (\<lambda>_. True) (PBytes (hostname_raw h)) = Some (PHostname h)" by blast+
  have "\<not> domain_byte c" using assms(2,3) by (auto simp: ends_hostname_iff)
  with raw(1) have "apply_regex (HOSTNAME_ASCII X) (hostname_raw h @ c # i) = Inr (c # i, hostname_raw h)"
    by (intro hostname_ascii.apply_regex_stop [OF raw(1) refl] hostname_ascii_dead hostname_ascii_nonempty)
  then show ?thesis
    using terminate_hit [OF assms(2)] raw(2)
    by (simp add: hostname_parse_until_def parse_hostname_def regex_def del: hostname_ascii_value.simps)
qed

lemma hostname_no_panic: "hostname_parse_until N X term i \<noteq> Inr (rest, PPanic)"
proof
  assume "hostname_parse_until N X term i = Inr (rest, PPanic)"
  then obtain w where "apply_regex (HOSTNAME_ASCII X) i = Inr (rest, w)" "hostname_ascii_value (\<lambda>_. True) (PBytes w) = Some PPanic"
    by (auto simp: hostname_parse_until_def parse_hostname_def regex_def terminate_def or_else_def ires_bind_Inr ires_map_Inr
        split: if_splits option.splits list.splits simp del: hostname_ascii_value.simps)
  with hostname_ascii.apply_regex_lang hostname_ascii_value_word show False by blast
qed

end

section \<open>Local parts\<close>

fun localpart_printable :: "bytes Localpart \<Rightarrow> bool" where
  "localpart_printable (Lp_Ascii raw) \<longleftrightarrow> matches LOCALPART_ASCII_re raw \<and> raw ! 0 \<noteq> QUOTE"
| "localpart_printable (Lp_QuotedAscii raw) \<longleftrightarrow> matches LOCALPART_ASCII_re raw \<and> raw ! 0 = QUOTE"
| "localpart_printable (Lp_Utf8 raw) \<longleftrightarrow>
     matches LOCALPART_UTF8_re raw \<and> \<not> matches LOCALPART_ASCII_re raw \<and> raw ! 0 \<noteq> QUOTE"
| "localpart_printable (Lp_QuotedUtf8 raw) \<longleftrightarrow>
     matches LOCALPART_UTF8_re raw \<and> \<not> matches LOCALPART_ASCII_re raw \<and> raw ! 0 = QUOTE"

text \<open>The first byte of a UTF-8 sequence tells its length.\<close>

definition utf8_length :: "byte \<Rightarrow> nat" where
  "utf8_length c = (if (of_char c :: nat) < 224 then 2 else if (of_char c :: nat) < 240 then 3 else 4)"

lemma non_ascii_word: "w \<in> lang non_ascii \<Longrightarrow> w \<noteq> [] \<and> length w = utf8_length (hd w) \<and> 128 \<le> (of_char (hd w) :: nat)"
proof -
  assume w: "w \<in> lang non_ascii"
  then have "w \<noteq> [] \<and> length w = utf8_length (hd w)"
    unfolding non_ascii_def Let_def lang.simps(4) Un_iff mem_Times_Cls
    by (elim disjE exE conjE) (auto simp: in_class_def utf8_length_def)
  moreover from this have "alpha non_ascii (hd w)" using lang_alpha [OF w, of "hd w"] by simp
  ultimately show ?thesis using non_ascii_alpha by blast
qed

lemma prefix_free_non_ascii: "prefix_free (lang non_ascii)"
  using non_ascii_word by (intro prefix_free_length [where f = utf8_length]) blast

lemma prefix_free_cls_non_ascii:
  assumes "\<And>c. in_class rs c \<Longrightarrow> (of_char c :: nat) < 128"
  shows "prefix_free (lang (Plus (Cls rs) non_ascii))"
  unfolding lang.simps(4) using assms non_ascii_word
  by (intro prefix_free_Un prefix_free_Cls prefix_free_non_ascii) fastforce

lemma quoted_words:
  "w \<in> lang (Quoted_string p e) \<longleftrightarrow>
     (\<exists>ws. w = [QUOTE] @ concat ws @ [QUOTE] \<and> ws \<noteq> [] \<and> set ws \<subseteq> lang p \<union> {[BACKSLASH] @ x |x. x \<in> lang e})"
  unfolding Quoted_string_def mem_Times_Lit mem_Times [of _ "Plus1 _"] lang_Lit lang_Plus1 lang.simps(4) by auto

lemma quoted_prefix_free:
  assumes "prefix_free (lang p)" and "prefix_free (lang e)"
    and "\<And>w. w \<in> lang p \<Longrightarrow> w \<noteq> [] \<and> hd w \<noteq> QUOTE \<and> hd w \<noteq> BACKSLASH"
  shows "prefix_free (lang (Quoted_string p e))"
proof -
  let ?items = "lang p \<union> {[BACKSLASH] @ x |x. x \<in> lang e}"
  have "prefix_free ?items"
    using assms by (intro prefix_free_Un prefix_free_Lit) auto
  then have "prefix_free {concat ws @ [QUOTE] |ws. set ws \<subseteq> ?items}"
    using assms(3) by (intro prefix_free_closed) auto
  then have "prefix_free {[QUOTE] @ w |w. w \<in> {concat ws @ [QUOTE] |ws. set ws \<subseteq> ?items}}" by (rule prefix_free_Lit)
  moreover have "lang (Quoted_string p e) \<subseteq> {[QUOTE] @ w |w. w \<in> {concat ws @ [QUOTE] |ws. set ws \<subseteq> ?items}}"
  proof
    fix w assume "w \<in> lang (Quoted_string p e)"
    then obtain ws where "w = [QUOTE] @ (concat ws @ [QUOTE])" "set ws \<subseteq> ?items" unfolding quoted_words by auto
    then show "w \<in> {[QUOTE] @ w |w. w \<in> {concat ws @ [QUOTE] |ws. set ws \<subseteq> ?items}}" by blast
  qed
  ultimately show ?thesis by (rule prefix_free_subset)
qed

definition Dot_string :: re where
  "Dot_string = Times (Plus1 (Plus (Cls atext_range) non_ascii))
     (Star (Times (Lit ''.'') (Plus1 (Plus (Cls atext_range) non_ascii))))"

definition Quoted_utf8 :: re where
  "Quoted_utf8 = Quoted_string (Plus (Cls quoted_text) non_ascii) (Plus (Cls printable) non_ascii)"

lemma localpart_utf8_words: "w \<in> lang LOCALPART_UTF8_re \<longleftrightarrow> w \<in> lang Quoted_utf8 \<or> w \<in> lang Dot_string"
  by (simp add: LOCALPART_UTF8_re_def Quoted_utf8_def Dot_string_def)

lemma localpart_ascii_utf8: "lang LOCALPART_ASCII_re \<subseteq> lang LOCALPART_UTF8_re"
proof -
  have "lang (Cls atext) \<subseteq> lang (Plus (Cls atext_range) non_ascii)"
    by (auto simp: in_class_def atext_def atext_range_def)
  then show ?thesis
    unfolding LOCALPART_ASCII_re_def LOCALPART_UTF8_re_def Quoted_string_def
    by (intro lang_mono) auto
qed

definition ends_localpart :: "byte \<Rightarrow> bool" where
  "ends_localpart c \<longleftrightarrow> \<not> alpha Dot_string c"

lemma dot_string_alpha: "alpha Dot_string c \<longleftrightarrow> in_class atext_range c \<or> alpha non_ascii c"
proof -
  have "alpha (Lit ''.'') c \<Longrightarrow> in_class atext_range c"
    by (auto simp: Lit_def in_class_def atext_range_def)
  then show ?thesis by (auto simp: Dot_string_def Plus1_def)
qed

lemma terminators_end_localpart:
  "ends_localpart (CHR '' '')" "ends_localpart TAB" "ends_localpart CR" "ends_localpart (CHR ''>'')"
  "ends_localpart (CHR ''@'')" "ends_localpart QUOTE"
proof -
  have "\<not> alpha non_ascii c" if "(of_char c :: nat) < 128" for c using non_ascii_alpha [of c] that by auto
  then show "ends_localpart (CHR '' '')" "ends_localpart TAB" "ends_localpart CR" "ends_localpart (CHR ''>'')"
    "ends_localpart (CHR ''@'')" "ends_localpart QUOTE"
    by (simp_all add: ends_localpart_def dot_string_alpha in_class_def alnum_def atext_range_def)
qed

lemma quoted_utf8_free: "prefix_free (lang Quoted_utf8)"
proof -
  have "w \<noteq> [] \<and> hd w \<noteq> QUOTE \<and> hd w \<noteq> BACKSLASH" if "w \<in> lang (Plus (Cls quoted_text) non_ascii)" for w
    using that non_ascii_word [of w] by (auto simp: in_class_def quoted_text_def)
  then show ?thesis unfolding Quoted_utf8_def
    by (intro quoted_prefix_free prefix_free_cls_non_ascii) (auto simp: in_class_def quoted_text_def printable_def)
qed

lemma quoted_utf8_starts: "w \<in> lang Quoted_utf8 \<Longrightarrow> w \<noteq> [] \<and> hd w = QUOTE"
  unfolding Quoted_utf8_def quoted_words by auto

lemma dot_string_starts: "w \<in> lang Dot_string \<Longrightarrow> w \<noteq> [] \<and> hd w \<noteq> QUOTE"
proof -
  assume w: "w \<in> lang Dot_string"
  then have "w \<noteq> []" using non_ascii_word unfolding Dot_string_def Plus1_def by auto
  with lang_alpha [OF w, of "hd w"] terminators_end_localpart(6) show ?thesis by (auto simp: ends_localpart_def)
qed

lemma localpart_dead:
  assumes "w \<in> lang LOCALPART_UTF8_re" and "ends_localpart c"
  shows "w @ c # v \<notin> lang LOCALPART_UTF8_re"
proof (cases "hd w = QUOTE")
  case True
  with assms(1) have w: "w \<in> lang Quoted_utf8" unfolding localpart_utf8_words using dot_string_starts by blast
  then have "hd (w @ c # v) = QUOTE" using quoted_utf8_starts by auto
  with prefix_free_dead [OF quoted_utf8_free w] show ?thesis
    unfolding localpart_utf8_words using dot_string_starts by blast
next
  case False
  then have "hd (w @ c # v) \<noteq> QUOTE" using assms(1) quoted_utf8_starts dot_string_starts
    unfolding localpart_utf8_words by auto
  moreover have "w @ c # v \<notin> lang Dot_string" using assms(2) by (intro foreign_dead) (simp add: ends_localpart_def)
  ultimately show ?thesis unfolding localpart_utf8_words using quoted_utf8_starts by blast
qed

text \<open>
  A printable local part is a word of one of the expressions; the ASCII one does not stop at a
  terminator inside a word of the other.
\<close>

lemma localpart_printable_word: "localpart_printable l \<Longrightarrow> localpart_raw l \<in> lang LOCALPART_UTF8_re"
  using localpart_ascii_utf8 by (cases l) (auto simp: matches_iff)

lemma localpart_nonempty: "w \<in> lang LOCALPART_UTF8_re \<Longrightarrow> w \<noteq> []"
  unfolding localpart_utf8_words using dot_string_starts quoted_utf8_starts by blast

lemma localpart_ascii_inside:
  assumes "s \<in> lang LOCALPART_UTF8_re" and "s \<notin> lang LOCALPART_ASCII_re" and "w \<in> lang LOCALPART_ASCII_re" and "s = w @ b # u"
  shows "\<not> ends_localpart b"
proof (cases "hd s = QUOTE")
  case True
  then have s: "s \<in> lang Quoted_utf8" using assms(1) dot_string_starts unfolding localpart_utf8_words by blast
  have "w \<in> lang LOCALPART_UTF8_re" using assms(3) localpart_ascii_utf8 by blast
  moreover from this have "hd w = QUOTE" using True assms(4) localpart_nonempty by auto
  ultimately have "w \<in> lang Quoted_utf8" using dot_string_starts unfolding localpart_utf8_words by blast
  from prefix_free_dead [OF quoted_utf8_free this] s assms(4) show ?thesis by blast
next
  case False
  then have "s \<in> lang Dot_string" using assms(1) quoted_utf8_starts unfolding localpart_utf8_words by blast
  then have "alpha Dot_string b" using assms(4) by (intro lang_alpha) auto
  then show ?thesis by (simp add: ends_localpart_def)
qed

context grammar
begin

lemma ascii_localpart_rejected:
  assumes "s \<in> lang LOCALPART_UTF8_re" and "s \<notin> lang LOCALPART_ASCII_re" and "c \<in> set term" and "\<forall>c \<in> set term. ends_localpart c"
  shows "nom_terminated N (regex (LOCALPART_ASCII X)) (terminate N term) (s @ c # i) = Inl Nom_Error"
proof -
  have dead: "s @ c # v \<notin> lang LOCALPART_ASCII_re" for v
    using localpart_dead [OF assms(1)] assms(3,4) localpart_ascii_utf8 by blast
  show ?thesis
  proof (cases "apply_regex (LOCALPART_ASCII X) (s @ c # i)")
    case (Inl x)
    with localpart_ascii.apply_regex_decided [OF dead] have "x = Nom_Error" by blast
    with Inl show ?thesis by (simp add: regex_def)
  next
    case (Inr x)
    then obtain rest w where x: "apply_regex (LOCALPART_ASCII X) (s @ c # i) = Inr (rest, w)" by (cases x) auto
    from localpart_ascii.apply_regex_inside [OF dead assms(2) x]
    obtain b u where b: "rest = b # u @ c # i" "s = w @ b # u" .
    have "w \<in> lang LOCALPART_ASCII_re" using x localpart_ascii.apply_regex_lang by blast
    with localpart_ascii_inside [OF assms(1,2)] b(2) assms(4) have "b \<notin> set term" by blast
    with x b terminate_miss show ?thesis by (simp add: regex_def)
  qed
qed

lemma localpart_parse_until_raw:
  assumes "localpart_printable l" and "c \<in> set term" and "\<forall>c \<in> set term. ends_localpart c"
  shows "localpart_parse_until N X term (localpart_raw l @ c # i) = Inr (c # i, PLocalpart l)"
proof -
  let ?s = "localpart_raw l"
  have s: "?s \<in> lang LOCALPART_UTF8_re" using assms(1) by (rule localpart_printable_word)
  then have ne: "?s \<noteq> []" by (rule localpart_nonempty)
  have dead: "?s @ c # v \<notin> lang LOCALPART_UTF8_re" for v using localpart_dead [OF s] assms(2,3) by blast
  show ?thesis
  proof (cases "?s \<in> lang LOCALPART_ASCII_re")
    case True
    with dead localpart_ascii_utf8 have "apply_regex (LOCALPART_ASCII X) (?s @ c # i) = Inr (c # i, ?s)"
      by (intro localpart_ascii.apply_regex_stop) auto
    moreover have "localpart_value Lp_Ascii Lp_QuotedAscii (PBytes ?s) = PLocalpart l"
      using True assms(1) ne by (cases l) (auto simp: matches_iff)
    ultimately show ?thesis using terminate_hit [OF assms(2)]
      by (simp add: localpart_parse_until_def regex_def del: localpart_value.simps)
  next
    case False
    have "apply_regex (LOCALPART_UTF8 X) (?s @ c # i) = Inr (c # i, ?s)"
      using s dead by (intro localpart_utf8.apply_regex_stop) auto
    moreover have "localpart_value Lp_Utf8 Lp_QuotedUtf8 (PBytes ?s) = PLocalpart l"
      using False assms(1) ne by (cases l) (auto simp: matches_iff)
    ultimately show ?thesis using terminate_hit [OF assms(2)] ascii_localpart_rejected [OF s False assms(2,3)]
      by (simp add: localpart_parse_until_def regex_def del: localpart_value.simps)
  qed
qed

lemma localpart_no_panic: "localpart_parse_until N X term i \<noteq> Inr (rest, PPanic)"
proof
  assume "localpart_parse_until N X term i = Inr (rest, PPanic)"
  then obtain w where "apply_regex (LOCALPART_ASCII X) i = Inr (rest, w) \<or> apply_regex (LOCALPART_UTF8 X) i = Inr (rest, w)" "w = []"
    by (auto simp: localpart_parse_until_def regex_def terminate_def or_else_def ires_bind_Inr ires_map_Inr
        split: if_splits list.splits)
  then show False
    using localpart_ascii.apply_regex_lang localpart_utf8.apply_regex_lang localpart_ascii_utf8 localpart_nonempty by blast
qed

end

section \<open>Addresses and routes\<close>

definition email_printable :: "(bytes \<Rightarrow> bytes option) \<Rightarrow> bytes Email \<Rightarrow> bool" where
  "email_printable to_ascii e \<longleftrightarrow> localpart_printable (em_localpart e) \<and>
     (case em_hostname e of Some h \<Rightarrow> hostname_printable to_ascii h | None \<Rightarrow> True)"

definition path_printable :: "(bytes \<Rightarrow> bytes option) \<Rightarrow> bytes Path \<Rightarrow> bool" where
  "path_printable to_ascii p \<longleftrightarrow> domains p \<noteq> [] \<and> list_all (hostname_printable to_ascii) (domains p)"

abbreviation email_wire :: "bytes Email \<Rightarrow> bytes" where
  "email_wire e \<equiv> localpart_raw (em_localpart e) @
     (case em_hostname e of Some h \<Rightarrow> CHR ''@'' # hostname_raw h | None \<Rightarrow> [])"

lemma email_slices: "concat (email_io_slices e) = email_wire e"
  by (simp add: email_wire split: option.split)

context grammar
begin

lemma email_parse_until_wire:
  assumes "email_printable (idna_to_ascii X) e" and "c \<in> set t" and "set ta = insert (CHR ''@'') (set t)"
    and "\<forall>c \<in> set t. ends_hostname c \<and> ends_localpart c \<and> c \<noteq> CHR ''@''"
  shows "email_parse_until N X t ta (email_wire e @ c # i) = Inr (c # i, PEmail e)"
proof -
  obtain l h where e: "e = \<lparr>em_localpart = l, em_hostname = h\<rparr>" by (cases e)
  have ends: "\<forall>c \<in> set ta. ends_localpart c" using assms(3,4) terminators_end_localpart(5) by auto
  have l: "localpart_printable l" using assms(1) e by (simp add: email_printable_def)
  show ?thesis
  proof (cases h)
    case None
    have "localpart_parse_until N X ta (localpart_raw l @ c # i) = Inr (c # i, PLocalpart l)"
      using l ends assms(2,3) by (intro localpart_parse_until_raw) auto
    moreover have "nom_tag N ''@'' (c # i) = Inl Nom_Error" using assms(2,4) by (intro tag_differs) auto
    ultimately show ?thesis using e None by (simp add: email_parse_until_def email_value_def del: tag_law)
  next
    case (Some h')
    let ?rest = "hostname_raw h' @ c # i"
    have "localpart_parse_until N X ta (localpart_raw l @ CHR ''@'' # ?rest) = Inr (CHR ''@'' # ?rest, PLocalpart l)"
      using l ends assms(3) by (intro localpart_parse_until_raw) auto
    moreover have "nom_tag N ''@'' (CHR ''@'' # ?rest) = Inr (?rest, PBytes ''@'')"
      using tag_prefix [of "''@''" ?rest] by simp
    moreover have "hostname_parse_until N X t ?rest = Inr (c # i, PHostname h')"
      using assms(1,2,4) e Some by (intro hostname_parse_until_raw) (auto simp: email_printable_def)
    ultimately show ?thesis using e Some by (simp add: email_parse_until_def email_value_def del: tag_law)
  qed
qed

lemma path_parse_until_wire:
  assumes "path_printable (idna_to_ascii X) p"
  shows "path_parse_until N X '':,'' (concat (path_io_slices p) @ CHR '':'' # i) = Inr (CHR '':'' # i, PPath p)"
proof -
  define hop where "hop = nom_preceded N (nom_tag N ''@'') (hostname_parse_until N X '':,'')"
  define comma where "comma = nom_tag N '',''"
  have host: "hop (CHR ''@'' # hostname_raw h @ c # j) = Inr (c # j, PHostname h)"
    if "hostname_printable (idna_to_ascii X) h" "c \<in> {CHR '':'', CHR '',''}" for h c j
  proof -
    have "hostname_parse_until N X '':,'' (hostname_raw h @ c # j) = Inr (c # j, PHostname h)"
      using that terminators_end_hostname by (intro hostname_parse_until_raw) auto
    then show ?thesis using tag_prefix [of "''@''" "hostname_raw h @ c # j"] by (simp add: hop_def del: tag_law)
  qed
  have "nom_separated_list1 N comma hop (route hs @ CHR '':'' # i) = Inr (CHR '':'' # i, PList (map PHostname hs))"
    if "hs \<noteq> []" "list_all (hostname_printable (idna_to_ascii X)) hs" for hs
    using that
  proof (induction hs rule: route.induct)
    case (2 d)
    then have "hop (route [d] @ CHR '':'' # i) = Inr (CHR '':'' # i, PHostname d)" using host by simp
    moreover have "comma (CHR '':'' # i) = Inl Nom_Error" unfolding comma_def by (intro tag_differs) simp
    ultimately show ?case using separated_list1_end [where p = hop and sep = comma] by simp
  next
    case (3 d d' ds)
    let ?j = "route (d' # ds) @ CHR '':'' # i"
    have first: "hop (route (d # d' # ds) @ CHR '':'' # i) = Inr (CHR '','' # ?j, PHostname d)"
      using 3 host [of d "CHR '',''"] by simp
    have sep: "comma (CHR '','' # ?j) = Inr (?j, PBytes '','')" using tag_prefix [of "'',''" ?j] by (simp add: comma_def)
    have IH: "nom_separated_list1 N comma hop ?j = Inr (CHR '':'' # i, PList (map PHostname (d' # ds)))" using 3 by simp
    then have "hop ?j \<noteq> Inl Nom_Error" using separated_list1_fail [where p = hop and sep = comma and i = ?j] by auto
    with separated_list1_step [where p = hop and sep = comma, OF first _ sep] IH show ?case by simp
  qed simp
  moreover have "hostnames_of (map PHostname hs) = hs" for hs
    by (induction hs) (simp_all add: hostnames_of_def List.map_filter_def)
  ultimately show ?thesis using assms
    by (simp add: path_parse_until_def path_wire path_printable_def flip: hop_def comma_def)
qed

lemma address_wire:
  assumes "email_printable (idna_to_ascii X) e" and "case path of Some p \<Rightarrow> path_printable (idna_to_ascii X) p | None \<Rightarrow> True"
  shows "address N X (''<'' @ concat (opt_path_io_slices path) @ email_wire e @ ''>'' @ i) =
    Inr (i, PPair (case path of Some p \<Rightarrow> PSome (PPath p) | None \<Rightarrow> PNone) (PEmail e))"
proof -
  let ?t = "blanks_cr @ ''>''" and ?ta = "blanks_cr @ ''@>''"
  let ?e = "email_wire e @ CHR ''>'' # i"
  have email: "email_parse_until N X ?t ?ta ?e = Inr (CHR ''>'' # i, PEmail e)"
    using assms(1) terminators_end_hostname terminators_end_localpart
    by (intro email_parse_until_wire) auto
  define route_part where "route_part = nom_terminated N (path_parse_until N X '':,'') (nom_tag N '':'')"
  have route: "nom_opt N route_part (concat (opt_path_io_slices path) @ ?e) =
      Inr (?e, case path of Some p \<Rightarrow> PSome (PPath p) | None \<Rightarrow> PNone)"
  proof (cases path)
    case None
    have "localpart_raw (em_localpart e) \<in> lang LOCALPART_UTF8_re"
      using assms(1) by (intro localpart_printable_word) (simp add: email_printable_def)
    then obtain b u where raw: "localpart_raw (em_localpart e) = b # u" and "b = QUOTE \<or> alpha Dot_string b"
      unfolding localpart_utf8_words using quoted_utf8_starts dot_string_starts lang_alpha
      by (metis list.collapse list.set_intros(1))
    then have "CHR ''@'' \<noteq> b" using terminators_end_localpart(5) by (auto simp: ends_localpart_def)
    then have "nom_preceded N (nom_tag N ''@'') (hostname_parse_until N X '':,'') (b # j) = Inl Nom_Error" for j
      using tag_differs [of "CHR ''@''" b "[]" j] by (simp del: tag_law)
    then have "path_parse_until N X '':,'' (b # j) = Inl Nom_Error" for j
      using separated_list1_fail by (simp add: path_parse_until_def)
    with None raw show ?thesis by (simp add: route_part_def opt_path_io_slices_def)
  next
    case (Some p)
    then have "path_parse_until N X '':,'' (concat (path_io_slices p) @ CHR '':'' # ?e) = Inr (CHR '':'' # ?e, PPath p)"
      using assms(2) path_parse_until_wire by simp
    with Some tag_prefix [of "'':''" ?e] show ?thesis
      by (simp add: route_part_def opt_path_io_slices_def del: tag_law)
  qed
  have "unbracketed_email_with_path N X ?t ?ta (concat (opt_path_io_slices path) @ ?e) =
      Inr (CHR ''>'' # i, PPair (case path of Some p \<Rightarrow> PSome (PPath p) | None \<Rightarrow> PNone) (PEmail e))"
    unfolding unbracketed_email_with_path_def pair_law route_part_def [symmetric] route ires_bind.simps email by simp
  with tag_prefix [of "''<''" "concat (opt_path_io_slices path) @ ?e"] tag_prefix [of "''>''" i]
  show ?thesis by (simp add: address_def email_with_path_def del: tag_law)
qed

end

section \<open>Parameters\<close>

fun parameter_printable :: "bytes ParameterName \<times> bytes MaybeUtf8 option \<Rightarrow> bool" where
  "parameter_printable (Other_Parameter n, v) \<longleftrightarrow> matches PARAMETER_NAME_re n \<and>
     (case v of
        None \<Rightarrow> True
      | Some (Ascii s) \<Rightarrow> matches PARAMETER_VALUE_ASCII_re s
      | Some (Utf8 s) \<Rightarrow> matches PARAMETER_VALUE_UTF8_re s \<and> \<not> matches PARAMETER_VALUE_ASCII_re s)"

fun parameter_wire :: "bytes ParameterName \<times> bytes MaybeUtf8 option \<Rightarrow> bytes" where
  "parameter_wire (Other_Parameter n, v) = CHR '' '' # n @ (case v of None \<Rightarrow> [] | Some t \<Rightarrow> CHR ''='' # maybe_str t)"

lemma parameters_wire: "concat (parameters_io_slices (Parameters ps)) = concat (map parameter_wire ps)"
proof (induction ps)
  case (Cons p ps)
  obtain n v where "p = (Other_Parameter n, v)" by (cases p) (metis ParameterName.exhaust)
  with Cons show ?case
    by (auto simp: parameters_io_slices_def split: option.split) (metis maybe_io_slices.simps maybe_str.simps MaybeUtf8.exhaust concat.simps append_Nil2)+
qed (simp add: parameters_io_slices_def)

lemma name_alpha: "alpha PARAMETER_NAME_re c \<Longrightarrow> c \<notin> {CHR ''='', CHR '' '', CR, TAB}"
  by (auto simp: PARAMETER_NAME_re_def in_class_def alnum_def)

lemma value_alpha:
  "c \<in> {CHR '' '', CR, TAB} \<Longrightarrow> \<not> alpha PARAMETER_VALUE_ASCII_re c \<and> \<not> alpha PARAMETER_VALUE_UTF8_re c"
  using non_ascii_alpha [of c] by (auto simp: PARAMETER_VALUE_ASCII_re_def PARAMETER_VALUE_UTF8_re_def Plus1_def in_class_def)

lemma name_starts: "n \<in> lang PARAMETER_NAME_re \<Longrightarrow> \<exists>b u. n = b # u \<and> b \<notin> {CHR '' '', TAB}"
  using name_alpha lang_alpha [of n PARAMETER_NAME_re] unfolding PARAMETER_NAME_re_def mem_Times_Cls by fastforce

context grammar
begin

lemma parameter_value_parse_wire:
  assumes "case t of Ascii s \<Rightarrow> matches PARAMETER_VALUE_ASCII_re s
      | Utf8 s \<Rightarrow> matches PARAMETER_VALUE_UTF8_re s \<and> \<not> matches PARAMETER_VALUE_ASCII_re s"
    and "c \<in> set blanks_cr"
  shows "parameter_value_parse N X blanks_cr (maybe_str t @ c # i) = Inr (c # i, PText t)"
proof (cases t)
  case (Ascii s)
  then have "apply_regex (PARAMETER_VALUE_ASCII X) (s @ c # i) = Inr (c # i, s)"
    using assms value_alpha [of c] by (intro parameter_value_ascii.apply_regex_foreign) (auto simp: matches_iff)
  with Ascii terminate_hit [OF assms(2)] show ?thesis by (simp add: parameter_value_parse_def regex_def)
next
  case (Utf8 s)
  then have s: "s \<in> lang PARAMETER_VALUE_UTF8_re" "s \<notin> lang PARAMETER_VALUE_ASCII_re"
    using assms(1) by (simp_all add: matches_iff)
  have c: "\<not> alpha PARAMETER_VALUE_ASCII_re c" "\<not> alpha PARAMETER_VALUE_UTF8_re c"
    using assms(2) value_alpha [of c] by auto
  have "nom_terminated N (regex (PARAMETER_VALUE_ASCII X)) (terminate N blanks_cr) (s @ c # i) = Inl Nom_Error"
  proof (cases "apply_regex (PARAMETER_VALUE_ASCII X) (s @ c # i)")
    case (Inl x)
    with parameter_value_ascii.apply_regex_decided [OF foreign_dead [OF c(1)]] have "x = Nom_Error" by blast
    with Inl show ?thesis by (simp add: regex_def)
  next
    case (Inr x)
    then obtain rest w where x: "apply_regex (PARAMETER_VALUE_ASCII X) (s @ c # i) = Inr (rest, w)" by (cases x) auto
    from parameter_value_ascii.apply_regex_inside [OF foreign_dead [OF c(1)] s(2) x]
    obtain b u where b: "rest = b # u @ c # i" "s = w @ b # u" .
    have "alpha PARAMETER_VALUE_UTF8_re b" using b(2) by (intro lang_alpha [OF s(1)]) simp
    then have "b \<notin> set blanks_cr" using value_alpha [of b] by auto
    with x b terminate_miss show ?thesis by (simp add: regex_def)
  qed
  moreover have "apply_regex (PARAMETER_VALUE_UTF8 X) (s @ c # i) = Inr (c # i, s)"
    by (rule parameter_value_utf8.apply_regex_foreign [OF s(1) c(2)])
  ultimately show ?thesis using Utf8 terminate_hit [OF assms(2)] by (simp add: parameter_value_parse_def regex_def)
qed

lemma parameter_parse_wire:
  assumes "parameter_printable p" and "c \<in> {CHR '' '', CR}"
  shows "\<exists>v. parameter_parse N X blanks_cr (parameter_wire p @ c # i) = Inr (c # i, v) \<and> parameter_of v = Some p"
proof -
  obtain n v where p: "p = (Other_Parameter n, v)" by (cases p) (metis ParameterName.exhaust)
  let ?rest = "(case v of None \<Rightarrow> [] | Some t \<Rightarrow> CHR ''='' # maybe_str t) @ c # i"
  have n: "n \<in> lang PARAMETER_NAME_re" using assms(1) p by (simp add: matches_iff)
  then obtain b u where b: "n = b # u" "b \<notin> {CHR '' '', TAB}" using name_starts by blast
  have "nom_one_of N blanks (CHR '' '' # n @ ?rest) = Inr (n @ ?rest, PChar (CHR '' ''))" by simp
  moreover have "nom_one_of N blanks (n @ ?rest) = Inl Nom_Error" using b by simp
  ultimately have blank: "nom_many1_count N (nom_one_of N blanks) (CHR '' '' # n @ ?rest) = Inr (n @ ?rest, PNat 1)"
    by (rule many1_count_one)
  obtain b' r where r: "?rest = b' # r" "b' \<in> {CHR ''='', CHR '' '', CR}" using assms(2) by (cases v) auto
  have "apply_regex (PARAMETER_NAME X) (n @ b' # r) = Inr (b' # r, n)"
    using r(2) name_alpha by (intro parameter_name.apply_regex_foreign [OF n]) blast
  then have name: "parameter_name_parse N X (n @ ?rest) = Inr (?rest, PName (Other_Parameter n))"
    unfolding r(1) by (simp add: parameter_name_parse_def regex_def)
  define val where "val = nom_preceded N (nom_tag N ''='') (parameter_value_parse N X blanks_cr)"
  have val: "nom_opt N val ?rest = Inr (c # i, case v of None \<Rightarrow> PNone | Some t \<Rightarrow> PSome (PText t))"
  proof (cases v)
    case None
    have "nom_tag N ''='' (c # i) = Inl Nom_Error" using assms(2) by (intro tag_differs) auto
    with None show ?thesis by (simp add: val_def del: tag_law)
  next
    case (Some t)
    then have "parameter_value_parse N X blanks_cr (maybe_str t @ c # i) = Inr (c # i, PText t)"
      using assms p by (intro parameter_value_parse_wire) (auto split: MaybeUtf8.splits)
    with Some tag_prefix [of "''=''" "maybe_str t @ c # i"] show ?thesis by (simp add: val_def del: tag_law)
  qed
  have "parameter_parse N X blanks_cr (CHR '' '' # n @ ?rest) =
      Inr (c # i, PPair (PName (Other_Parameter n)) (case v of None \<Rightarrow> PNone | Some t \<Rightarrow> PSome (PText t)))"
    unfolding parameter_parse_def preceded_law blank ires_bind.simps pair_law name val_def [symmetric] val by simp
  then show ?thesis using p by (cases v) (auto simp: parameter_of_def)
qed

lemma parameters_parse_wire:
  assumes "list_all parameter_printable ps"
  shows "parameters_parse_until N X blanks_cr (concat (map parameter_wire ps) @ CR # i) =
    Inr (CR # i, PParameters (Parameters ps))"
proof -
  have "\<exists>vs. nom_many0 N (parameter_parse N X blanks_cr) (concat (map parameter_wire ps) @ CR # i) = Inr (CR # i, PList vs) \<and>
      parameters_of vs = ps"
    using assms
  proof (induction ps)
    case Nil
    have "nom_one_of N blanks (CR # i) = Inl Nom_Error" by simp
    then have "nom_many1_count N (nom_one_of N blanks) (CR # i) = Inl Nom_Error" by (rule many1_count_fail)
    then have "parameter_parse N X blanks_cr (CR # i) = Inl Nom_Error"
      unfolding parameter_parse_def preceded_law by simp
    then show ?case by (simp add: many0_stop parameters_of_def List.map_filter_def)
  next
    case (Cons p ps)
    then obtain vs where IH:
      "nom_many0 N (parameter_parse N X blanks_cr) (concat (map parameter_wire ps) @ CR # i) = Inr (CR # i, PList vs)"
      "parameters_of vs = ps" by auto
    obtain c j where j: "concat (map parameter_wire ps) @ CR # i = c # j" "c \<in> {CHR '' '', CR}"
    proof (cases ps)
      case (Cons q qs)
      obtain n w where "q = (Other_Parameter n, w)" by (cases q) (metis ParameterName.exhaust)
      with Cons that show ?thesis by auto
    qed (use that in auto)
    obtain v where v: "parameter_parse N X blanks_cr (parameter_wire p @ c # j) = Inr (c # j, v)" "parameter_of v = Some p"
      using parameter_parse_wire [OF _ j(2)] Cons.prems by fastforce
    have "length (c # j) < length (parameter_wire p @ c # j)" by (cases p rule: parameter_wire.cases) simp
    from many0_step [where p = "parameter_parse N X blanks_cr", OF v(1) this] IH v(2) show ?case
      by (auto simp: j(1) parameters_of_def List.map_filter_def)
  qed
  then show ?thesis by (auto simp: parameters_parse_until_def)
qed

end

section \<open>Commands\<close>

text \<open>A free text: UTF-8 without a line end, tagged by its bytes.\<close>

definition free_text_printable :: "bytes MaybeUtf8 \<Rightarrow> bool" where
  "free_text_printable t \<longleftrightarrow> t = maybe_from (maybe_str t) \<and> valid_utf8 (maybe_str t) \<and> find_window CRLF (maybe_str t) = None"

fun command_printable :: "(bytes \<Rightarrow> bytes option) \<Rightarrow> bytes Command \<Rightarrow> bool" where
  "command_printable to_ascii (Ehlo h) \<longleftrightarrow> hostname_printable to_ascii h"
| "command_printable to_ascii (Helo h) \<longleftrightarrow> hostname_printable to_ascii h"
| "command_printable to_ascii (Lhlo h) \<longleftrightarrow> hostname_printable to_ascii h"
| "command_printable to_ascii (Expn t) \<longleftrightarrow> free_text_printable t"
| "command_printable to_ascii (Help t) \<longleftrightarrow> free_text_printable t"
| "command_printable to_ascii (Noop t) \<longleftrightarrow> free_text_printable t"
| "command_printable to_ascii (Vrfy t) \<longleftrightarrow> free_text_printable t"
| "command_printable to_ascii (Mail path email params) \<longleftrightarrow>
     list_all parameter_printable (parameters_list params) \<and>
     (case email of
        None \<Rightarrow> path = None
      | Some e \<Rightarrow> email_printable to_ascii e \<and> (case path of Some p \<Rightarrow> path_printable to_ascii p | None \<Rightarrow> True))"
| "command_printable to_ascii (Rcpt path email params) \<longleftrightarrow>
     list_all parameter_printable (parameters_list params) \<and> email_printable to_ascii email \<and>
     (case path of Some p \<Rightarrow> path_printable to_ascii p | None \<Rightarrow> True)"
| "command_printable to_ascii _ \<longleftrightarrow> True"

lemma find_window_crlf: "find_window CRLF s = None \<Longrightarrow> find_window CRLF (s @ CRLF @ i) = Some (length s)"
proof (induction s)
  case (Cons x xs)
  then show ?case by (cases xs) (auto split: if_splits)
qed simp

lemma same_letter_refl [simp]: "same_letter c c"
  by (simp add: same_letter_def)

context grammar
begin

lemma tag_no_case_prefix: "nom_tag_no_case N t (t @ i) = Inr (i, PBytes t)"
proof -
  have "list_all (\<lambda>(a, b). same_letter a b) (zip (t @ i) t)" by (induction t arbitrary: i) auto
  then show ?thesis by (simp add: compare_tag_def)
qed

lemma opt_blanks_none: "c \<notin> set blanks \<Longrightarrow> nom_opt N (nom_is_a N blanks) (c # i) = Inr (c # i, PNone)"
  by simp

lemma other_keyword:
  assumes "nom_tag_no_case N name i = Inl Nom_Error"
  shows "bare_command N name c i = Inl Nom_Error" "hello_command N X name f i = Inl Nom_Error"
    "text_command N name g i = Inl Nom_Error" "opt_text_command N name g i = Inl Nom_Error"
  using assms unfolding bare_command_def hello_command_def text_command_def opt_text_command_def
    map_law map_res_law tuple_Cons preceded_law by simp_all

lemma other_keyword_mail:
  "nom_tag_no_case N ''MAIL FROM:'' i = Inl Nom_Error \<Longrightarrow> mail_command N X i = Inl Nom_Error"
  "nom_tag_no_case N ''RCPT TO:'' i = Inl Nom_Error \<Longrightarrow> rcpt_command N X i = Inl Nom_Error"
  unfolding mail_command_def rcpt_command_def map_law tuple_Cons by simp_all

lemma bare_command_wire: "bare_command N name c (name @ CRLF @ i) = Inr (i, PCommand c)"
  unfolding bare_command_def map_law tuple_Cons tag_no_case_prefix ires_bind.simps
  using opt_blanks_none [of CR "LF # i"] tag_prefix [of CRLF i] by (simp del: tag_law opt_law)

lemma hello_command_wire:
  assumes "hostname_printable (idna_to_ascii X) h"
  shows "hello_command N X name f (name @ '' '' @ hostname_raw h @ CRLF @ i) = Inr (i, PCommand (f h))"
proof -
  have ends: "\<forall>c \<in> set blanks_cr. ends_hostname c" using terminators_end_hostname by simp
  obtain b u where raw: "hostname_raw h = b # u" "\<not> ends_hostname b \<or> b = CHR ''[''"
  proof (cases "\<exists>raw p. h = Utf8Domain raw p")
    case True
    then have "hostname_raw h \<in> lang HOSTNAME_UTF8_re" using assms by (auto simp: matches_iff)
    then show ?thesis using that hostname_utf8_nonempty hostname_utf8_bytes by (metis list.collapse list.set_intros(1))
  next
    case False
    with hostname_printable_value [OF assms] have "hostname_raw h \<in> lang HOSTNAME_ASCII_re" by blast
    then show ?thesis
    proof (cases rule: hostname_bracketed)
      case 1
      then have "in_class alnum (hd (hostname_raw h))" "hostname_raw h \<noteq> []" using domain_starts by blast+
      with that show ?thesis by (metis domain_byte_def ends_hostname_iff list.collapse)
    next
      case (2 m)
      with that show ?thesis by simp
    qed
  qed
  have "b \<notin> set blanks" using raw(2) ends by auto
  then have "nom_is_a N blanks (CHR '' '' # hostname_raw h @ CRLF @ i) = Inr (hostname_raw h @ CRLF @ i, PBytes '' '')"
    using raw(1) by simp
  moreover have "hostname_parse_until N X blanks_cr (hostname_raw h @ CR # LF # i) = Inr (CR # LF # i, PHostname h)"
    using assms ends by (intro hostname_parse_until_raw) auto
  ultimately show ?thesis
    unfolding hello_command_def map_law tuple_Cons tag_no_case_prefix ires_bind.simps
    using opt_blanks_none [of CR "LF # i"] tag_prefix [of CRLF i]
    by (simp add: third_hostname_def component_def del: tag_law opt_law is_a_law)
qed

lemma text_command_wire:
  assumes "free_text_printable t"
  shows "text_command N name f (name @ '' '' @ maybe_str t @ CRLF @ i) = Inr (i, PCommand (f t))"
    and "opt_text_command N name f (name @ '' '' @ maybe_str t @ CRLF @ i) = Inr (i, PCommand (f t))"
proof -
  let ?s = "maybe_str t"
  have t: "valid_utf8 ?s" "maybe_from ?s = t" "find_window CRLF (?s @ CRLF @ i) = Some (length ?s)"
    using assms find_window_crlf unfolding free_text_printable_def by metis+
  have until: "nom_take_until N CRLF (?s @ CRLF @ i) = Inr (CRLF @ i, PBytes ?s)" using t(3) by simp
  have blank: "nom_one_of N blanks ('' '' @ ?s @ CRLF @ i) = Inr (?s @ CRLF @ i, PChar (CHR '' ''))" by simp
  have tag: "nom_tag N CRLF (CRLF @ i) = Inr (i, PBytes CRLF)" by (rule tag_prefix)
  show "text_command N name f (name @ '' '' @ ?s @ CRLF @ i) = Inr (i, PCommand (f t))"
    unfolding text_command_def map_res_law tuple_Cons tag_no_case_prefix ires_bind.simps blank until tag
    using t by (simp add: third_text_def component_def utf8_command_def)
  show "opt_text_command N name f (name @ '' '' @ ?s @ CRLF @ i) = Inr (i, PCommand (f t))"
    unfolding opt_text_command_def map_res_law preceded_law tag_no_case_prefix ires_bind.simps alt_more blank
      terminated_law until tag
    using t by (simp add: utf8_command_def)
qed

lemma after_address:
  assumes "list_all parameter_printable ps"
  shows "nom_tuple N [parameters_parse_until N X blanks_cr, nom_opt N (nom_is_a N blanks), nom_tag N CRLF]
      (concat (map parameter_wire ps) @ CRLF @ i) = Inr (i, PList [PParameters (Parameters ps), PNone, PBytes CRLF])"
  unfolding tuple_Cons using parameters_parse_wire [OF assms, of "LF # i"] opt_blanks_none [of CR "LF # i"] tag_prefix [of CRLF i]
  by (simp del: tag_law opt_law)

lemma mail_command_wire:
  assumes "command_printable (idna_to_ascii X) (Mail path email params)"
  shows "mail_command N X (concat (command_io_slices (Mail path email params)) @ i) = Inr (i, PCommand (Mail path email params))"
proof -
  obtain ps where params: "params = Parameters ps" by (cases params)
  have ps: "list_all parameter_printable ps" using assms params by simp
  let ?tail = "concat (map parameter_wire ps) @ CRLF @ i"
  define who where "who = nom_alt N [nom_map N (nom_tag N ''<>'') (\<lambda>_. PNone), nom_map N (address N X) PSome]"
  obtain a where a: "concat (command_io_slices (Mail path email params)) @ i = ''MAIL FROM:'' @ CHR ''<'' # a"
    "who (CHR ''<'' # a) = Inr (?tail, case email of None \<Rightarrow> PNone
       | Some e \<Rightarrow> PSome (PPair (case path of Some p \<Rightarrow> PSome (PPath p) | None \<Rightarrow> PNone) (PEmail e)))"
  proof (cases email)
    case None
    then have "path = None" using assms by simp
    moreover have "who (CHR ''<'' # CHR ''>'' # ?tail) = Inr (?tail, PNone)"
      using tag_prefix [of "''<>''" ?tail] by (simp add: who_def del: tag_law)
    ultimately show ?thesis using that None params
      by (simp add: parameters_wire opt_path_io_slices_def)
  next
    case (Some e)
    let ?a = "concat (opt_path_io_slices path) @ email_wire e @ CHR ''>'' # ?tail"
    have addr: "address N X (CHR ''<'' # ?a) =
        Inr (?tail, PPair (case path of Some p \<Rightarrow> PSome (PPath p) | None \<Rightarrow> PNone) (PEmail e))"
      using address_wire [of e path ?tail] assms Some by simp
    have "nom_tag N ''<>'' (CHR ''<'' # ?a) = Inl Nom_Error"
    proof (cases path)
      case None
      have "localpart_raw (em_localpart e) \<in> lang LOCALPART_UTF8_re"
        using assms Some by (intro localpart_printable_word) (simp add: email_printable_def)
      then obtain b u where "localpart_raw (em_localpart e) = b # u" "b = QUOTE \<or> alpha Dot_string b"
        unfolding localpart_utf8_words using quoted_utf8_starts dot_string_starts lang_alpha
        by (metis list.collapse list.set_intros(1))
      moreover from this have "CHR ''>'' \<noteq> b" using terminators_end_localpart(4) by (auto simp: ends_localpart_def)
      ultimately show ?thesis using None by (simp add: compare_tag_def opt_path_io_slices_def)
    next
      case (Some p)
      then have "domains p \<noteq> []" using assms \<open>email = Some e\<close> by (simp add: path_printable_def)
      then show ?thesis using Some
        by (cases "domains p" rule: route.cases) (simp_all add: compare_tag_def opt_path_io_slices_def path_wire)
    qed
    then have "who (CHR ''<'' # ?a) = Inr (?tail, PSome (PPair (case path of Some p \<Rightarrow> PSome (PPath p) | None \<Rightarrow> PNone) (PEmail e)))"
      unfolding who_def alt_more alt_single map_law addr by simp
    then show ?thesis using that Some params
      by (simp add: parameters_wire email_slices)
  qed
  show ?thesis
    unfolding a(1) mail_command_def map_law who_def [symmetric] tuple_Cons [of "nom_tag_no_case N _"] tag_no_case_prefix
      ires_bind.simps tuple_Cons [of "nom_opt N _"] opt_blanks_none tuple_Cons [of who] a(2)
    using after_address [OF ps, of i] opt_blanks_none [of "CHR ''<''" a] a(2) params assms
    by (cases email; cases path) (auto simp: mail_value_def component_def opt_path_def simp del: opt_law tuple_Cons)
qed

lemma rcpt_command_wire:
  assumes "command_printable (idna_to_ascii X) (Rcpt path email params)"
  shows "rcpt_command N X (concat (command_io_slices (Rcpt path email params)) @ i) = Inr (i, PCommand (Rcpt path email params))"
proof -
  obtain ps where params: "params = Parameters ps" by (cases params)
  have ps: "list_all parameter_printable ps" using assms params by simp
  let ?tail = "concat (map parameter_wire ps) @ CRLF @ i"
  define a where "a = concat (opt_path_io_slices path) @ email_wire email @ CHR ''>'' # ?tail"
  have addr: "address N X (CHR ''<'' # a) =
      Inr (?tail, PPair (case path of Some p \<Rightarrow> PSome (PPath p) | None \<Rightarrow> PNone) (PEmail email))"
    using address_wire [of email path ?tail] assms by (simp add: a_def)
  have wire: "concat (command_io_slices (Rcpt path email params)) @ i = ''RCPT TO:'' @ CHR ''<'' # a"
    using params by (simp add: parameters_wire email_slices a_def)
  show ?thesis
    unfolding wire rcpt_command_def map_law tuple_Cons [of "nom_tag_no_case N _"] tag_no_case_prefix ires_bind.simps
      tuple_Cons [of "nom_opt N _"] tuple_Cons [of "address N X"]
    using after_address [OF ps, of i] opt_blanks_none [of "CHR ''<''" a] addr params
    by (cases path) (auto simp: rcpt_value_def component_def opt_path_def simp del: opt_law tuple_Cons)
qed

lemma command_wire:
  assumes "command_printable (idna_to_ascii X) c"
  shows "nom_alt N (command_alternatives N X) (concat (command_io_slices c) @ i) = Inr (i, PCommand c)"
proof -
  have differs: "nom_tag_no_case N (a # t) (b # j) = Inl Nom_Error" if "\<not> same_letter b a" for a b t j
    using that by (simp add: compare_tag_def)
  have differs2: "nom_tag_no_case N (a # a' # t) (b # b' # j) = Inl Nom_Error" if "\<not> same_letter b' a'" for a a' b b' t j
    using that by (simp add: compare_tag_def)
  have helo: "nom_tag_no_case N ''HELO'' (CHR ''H'' # CHR ''E'' # CHR ''L'' # CHR ''P'' # j) = Inl Nom_Error" for j
    by (simp add: compare_tag_def same_letter_def lower_def)
  note skip = other_keyword [OF differs] other_keyword_mail [OF differs] other_keyword [OF differs2] other_keyword_mail [OF differs2]
    other_keyword [OF helo]
  note eval = command_alternatives_def same_letter_def lower_def hostname_io_slices_def skip
  have slices: "concat (maybe_io_slices t) = maybe_str t" for t by (cases t) simp_all
  show ?thesis
  proof (cases c)
    case Data
    then show ?thesis using bare_command_wire [of "''DATA''" Data i] by (simp add: eval)
  next
    case (Ehlo h)
    then show ?thesis using hello_command_wire [of h "''EHLO''" Ehlo i] assms by (simp add: eval)
  next
    case (Expn t)
    then show ?thesis using text_command_wire(1) [of t "''EXPN''" Expn i] assms by (simp add: eval slices)
  next
    case (Helo h)
    then show ?thesis using hello_command_wire [of h "''HELO''" Helo i] assms by (simp add: eval)
  next
    case (Help t)
    then show ?thesis using text_command_wire(2) [of t "''HELP''" Help i] assms by (simp add: eval slices)
  next
    case (Lhlo h)
    then show ?thesis using hello_command_wire [of h "''LHLO''" Lhlo i] assms by (simp add: eval)
  next
    case (Mail path email params)
    then show ?thesis using mail_command_wire [of path email params i] assms by (simp add: eval)
  next
    case (Noop t)
    then show ?thesis using text_command_wire(2) [of t "''NOOP''" Noop i] assms by (simp add: eval slices)
  next
    case Quit
    then show ?thesis using bare_command_wire [of "''QUIT''" Quit i] by (simp add: eval)
  next
    case (Rcpt path email params)
    then show ?thesis using rcpt_command_wire [of path email params i] assms by (simp add: eval)
  next
    case Rset
    then show ?thesis using bare_command_wire [of "''RSET''" Rset i] by (simp add: eval)
  next
    case Starttls
    then show ?thesis using bare_command_wire [of "''STARTTLS''" Starttls i] by (simp add: eval)
  next
    case (Vrfy t)
    then show ?thesis using text_command_wire(1) [of t "''VRFY''" Vrfy i] assms by (simp add: eval slices)
  qed
qed

end

text \<open>
  Claim C9. A command whose parts the grammar allows is read back from its printed form by
  \<^verbatim>\<open>Command::parse\<close>, whatever follows it: the same command with the same route, address and
  parameters, and exactly the printed bytes are taken.
\<close>

theorem command_round_trip:
  assumes "grammar N X" and "command_printable (idna_to_ascii X) c"
  shows "command_parse N X (concat (command_io_slices c) @ i) = Inr (i, c)"
  using grammar.command_wire [OF assms] by (simp add: command_parse_def ires_extract_def get_command_def)

definition sample_rcpt :: "bytes Command" where
  "sample_rcpt = Rcpt (Some \<lparr>domains = [AsciiDomain ''a'']\<rparr>)
     \<lparr>em_localpart = Lp_Ascii ''j'', em_hostname = Some (AsciiDomain ''b'')\<rparr> (Parameters [(Other_Parameter ''N'', None)])"

lemma command_round_trip_witness:
  "command_parse nom_ref (lexers_ref Some) (concat (command_io_slices sample_rcpt) @ ''rest'') = Inr (''rest'', sample_rcpt)"
proof (rule command_round_trip)
  show "grammar nom_ref (lexers_ref Some)" by (rule grammar_ref.grammar_axioms)
  show "command_printable (idna_to_ascii (lexers_ref Some)) sample_rcpt"
    unfolding sample_rcpt_def by code_simp
qed

text \<open>
  Claim C11. On no input does a closure of the grammar panic: not the parsers of host names and local
  parts, which index and cut their match, nor those of reply codes and enhanced codes with their
  \<^verbatim>\<open>panic!\<close> and \<^verbatim>\<open>unwrap\<close>s. The regular expressions rule all of it out.
\<close>

theorem parsers_do_not_panic:
  assumes "grammar N X"
  shows "hostname_parse_until N X t i \<noteq> Inr (r, PPanic) \<and> localpart_parse_until N X t i \<noteq> Inr (r, PPanic) \<and>
    reply_code_parse N X i \<noteq> Inr (r, PPanic) \<and> ecode_parse N X i \<noteq> Inr (r, PPanic)"
  using grammar.hostname_no_panic [OF assms] grammar.localpart_no_panic [OF assms]
    grammar.reply_code_no_panic [OF assms] grammar.ecode_no_panic [OF assms] by blast

lemma parsers_do_not_panic_witness:
  "hostname_parse_until nom_ref (lexers_ref Some) '' '' ''[1.2.3.4] '' \<noteq> Inr ('' '', PPanic) \<and>
   localpart_parse_until nom_ref (lexers_ref Some) '' '' ''[1.2.3.4] '' \<noteq> Inr ('' '', PPanic) \<and>
   reply_code_parse nom_ref (lexers_ref Some) ''[1.2.3.4] '' \<noteq> Inr ('' '', PPanic) \<and>
   ecode_parse nom_ref (lexers_ref Some) ''[1.2.3.4] '' \<noteq> Inr ('' '', PPanic)"
  by (rule parsers_do_not_panic) (rule grammar_ref.grammar_axioms)

text \<open>
  Claim C12. \<^verbatim>\<open>Command::parse\<close> gives back a proper suffix of its input with every command, so that the
  server always advances.
\<close>

theorem command_parse_consumes:
  assumes "grammar N X" and "command_parse N X i = Inr (r, c)"
  shows "strict_suffix r i"
  using nom_laws.command_parse_rest [OF grammar.axioms(1) [OF assms(1)] assms(2)] .

lemma command_parse_consumes_witness: "strict_suffix ''rest'' (''QUIT'' @ CRLF @ ''rest'')"
proof (rule command_parse_consumes)
  show "grammar nom_ref (lexers_ref Some)" by (rule grammar_ref.grammar_axioms)
  then show "command_parse nom_ref (lexers_ref Some) (''QUIT'' @ CRLF @ ''rest'') = Inr (''rest'', Quit)"
    using grammar.command_wire [of nom_ref "lexers_ref Some" Quit "''rest''"]
    by (simp add: command_parse_def ires_extract_def get_command_def)
qed

text \<open>
  The character class of the unquoted local part is written with the range \<^verbatim>\<open>+-/\<close>: a local
  part that begins with dots and holds a comma is accepted as a plain dot-string, which RFC 5321
  does not allow.
\<close>

theorem localpart_class_has_range:
  assumes "grammar N X"
  shows "localpart_parse_until N X ''@'' (''..a,b'' @ ''@x'') = Inr (''@x'', PLocalpart (Lp_Ascii ''..a,b''))"
proof -
  have "localpart_printable (Lp_Ascii ''..a,b'')" by code_simp
  from grammar.localpart_parse_until_raw [OF assms this, of "CHR ''@''" "''@''" "''x''"] show ?thesis
    using terminators_end_localpart(5) by simp
qed

lemma localpart_class_has_range_witness:
  "localpart_parse_until nom_ref (lexers_ref Some) ''@'' (''..a,b'' @ ''@x'') = Inr (''@x'', PLocalpart (Lp_Ascii ''..a,b''))"
  by (rule localpart_class_has_range) (rule grammar_ref.grammar_axioms)

end
