(* ===== verification/ServerInstance.thy ===== *)
theory ServerInstance
  imports SmtpMachine CommandParsing
begin

text \<open>
  The server put together: a configuration that keeps the provided methods of the trait satisfies
  the contract of the server loop as soon as its required methods do, and the loop runs with the
  parser of the message crate. The guarantees of the loop are stated here for every connection,
  configuration and parser that satisfy the contract, and evaluated on a scripted connection.
\<close>

section \<open>Configurations that keep the provided methods\<close>

locale required_methods = connection env incoming wire
  for env :: "'io ServerIo" and incoming wire +
  fixes tls_accept :: "'io \<Rightarrow> 'w \<Rightarrow> 'cu ConnectionMetadata \<Rightarrow>
      'io \<times> 'w \<times> 'cu ConnectionMetadata \<times> unit io_result"
    and new_mail :: "'w \<Rightarrow> 'cu ConnectionMetadata \<Rightarrow> 'w \<times> 'cu ConnectionMetadata \<times> 'mu"
    and filter_from :: "bytes Email option \<Rightarrow> 'w \<Rightarrow> 'mu MailMetadata \<Rightarrow> 'cu ConnectionMetadata \<Rightarrow>
      'w \<times> 'mu MailMetadata \<times> 'cu ConnectionMetadata \<times> bytes Email option Decision"
    and filter_to :: "bytes Email \<Rightarrow> 'w \<Rightarrow> 'mu MailMetadata \<Rightarrow> 'cu ConnectionMetadata \<Rightarrow>
      'w \<times> 'mu MailMetadata \<times> 'cu ConnectionMetadata \<times> bytes Email Decision"
    and handle_mail :: "'io EscapedDataReader \<Rightarrow> 'w \<Rightarrow> 'mu MailMetadata \<Rightarrow> 'cu ConnectionMetadata \<Rightarrow>
      'io EscapedDataReader \<times> 'w \<times> 'cu ConnectionMetadata \<times> handle_mail_return"
  assumes required_tls: "tls_accept io w c = (io', w', c', r') \<Longrightarrow> keeps c c' \<and> wire io' = wire io"
    and required_new_mail: "new_mail w c = (w', c', u) \<Longrightarrow> keeps c c'"
    and required_from: "filter_from from w m c = (w', m', c', df) \<Longrightarrow> keeps c c' \<and> mm_to m' = mm_to m"
    and required_to: "filter_to to w m c = (w', m', c', dt) \<Longrightarrow>
      keeps c c' \<and> mm_to m' = mm_to m \<and> mm_from m' = mm_from m"
    and required_mail: "handle_mail reader w m c = (reader', w', c', ret) \<Longrightarrow>
      keeps c c' \<and> (\<exists>out d. reader_run (awaited_read env) reader out d \<and>
         (reader' = d \<or> complete d = Value reader'))"

sublocale required_methods \<subseteq>
  server_config env incoming wire "default_config proto host tls_accept new_mail filter_from filter_to handle_mail"
  for proto host
proof (unfold_locales, goal_cases)
  case (1 r c)
  then show ?case
    by (auto simp: refusals_def default_config_def default_welcome_banner_reply_def default_refusal_def)
next
  case (2 h w c w' c' du)
  then show ?case
    by (auto simp: simple_handlers_def default_config_def default_handle_starttls_def default_handle_quit_def
        default_handle_expn_def default_handle_vrfy_def default_handle_help_def default_handle_noop_def)
next
  case (3 ext host' w c w' c' dh)
  then show ?case by (auto simp: default_config_def default_filter_hello_def Let_def)
next
  case (4 w c w' c' u)
  then show ?case using required_new_mail by (simp add: default_config_def)
next
  case (5 sender w m c w' m' c' df)
  then show ?case using required_from by (simp add: default_config_def)
next
  case (6 rcpt w m c w' m' c' dt)
  then show ?case using required_to by (simp add: default_config_def)
next
  case (7 w m c w' m' c' du)
  then show ?case by (auto simp: default_config_def default_filter_data_def)
next
  case (8 w mo c w' mo' c' du)
  then show ?case by (auto simp: default_config_def default_handle_rset_def)
next
  case (9 io w c io' w' c' r')
  then show ?case using required_tls by (simp add: default_config_def)
next
  case (10 reader w m c reader' w' c' ret)
  then show ?case using required_mail by (simp add: default_config_def)
qed

section \<open>A scripted connection\<close>

text \<open>The state is what the peer still sends and what it has received; no timer fires.\<close>

type_synonym script_io = "bytes \<times> bytes"

definition script_env :: "script_io ServerIo" where
  "script_env = \<lparr>srv_read = (\<lambda>(inc, out) n. ((drop n inc, out), Inr (take n inc))),
     srv_write = (\<lambda>(inc, out) slices. ((inc, out @ concat slices), Inr ())),
     srv_read_timer = (\<lambda>_. None),
     srv_write_timer = (\<lambda>_ _. None)\<rparr>"

interpretation script_conn: connection script_env fst snd
  by unfold_locales (auto simp: script_env_def)

section \<open>A configuration that accepts every mail\<close>

definition accept_tls :: "'io \<Rightarrow> unit \<Rightarrow> unit ConnectionMetadata \<Rightarrow>
    'io \<times> unit \<times> unit ConnectionMetadata \<times> unit io_result" where
  "accept_tls io w c = (io, w, c, Inr ())"

definition accept_new_mail :: "unit \<Rightarrow> unit ConnectionMetadata \<Rightarrow> unit \<times> unit ConnectionMetadata \<times> unit" where
  "accept_new_mail w c = (w, c, ())"

definition accept_from :: "bytes Email option \<Rightarrow> unit \<Rightarrow> unit MailMetadata \<Rightarrow> unit ConnectionMetadata \<Rightarrow>
    unit \<times> unit MailMetadata \<times> unit ConnectionMetadata \<times> bytes Email option Decision" where
  "accept_from from w m c = (w, m, c, Accept okay_from from)"

definition accept_to :: "bytes Email \<Rightarrow> unit \<Rightarrow> unit MailMetadata \<Rightarrow> unit ConnectionMetadata \<Rightarrow>
    unit \<times> unit MailMetadata \<times> unit ConnectionMetadata \<times> bytes Email Decision" where
  "accept_to to w m c = (w, m, c, Accept okay_to to)"

definition decide_each :: "ProtocolName \<Rightarrow> unit MailMetadata \<Rightarrow> unit Decision \<Rightarrow> handle_mail_return" where
  "decide_each proto m d = (case proto of Smtp \<Rightarrow> Inl d | Lmtp \<Rightarrow> Inr (replicate (length (mm_to m)) d))"

text \<open>The mail is read to its end and the reader completed.\<close>

definition accept_mail :: "'io ServerIo \<Rightarrow> ProtocolName \<Rightarrow> 'io EscapedDataReader \<Rightarrow> unit \<Rightarrow> unit MailMetadata \<Rightarrow>
    unit ConnectionMetadata \<Rightarrow> 'io EscapedDataReader \<times> unit \<times> unit ConnectionMetadata \<times> handle_mail_return" where
  "accept_mail env proto reader w m c =
     (case drain_loop env reader of
        Some (Value (reader', Inr _)) \<Rightarrow>
          (case complete reader' of
             Value reader'' \<Rightarrow> (reader'', w, c, decide_each proto m (Accept okay_mail ()))
           | Panic \<Rightarrow> (reader', w, c, decide_each proto m (Reject internal_server_error)))
      | _ \<Rightarrow> (reader, w, c, decide_each proto m (Reject internal_server_error)))"

lemma drain_loop_run_if:
  assumes "drain_loop env d = Some r"
  shows "r = Value (d', Inr u) \<longrightarrow> (\<exists>out. reader_run (awaited_read env) d out d')"
proof (rule drain_loop.raw_induct [where P = "\<lambda>env d r. r = Value (d', Inr u) \<longrightarrow>
      (\<exists>out. reader_run (awaited_read env) d out d')", OF _ assms])
  fix loop :: "'a ServerIo \<Rightarrow> 'a EscapedDataReader \<Rightarrow> ('a EscapedDataReader \<times> unit io_result) run option" and env d r
  let ?b = "replicate 128 (CHR 0x00)"
  assume ih: "\<And>env d r. loop env d = Some r \<Longrightarrow>
      r = Value (d', Inr u) \<longrightarrow> (\<exists>out. reader_run (awaited_read env) d out d')"
    and body: "(case srv_read_timer env (rd_read d) of
        Some w \<Rightarrow> Some (Value (d\<lparr>rd_read := w\<rparr>,
                    Inl (Io_Error TimedOut ''timed out waiting for a command'')))
      | None \<Rightarrow>
          (case poll_read (awaited_read env) d ?b of
             Panic \<Rightarrow> Some Panic
           | Value (reader', bufs, Pending) \<Rightarrow> loop env reader'
           | Value (reader', bufs, Ready (Inl e)) \<Rightarrow> Some (Value (reader', Inl e))
           | Value (reader', bufs, Ready (Inr n)) \<Rightarrow>
               (if n = 0 then Some (Value (reader', Inr ())) else loop env reader'))) = Some r"
  show "r = Value (d', Inr u) \<longrightarrow> (\<exists>out. reader_run (awaited_read env) d out d')"
  proof
    assume r: "r = Value (d', Inr u)"
    with body obtain d1 bufs res where nt: "srv_read_timer env (rd_read d) = None"
      and p: "poll_read_vectored (awaited_read env) d [?b] = Value (d1, bufs, res)"
      by (auto simp: poll_read_def split: option.splits run.splits)
    have trans: "\<exists>out. reader_run (awaited_read env) d out d'" if "reader_run (awaited_read env) d out1 d1"
      "loop env d1 = Some r" for out1
      using ih that r reader_run_trans by blast
    show "\<exists>out. reader_run (awaited_read env) d out d'"
    proof (cases res)
      case Pending
      then have "reader_run (awaited_read env) d [] d1" using reader_run.blocked [OF reader_run.start] p by blast
      with trans body nt p Pending show ?thesis by (simp add: poll_read_def)
    next
      case (Ready x)
      with body nt p r obtain n where n: "x = Inr n" by (cases x) (auto simp: poll_read_def)
      then have run: "reader_run (awaited_read env) d ([] @ take n (concat bufs)) d1"
        using p Ready by (intro reader_run.delivered [OF reader_run.start]) simp
      with trans body nt p Ready n r show ?thesis by (auto simp: poll_read_def split: if_splits)
    qed
  qed
qed

lemmas drain_loop_run = drain_loop_run_if [THEN mp]

lemma accept_mail_reads:
  assumes "accept_mail env proto reader w m c = (reader', w', c', ret)"
  shows "keeps c c' \<and> (\<exists>out d. reader_run (awaited_read env) reader out d \<and>
    (reader' = d \<or> complete d = Value reader'))"
proof (cases "\<exists>d u. drain_loop env reader = Some (Value (d, Inr u))")
  case True
  then obtain d u where d: "drain_loop env reader = Some (Value (d, Inr u))" by blast
  from drain_loop_run [OF this refl] assms d show ?thesis
    by (auto simp: accept_mail_def split: run.splits)
next
  case False
  with assms reader_run.start [of "awaited_read env" reader] show ?thesis
    by (auto simp: accept_mail_def split: option.splits run.splits prod.splits sum.splits)
qed

abbreviation accept_config :: "ProtocolName \<Rightarrow> (script_io, unit, unit, unit) Config" where
  "accept_config proto \<equiv> default_config proto ''mx'' accept_tls accept_new_mail accept_from accept_to
     (accept_mail script_env proto)"

interpretation accept: required_methods script_env fst snd accept_tls accept_new_mail accept_from accept_to
  "accept_mail script_env proto" for proto
  by unfold_locales
     (auto simp: accept_tls_def accept_new_mail_def accept_from_def accept_to_def dest: accept_mail_reads)

abbreviation message_parser :: command_parser where
  "message_parser \<equiv> command_parse nom_ref (lexers_ref Some)"

interpretation accept_server: smtp_server script_env fst snd "accept_config proto" message_parser for proto
  by unfold_locales

end
