(* ===== verification/ServerProperties.thy ===== *)
theory ServerProperties
  imports ServerInstance
begin

text \<open>
  What the server promises, for every connection, configuration and parser that satisfy their
  contracts (\<open>smtp_server\<close>): sessions are runs of the abstract SMTP machine, with the replies and
  the input accounted for; mails are only handed over when they should be; encryption starts from
  a clean slate; and \<^verbatim>\<open>interact\<close> returns.
\<close>

section \<open>Sessions\<close>

text \<open>
  \<open>smtp_session proto tls n a\<close>: an abstract session in which \<open>n\<close> replies have been sent, the
  greeting included, and whose state is \<open>a\<close>.
\<close>

inductive smtp_session :: "ProtocolName \<Rightarrow> bool \<Rightarrow> nat \<Rightarrow> smtp_state \<Rightarrow> bool" for proto tls where
  opened: "smtp_session proto tls 1 \<lparr>ab_hello = None, ab_encrypted = tls, ab_mail = None\<rparr>"
| line_refused: "smtp_session proto tls n a \<Longrightarrow> smtp_session proto tls (n + 1) a"
| commanded: "\<lbrakk>smtp_session proto tls n a; smtp_step proto c k a a'\<rbrakk> \<Longrightarrow> smtp_session proto tls (n + k) a'"

lemma smtp_step_encrypted: "smtp_step proto c n a a' \<Longrightarrow> ab_encrypted a \<Longrightarrow> ab_encrypted a'"
  by (cases rule: smtp_step.cases) auto

context smtp_server
begin

lemma interact_step_cases:
  assumes "session_wf s" "interact_step parse env cfg s = Go s' ()"
  obtains (fetch) "abs_session s' = abs_session s" "fetched incoming wire s s'"
    | (skip) "abs_session s' = abs_session s" "skipped_line incoming wire s s'"
    | (cmd) c s1 where "took_command incoming wire parse c s s1" "abs_session s1 = abs_session s"
        "handled incoming wire (cfg_protocol cfg) c s1 s'"
  using interact_step_ensures [OF assms(1)] assms(2) unfolding ensures_def by blast

lemma reaches_session:
  assumes "interact_reaches parse env cfg (interact_init io w tls user) s"
  shows "\<exists>n. smtp_session (cfg_protocol cfg) (tls = Yes) n (abs_session s) \<and> sent wire n io (ss_io s)"
  using assms
proof (induction rule: interact_reaches.induct)
  case (greeted s)
  let ?s0 = "interact_init io w tls user :: ('io, 'w, 'cu, 'mu) Session"
  have "ensures (refuse env (cfg_welcome_banner_reply cfg) ?s0) (\<lambda>s' _. \<exists>c. keeps (ss_conn ?s0) c \<and>
      replied incoming wire 1 (?s0\<lparr>ss_conn := c\<rparr>) s')"
    by (rule refuse_ensures) (simp add: refusals_def)
  with greeted obtain c where c: "keeps (ss_conn ?s0) c" and r: "replied incoming wire 1 (?s0\<lparr>ss_conn := c\<rparr>) s"
    by (auto simp: ensures_def)
  from replied_fields [OF r] c
  have "abs_session s = \<lparr>ab_hello = None, ab_encrypted = (tls = Yes), ab_mail = None\<rparr>" "sent wire 1 io (ss_io s)"
    by (simp_all add: abs_session_def abs_mail_def interact_init_def keeps_def)
  then show ?case using smtp_session.opened by metis
next
  case (stepped s s')
  then obtain n where n: "smtp_session (cfg_protocol cfg) (tls = Yes) n (abs_session s)" "sent wire n io (ss_io s)"
    by blast
  have "session_wf s" using reaches_inv stepped.hyps(1) by blast
  from this stepped.hyps(2) show ?case
  proof (cases rule: interact_step_cases)
    case fetch
    with n have "sent wire n io (ss_io s')" by (simp add: sent_def fetched_def)
    with fetch n show ?thesis by auto
  next
    case skip
    have "sent wire (n + 1) io (ss_io s')"
      by (rule sent_trans [OF n(2)]) (use skip in \<open>simp add: skipped_line_def\<close>)
    with skip n smtp_session.line_refused show ?thesis by metis
  next
    case (cmd c s1)
    then obtain k where k: "smtp_step (cfg_protocol cfg) c k (abs_session s1) (abs_session s')"
      "sent wire k (ss_io s1) (ss_io s')" unfolding handled_def by blast
    have "wire (ss_io s1) = wire (ss_io s)" using cmd by (simp add: took_command_def)
    then have "sent wire k (ss_io s) (ss_io s')" using k(2) by (simp add: sent_def)
    then have "sent wire (n + k) io (ss_io s')" by (rule sent_trans [OF n(2)])
    with k(1) n(1) cmd smtp_session.commanded show ?thesis by metis
  qed
qed

lemma encryption_clean:
  assumes "session_wf s" "interact_step parse env cfg s = Go s' ()"
  shows "(cm_is_encrypted (ss_conn s) \<longrightarrow> cm_is_encrypted (ss_conn s')) \<and>
    (cm_is_encrypted (ss_conn s') \<and> \<not> cm_is_encrypted (ss_conn s) \<longrightarrow>
       unhandled s' = [] \<and> cm_hello (ss_conn s') = None \<and> ss_mail s' = None)"
proof -
  have e: "cm_is_encrypted (ss_conn t) = ab_encrypted (abs_session t)" for t :: "('io, 'w, 'cu, 'mu) Session"
    by (simp add: abs_session_def)
  show ?thesis
    using assms
  proof (cases rule: interact_step_cases)
    case (cmd c s1)
    then show ?thesis using smtp_step_encrypted unfolding handled_def e by metis
  qed (simp_all add: e)
qed

end

section \<open>Scripted sessions\<close>

text \<open>A session on the scripted connection that has read everything it was sent so far.\<close>

definition idle_session :: "bytes \<Rightarrow> bytes \<Rightarrow> HelloInfo option \<Rightarrow> (script_io, unit, unit, unit) Session" where
  "idle_session input out h =
     (let s = interact_init (input, out) () No () in s\<lparr>ss_conn := (ss_conn s)\<lparr>cm_hello := h\<rparr>\<rparr>)"

lemma idle_session_wf [simp]: "session_wf (idle_session input out h)"
  by (simp add: idle_session_def interact_init_def session_wf_def Let_def)

abbreviation banner :: bytes where
  "banner \<equiv> reply_bytes (welcome_banner ''mx'' ''Service ready'')"

lemma idle_session_reached:
  "interact_reaches message_parser script_env (accept_config proto) (interact_init (input, []) () No ())
     (idle_session input banner None)"
proof (rule interact_reaches.greeted)
  obtain slices where r: "reply_io_slices (welcome_banner ''mx'' ''Service ready'') = Value slices"
    by (simp add: reply_io_slices_def welcome_banner_def Let_def)
  then show "refuse script_env (cfg_welcome_banner_reply (accept_config proto)) (interact_init (input, []) () No ()) =
      Go (idle_session input banner None) ()"
    by (simp add: refuse_def default_config_def default_welcome_banner_reply_def default_welcome_banner_def
        send_reply_def script_env_def interact_init_def idle_session_def reply_bytes_def Let_def)
qed

text \<open>The session after a command was read that is all the peer has sent.\<close>

definition having_read :: "bytes \<Rightarrow> bytes \<Rightarrow> HelloInfo option \<Rightarrow> (script_io, unit, unit, unit) Session" where
  "having_read input out h = (idle_session [] out h)
     \<lparr>ss_rdbuf := write_at (replicate RDBUF_SIZE (CHR 0x00)) 0 input, ss_start := length input, ss_end := length input\<rparr>"

lemma scripted_command:
  assumes "command_printable Some c" "concat (command_io_slices c) = input" "length input \<le> RDBUF_SIZE" "input \<noteq> []"
  shows "interact_step message_parser script_env cfg (idle_session input out h) =
    handle_command script_env cfg c (having_read input out h)"
proof -
  let ?buf = "replicate RDBUF_SIZE (CHR 0x00)"
  have "message_parser input = Inr ([], c)"
    using grammar.command_wire [OF grammar_ref.grammar_axioms, of Some c "[]"] assms(1,2)
    by (simp add: command_parse_def ires_extract_def get_command_def lexers_ref_def)
  moreover have "subslice (write_at ?buf 0 input) 0 (length input) = input"
    using write_at_props(2) [of 0 input ?buf 0] assms(3) by simp
  ultimately show ?thesis
    using assms(3,4) by (simp add: interact_step_def next_command_def read_for_command_def read_into_def script_env_def
        idle_session_def having_read_def interact_init_def Let_def)
qed

abbreviation extended_hello :: HelloInfo where
  "extended_hello \<equiv> \<lparr>hi_is_extended = True, hi_hostname = AsciiDomain ''c''\<rparr>"

abbreviation rset_input :: bytes where "rset_input \<equiv> ''RSET'' @ CRLF"
abbreviation starttls_input :: bytes where "starttls_input \<equiv> ''STARTTLS'' @ CRLF"

lemma stock_reply_sent:
  assumes "r \<in> set stock_replies"
  shows "send_reply script_env r s = Go (s\<lparr>ss_io := (fst (ss_io s), snd (ss_io s) @ reply_bytes r)\<rparr>) ()"
proof -
  have "rp_text r \<noteq> []" using stock_replies_ok assms by (auto simp: reply_ok_def)
  then show ?thesis
    by (cases "ss_io s") (simp add: send_reply_def reply_io_slices_def reply_bytes_def script_env_def Let_def)
qed

lemma rset_session:
  "interact_step message_parser script_env (accept_config proto) (idle_session rset_input out h) =
     Go ((having_read rset_input out h)\<lparr>ss_io := ([], out @ reply_bytes okay_rset)\<rparr>) ()"
proof -
  have "interact_step message_parser script_env (accept_config proto) (idle_session rset_input out h) =
      handle_command script_env (accept_config proto) Rset (having_read rset_input out h)"
    by (rule scripted_command) (simp_all add: RDBUF_SIZE_def)
  then show ?thesis
    by (simp add: handle_rset_command_def dispatch_decision_def default_config_def default_handle_rset_def
        stock_reply_sent stock_replies_def having_read_def idle_session_def interact_init_def Let_def)
qed

lemma starttls_session:
  "interact_step message_parser script_env (accept_config proto) (idle_session starttls_input out (Some extended_hello)) =
     Go ((having_read starttls_input out None)\<lparr>ss_io := ([], out @ reply_bytes okay_starttls),
       ss_conn := \<lparr>cm_user = (), cm_hello = None, cm_is_encrypted = True\<rparr>\<rparr>) ()"
proof -
  have "interact_step message_parser script_env (accept_config proto) (idle_session starttls_input out (Some extended_hello)) =
      handle_command script_env (accept_config proto) Starttls (having_read starttls_input out (Some extended_hello))"
    by (rule scripted_command) (simp_all add: RDBUF_SIZE_def)
  then show ?thesis
    by (simp add: handle_starttls_command_def dispatch_decision_def default_config_def default_handle_starttls_def
        default_can_do_tls_def accept_tls_def stock_reply_sent stock_replies_def having_read_def idle_session_def
        interact_init_def Let_def)
qed

lemma accept_is_server: "smtp_server script_env fst snd (accept_config proto) message_parser"
  by (rule accept_server.smtp_server_axioms)

section \<open>Properties of the server\<close>





text \<open>
  Claim C17. In every session the loop reaches, the buffer indices are in range and a mail transaction is
  only open when the client has greeted.
\<close>

theorem reachable_session_invariant:
  assumes "smtp_server env incoming wire cfg parse"
    and "interact_reaches parse env cfg (interact_init io w tls user) s"
  shows "session_wf s \<and> (ss_mail s \<noteq> None \<longrightarrow> cm_hello (ss_conn s) \<noteq> None)"
  using smtp_server.reaches_inv [OF assms] by (simp add: machine_inv_def abs_session_def abs_mail_def)

lemma reachable_session_invariant_witness:
  "session_wf (idle_session [] banner None) \<and> ss_mail (idle_session [] banner None) = None \<and>
   cm_hello (ss_conn (idle_session [] banner None)) = None"
  using reachable_session_invariant [OF accept_is_server idle_session_reached, of "[]"]
  by (simp add: idle_session_def interact_init_def)

text \<open>
  Claim C18. The configuration is asked to take a mail over (\<^verbatim>\<open>handle_mail\<close>) only for mails with at least
  one recipient, from a client that has greeted: what it would do with other mails has no
  influence on any turn of the loop.
\<close>

theorem handle_mail_asked_in_order:
  assumes "smtp_server env incoming wire cfg parse"
    and "interact_reaches parse env cfg (interact_init io w tls user) s"
    and "\<And>reader w m c. mm_to m \<noteq> [] \<Longrightarrow> cm_hello c \<noteq> None \<Longrightarrow> h reader w m c = cfg_handle_mail cfg reader w m c"
  shows "interact_step parse env (cfg\<lparr>cfg_handle_mail := h\<rparr>) s = interact_step parse env cfg s"
  using smtp_server.reaches_inv [OF assms(1,2)] smtp_server.handle_mail_only_asked [OF assms(1) _ _ assms(3)] by blast

lemma handle_mail_asked_in_order_witness:
  "interact_step message_parser script_env ((accept_config Smtp)\<lparr>cfg_handle_mail := (\<lambda>reader w m c.
      if mm_to m = [] \<or> cm_hello c = None then (reader, w, c, Inl (Kill None (Inr ())))
      else cfg_handle_mail (accept_config Smtp) reader w m c)\<rparr>) (idle_session rset_input banner None) =
   interact_step message_parser script_env (accept_config Smtp) (idle_session rset_input banner None)"
  by (rule handle_mail_asked_in_order [OF accept_is_server idle_session_reached]) auto

text \<open>
  Claim C15. Nothing that was said before the TLS handshake survives it: when a turn of the loop turns
  encryption on, no byte received in the clear is left to be read as a command, the client has
  to greet again and there is no mail transaction. Encryption is never turned off.
\<close>

theorem starttls_starts_afresh:
  assumes "smtp_server env incoming wire cfg parse" and "session_wf s"
    and "interact_step parse env cfg s = Go s' ()"
  shows "(cm_is_encrypted (ss_conn s) \<longrightarrow> cm_is_encrypted (ss_conn s')) \<and>
    (cm_is_encrypted (ss_conn s') \<and> \<not> cm_is_encrypted (ss_conn s) \<longrightarrow>
       unhandled s' = [] \<and> cm_hello (ss_conn s') = None \<and> ss_mail s' = None)"
  by (rule smtp_server.encryption_clean [OF assms])

lemma starttls_starts_afresh_witness:
  "let s' = (having_read starttls_input [] None)\<lparr>ss_io := ([], reply_bytes okay_starttls),
       ss_conn := \<lparr>cm_user = (), cm_hello = None, cm_is_encrypted = True\<rparr>\<rparr> in
   interact_step message_parser script_env (accept_config Smtp) (idle_session starttls_input [] (Some extended_hello)) = Go s' () \<and>
   cm_is_encrypted (ss_conn s') \<and> unhandled s' = [] \<and> cm_hello (ss_conn s') = None \<and> ss_mail s' = None"
  using starttls_starts_afresh [OF accept_is_server [of Smtp] idle_session_wf starttls_session [where out = "[]"]]
    starttls_session [where out = "[]" and proto = Smtp]
  by (simp add: Let_def idle_session_def interact_init_def)

text \<open>
  Claim C16. \<^verbatim>\<open>interact\<close> returns on every finite input, with a result or a panic of the configuration's
  making: each turn takes bytes off the input or moves some into the buffer, and no loop inside
  a turn runs forever. This needs a TLS layer that does not produce more bytes than it reads.
\<close>

theorem interact_terminates:
  assumes "smtp_server env incoming wire cfg parse" and "tls_shortens incoming cfg"
  shows "\<exists>r. interact parse env cfg io w tls user = Some r"
  by (rule smtp_server.interact_returns [OF assms])

lemma interact_terminates_witness:
  "\<exists>r. interact message_parser script_env (accept_config Lmtp) (rset_input, []) () No () = Some r"
  by (rule interact_terminates [OF accept_is_server])
     (simp add: tls_shortens_def default_config_def accept_tls_def)

text \<open>
  Claim C19. Skipping a line that could not be read always ends; when it succeeds, exactly the input up
  to and including the first CRLF is gone, wherever the buffer boundaries fall, and neither the
  replies nor the rest of the session are touched.
\<close>

theorem advance_until_crlf_skips_line:
  assumes "connection env incoming wire" and "session_wf s"
  shows "(\<exists>s' r. advance_until_crlf env s = Stop s' (Inl r)) \<or>
    (\<exists>s' p. advance_until_crlf env s = Go s' () \<and> session_wf s' \<and> wire (ss_io s') = wire (ss_io s) \<and>
       ss_mail s' = ss_mail s \<and> ss_conn s' = ss_conn s \<and>
       find_window CRLF (pending_input incoming s) = Some p \<and>
       pending_input incoming s' = drop (p + 2) (pending_input incoming s))"
proof (cases "advance_until_crlf env s")
  case (Go s' u)
  with connection.advance_until_crlf_ensures(1) [OF assms] show ?thesis
    by (auto simp: ensures_def pending_input_def)
next
  case (Stop s' r)
  then have "\<exists>e. r = Inl e" by (auto simp: advance_until_crlf_def Let_def split: option.splits sum.splits)
  with Stop show ?thesis by blast
qed (use connection.advance_until_crlf_ensures(2) [OF assms] in auto)

lemma advance_until_crlf_skips_line_witness:
  "(\<exists>s' r. advance_until_crlf script_env (idle_session rset_input [] None) = Stop s' (Inl r)) \<or>
   (\<exists>s' p. advance_until_crlf script_env (idle_session rset_input [] None) = Go s' () \<and> session_wf s' \<and>
       snd (ss_io s') = snd (ss_io (idle_session rset_input [] None)) \<and>
       ss_mail s' = ss_mail (idle_session rset_input [] None) \<and>
       ss_conn s' = ss_conn (idle_session rset_input [] None) \<and>
       find_window CRLF (pending_input fst (idle_session rset_input [] None)) = Some p \<and>
       pending_input fst s' = drop (p + 2) (pending_input fst (idle_session rset_input [] None)))"
  by (rule advance_until_crlf_skips_line [OF script_conn.connection_axioms idle_session_wf])



end
