(* ===== verification/Queue.thy ===== *)
theory Queue
  imports Message
begin

text \<open>
  The queue runner of \<^verbatim>\<open>smtp-queue/src/lib.rs\<close>, with the types of \<^verbatim>\<open>smtp-queue-types\<close>. The storage,
  the transport and the configuration are parameters (the traits of the crate), as is what
  \<^verbatim>\<open>chrono\<close> computes. Everything outside the runner is one value of type \<open>'w\<close>, which every awaited
  call takes and returns. A spawned future is a \<open>task\<close>: the point of the source where it awaits,
  with the local variables that are live there. A step of the runner lets one task go on to its
  next await, so that every interleaving of the tasks is a sequence of steps.
\<close>

section \<open>Schedules\<close>

text \<open>Instants and durations are in nanoseconds.\<close>

type_synonym duration = nat
type_synonym instant = int

definition from_secs :: "nat \<Rightarrow> duration" where
  "from_secs s = s * 10 ^ 9"

datatype QueueId = QueueId string

record ScheduleInfo =
  sched_at :: instant
  last_attempt :: "instant option"

text \<open>\<^verbatim>\<open>chrono::Duration::to_std\<close> fails on a negative difference.\<close>

datatype OutOfRangeError = OutOfRangeError

definition to_std :: "int \<Rightarrow> OutOfRangeError + duration" where
  "to_std d = (if d < 0 then Inl OutOfRangeError else Inr (nat d))"

definition last_interval :: "ScheduleInfo \<Rightarrow> OutOfRangeError + duration option" where
  "last_interval s =
     (case last_attempt s of
        None \<Rightarrow> Inr None
      | Some attempt \<Rightarrow> map_sum id Some (to_std (attempt - sched_at s)))"

section \<open>The interfaces\<close>

record 'u QMailMetadata =
  qmm_from :: "bytes Email option"
  qmm_to :: "bytes Email"
  qmm_metadata :: 'u

record 'w QConfig =
  qc_next_interval :: "'w \<Rightarrow> ScheduleInfo \<Rightarrow> 'w \<times> duration option"
  qc_found_inflight_check_delay :: duration
  qc_io_error_next_retry_delay :: "duration \<Rightarrow> duration run"

definition default_found_inflight_check_delay :: duration where
  "default_found_inflight_check_delay = from_secs 3600"

text \<open>
  \<^verbatim>\<open>Duration::mul_f64\<close> panics when the product does not fit. The product is exact on the delays the
  runner makes, a minute doubled again and again.
\<close>

definition max_duration :: duration where
  "max_duration = from_secs (2 ^ 64 - 1) + 999999999"

definition default_io_error_next_retry_delay :: "duration \<Rightarrow> duration run" where
  "default_io_error_next_retry_delay d =
     (if d < from_secs 30 then Value (from_secs 60)
      else if d * 2 \<le> max_duration then Value (d * 2) else Panic)"

record ('w, 'qm, 'im, 'pm, 'e, 'u, 'r, 'enq) Storage =
  st_list_queue :: "'w \<Rightarrow> 'w \<times> ('e \<times> QueueId option + 'qm) list"
  st_find_inflight :: "'w \<Rightarrow> 'w \<times> ('e \<times> QueueId option + 'im) list"
  st_find_pending_cleanup :: "'w \<Rightarrow> 'w \<times> ('e \<times> QueueId option + 'pm) list"
  st_read_inflight :: "'w \<Rightarrow> 'im \<Rightarrow> 'w \<times> ('e + 'u QMailMetadata \<times> 'r)"
  st_enqueue :: "'w \<Rightarrow> 'w \<times> ('e + 'enq)"
  st_reschedule :: "'w \<Rightarrow> 'qm \<Rightarrow> ScheduleInfo \<Rightarrow> 'w \<times> 'qm \<times> ('e + unit)"
  st_send_start :: "'w \<Rightarrow> 'qm \<Rightarrow> 'w \<times> ('qm \<times> 'e + 'im option)"
  st_send_done :: "'w \<Rightarrow> 'im \<Rightarrow> 'w \<times> ('im \<times> 'e + 'pm option)"
  st_send_cancel :: "'w \<Rightarrow> 'im \<Rightarrow> 'w \<times> ('im \<times> 'e + 'qm option)"
  st_drop :: "'w \<Rightarrow> 'qm \<Rightarrow> 'w \<times> ('qm \<times> 'e + 'pm option)"
  st_cleanup :: "'w \<Rightarrow> 'pm \<Rightarrow> 'w \<times> ('pm \<times> 'e + bool)"
  st_commit :: "'w \<Rightarrow> 'enq \<Rightarrow> ('u QMailMetadata \<times> ScheduleInfo) list \<Rightarrow> 'w \<times> ('e + 'qm list)"
  queued_id :: "'qm \<Rightarrow> QueueId"
  queued_schedule :: "'qm \<Rightarrow> ScheduleInfo"
  inflight_id :: "'im \<Rightarrow> QueueId"
  pending_id :: "'pm \<Rightarrow> QueueId"

datatype TransportFailure =
    Local
  | NetworkTransient
  | MailTransient
  | MailboxTransient
  | MailSystemTransient
  | MailPermanent
  | MailboxPermanent
  | MailSystemPermanent

record ('w, 'u, 'r, 'd, 's) Transport =
  tr_destination :: "'w \<Rightarrow> 'u QMailMetadata \<Rightarrow> 'w \<times> (TransportFailure + 'd)"
  tr_connect :: "'w \<Rightarrow> 'd \<Rightarrow> 'w \<times> (TransportFailure + 's)"
  tr_send :: "'w \<Rightarrow> 's \<Rightarrow> 'u QMailMetadata \<Rightarrow> 'r \<Rightarrow> 'w \<times> (TransportFailure + unit)"

text \<open>The clock, and what \<^verbatim>\<open>chrono\<close> answers where it can fail: \<open>None\<close> for a value out of its range.\<close>

record 'w Chrono =
  utc_now :: "'w \<Rightarrow> 'w \<times> instant"
  from_std :: "duration \<Rightarrow> int option"
  instant_add :: "instant \<Rightarrow> int \<Rightarrow> instant option"

definition INTERVAL_ON_TOO_BIG_DURATION :: duration where
  "INTERVAL_ON_TOO_BIG_DURATION = from_secs (4 * 3600)"

record ('w, 'qm, 'im, 'pm, 'e, 'u, 'r, 'enq, 'd, 's) QueueImpl =
  qi_config :: "'w QConfig"
  qi_storage :: "('w, 'qm, 'im, 'pm, 'e, 'u, 'r, 'enq) Storage"
  qi_transport :: "('w, 'u, 'r, 'd, 's) Transport"
  qi_chrono :: "'w Chrono"

section \<open>Tasks\<close>

text \<open>
  What the runner is seen to do: the calls of the logging methods of the configuration, the
  timers it waits for, the answers that decide the fate of a mail, and the entries of a listing
  that are passed over.
\<close>

datatype 'e event =
    Log_Storage_Error 'e "QueueId option"
  | Log_Found_Inflight QueueId
  | Log_Found_Pending_Cleanup QueueId
  | Log_Queued_Mail_Vanished QueueId
  | Log_Inflight_Mail_Vanished QueueId
  | Log_Pending_Cleanup_Mail_Vanished QueueId
  | Log_Too_Big_Duration QueueId duration duration
  | Waited duration
  | Enqueued QueueId
  | Commit_Failed 'e
  | Delivered QueueId
  | Given_Up QueueId
  | Skipped "QueueId option"

datatype ('qm, 'im, 'pm, 'u, 'r, 'd, 's) task =
    Found_Inflight 'im
  | Found_Cancel duration 'im
  | Send 'qm
  | Send_Start duration QueueId 'qm
  | Read_Inflight duration QueueId 'im
  | Destination QueueId 'im "'u QMailMetadata" 'r
  | Connect QueueId 'im "'u QMailMetadata" 'r 'd
  | Transmit QueueId 'im "'u QMailMetadata" 'r 's
  | Send_Done duration QueueId 'im
  | Send_Cancel duration QueueId 'im
  | Next_Interval 'qm
  | Reschedule duration 'qm ScheduleInfo
  | Drop duration QueueId 'qm
  | Cleanup duration QueueId 'pm
  | Panicked QueueId

text \<open>A turn of a task: the world, the events, and what is left to do.\<close>

type_synonym ('w, 'e, 't) turn = "'w \<times> 'e event list \<times> 't list"

text \<open>
  \<^verbatim>\<open>io_retry_loop!\<close>, one attempt: on an error it is logged, the delay awaited and the attempt made
  again with the next delay.
\<close>

definition io_retry_loop ::
  "'w QConfig \<Rightarrow> ('m \<Rightarrow> QueueId) \<Rightarrow> duration \<Rightarrow> 'w \<times> ('m \<times> 'e + 'v) \<Rightarrow>
     (duration \<Rightarrow> 'm \<Rightarrow> ('qm, 'im, 'pm, 'u, 'r, 'd, 's) task) \<Rightarrow>
     ('v \<Rightarrow> 'e event list \<times> ('qm, 'im, 'pm, 'u, 'r, 'd, 's) task list) \<Rightarrow>
     ('w, 'e, ('qm, 'im, 'pm, 'u, 'r, 'd, 's) task) turn" where
  "io_retry_loop cfg id_of delay attempt again ok =
     (case attempt of
        (w, Inr v) \<Rightarrow> (case ok v of (evs, ts) \<Rightarrow> (w, evs, ts))
      | (w, Inl (m, e)) \<Rightarrow>
          (w, [Log_Storage_Error e (Some (id_of m)), Waited delay],
           [case qc_io_error_next_retry_delay cfg delay of
              Value delay' \<Rightarrow> again delay' m | Panic \<Rightarrow> Panicked (id_of m)]))"

text \<open>The delay every such loop starts with.\<close>

definition initial_delay :: duration where
  "initial_delay = 0"

subsection \<open>Cleaning up\<close>

definition cleanup_step ::
  "('w, 'qm, 'im, 'pm, 'e, 'u, 'r, 'enq, 'd, 's) QueueImpl \<Rightarrow> 'w \<Rightarrow> duration \<Rightarrow> QueueId \<Rightarrow> 'pm \<Rightarrow>
     ('w, 'e, ('qm, 'im, 'pm, 'u, 'r, 'd, 's) task) turn" where
  "cleanup_step q w delay qid pcm =
     io_retry_loop (qi_config q) (pending_id (qi_storage q)) delay (st_cleanup (qi_storage q) w pcm)
       (\<lambda>delay' p. Cleanup delay' qid p)
       (\<lambda>successful. (if successful then [] else [Log_Pending_Cleanup_Mail_Vanished qid], []))"

definition cleanup :: "('w, 'qm, 'im, 'pm, 'e, 'u, 'r, 'enq) Storage \<Rightarrow> 'pm \<Rightarrow>
    ('qm, 'im, 'pm, 'u, 'r, 'd, 's) task" where
  "cleanup st pcm = Cleanup initial_delay (pending_id st pcm) pcm"

subsection \<open>One attempt to send a mail\<close>

text \<open>The head of \<^verbatim>\<open>try_send\<close>.\<close>

definition try_send :: "('w, 'qm, 'im, 'pm, 'e, 'u, 'r, 'enq) Storage \<Rightarrow> 'qm \<Rightarrow>
    ('qm, 'im, 'pm, 'u, 'r, 'd, 's) task" where
  "try_send st mail = Send_Start initial_delay (queued_id st mail) mail"

definition send_start_step ::
  "('w, 'qm, 'im, 'pm, 'e, 'u, 'r, 'enq, 'd, 's) QueueImpl \<Rightarrow> 'w \<Rightarrow> duration \<Rightarrow> QueueId \<Rightarrow> 'qm \<Rightarrow>
     ('w, 'e, ('qm, 'im, 'pm, 'u, 'r, 'd, 's) task) turn" where
  "send_start_step q w delay qid mail =
     io_retry_loop (qi_config q) (queued_id (qi_storage q)) delay (st_send_start (qi_storage q) w mail)
       (\<lambda>delay' m. Send_Start delay' qid m)
       (\<lambda>inflight. case inflight of
          Some i \<Rightarrow> ([], [Read_Inflight initial_delay qid i])
        | None \<Rightarrow> ([Log_Queued_Mail_Vanished qid], []))"

definition read_inflight_step ::
  "('w, 'qm, 'im, 'pm, 'e, 'u, 'r, 'enq, 'd, 's) QueueImpl \<Rightarrow> 'w \<Rightarrow> duration \<Rightarrow> QueueId \<Rightarrow> 'im \<Rightarrow>
     ('w, 'e, ('qm, 'im, 'pm, 'u, 'r, 'd, 's) task) turn" where
  "read_inflight_step q w delay qid inflight =
     io_retry_loop (qi_config q) (inflight_id (qi_storage q)) delay
       (case st_read_inflight (qi_storage q) w inflight of
          (w, Inr (m, r)) \<Rightarrow> (w, Inr (inflight, m, r))
        | (w, Inl e) \<Rightarrow> (w, Inl (inflight, e)))
       (\<lambda>delay' i. Read_Inflight delay' qid i)
       (\<lambda>(i, meta, reader). ([], [Destination qid i meta reader]))"

text \<open>A failed attempt: back to the queue, under the mail's own id.\<close>

definition send_failed :: "('w, 'qm, 'im, 'pm, 'e, 'u, 'r, 'enq) Storage \<Rightarrow> 'im \<Rightarrow>
    ('qm, 'im, 'pm, 'u, 'r, 'd, 's) task" where
  "send_failed st inflight = Send_Cancel initial_delay (inflight_id st inflight) inflight"

definition destination_step ::
  "('w, 'qm, 'im, 'pm, 'e, 'u, 'r, 'enq, 'd, 's) QueueImpl \<Rightarrow> 'w \<Rightarrow> QueueId \<Rightarrow> 'im \<Rightarrow> 'u QMailMetadata \<Rightarrow> 'r \<Rightarrow>
     ('w, 'e, ('qm, 'im, 'pm, 'u, 'r, 'd, 's) task) turn" where
  "destination_step q w qid inflight meta reader =
     (case tr_destination (qi_transport q) w meta of
        (w, Inr dest) \<Rightarrow> (w, [], [Connect qid inflight meta reader dest])
      | (w, Inl _) \<Rightarrow> (w, [], [send_failed (qi_storage q) inflight]))"

definition connect_step ::
  "('w, 'qm, 'im, 'pm, 'e, 'u, 'r, 'enq, 'd, 's) QueueImpl \<Rightarrow> 'w \<Rightarrow> QueueId \<Rightarrow> 'im \<Rightarrow> 'u QMailMetadata \<Rightarrow> 'r \<Rightarrow>
     'd \<Rightarrow> ('w, 'e, ('qm, 'im, 'pm, 'u, 'r, 'd, 's) task) turn" where
  "connect_step q w qid inflight meta reader dest =
     (case tr_connect (qi_transport q) w dest of
        (w, Inr sender) \<Rightarrow> (w, [], [Transmit qid inflight meta reader sender])
      | (w, Inl _) \<Rightarrow> (w, [], [send_failed (qi_storage q) inflight]))"

definition transmit_step ::
  "('w, 'qm, 'im, 'pm, 'e, 'u, 'r, 'enq, 'd, 's) QueueImpl \<Rightarrow> 'w \<Rightarrow> QueueId \<Rightarrow> 'im \<Rightarrow> 'u QMailMetadata \<Rightarrow> 'r \<Rightarrow>
     's \<Rightarrow> ('w, 'e, ('qm, 'im, 'pm, 'u, 'r, 'd, 's) task) turn" where
  "transmit_step q w qid inflight meta reader sender =
     (case tr_send (qi_transport q) w sender meta reader of
        (w, Inr _) \<Rightarrow> (w, [Delivered (inflight_id (qi_storage q) inflight)], [Send_Done initial_delay qid inflight])
      | (w, Inl _) \<Rightarrow> (w, [], [send_failed (qi_storage q) inflight]))"

definition send_done_step ::
  "('w, 'qm, 'im, 'pm, 'e, 'u, 'r, 'enq, 'd, 's) QueueImpl \<Rightarrow> 'w \<Rightarrow> duration \<Rightarrow> QueueId \<Rightarrow> 'im \<Rightarrow>
     ('w, 'e, ('qm, 'im, 'pm, 'u, 'r, 'd, 's) task) turn" where
  "send_done_step q w delay qid inflight =
     io_retry_loop (qi_config q) (inflight_id (qi_storage q)) delay (st_send_done (qi_storage q) w inflight)
       (\<lambda>delay' i. Send_Done delay' qid i)
       (\<lambda>pcm. case pcm of
          Some p \<Rightarrow> ([], [cleanup (qi_storage q) p])
        | None \<Rightarrow> ([Log_Queued_Mail_Vanished qid], []))"

definition send_cancel_step ::
  "('w, 'qm, 'im, 'pm, 'e, 'u, 'r, 'enq, 'd, 's) QueueImpl \<Rightarrow> 'w \<Rightarrow> duration \<Rightarrow> QueueId \<Rightarrow> 'im \<Rightarrow>
     ('w, 'e, ('qm, 'im, 'pm, 'u, 'r, 'd, 's) task) turn" where
  "send_cancel_step q w delay qid inflight =
     io_retry_loop (qi_config q) (inflight_id (qi_storage q)) delay (st_send_cancel (qi_storage q) w inflight)
       (\<lambda>delay' i. Send_Cancel delay' qid i)
       (\<lambda>queued. case queued of
          Some m \<Rightarrow> ([], [Next_Interval m])
        | None \<Rightarrow> ([Log_Inflight_Mail_Vanished qid], []))"

subsection \<open>Sending until it is done or given up\<close>

definition send_wait_step ::
  "('w, 'qm, 'im, 'pm, 'e, 'u, 'r, 'enq, 'd, 's) QueueImpl \<Rightarrow> 'w \<Rightarrow> 'qm \<Rightarrow>
     ('w, 'e, ('qm, 'im, 'pm, 'u, 'r, 'd, 's) task) turn" where
  "send_wait_step q w mail =
     (case utc_now (qi_chrono q) w of
        (w, now) \<Rightarrow>
          (let wait_time = (case to_std (sched_at (queued_schedule (qi_storage q) mail) - now) of
                              Inr d \<Rightarrow> d | Inl _ \<Rightarrow> 0)
           in (w, [Waited wait_time], [try_send (qi_storage q) mail])))"

text \<open>The interval in the terms of \<^verbatim>\<open>chrono\<close>, four hours if it is too big for it.\<close>

definition chrono_interval ::
  "'w Chrono \<Rightarrow> QueueId \<Rightarrow> duration \<Rightarrow> 'e event list \<times> int option" where
  "chrono_interval ch qid interval =
     (case from_std ch interval of
        Some i \<Rightarrow> ([], Some i)
      | None \<Rightarrow> ([Log_Too_Big_Duration qid interval INTERVAL_ON_TOO_BIG_DURATION],
                 from_std ch INTERVAL_ON_TOO_BIG_DURATION))"

definition next_interval_step ::
  "('w, 'qm, 'im, 'pm, 'e, 'u, 'r, 'enq, 'd, 's) QueueImpl \<Rightarrow> 'w \<Rightarrow> 'qm \<Rightarrow>
     ('w, 'e, ('qm, 'im, 'pm, 'u, 'r, 'd, 's) task) turn" where
  "next_interval_step q w mail =
     (let qid = queued_id (qi_storage q) mail in
      case utc_now (qi_chrono q) w of
        (w, this_attempt) \<Rightarrow>
          (case qc_next_interval (qi_config q) w (queued_schedule (qi_storage q) mail) of
             (w, Some interval) \<Rightarrow>
               (case chrono_interval (qi_chrono q) qid interval of
                  (evs, None) \<Rightarrow> (w, evs, [Panicked qid])
                | (evs, Some i) \<Rightarrow>
                    (case instant_add (qi_chrono q) this_attempt i of
                       None \<Rightarrow> (w, evs, [Panicked qid])
                     | Some next_attempt \<Rightarrow>
                         (w, evs, [Reschedule initial_delay mail
                            \<lparr>sched_at = next_attempt, last_attempt = Some this_attempt\<rparr>])))
           | (w, None) \<Rightarrow> (w, [Given_Up qid], [Drop initial_delay qid mail])))"

text \<open>\<^verbatim>\<open>io_retry_loop_raw!\<close> around \<^verbatim>\<open>reschedule\<close>, which changes the mail in place even when it fails.\<close>

definition reschedule_step ::
  "('w, 'qm, 'im, 'pm, 'e, 'u, 'r, 'enq, 'd, 's) QueueImpl \<Rightarrow> 'w \<Rightarrow> duration \<Rightarrow> 'qm \<Rightarrow> ScheduleInfo \<Rightarrow>
     ('w, 'e, ('qm, 'im, 'pm, 'u, 'r, 'd, 's) task) turn" where
  "reschedule_step q w delay mail schedule =
     io_retry_loop (qi_config q) (\<lambda>_. queued_id (qi_storage q) mail) delay
       (case st_reschedule (qi_storage q) w mail schedule of
          (w, mail', Inr _) \<Rightarrow> (w, Inr mail')
        | (w, mail', Inl e) \<Rightarrow> (w, Inl (mail', e)))
       (\<lambda>delay' mail'. Reschedule delay' mail' schedule)
       (\<lambda>mail'. ([], [Send mail']))"

definition drop_step ::
  "('w, 'qm, 'im, 'pm, 'e, 'u, 'r, 'enq, 'd, 's) QueueImpl \<Rightarrow> 'w \<Rightarrow> duration \<Rightarrow> QueueId \<Rightarrow> 'qm \<Rightarrow>
     ('w, 'e, ('qm, 'im, 'pm, 'u, 'r, 'd, 's) task) turn" where
  "drop_step q w delay qid mail =
     io_retry_loop (qi_config q) (queued_id (qi_storage q)) delay (st_drop (qi_storage q) w mail)
       (\<lambda>delay' m. Drop delay' qid m)
       (\<lambda>pcm. case pcm of
          Some p \<Rightarrow> ([], [cleanup (qi_storage q) p])
        | None \<Rightarrow> ([Log_Queued_Mail_Vanished qid], []))"

subsection \<open>Mails found in flight\<close>

definition found_inflight_step ::
  "('w, 'qm, 'im, 'pm, 'e, 'u, 'r, 'enq, 'd, 's) QueueImpl \<Rightarrow> 'w \<Rightarrow> 'im \<Rightarrow>
     ('w, 'e, ('qm, 'im, 'pm, 'u, 'r, 'd, 's) task) turn" where
  "found_inflight_step q w inflight =
     (w, [Waited (qc_found_inflight_check_delay (qi_config q))], [Found_Cancel initial_delay inflight])"

definition found_cancel_step ::
  "('w, 'qm, 'im, 'pm, 'e, 'u, 'r, 'enq, 'd, 's) QueueImpl \<Rightarrow> 'w \<Rightarrow> duration \<Rightarrow> 'im \<Rightarrow>
     ('w, 'e, ('qm, 'im, 'pm, 'u, 'r, 'd, 's) task) turn" where
  "found_cancel_step q w delay inflight =
     io_retry_loop (qi_config q) (inflight_id (qi_storage q)) delay (st_send_cancel (qi_storage q) w inflight)
       (\<lambda>delay' i. Found_Cancel delay' i)
       (\<lambda>queued. case queued of Some m \<Rightarrow> ([], [Send m]) | None \<Rightarrow> ([], []))"

fun task_step ::
  "('w, 'qm, 'im, 'pm, 'e, 'u, 'r, 'enq, 'd, 's) QueueImpl \<Rightarrow> 'w \<Rightarrow> ('qm, 'im, 'pm, 'u, 'r, 'd, 's) task \<Rightarrow>
     ('w, 'e, ('qm, 'im, 'pm, 'u, 'r, 'd, 's) task) turn" where
  "task_step q w (Found_Inflight i) = found_inflight_step q w i"
| "task_step q w (Found_Cancel delay i) = found_cancel_step q w delay i"
| "task_step q w (Send m) = send_wait_step q w m"
| "task_step q w (Send_Start delay qid m) = send_start_step q w delay qid m"
| "task_step q w (Read_Inflight delay qid i) = read_inflight_step q w delay qid i"
| "task_step q w (Destination qid i meta r) = destination_step q w qid i meta r"
| "task_step q w (Connect qid i meta r d) = connect_step q w qid i meta r d"
| "task_step q w (Transmit qid i meta r s) = transmit_step q w qid i meta r s"
| "task_step q w (Send_Done delay qid i) = send_done_step q w delay qid i"
| "task_step q w (Send_Cancel delay qid i) = send_cancel_step q w delay qid i"
| "task_step q w (Next_Interval m) = next_interval_step q w m"
| "task_step q w (Reschedule delay m sched) = reschedule_step q w delay m sched"
| "task_step q w (Drop delay qid m) = drop_step q w delay qid m"
| "task_step q w (Cleanup delay qid p) = cleanup_step q w delay qid p"
| "task_step q w (Panicked qid) = (w, [], [Panicked qid])"

section \<open>The runner\<close>

text \<open>
  A listing: not yet spawned, not yet opened, or the entries still to come. The stream of a
  listing is the list of its entries.
\<close>

datatype ('e, 'm) scan = Unspawned | Unlisted | Listed "('e \<times> QueueId option + 'm) list"

record ('w, 'qm, 'im, 'pm, 'e, 'u, 'r, 'd, 's) runner =
  rn_world :: 'w
  rn_log :: "'e event list"
  rn_inflight_scan :: "('e, 'im) scan"
  rn_pending_scan :: "('e, 'pm) scan"
  rn_queue_scan :: "('e, 'qm) scan"
  rn_tasks :: "('qm, 'im, 'pm, 'u, 'r, 'd, 's) task list"

text \<open>An entry of a listing: an error is logged and the entry passed over, a mail is given to a task.\<close>

definition scan_entry ::
  "('m \<Rightarrow> 'e event list) \<Rightarrow> ('m \<Rightarrow> 't) \<Rightarrow> 'e \<times> QueueId option + 'm \<Rightarrow> 'e event list \<times> 't list" where
  "scan_entry log spawn entry =
     (case entry of
        Inl (e, qid) \<Rightarrow> ([Log_Storage_Error e qid, Skipped qid], [])
      | Inr m \<Rightarrow> (log m, [spawn m]))"

definition scan_inflight ::
  "('w, 'qm, 'im, 'pm, 'e, 'u, 'r, 'enq, 'd, 's) QueueImpl \<Rightarrow> ('w, 'qm, 'im, 'pm, 'e, 'u, 'r, 'd, 's) runner \<Rightarrow>
     ('w, 'qm, 'im, 'pm, 'e, 'u, 'r, 'd, 's) runner" where
  "scan_inflight q s =
     (case rn_inflight_scan s of
        Unlisted \<Rightarrow>
          (case st_find_inflight (qi_storage q) (rn_world s) of
             (w, entries) \<Rightarrow> s\<lparr>rn_world := w, rn_inflight_scan := Listed entries\<rparr>)
      | Listed (entry # entries) \<Rightarrow>
          (case scan_entry (\<lambda>i. [Log_Found_Inflight (inflight_id (qi_storage q) i)]) Found_Inflight entry of
             (evs, ts) \<Rightarrow> s\<lparr>rn_log := rn_log s @ evs, rn_inflight_scan := Listed entries,
                            rn_tasks := rn_tasks s @ ts\<rparr>)
      | _ \<Rightarrow> s)"

definition scan_pending_cleanup ::
  "('w, 'qm, 'im, 'pm, 'e, 'u, 'r, 'enq, 'd, 's) QueueImpl \<Rightarrow> ('w, 'qm, 'im, 'pm, 'e, 'u, 'r, 'd, 's) runner \<Rightarrow>
     ('w, 'qm, 'im, 'pm, 'e, 'u, 'r, 'd, 's) runner" where
  "scan_pending_cleanup q s =
     (case rn_pending_scan s of
        Unlisted \<Rightarrow>
          (case st_find_pending_cleanup (qi_storage q) (rn_world s) of
             (w, entries) \<Rightarrow> s\<lparr>rn_world := w, rn_pending_scan := Listed entries\<rparr>)
      | Listed (entry # entries) \<Rightarrow>
          (case scan_entry (\<lambda>p. [Log_Found_Pending_Cleanup (pending_id (qi_storage q) p)])
                  (cleanup (qi_storage q)) entry of
             (evs, ts) \<Rightarrow> s\<lparr>rn_log := rn_log s @ evs, rn_pending_scan := Listed entries,
                            rn_tasks := rn_tasks s @ ts\<rparr>)
      | _ \<Rightarrow> s)"

definition scan_queue ::
  "('w, 'qm, 'im, 'pm, 'e, 'u, 'r, 'enq, 'd, 's) QueueImpl \<Rightarrow> ('w, 'qm, 'im, 'pm, 'e, 'u, 'r, 'd, 's) runner \<Rightarrow>
     ('w, 'qm, 'im, 'pm, 'e, 'u, 'r, 'd, 's) runner" where
  "scan_queue q s =
     (case rn_queue_scan s of
        Unlisted \<Rightarrow>
          (case st_list_queue (qi_storage q) (rn_world s) of
             (w, entries) \<Rightarrow> s\<lparr>rn_world := w, rn_queue_scan := Listed entries\<rparr>)
      | Listed (entry # entries) \<Rightarrow>
          (case scan_entry (\<lambda>_. []) Send entry of
             (evs, ts) \<Rightarrow> s\<lparr>rn_log := rn_log s @ evs, rn_queue_scan := Listed entries,
                            rn_tasks := rn_tasks s @ ts\<rparr>)
      | _ \<Rightarrow> s)"

text \<open>\<^verbatim>\<open>Queue::new\<close>: two scans joined; when both are at their end the third is spawned and the queue returned.\<close>

definition queue_new :: "'w \<Rightarrow> ('w, 'qm, 'im, 'pm, 'e, 'u, 'r, 'd, 's) runner" where
  "queue_new w = \<lparr>rn_world = w, rn_log = [], rn_inflight_scan = Unlisted, rn_pending_scan = Unlisted,
     rn_queue_scan = Unspawned, rn_tasks = []\<rparr>"

definition queue_new_join ::
  "('w, 'qm, 'im, 'pm, 'e, 'u, 'r, 'd, 's) runner \<Rightarrow> ('w, 'qm, 'im, 'pm, 'e, 'u, 'r, 'd, 's) runner" where
  "queue_new_join s =
     (if rn_inflight_scan s = Listed [] \<and> rn_pending_scan s = Listed [] \<and> rn_queue_scan s = Unspawned
      then s\<lparr>rn_queue_scan := Unlisted\<rparr> else s)"

section \<open>Enqueueing\<close>

text \<open>
  An \<^verbatim>\<open>Enqueuer\<close> holds the storage's enqueuer until it is committed; writing to it forwards to the
  storage's, and panics behind a commit.
\<close>

record 'enq Enqueuer =
  en_enqueuer :: "'enq option"

definition queue_enqueue ::
  "('w, 'qm, 'im, 'pm, 'e, 'u, 'r, 'enq, 'd, 's) QueueImpl \<Rightarrow> 'w \<Rightarrow> 'w \<times> ('e + 'enq Enqueuer)" where
  "queue_enqueue q w =
     (case st_enqueue (qi_storage q) w of
        (w, Inr e) \<Rightarrow> (w, Inr \<lparr>en_enqueuer = Some e\<rparr>)
      | (w, Inl err) \<Rightarrow> (w, Inl err))"

definition enqueuer_poll ::
  "('enq \<Rightarrow> 'arg \<Rightarrow> 'enq \<times> 'res) \<Rightarrow> 'enq Enqueuer \<Rightarrow> 'arg \<Rightarrow> ('enq Enqueuer \<times> 'res) run" where
  "enqueuer_poll poll en arg =
     (case en_enqueuer en of
        None \<Rightarrow> Panic
      | Some e \<Rightarrow> (case poll e arg of (e', res) \<Rightarrow> Value (\<lparr>en_enqueuer = Some e'\<rparr>, res)))"

definition enqueuer_commit ::
  "('w, 'qm, 'im, 'pm, 'e, 'u, 'r, 'enq, 'd, 's) QueueImpl \<Rightarrow> 'enq Enqueuer \<Rightarrow>
     ('u QMailMetadata \<times> ScheduleInfo) list \<Rightarrow> ('w, 'qm, 'im, 'pm, 'e, 'u, 'r, 'd, 's) runner \<Rightarrow>
     (('w, 'qm, 'im, 'pm, 'e, 'u, 'r, 'd, 's) runner \<times> ('e + unit)) run" where
  "enqueuer_commit q en destinations s =
     (case en_enqueuer en of
        None \<Rightarrow> Panic
      | Some e \<Rightarrow>
          (case st_commit (qi_storage q) (rn_world s) e destinations of
             (w, Inl err) \<Rightarrow> Value (s\<lparr>rn_world := w, rn_log := rn_log s @ [Commit_Failed err]\<rparr>, Inl err)
           | (w, Inr mails) \<Rightarrow>
               Value (s\<lparr>rn_world := w,
                        rn_log := rn_log s @ map (\<lambda>m. Enqueued (queued_id (qi_storage q) m)) mails,
                        rn_tasks := rn_tasks s @ map Send mails\<rparr>, Inr ())))"

section \<open>Steps\<close>

text \<open>
  Any scan or task may go on next. Once \<^verbatim>\<open>new\<close> has returned mails may be committed. In between the
  world may change by itself, in the ways \<open>outside\<close> allows.
\<close>

inductive queue_step ::
  "('w, 'qm, 'im, 'pm, 'e, 'u, 'r, 'enq, 'd, 's) QueueImpl \<Rightarrow> ('w \<Rightarrow> 'w \<Rightarrow> bool) \<Rightarrow>
     ('w, 'qm, 'im, 'pm, 'e, 'u, 'r, 'd, 's) runner \<Rightarrow> ('w, 'qm, 'im, 'pm, 'e, 'u, 'r, 'd, 's) runner \<Rightarrow> bool"
  for q outside where
  inflight_scanned: "queue_step q outside s (scan_inflight q s)"
| pending_scanned: "queue_step q outside s (scan_pending_cleanup q s)"
| joined: "queue_step q outside s (queue_new_join s)"
| queue_scanned: "queue_step q outside s (scan_queue q s)"
| task_ran: "\<lbrakk>rn_tasks s = ts @ t # us; task_step q (rn_world s) t = (w, evs, ts')\<rbrakk> \<Longrightarrow>
    queue_step q outside s (s\<lparr>rn_world := w, rn_log := rn_log s @ evs, rn_tasks := ts @ ts' @ us\<rparr>)"
| committed: "\<lbrakk>rn_queue_scan s \<noteq> Unspawned; enqueuer_commit q en destinations s = Value (s', res)\<rbrakk> \<Longrightarrow>
    queue_step q outside s s'"
| world_changed: "outside (rn_world s) w \<Longrightarrow> queue_step q outside s (s\<lparr>rn_world := w\<rparr>)"

inductive queue_reaches ::
  "('w, 'qm, 'im, 'pm, 'e, 'u, 'r, 'enq, 'd, 's) QueueImpl \<Rightarrow> ('w \<Rightarrow> 'w \<Rightarrow> bool) \<Rightarrow> 'w \<Rightarrow>
     ('w, 'qm, 'im, 'pm, 'e, 'u, 'r, 'd, 's) runner \<Rightarrow> bool"
  for q outside w0 where
  created: "queue_reaches q outside w0 (queue_new w0)"
| stepped: "\<lbrakk>queue_reaches q outside w0 s; queue_step q outside s s'\<rbrakk> \<Longrightarrow> queue_reaches q outside w0 s'"

end
