(* ===== verification/QueueFs.thy ===== *)
theory QueueFs
  imports Queue "HOL-Library.AList"
begin

text \<open>
  The queue storage on a file system, \<^verbatim>\<open>smtp-queue-fs/src/lib.rs\<close>. The calls of \<^verbatim>\<open>openat\<close>, \<^verbatim>\<open>walkdir\<close>
  and \<^verbatim>\<open>std::fs\<close> work on a tree of entries, any of them may fail with an error of the operating
  system, and \<^verbatim>\<open>Uuid::new_v4\<close> answers from a supply of names. A directory handle is the path of
  the directory. What \<^verbatim>\<open>serde_json\<close> writes and reads is a parameter. The closure a method hands to
  \<^verbatim>\<open>unblock\<close> is one step. The names in the queue directories are single path components, as the
  program makes them.
\<close>

section \<open>The file system\<close>

type_synonym path = "string list"

datatype entry = Fs_File bytes | Fs_Link path | Fs_Dir

type_synonym tree = "(path \<times> entry) list"

record fs_world =
  fs_tree :: tree
  fs_faults :: "string option list"
  fs_uuids :: "nat \<Rightarrow> string"
  fs_next_uuid :: nat

definition os_error :: "string \<Rightarrow> io_error" where
  "os_error msg = Io_Error Other msg"

definition not_found :: io_error where
  "not_found = Io_Error NotFound ''No such file or directory''"

text \<open>The record is extended by whatever else the program works with: the network, the clock.\<close>

text \<open>A system call: it fails if a fault is due, and does its work on the tree otherwise.\<close>

definition sys :: "(tree \<Rightarrow> io_error + tree \<times> 'a) \<Rightarrow> 'z fs_world_scheme \<Rightarrow> 'z fs_world_scheme \<times> 'a io_result" where
  "sys call w =
     (let w' = w\<lparr>fs_faults := tl (fs_faults w)\<rparr> in
      case fs_faults w of
        Some msg # _ \<Rightarrow> (w', Inl (os_error msg))
      | _ \<Rightarrow>
          (case call (fs_tree w) of
             Inl e \<Rightarrow> (w', Inl e)
           | Inr (t, a) \<Rightarrow> (w'\<lparr>fs_tree := t\<rparr>, Inr a)))"

text \<open>\<^verbatim>\<open>Uuid::new_v4\<close>\<close>

definition new_uuid :: "'z fs_world_scheme \<Rightarrow> 'z fs_world_scheme \<times> string" where
  "new_uuid w = (w\<lparr>fs_next_uuid := fs_next_uuid w + 1\<rparr>, fs_uuids w (fs_next_uuid w))"

text \<open>
  Path resolution: dots are followed, and links at every component but the last, forty of them
  at most.
\<close>

function walk :: "tree \<Rightarrow> nat \<Rightarrow> path \<Rightarrow> path \<Rightarrow> path io_result" where
  "walk t fuel base [] = Inr base"
| "walk t fuel base (c # cs) =
     (if c = ''.'' then walk t fuel base cs
      else if c = ''..'' then walk t fuel (butlast base) cs
      else if cs = [] then Inr (base @ [c])
      else case map_of t (base @ [c]) of
        None \<Rightarrow> Inl not_found
      | Some Fs_Dir \<Rightarrow> walk t fuel (base @ [c]) cs
      | Some (Fs_File _) \<Rightarrow> Inl (os_error ''Not a directory'')
      | Some (Fs_Link l) \<Rightarrow>
          (case fuel of
             0 \<Rightarrow> Inl (os_error ''Too many levels of symbolic links'')
           | Suc fuel' \<Rightarrow> walk t fuel' base (l @ cs)))"
  by pat_completeness auto

termination
  by (relation "measures [\<lambda>(t, fuel, base, cs). fuel, \<lambda>(t, fuel, base, cs). length cs]") auto

definition MAX_LINKS :: nat where "MAX_LINKS = 40"

definition is_name :: "string \<Rightarrow> bool" where
  "is_name n \<longleftrightarrow> n \<noteq> [] \<and> n \<noteq> ''.'' \<and> n \<noteq> ''..'' \<and> CHR ''/'' \<notin> set n"

definition os_sub_dir :: "path \<Rightarrow> path \<Rightarrow> 'z fs_world_scheme \<Rightarrow> 'z fs_world_scheme \<times> path io_result" where
  "os_sub_dir base rel = sys (\<lambda>t.
     case walk t MAX_LINKS base rel of
       Inl e \<Rightarrow> Inl e
     | Inr p \<Rightarrow>
         (case map_of t p of
            None \<Rightarrow> Inl not_found
          | Some Fs_Dir \<Rightarrow> Inr (t, p)
          | Some _ \<Rightarrow> Inl (os_error ''Not a directory'')))"

text \<open>\<^verbatim>\<open>open_file\<close>, which follows a link in the last component too, and reading the whole file.\<close>

fun follow :: "tree \<Rightarrow> nat \<Rightarrow> path \<Rightarrow> path \<Rightarrow> path io_result" where
  "follow t 0 base rel = Inl (os_error ''Too many levels of symbolic links'')"
| "follow t (Suc n) base rel =
     (case walk t MAX_LINKS base rel of
        Inl e \<Rightarrow> Inl e
      | Inr p \<Rightarrow> (case map_of t p of Some (Fs_Link l) \<Rightarrow> follow t n (butlast p) l | _ \<Rightarrow> Inr p))"

definition os_read_file :: "path \<Rightarrow> path \<Rightarrow> 'z fs_world_scheme \<Rightarrow> 'z fs_world_scheme \<times> bytes io_result" where
  "os_read_file base rel = sys (\<lambda>t.
     case follow t MAX_LINKS base rel of
       Inl e \<Rightarrow> Inl e
     | Inr p \<Rightarrow>
         (case map_of t p of
            None \<Rightarrow> Inl not_found
          | Some (Fs_File bs) \<Rightarrow> Inr (t, bs)
          | Some _ \<Rightarrow> Inl (os_error ''Is a directory'')))"

definition os_read_link :: "path \<Rightarrow> string \<Rightarrow> 'z fs_world_scheme \<Rightarrow> 'z fs_world_scheme \<times> path io_result" where
  "os_read_link dir name = sys (\<lambda>t.
     case map_of t (dir @ [name]) of
       None \<Rightarrow> Inl not_found
     | Some (Fs_Link l) \<Rightarrow> Inr (t, l)
     | Some _ \<Rightarrow> Inl (os_error ''Not a link''))"

text \<open>A new entry: its name must be free and its directory exist.\<close>

definition os_create :: "entry \<Rightarrow> path \<Rightarrow> string \<Rightarrow> 'z fs_world_scheme \<Rightarrow> 'z fs_world_scheme \<times> unit io_result" where
  "os_create entry dir name = sys (\<lambda>t.
     if map_of t dir \<noteq> Some Fs_Dir then Inl not_found
     else if \<not> is_name name \<or> map_of t (dir @ [name]) \<noteq> None then Inl (os_error ''File exists'')
     else Inr (AList.update (dir @ [name]) entry t, ()))"

definition os_write_file :: "path \<Rightarrow> string \<Rightarrow> bytes \<Rightarrow> 'z fs_world_scheme \<Rightarrow> 'z fs_world_scheme \<times> unit io_result" where
  "os_write_file dir name bs = sys (\<lambda>t.
     case map_of t (dir @ [name]) of
       Some (Fs_File old) \<Rightarrow> Inr (AList.update (dir @ [name]) (Fs_File (old @ bs)) t, ())
     | _ \<Rightarrow> Inr (t, ()))"

text \<open>Renaming anything but a directory; a file or link of the new name is replaced.\<close>

definition os_rename :: "path \<Rightarrow> string \<Rightarrow> path \<Rightarrow> string \<Rightarrow> 'z fs_world_scheme \<Rightarrow> 'z fs_world_scheme \<times> unit io_result" where
  "os_rename dir name dir' name' = sys (\<lambda>t.
     case map_of t (dir @ [name]) of
       None \<Rightarrow> Inl not_found
     | Some e \<Rightarrow>
         (if map_of t dir' \<noteq> Some Fs_Dir then Inl not_found
          else if e = Fs_Dir \<or> map_of t (dir' @ [name']) = Some Fs_Dir then Inl (os_error ''Is a directory'')
          else Inr (AList.update (dir' @ [name']) e (AList.delete (dir @ [name]) t), ())))"

definition os_remove_file :: "path \<Rightarrow> string \<Rightarrow> 'z fs_world_scheme \<Rightarrow> 'z fs_world_scheme \<times> unit io_result" where
  "os_remove_file dir name = sys (\<lambda>t.
     case map_of t (dir @ [name]) of
       None \<Rightarrow> Inl not_found
     | Some Fs_Dir \<Rightarrow> Inl (os_error ''Is a directory'')
     | Some _ \<Rightarrow> Inr (AList.delete (dir @ [name]) t, ()))"

definition dir_names :: "tree \<Rightarrow> path \<Rightarrow> string list" where
  "dir_names t dir = map (\<lambda>(p, e). last p) (filter (\<lambda>(p, e). p \<noteq> [] \<and> butlast p = dir) t)"

definition os_remove_dir :: "path \<Rightarrow> path \<Rightarrow> 'z fs_world_scheme \<Rightarrow> 'z fs_world_scheme \<times> unit io_result" where
  "os_remove_dir base rel = sys (\<lambda>t.
     if rel = [] \<or> last rel = ''.'' \<or> last rel = ''..'' then Inl (os_error ''Invalid argument'')
     else case walk t MAX_LINKS base rel of
       Inl e \<Rightarrow> Inl e
     | Inr p \<Rightarrow>
         (case map_of t p of
            None \<Rightarrow> Inl not_found
          | Some Fs_Dir \<Rightarrow>
              (if dir_names t p \<noteq> [] then Inl (os_error ''Directory not empty'')
               else Inr (AList.delete p t, ()))
          | Some _ \<Rightarrow> Inl (os_error ''Not a directory'')))"

definition os_list_dir :: "path \<Rightarrow> 'z fs_world_scheme \<Rightarrow> 'z fs_world_scheme \<times> string list io_result" where
  "os_list_dir dir = sys (\<lambda>t. if map_of t dir = Some Fs_Dir then Inr (t, dir_names t dir) else Inl not_found)"

section \<open>Names and errors\<close>

definition DATA_DIR :: string where "DATA_DIR = ''data''"
definition QUEUE_DIR :: string where "QUEUE_DIR = ''queue''"
definition INFLIGHT_DIR :: string where "INFLIGHT_DIR = ''inflight''"
definition CLEANUP_DIR :: string where "CLEANUP_DIR = ''cleanup''"
definition DATA_DIR_FROM_OTHER_QUEUE :: path where "DATA_DIR_FROM_OTHER_QUEUE = [''..'', ''data'']"
definition CONTENTS_FILE :: string where "CONTENTS_FILE = ''contents''"
definition METADATA_FILE :: string where "METADATA_FILE = ''metadata''"
definition SCHEDULE_FILE :: string where "SCHEDULE_FILE = ''schedule''"
definition TMP_METADATA_FILE_PREFIX :: string where "TMP_METADATA_FILE_PREFIX = ''metadata.''"
definition TMP_SCHEDULE_FILE_PREFIX :: string where "TMP_SCHEDULE_FILE_PREFIX = ''schedule.''"

lemmas dir_defs = DATA_DIR_def QUEUE_DIR_def INFLIGHT_DIR_def CLEANUP_DIR_def DATA_DIR_FROM_OTHER_QUEUE_def

datatype QueueType = Data_Q | Queue_Q | Inflight_Q | Cleanup_Q

datatype FsError =
    OpeningFolder path io_error
  | CreatingFolder path io_error
  | OpeningSubFolder path string io_error
  | CreatingSubFolder path string io_error
  | WalkingDirectory path io_error
  | NonUtf8Path path
  | OpeningFileInFolder path path io_error
  | ParsingJson path string
  | OpeningFolderInQueue path QueueType io_error
  | OpeningFileInMail string string QueueType io_error
  | ParsingJsonFileInMail string string QueueType string
  | OpeningParentFromMail string io_error
  | OpeningFileInMailParent string io_error
  | CreatingFolderInQueue string QueueType io_error
  | CreatingFileInMail string path QueueType io_error
  | WritingJsonFileInMail string path QueueType io_error
  | RenamingFileInMail string string string QueueType io_error
  | MovingMailBetweenQueues string QueueType QueueType io_error
  | ReadingLinkInQueue string QueueType io_error
  | RemovingFileFromMail string path QueueType io_error
  | SymlinkPointsToNonDestinationSubfolder string QueueType path
  | SymlinkDoesNotPointToDataQueue string QueueType path
  | RemovingFolderFromQueue path QueueType io_error
  | RemovingFolderFromMail path path QueueType io_error
  | ListingFolderInQueue path QueueType io_error
  | RemovingFileFromQueue string QueueType io_error
  | FlushingMailContents string string QueueType io_error
  | CreatingFolderInMail string string QueueType io_error
  | OpeningFolderInMail string string QueueType io_error
  | SymlinkingIntoQueue string QueueType path io_error

text \<open>Sequences of calls, with \<^verbatim>\<open>map_err\<close> and \<^verbatim>\<open>?\<close>.\<close>

definition fs_try :: "('z fs_world_scheme \<Rightarrow> 'z fs_world_scheme \<times> 'a io_result) \<Rightarrow> (io_error \<Rightarrow> 'e) \<Rightarrow> ('a \<Rightarrow> 'z fs_world_scheme \<Rightarrow> 'z fs_world_scheme \<times> ('e + 'b)) \<Rightarrow>
    'z fs_world_scheme \<Rightarrow> 'z fs_world_scheme \<times> ('e + 'b)" where
  "fs_try call err f w = (case call w of (w, Inl e) \<Rightarrow> (w, Inl (err e)) | (w, Inr a) \<Rightarrow> f a w)"

text \<open>A call whose \<^verbatim>\<open>NotFound\<close> the caller handles: the other errors are returned.\<close>

definition fs_found :: "('z fs_world_scheme \<Rightarrow> 'z fs_world_scheme \<times> 'a io_result) \<Rightarrow> (io_error \<Rightarrow> 'e) \<Rightarrow>
    ('a option \<Rightarrow> 'z fs_world_scheme \<Rightarrow> 'z fs_world_scheme \<times> ('e + 'b)) \<Rightarrow> 'z fs_world_scheme \<Rightarrow> 'z fs_world_scheme \<times> ('e + 'b)" where
  "fs_found call err f w =
     (case call w of
        (w, Inr a) \<Rightarrow> f (Some a) w
      | (w, Inl e) \<Rightarrow> if io_kind e = NotFound then f None w else (w, Inl (err e)))"

section \<open>Opening the storage\<close>

text \<open>\<^verbatim>\<open>maybe_create_and_open!\<close> for a subdirectory of the main directory.\<close>

definition maybe_create_and_open :: "string \<Rightarrow> 'z fs_world_scheme \<Rightarrow> 'z fs_world_scheme \<times> (FsError + path)" where
  "maybe_create_and_open sub =
     fs_found (os_sub_dir [] [sub]) (OpeningSubFolder [] sub)
       (\<lambda>found. case found of
          Some d \<Rightarrow> (\<lambda>w. (w, Inr d))
        | None \<Rightarrow>
            fs_try (os_create Fs_Dir [] sub) (CreatingSubFolder [] sub)
              (\<lambda>_. fs_try (os_sub_dir [] [sub]) (OpeningSubFolder [] sub) (\<lambda>d w. (w, Inr d))))"

definition main_dir :: "'z fs_world_scheme \<Rightarrow> 'z fs_world_scheme \<times> path io_result" where
  "main_dir = sys (\<lambda>t. if map_of t [] = Some Fs_Dir then Inr (t, []) else Inl not_found)"

definition create_main_dir :: "'z fs_world_scheme \<Rightarrow> 'z fs_world_scheme \<times> unit io_result" where
  "create_main_dir = sys (\<lambda>t. Inr (AList.update [] Fs_Dir t, ()))"

definition bind_fs :: "('z fs_world_scheme \<Rightarrow> 'z fs_world_scheme \<times> ('e + 'a)) \<Rightarrow> ('a \<Rightarrow> 'z fs_world_scheme \<Rightarrow> 'z fs_world_scheme \<times> ('e + 'b)) \<Rightarrow>
    'z fs_world_scheme \<Rightarrow> 'z fs_world_scheme \<times> ('e + 'b)" where
  "bind_fs m f w = (case m w of (w, Inl e) \<Rightarrow> (w, Inl e) | (w, Inr a) \<Rightarrow> f a w)"

record FsStorage =
  fst_data :: path
  fst_queue :: path
  fst_inflight :: path
  fst_cleanup :: path

definition fs_storage_new :: "'z fs_world_scheme \<Rightarrow> 'z fs_world_scheme \<times> (FsError + FsStorage)" where
  "fs_storage_new =
     bind_fs
       (fs_found main_dir (OpeningFolder [])
          (\<lambda>found. case found of
             Some d \<Rightarrow> (\<lambda>w. (w, Inr d))
           | None \<Rightarrow> fs_try create_main_dir (CreatingFolder [])
               (\<lambda>_. fs_try main_dir (OpeningFolder []) (\<lambda>d w. (w, Inr d)))))
       (\<lambda>_. bind_fs (maybe_create_and_open DATA_DIR)
         (\<lambda>data. bind_fs (maybe_create_and_open QUEUE_DIR)
           (\<lambda>queue. bind_fs (maybe_create_and_open INFLIGHT_DIR)
             (\<lambda>inflight. bind_fs (maybe_create_and_open CLEANUP_DIR)
               (\<lambda>cleanup w. (w, Inr \<lparr>fst_data = data, fst_queue = queue, fst_inflight = inflight,
                  fst_cleanup = cleanup\<rparr>))))))"

section \<open>The storage\<close>

text \<open>The handles of an opened storage.\<close>

definition fs_data :: path where "fs_data = [DATA_DIR]"
definition fs_queue :: path where "fs_queue = [QUEUE_DIR]"
definition fs_inflight :: path where "fs_inflight = [INFLIGHT_DIR]"
definition fs_cleanup_dir :: path where "fs_cleanup_dir = [CLEANUP_DIR]"

lemmas handle_defs = fs_data_def fs_queue_def fs_inflight_def fs_cleanup_dir_def

text \<open>What \<^verbatim>\<open>serde_json\<close> makes of metadata and schedules.\<close>

record 'u Json =
  js_meta :: "'u QMailMetadata \<Rightarrow> bytes"
  js_parse_meta :: "bytes \<Rightarrow> string + 'u QMailMetadata"
  js_sched :: "ScheduleInfo \<Rightarrow> bytes"
  js_parse_sched :: "bytes \<Rightarrow> string + ScheduleInfo"

record FoundMail =
  fm_id :: string
  fm_schedule :: ScheduleInfo

record FsQueuedMail =
  fq_id :: string
  fq_schedule :: ScheduleInfo

record FsInflightMail =
  fi_id :: string
  fi_schedule :: ScheduleInfo

record FsPendingCleanupMail =
  fp_id :: string

definition queued_found :: "FoundMail \<Rightarrow> FsQueuedMail" where
  "queued_found f = \<lparr>fq_id = fm_id f, fq_schedule = fm_schedule f\<rparr>"

definition queued_into_inflight :: "FsQueuedMail \<Rightarrow> FsInflightMail" where
  "queued_into_inflight m = \<lparr>fi_id = fq_id m, fi_schedule = fq_schedule m\<rparr>"

definition queued_into_pending_cleanup :: "FsQueuedMail \<Rightarrow> FsPendingCleanupMail" where
  "queued_into_pending_cleanup m = \<lparr>fp_id = fq_id m\<rparr>"

definition inflight_found :: "FoundMail \<Rightarrow> FsInflightMail" where
  "inflight_found f = \<lparr>fi_id = fm_id f, fi_schedule = fm_schedule f\<rparr>"

definition inflight_into_queued :: "FsInflightMail \<Rightarrow> FsQueuedMail" where
  "inflight_into_queued m = \<lparr>fq_id = fi_id m, fq_schedule = fi_schedule m\<rparr>"

definition inflight_into_pending_cleanup :: "FsInflightMail \<Rightarrow> FsPendingCleanupMail" where
  "inflight_into_pending_cleanup m = \<lparr>fp_id = fi_id m\<rparr>"

definition pending_found :: "string \<Rightarrow> FsPendingCleanupMail" where
  "pending_found x = \<lparr>fp_id = x\<rparr>"

subsection \<open>Listings\<close>

text \<open>The links of a directory, or the error of walking it.\<close>

definition os_links :: "path \<Rightarrow> 'z fs_world_scheme \<Rightarrow> 'z fs_world_scheme \<times> string list io_result" where
  "os_links dir = sys (\<lambda>t.
     if map_of t dir \<noteq> Some Fs_Dir then Inl not_found
     else Inr (t, filter (\<lambda>n. case map_of t (dir @ [n]) of Some (Fs_Link _) \<Rightarrow> True | _ \<Rightarrow> False) (dir_names t dir)))"

definition fs_scan_folder :: "path \<Rightarrow> 'z fs_world_scheme \<Rightarrow> 'z fs_world_scheme \<times> (FsError \<times> QueueId option + string) list" where
  "fs_scan_folder dir w =
     (case os_links dir w of
        (w, Inl e) \<Rightarrow> (w, [Inl (WalkingDirectory dir e, None)])
      | (w, Inr names) \<Rightarrow> (w, map Inr names))"

definition fs_read_schedule :: "'u Json \<Rightarrow> path \<Rightarrow> string \<Rightarrow> 'z fs_world_scheme \<Rightarrow> 'z fs_world_scheme \<times> (FsError + ScheduleInfo)" where
  "fs_read_schedule js dir name =
     fs_try (os_read_file dir [name, SCHEDULE_FILE]) (OpeningFileInFolder [name, SCHEDULE_FILE] dir)
       (\<lambda>bs w. (w, map_sum (ParsingJson (dir @ [name, SCHEDULE_FILE])) id (js_parse_sched js bs)))"

fun fs_scan_entries :: "'u Json \<Rightarrow> path \<Rightarrow> (FsError \<times> QueueId option + string) list \<Rightarrow> 'z fs_world_scheme \<Rightarrow>
    'z fs_world_scheme \<times> (FsError \<times> QueueId option + FoundMail) list" where
  "fs_scan_entries js dir [] w = (w, [])"
| "fs_scan_entries js dir (Inl e # es) w =
     (case fs_scan_entries js dir es w of (w, fs) \<Rightarrow> (w, Inl e # fs))"
| "fs_scan_entries js dir (Inr name # es) w =
     (case fs_read_schedule js dir name w of
        (w, r) \<Rightarrow>
          (case fs_scan_entries js dir es w of
             (w, fs) \<Rightarrow>
               (w, (case r of
                      Inl e \<Rightarrow> Inl (e, Some (QueueId name))
                    | Inr sched \<Rightarrow> Inr \<lparr>fm_id = name, fm_schedule = sched\<rparr>) # fs)))"

definition fs_scan_queue :: "'u Json \<Rightarrow> path \<Rightarrow> 'z fs_world_scheme \<Rightarrow> 'z fs_world_scheme \<times> (FsError \<times> QueueId option + FoundMail) list" where
  "fs_scan_queue js dir w = (case fs_scan_folder dir w of (w, es) \<Rightarrow> fs_scan_entries js dir es w)"

definition fs_list_queue :: "'u Json \<Rightarrow> 'z fs_world_scheme \<Rightarrow> 'z fs_world_scheme \<times> (FsError \<times> QueueId option + FsQueuedMail) list" where
  "fs_list_queue js w = (case fs_scan_queue js fs_queue w of (w, es) \<Rightarrow> (w, map (map_sum id queued_found) es))"

definition fs_find_inflight :: "'u Json \<Rightarrow> 'z fs_world_scheme \<Rightarrow> 'z fs_world_scheme \<times> (FsError \<times> QueueId option + FsInflightMail) list" where
  "fs_find_inflight js w = (case fs_scan_queue js fs_inflight w of (w, es) \<Rightarrow> (w, map (map_sum id inflight_found) es))"

definition fs_find_pending_cleanup :: "'z fs_world_scheme \<Rightarrow> 'z fs_world_scheme \<times> (FsError \<times> QueueId option + FsPendingCleanupMail) list" where
  "fs_find_pending_cleanup w =
     (case fs_scan_folder fs_cleanup_dir w of (w, es) \<Rightarrow> (w, map (map_sum id pending_found) es))"

subsection \<open>Reading, rescheduling and moving mails\<close>

definition fs_read_inflight :: "'u Json \<Rightarrow> FsInflightMail \<Rightarrow> 'z fs_world_scheme \<Rightarrow>
    'z fs_world_scheme \<times> (FsError + 'u QMailMetadata \<times> bytes)" where
  "fs_read_inflight js mail =
     (let m = fi_id mail in
      fs_try (os_read_link fs_inflight m) (ReadingLinkInQueue m Inflight_Q)
        (\<lambda>dest. fs_try (os_sub_dir fs_inflight dest) (OpeningFolderInQueue [m] Inflight_Q)
          (\<lambda>dest_dir. fs_try (os_read_file dest_dir [METADATA_FILE]) (OpeningFileInMail METADATA_FILE m Inflight_Q)
            (\<lambda>bs. case js_parse_meta js bs of
               Inl e \<Rightarrow> (\<lambda>w. (w, Inl (ParsingJsonFileInMail METADATA_FILE m Inflight_Q e)))
             | Inr metadata \<Rightarrow>
                 fs_try (os_sub_dir dest_dir [''..'']) (OpeningParentFromMail m)
                   (\<lambda>parent. fs_try (os_read_file parent [CONTENTS_FILE]) (OpeningFileInMailParent m)
                     (\<lambda>contents w. (w, Inr (metadata, contents))))))))"

definition fs_reschedule :: "'u Json \<Rightarrow> FsQueuedMail \<Rightarrow> ScheduleInfo \<Rightarrow> 'z fs_world_scheme \<Rightarrow>
    'z fs_world_scheme \<times> FsQueuedMail \<times> (FsError + unit)" where
  "fs_reschedule js mail schedule w =
     (let m = fq_id mail;
          (w, res) =
            fs_try (os_read_link fs_queue m) (ReadingLinkInQueue m Queue_Q)
              (\<lambda>dest. fs_try (os_sub_dir fs_queue dest) (OpeningFolderInQueue [m] Queue_Q)
                (\<lambda>dest_dir w.
                   case new_uuid w of
                     (w, uuid) \<Rightarrow>
                       (let tmp = TMP_SCHEDULE_FILE_PREFIX @ uuid in
                        fs_try (os_create (Fs_File []) dest_dir tmp) (CreatingFileInMail tmp [m] Queue_Q)
                          (\<lambda>_. fs_try (os_write_file dest_dir tmp (js_sched js schedule)) (WritingJsonFileInMail tmp [m] Queue_Q)
                            (\<lambda>_. fs_try (os_rename dest_dir tmp dest_dir SCHEDULE_FILE)
                                       (RenamingFileInMail tmp SCHEDULE_FILE m Queue_Q)
                              (\<lambda>_ w. (w, Inr ())))) w))) w
      in (w, mail\<lparr>fq_schedule := schedule\<rparr>, res))"

text \<open>Moving a link from one queue directory to another.\<close>

definition fs_move :: "path \<Rightarrow> path \<Rightarrow> string \<Rightarrow> 'm \<Rightarrow> (io_error \<Rightarrow> FsError) \<Rightarrow> ('m \<Rightarrow> 'n) \<Rightarrow> 'z fs_world_scheme \<Rightarrow>
    'z fs_world_scheme \<times> ('m \<times> FsError + 'n option)" where
  "fs_move from_dir to_dir name mail err into =
     fs_found (os_rename from_dir name to_dir name) (\<lambda>e. (mail, err e))
       (\<lambda>r w. (w, Inr (case r of Some _ \<Rightarrow> Some (into mail) | None \<Rightarrow> None)))"

definition fs_send_start :: "FsQueuedMail \<Rightarrow> 'z fs_world_scheme \<Rightarrow> 'z fs_world_scheme \<times> (FsQueuedMail \<times> FsError + FsInflightMail option)" where
  "fs_send_start mail =
     fs_move fs_queue fs_inflight (fq_id mail) mail (MovingMailBetweenQueues (fq_id mail) Queue_Q Inflight_Q)
       queued_into_inflight"

definition fs_send_done :: "FsInflightMail \<Rightarrow> 'z fs_world_scheme \<Rightarrow>
    'z fs_world_scheme \<times> (FsInflightMail \<times> FsError + FsPendingCleanupMail option)" where
  "fs_send_done mail =
     fs_move fs_inflight fs_cleanup_dir (fi_id mail) mail (MovingMailBetweenQueues (fi_id mail) Inflight_Q Cleanup_Q)
       inflight_into_pending_cleanup"

definition fs_send_cancel :: "FsInflightMail \<Rightarrow> 'z fs_world_scheme \<Rightarrow> 'z fs_world_scheme \<times> (FsInflightMail \<times> FsError + FsQueuedMail option)" where
  "fs_send_cancel mail =
     fs_move fs_inflight fs_queue (fi_id mail) mail (MovingMailBetweenQueues (fi_id mail) Inflight_Q Queue_Q)
       inflight_into_queued"

definition fs_drop :: "FsQueuedMail \<Rightarrow> 'z fs_world_scheme \<Rightarrow> 'z fs_world_scheme \<times> (FsQueuedMail \<times> FsError + FsPendingCleanupMail option)" where
  "fs_drop mail =
     fs_move fs_queue fs_cleanup_dir (fq_id mail) mail (MovingMailBetweenQueues (fq_id mail) Queue_Q Cleanup_Q)
       queued_into_pending_cleanup"

subsection \<open>Cleaning up\<close>

definition strip_prefix :: "path \<Rightarrow> path \<Rightarrow> path option" where
  "strip_prefix pre p = (if take (length pre) p = pre then Some (drop (length pre) p) else None)"

definition path_parent :: "path \<Rightarrow> path option" where
  "path_parent p = (if p = [] then None else Some (butlast p))"

definition path_file_name :: "path \<Rightarrow> string option" where
  "path_file_name p = (if p = [] \<or> last p = ''..'' then None else Some (last p))"

text \<open>Removing a file that may already be gone.\<close>

definition fs_remove_quietly :: "path \<Rightarrow> string \<Rightarrow> (io_error \<Rightarrow> 'e) \<Rightarrow> ('z fs_world_scheme \<Rightarrow> 'z fs_world_scheme \<times> ('e + 'b)) \<Rightarrow>
    'z fs_world_scheme \<Rightarrow> 'z fs_world_scheme \<times> ('e + 'b)" where
  "fs_remove_quietly dir name err f = fs_found (os_remove_file dir name) err (\<lambda>_. f)"

text \<open>The last thing to go is the link; \<open>vanished\<close> says whether something was missing on the way.\<close>

definition fs_remove_link :: "FsPendingCleanupMail \<Rightarrow> bool \<Rightarrow> 'z fs_world_scheme \<Rightarrow>
    'z fs_world_scheme \<times> (FsPendingCleanupMail \<times> FsError + bool)" where
  "fs_remove_link mail vanished =
     fs_found (os_remove_file fs_cleanup_dir (fp_id mail)) (\<lambda>e. (mail, RemovingFileFromQueue (fp_id mail) Cleanup_Q e))
       (\<lambda>r w. (w, Inr (\<not> (vanished \<or> r = None))))"

definition fs_remove_mail_dir :: "FsPendingCleanupMail \<Rightarrow> path \<Rightarrow> path \<Rightarrow> path \<Rightarrow>
    ('z fs_world_scheme \<Rightarrow> 'z fs_world_scheme \<times> (FsPendingCleanupMail \<times> FsError + bool)) \<Rightarrow>
    'z fs_world_scheme \<Rightarrow> 'z fs_world_scheme \<times> (FsPendingCleanupMail \<times> FsError + bool)" where
  "fs_remove_mail_dir mail dest mail_dir mail_name f =
     fs_remove_quietly mail_dir CONTENTS_FILE
       (\<lambda>e. (mail, RemovingFileFromMail CONTENTS_FILE (butlast dest) Cleanup_Q e))
       (fs_found (os_remove_dir fs_data mail_name) (\<lambda>e. (mail, RemovingFolderFromQueue mail_name Data_Q e)) (\<lambda>_. f))"

text \<open>From the directory of the mail on.\<close>

definition fs_cleanup_mail :: "FsPendingCleanupMail \<Rightarrow> path \<Rightarrow> path \<Rightarrow> string \<Rightarrow> bool \<Rightarrow> 'z fs_world_scheme \<Rightarrow>
    'z fs_world_scheme \<times> (FsPendingCleanupMail \<times> FsError + bool)" where
  "fs_cleanup_mail mail dest mail_name dest_name vanished =
     fs_found (os_sub_dir fs_data mail_name) (\<lambda>e. (mail, OpeningFolderInQueue mail_name Data_Q e))
       (\<lambda>found. case found of
          None \<Rightarrow> fs_remove_link mail True
        | Some mail_dir \<Rightarrow>
            fs_found (os_remove_dir mail_dir [dest_name])
              (\<lambda>e. (mail, RemovingFolderFromMail [dest_name] mail_name Cleanup_Q e))
              (\<lambda>removed. let vanished = (vanished \<or> removed = None) in
                 fs_found (os_list_dir mail_dir) (\<lambda>e. (mail, ListingFolderInQueue mail_name Data_Q e))
                   (\<lambda>names. case names of
                      None \<Rightarrow> fs_remove_link mail True
                    | Some names \<Rightarrow>
                        (if list_all (\<lambda>n. n = CONTENTS_FILE) names
                         then fs_remove_mail_dir mail dest mail_dir mail_name (fs_remove_link mail vanished)
                         else fs_remove_link mail vanished))))"

definition fs_cleanup :: "FsPendingCleanupMail \<Rightarrow> 'z fs_world_scheme \<Rightarrow>
    'z fs_world_scheme \<times> (FsPendingCleanupMail \<times> FsError + bool)" where
  "fs_cleanup mail =
     fs_found (os_read_link fs_cleanup_dir (fp_id mail)) (\<lambda>e. (mail, ReadingLinkInQueue (fp_id mail) Cleanup_Q e))
       (\<lambda>link. case link of
          None \<Rightarrow> (\<lambda>w. (w, Inr False))
        | Some dest \<Rightarrow>
            fs_found (os_sub_dir fs_cleanup_dir dest) (\<lambda>e. (mail, OpeningFolderInQueue [fp_id mail] Cleanup_Q e))
              (\<lambda>found.
                 let rest = (\<lambda>vanished.
                   (case strip_prefix DATA_DIR_FROM_OTHER_QUEUE dest of
                      None \<Rightarrow> (\<lambda>w. (w, Inl (mail, SymlinkDoesNotPointToDataQueue (fp_id mail) Cleanup_Q dest)))
                    | Some p \<Rightarrow>
                        (case (path_parent p, path_file_name dest) of
                           (Some mail_name, Some dest_name) \<Rightarrow> fs_cleanup_mail mail dest mail_name dest_name vanished
                         | _ \<Rightarrow> (\<lambda>w. (w, Inl (mail, SymlinkPointsToNonDestinationSubfolder (fp_id mail) Cleanup_Q dest))))))
                 in case found of
                      None \<Rightarrow> rest True
                    | Some dest_dir \<Rightarrow>
                        fs_remove_quietly dest_dir METADATA_FILE
                          (\<lambda>e. (mail, RemovingFileFromMail METADATA_FILE [fp_id mail] Cleanup_Q e))
                          (fs_remove_quietly dest_dir SCHEDULE_FILE
                             (\<lambda>e. (mail, RemovingFileFromMail SCHEDULE_FILE [fp_id mail] Cleanup_Q e))
                             (rest False))))"

section \<open>Enqueueing\<close>

text \<open>The handle \<^verbatim>\<open>mail_dir\<close> is the directory of that name in the data directory.\<close>

record FsEnqueuer =
  fe_mail_uuid :: string

definition fe_mail_dir :: "FsEnqueuer \<Rightarrow> path" where
  "fe_mail_dir en = fs_data @ [fe_mail_uuid en]"

definition fs_enqueue :: "'z fs_world_scheme \<Rightarrow> 'z fs_world_scheme \<times> (FsError + FsEnqueuer)" where
  "fs_enqueue w =
     (case new_uuid w of
        (w, mail_uuid) \<Rightarrow>
          fs_try (os_create Fs_Dir fs_data mail_uuid) (CreatingFolderInQueue mail_uuid Data_Q)
            (\<lambda>_. fs_try (os_sub_dir fs_data [mail_uuid]) (OpeningFolderInQueue [mail_uuid] Data_Q)
              (\<lambda>mail_dir. fs_try (os_create (Fs_File []) mail_dir CONTENTS_FILE)
                           (CreatingFileInMail CONTENTS_FILE [mail_uuid] Data_Q)
                (\<lambda>_ w. (w, Inr \<lparr>fe_mail_uuid = mail_uuid\<rparr>)))) w)"

text \<open>The writer of an enqueuer appends to the contents file.\<close>

definition fs_enqueuer_write :: "FsEnqueuer \<Rightarrow> bytes \<Rightarrow> 'z fs_world_scheme \<Rightarrow> 'z fs_world_scheme \<times> unit io_result" where
  "fs_enqueuer_write en bs = os_write_file (fe_mail_dir en) CONTENTS_FILE bs"

definition fs_enqueuer_flush :: "'z fs_world_scheme \<Rightarrow> 'z fs_world_scheme \<times> unit io_result" where
  "fs_enqueuer_flush = sys (\<lambda>t. Inr (t, ()))"

definition make_dest_dir :: "'u Json \<Rightarrow> FsEnqueuer \<Rightarrow> string \<Rightarrow> 'u QMailMetadata \<Rightarrow> ScheduleInfo \<Rightarrow> 'z fs_world_scheme \<Rightarrow>
    'z fs_world_scheme \<times> (FsError + FsQueuedMail)" where
  "make_dest_dir js en dest_id metadata schedule =
     (let mail_uuid = fe_mail_uuid en; dest_path = [mail_uuid, dest_id] in
      fs_try (os_create Fs_Dir (fe_mail_dir en) dest_id) (CreatingFolderInMail dest_id mail_uuid Data_Q)
        (\<lambda>_. fs_try (os_sub_dir (fe_mail_dir en) [dest_id]) (OpeningFolderInMail dest_id mail_uuid Data_Q)
          (\<lambda>dest_dir.
             fs_try (os_create (Fs_File []) dest_dir SCHEDULE_FILE) (CreatingFileInMail SCHEDULE_FILE dest_path Data_Q)
             (\<lambda>_. fs_try (os_write_file dest_dir SCHEDULE_FILE (js_sched js schedule))
                        (WritingJsonFileInMail SCHEDULE_FILE dest_path Data_Q)
             (\<lambda>_. fs_try (os_create (Fs_File []) dest_dir METADATA_FILE) (CreatingFileInMail METADATA_FILE dest_path Data_Q)
             (\<lambda>_. fs_try (os_write_file dest_dir METADATA_FILE (js_meta js metadata))
                        (WritingJsonFileInMail METADATA_FILE dest_path Data_Q)
             (\<lambda>_ w.
                case new_uuid w of
                  (w, dest_uuid) \<Rightarrow>
                    (let symlink_value = DATA_DIR_FROM_OTHER_QUEUE @ [mail_uuid, dest_id] in
                     fs_try (os_create (Fs_Link symlink_value) fs_queue dest_uuid)
                       (SymlinkingIntoQueue dest_uuid Queue_Q symlink_value)
                       (\<lambda>_ w. (w, Inr (queued_found \<lparr>fm_id = dest_uuid, fm_schedule = schedule\<rparr>))) w)))))))) "

text \<open>Cleaning up after a failed commit; errors are ignored.\<close>

definition ignoring :: "('z fs_world_scheme \<Rightarrow> 'z fs_world_scheme \<times> 'a io_result) \<Rightarrow> 'z fs_world_scheme \<Rightarrow> 'z fs_world_scheme" where
  "ignoring call w = fst (call w)"

definition cleanup_dest_dir :: "path \<Rightarrow> string \<Rightarrow> 'z fs_world_scheme \<Rightarrow> 'z fs_world_scheme" where
  "cleanup_dest_dir mail_dir dest_id w =
     (case os_sub_dir mail_dir [dest_id] w of
        (w, Inl _) \<Rightarrow> w
      | (w, Inr dest_dir) \<Rightarrow>
          ignoring (os_remove_dir mail_dir [dest_id])
            (ignoring (os_remove_file dest_dir SCHEDULE_FILE)
              (ignoring (os_remove_file dest_dir METADATA_FILE) w)))"

definition cleanup_contents_dir :: "path \<Rightarrow> string \<Rightarrow> path \<Rightarrow> 'z fs_world_scheme \<Rightarrow> 'z fs_world_scheme" where
  "cleanup_contents_dir queue mail_uuid mail_dir w =
     ignoring (os_remove_dir queue [mail_uuid]) (ignoring (os_remove_file mail_dir CONTENTS_FILE) w)"

fun name_destinations :: "('u QMailMetadata \<times> ScheduleInfo) list \<Rightarrow> 'z fs_world_scheme \<Rightarrow>
    'z fs_world_scheme \<times> (string \<times> 'u QMailMetadata \<times> ScheduleInfo) list" where
  "name_destinations [] w = (w, [])"
| "name_destinations ((meta, sched) # ds) w =
     (case new_uuid w of
        (w, uuid) \<Rightarrow> (case name_destinations ds w of (w, rest) \<Rightarrow> (w, (uuid, meta, sched) # rest)))"

text \<open>The loop over the destinations; \<open>made\<close> are the ids of those already made.\<close>

fun make_dest_dirs :: "'u Json \<Rightarrow> FsEnqueuer \<Rightarrow> string list \<Rightarrow> (string \<times> 'u QMailMetadata \<times> ScheduleInfo) list \<Rightarrow>
    'z fs_world_scheme \<Rightarrow> 'z fs_world_scheme \<times> (FsError + FsQueuedMail list)" where
  "make_dest_dirs js en made [] w = (w, Inr [])"
| "make_dest_dirs js en made ((dest_id, meta, sched) # ds) w =
     (case make_dest_dir js en dest_id meta sched w of
        (w, Inl e) \<Rightarrow>
          (cleanup_contents_dir fs_queue (fe_mail_uuid en) (fe_mail_dir en)
             (fold (cleanup_dest_dir (fe_mail_dir en)) made w), Inl e)
      | (w, Inr mail) \<Rightarrow>
          (case make_dest_dirs js en (made @ [dest_id]) ds w of
             (w, Inl e) \<Rightarrow> (w, Inl e)
           | (w, Inr mails) \<Rightarrow> (w, Inr (mail # mails))))"

definition fs_commit :: "'u Json \<Rightarrow> FsEnqueuer \<Rightarrow> ('u QMailMetadata \<times> ScheduleInfo) list \<Rightarrow> 'z fs_world_scheme \<Rightarrow>
    'z fs_world_scheme \<times> (FsError + FsQueuedMail list)" where
  "fs_commit js en destinations w =
     (case fs_enqueuer_flush w of
        (w, Inl e) \<Rightarrow>
          (cleanup_contents_dir fs_queue (fe_mail_uuid en) (fe_mail_dir en) w,
           Inl (FlushingMailContents CONTENTS_FILE (fe_mail_uuid en) Data_Q e))
      | (w, Inr _) \<Rightarrow>
          (case name_destinations destinations w of (w, ds) \<Rightarrow> make_dest_dirs js en [] ds w))"

text \<open>The storage as an implementation of the trait.\<close>

definition fs_storage :: "'u Json \<Rightarrow>
    ('z fs_world_scheme, FsQueuedMail, FsInflightMail, FsPendingCleanupMail, FsError, 'u, bytes, FsEnqueuer) Storage" where
  "fs_storage js =
     \<lparr>st_list_queue = fs_list_queue js,
      st_find_inflight = fs_find_inflight js,
      st_find_pending_cleanup = fs_find_pending_cleanup,
      st_read_inflight = (\<lambda>w i. fs_read_inflight js i w),
      st_enqueue = fs_enqueue,
      st_reschedule = (\<lambda>w m sched. fs_reschedule js m sched w),
      st_send_start = (\<lambda>w m. fs_send_start m w),
      st_send_done = (\<lambda>w i. fs_send_done i w),
      st_send_cancel = (\<lambda>w i. fs_send_cancel i w),
      st_drop = (\<lambda>w m. fs_drop m w),
      st_cleanup = (\<lambda>w p. fs_cleanup p w),
      st_commit = (\<lambda>w en ds. fs_commit js en ds w),
      queued_id = (\<lambda>m. QueueId (fq_id m)),
      queued_schedule = fq_schedule,
      inflight_id = (\<lambda>i. QueueId (fi_id i)),
      pending_id = (\<lambda>p. QueueId (fp_id p))\<rparr>"

end
