(* ===== verification/QueueSafety.thy ===== *)
theory QueueSafety
  imports Queue
begin

text \<open>
  What the queue runner guarantees, whatever the interleaving of its tasks: a mail is in the
  hands of one sending task at most, none is forgotten, and none is deleted before it was
  delivered or given up. What is asked of the storage and the transport is the locale \<open>mail_store\<close>.
\<close>

section \<open>The contract of the storage\<close>

datatype place = In_Queue | In_Inflight | In_Cleanup

text \<open>
  \<open>stored w x\<close> is the place of the mail \<open>x\<close> in the storage, and \<open>store_ok\<close> an invariant of the
  storage, which every operation keeps. Moving a mail is atomic, and only
  succeeds from the place it is moved out of; an operation that fails leaves every mail where it
  is; listings are complete up to the entries they report as errors; committed mails are new. A
  failed commit may leave mails behind. Transport, clock and the rest of the world do not move mails.
\<close>

locale mail_store =
  fixes q :: "('w, 'qm, 'im, 'pm, 'e, 'u, 'r, 'enq, 'd, 's) QueueImpl"
    and outside :: "'w \<Rightarrow> 'w \<Rightarrow> bool"
    and stored :: "'w \<Rightarrow> QueueId \<Rightarrow> place option"
    and store_ok :: "'w \<Rightarrow> bool"
  assumes list_queue_law: "st_list_queue (qi_storage q) w = (w', qs) \<Longrightarrow> store_ok w \<Longrightarrow> store_ok w' \<and> stored w' = stored w \<and>
      (\<forall>x. stored w x = Some In_Queue \<longrightarrow>
        (\<exists>m. Inr m \<in> set qs \<and> queued_id (qi_storage q) m = x) \<or> (\<exists>e. Inl (e, Some x) \<in> set qs \<or> Inl (e, None) \<in> set qs))"
    and find_inflight_law: "st_find_inflight (qi_storage q) w = (w', is) \<Longrightarrow> store_ok w \<Longrightarrow> store_ok w' \<and> stored w' = stored w \<and>
      (\<forall>x. stored w x = Some In_Inflight \<longrightarrow>
        (\<exists>i. Inr i \<in> set is \<and> inflight_id (qi_storage q) i = x) \<or> (\<exists>e. Inl (e, Some x) \<in> set is \<or> Inl (e, None) \<in> set is)) \<and>
      (\<forall>i. Inr i \<in> set is \<longrightarrow> stored w (inflight_id (qi_storage q) i) = Some In_Inflight) \<and>
      distinct (map (inflight_id (qi_storage q)) (concat (map (case_sum (\<lambda>_. []) (\<lambda>i. [i])) is)))"
    and find_pending_law: "st_find_pending_cleanup (qi_storage q) w = (w', ps) \<Longrightarrow> store_ok w \<Longrightarrow> store_ok w' \<and> stored w' = stored w \<and>
      (\<forall>x. stored w x = Some In_Cleanup \<longrightarrow>
        (\<exists>p. Inr p \<in> set ps \<and> pending_id (qi_storage q) p = x) \<or> (\<exists>e. Inl (e, Some x) \<in> set ps \<or> Inl (e, None) \<in> set ps))"
    and read_law: "st_read_inflight (qi_storage q) w i = (w', rr) \<Longrightarrow> store_ok w \<Longrightarrow> store_ok w' \<and> stored w' = stored w"
    and reschedule_law: "st_reschedule (qi_storage q) w m sched = (w', m', ru) \<Longrightarrow> store_ok w \<Longrightarrow> store_ok w' \<and>
      stored w' = stored w \<and> queued_id (qi_storage q) m' = queued_id (qi_storage q) m"
    and start_failed: "st_send_start (qi_storage q) w m = (w', Inl (m', e)) \<Longrightarrow> store_ok w \<Longrightarrow> store_ok w' \<and>
      stored w' = stored w \<and> queued_id (qi_storage q) m' = queued_id (qi_storage q) m"
    and start_gone: "st_send_start (qi_storage q) w m = (w', Inr None) \<Longrightarrow> store_ok w \<Longrightarrow> store_ok w' \<and>
      stored w' = stored w \<and> stored w (queued_id (qi_storage q) m) \<noteq> Some In_Queue"
    and start_moved: "st_send_start (qi_storage q) w m = (w', Inr (Some i)) \<Longrightarrow> store_ok w \<Longrightarrow> store_ok w' \<and>
      inflight_id (qi_storage q) i = queued_id (qi_storage q) m \<and>
      stored w (queued_id (qi_storage q) m) = Some In_Queue \<and>
      stored w' = (stored w)(queued_id (qi_storage q) m \<mapsto> In_Inflight)"
    and done_failed: "st_send_done (qi_storage q) w i = (w', Inl (i', e)) \<Longrightarrow> store_ok w \<Longrightarrow> store_ok w' \<and>
      stored w' = stored w \<and> inflight_id (qi_storage q) i' = inflight_id (qi_storage q) i"
    and done_gone: "st_send_done (qi_storage q) w i = (w', Inr None) \<Longrightarrow> store_ok w \<Longrightarrow> store_ok w' \<and>
      stored w' = stored w \<and> stored w (inflight_id (qi_storage q) i) \<noteq> Some In_Inflight"
    and done_moved: "st_send_done (qi_storage q) w i = (w', Inr (Some p)) \<Longrightarrow> store_ok w \<Longrightarrow> store_ok w' \<and>
      pending_id (qi_storage q) p = inflight_id (qi_storage q) i \<and>
      stored w (inflight_id (qi_storage q) i) = Some In_Inflight \<and>
      stored w' = (stored w)(inflight_id (qi_storage q) i \<mapsto> In_Cleanup)"
    and cancel_failed: "st_send_cancel (qi_storage q) w i = (w', Inl (i', e)) \<Longrightarrow> store_ok w \<Longrightarrow> store_ok w' \<and>
      stored w' = stored w \<and> inflight_id (qi_storage q) i' = inflight_id (qi_storage q) i"
    and cancel_gone: "st_send_cancel (qi_storage q) w i = (w', Inr None) \<Longrightarrow> store_ok w \<Longrightarrow> store_ok w' \<and>
      stored w' = stored w \<and> stored w (inflight_id (qi_storage q) i) \<noteq> Some In_Inflight"
    and cancel_moved: "st_send_cancel (qi_storage q) w i = (w', Inr (Some m)) \<Longrightarrow> store_ok w \<Longrightarrow> store_ok w' \<and>
      queued_id (qi_storage q) m = inflight_id (qi_storage q) i \<and>
      stored w (inflight_id (qi_storage q) i) = Some In_Inflight \<and>
      stored w' = (stored w)(inflight_id (qi_storage q) i \<mapsto> In_Queue)"
    and drop_failed: "st_drop (qi_storage q) w m = (w', Inl (m', e)) \<Longrightarrow> store_ok w \<Longrightarrow> store_ok w' \<and>
      stored w' = stored w \<and> queued_id (qi_storage q) m' = queued_id (qi_storage q) m"
    and drop_gone: "st_drop (qi_storage q) w m = (w', Inr None) \<Longrightarrow> store_ok w \<Longrightarrow> store_ok w' \<and>
      stored w' = stored w \<and> stored w (queued_id (qi_storage q) m) \<noteq> Some In_Queue"
    and drop_moved: "st_drop (qi_storage q) w m = (w', Inr (Some p)) \<Longrightarrow> store_ok w \<Longrightarrow> store_ok w' \<and>
      pending_id (qi_storage q) p = queued_id (qi_storage q) m \<and>
      stored w (queued_id (qi_storage q) m) = Some In_Queue \<and>
      stored w' = (stored w)(queued_id (qi_storage q) m \<mapsto> In_Cleanup)"
    and cleanup_failed: "st_cleanup (qi_storage q) w p = (w', Inl (p', e)) \<Longrightarrow> store_ok w \<Longrightarrow> store_ok w' \<and>
      stored w' = stored w \<and> pending_id (qi_storage q) p' = pending_id (qi_storage q) p"
    and cleanup_done: "st_cleanup (qi_storage q) w p = (w', Inr b) \<Longrightarrow> store_ok w \<Longrightarrow> store_ok w' \<and>
      stored w' = (if stored w (pending_id (qi_storage q) p) = Some In_Cleanup
                   then (stored w)(pending_id (qi_storage q) p := None) else stored w)"
    and commit_failed: "st_commit (qi_storage q) w en ds = (w', Inl e) \<Longrightarrow> store_ok w \<Longrightarrow> store_ok w' \<and> stored w \<subseteq>\<^sub>m stored w' \<and>
      (\<forall>x. stored w' x \<noteq> stored w x \<longrightarrow> stored w' x = Some In_Queue)"
    and commit_ok: "st_commit (qi_storage q) w en ds = (w', Inr ms) \<Longrightarrow> store_ok w \<Longrightarrow> store_ok w' \<and>
      (\<forall>m \<in> set ms. stored w (queued_id (qi_storage q) m) = None) \<and>
      stored w' = (\<lambda>x. if x \<in> queued_id (qi_storage q) ` set ms then Some In_Queue else stored w x)"
    and destination_law: "tr_destination (qi_transport q) w meta = (w', rd) \<Longrightarrow> store_ok w \<Longrightarrow> store_ok w' \<and> stored w' = stored w"
    and connect_law: "tr_connect (qi_transport q) w dest = (w', rs) \<Longrightarrow> store_ok w \<Longrightarrow> store_ok w' \<and> stored w' = stored w"
    and send_law: "tr_send (qi_transport q) w s meta r = (w', rt) \<Longrightarrow> store_ok w \<Longrightarrow> store_ok w' \<and> stored w' = stored w"
    and now_law: "utc_now (qi_chrono q) w = (w', t) \<Longrightarrow> store_ok w \<Longrightarrow> store_ok w' \<and> stored w' = stored w"
    and next_interval_law: "qc_next_interval (qi_config q) w sched = (w', ri) \<Longrightarrow> store_ok w \<Longrightarrow> store_ok w' \<and> stored w' = stored w"
    and outside_law: "outside w w' \<Longrightarrow> store_ok w \<Longrightarrow> store_ok w' \<and> stored w' = stored w"

section \<open>What a task holds\<close>

text \<open>The mail a task holds: at most one, in the place the program point says.\<close>

fun holds :: "('w, 'qm, 'im, 'pm, 'e, 'u, 'r, 'enq) Storage \<Rightarrow> ('qm, 'im, 'pm, 'u, 'r, 'd, 's) task \<Rightarrow>
    (place \<times> QueueId) option" where
  "holds st (Found_Inflight i) = Some (In_Inflight, inflight_id st i)"
| "holds st (Found_Cancel delay i) = Some (In_Inflight, inflight_id st i)"
| "holds st (Send m) = Some (In_Queue, queued_id st m)"
| "holds st (Send_Start delay qid m) = Some (In_Queue, queued_id st m)"
| "holds st (Read_Inflight delay qid i) = Some (In_Inflight, inflight_id st i)"
| "holds st (Destination qid i meta r) = Some (In_Inflight, inflight_id st i)"
| "holds st (Connect qid i meta r d) = Some (In_Inflight, inflight_id st i)"
| "holds st (Transmit qid i meta r s) = Some (In_Inflight, inflight_id st i)"
| "holds st (Send_Done delay qid i) = Some (In_Inflight, inflight_id st i)"
| "holds st (Send_Cancel delay qid i) = Some (In_Inflight, inflight_id st i)"
| "holds st (Next_Interval m) = Some (In_Queue, queued_id st m)"
| "holds st (Reschedule delay m sched) = Some (In_Queue, queued_id st m)"
| "holds st (Drop delay qid m) = Some (In_Queue, queued_id st m)"
| "holds st (Cleanup delay qid p) = Some (In_Cleanup, pending_id st p)"
| "holds st (Panicked qid) = None"

text \<open>
  \<open>turn_ok\<close>: the task holds \<open>(p, x)\<close>, and after its turn either nothing has moved and it still
  holds that mail; or it has moved the mail from \<open>p\<close> to \<open>p'\<close> and holds it there; or the mail was
  not at \<open>p\<close> and the task has ended; or it has removed a mail to be cleaned up and ended; or it
  has panicked.
\<close>

definition turn_ok :: "('w, 'qm, 'im, 'pm, 'e, 'u, 'r, 'enq) Storage \<Rightarrow> ('w \<Rightarrow> QueueId \<Rightarrow> place option) \<Rightarrow>
    place \<Rightarrow> QueueId \<Rightarrow> 'w \<Rightarrow> 'w \<Rightarrow> ('qm, 'im, 'pm, 'u, 'r, 'd, 's) task list \<Rightarrow> bool" where
  "turn_ok st stored p x w w' ts \<longleftrightarrow>
     (\<exists>t. ts = [t] \<and> holds st t = Some (p, x) \<and> stored w' = stored w) \<or>
     (\<exists>t p'. ts = [t] \<and> holds st t = Some (p', x) \<and> p \<noteq> In_Cleanup \<and> stored w x = Some p \<and>
        stored w' = (stored w)(x \<mapsto> p')) \<or>
     (ts = [] \<and> stored w x \<noteq> Some p \<and> stored w' = stored w) \<or>
     (ts = [] \<and> p = In_Cleanup \<and> stored w x = Some p \<and> stored w' = (stored w)(x := None)) \<or>
     (ts = [Panicked x] \<and> stored w' = stored w)"

context mail_store
begin

lemmas store_laws = read_law reschedule_law start_failed start_gone start_moved done_failed done_gone done_moved
  cancel_failed cancel_gone cancel_moved drop_failed drop_gone drop_moved cleanup_failed cleanup_done
  destination_law connect_law send_law now_law next_interval_law

lemma task_turn:
  assumes "task_step q w t = (w', evs, ts)" "holds (qi_storage q) t = Some (p, x)" "store_ok w"
  shows "store_ok w' \<and> turn_ok (qi_storage q) stored p x w w' ts"
proof (cases t)
  case (Found_Inflight i)
  with assms show ?thesis by (auto simp: turn_ok_def found_inflight_step_def)
next
  case (Found_Cancel delay i)
  with assms show ?thesis
    by (auto simp: turn_ok_def found_cancel_step_def io_retry_loop_def dest: store_laws
        split: prod.splits sum.splits option.splits run.splits)
next
  case (Send m)
  with assms show ?thesis
    by (auto simp: turn_ok_def send_wait_step_def try_send_def Let_def dest: store_laws split: prod.splits)
next
  case (Send_Start delay qid m)
  with assms show ?thesis
    by (auto simp: turn_ok_def send_start_step_def io_retry_loop_def dest: store_laws
        split: prod.splits sum.splits option.splits run.splits)
next
  case (Read_Inflight delay qid i)
  with assms show ?thesis
    by (auto simp: turn_ok_def read_inflight_step_def io_retry_loop_def dest: store_laws
        split: prod.splits sum.splits option.splits run.splits)
next
  case (Destination qid i meta r)
  with assms show ?thesis
    by (auto simp: turn_ok_def destination_step_def send_failed_def dest: store_laws split: prod.splits sum.splits)
next
  case (Connect qid i meta r d)
  with assms show ?thesis
    by (auto simp: turn_ok_def connect_step_def send_failed_def dest: store_laws split: prod.splits sum.splits)
next
  case (Transmit qid i meta r s)
  with assms show ?thesis
    by (auto simp: turn_ok_def transmit_step_def send_failed_def dest: store_laws split: prod.splits sum.splits)
next
  case (Send_Done delay qid i)
  with assms show ?thesis
    by (auto simp: turn_ok_def send_done_step_def io_retry_loop_def cleanup_def dest: store_laws
        split: prod.splits sum.splits option.splits run.splits)
next
  case (Send_Cancel delay qid i)
  with assms show ?thesis
    by (auto simp: turn_ok_def send_cancel_step_def io_retry_loop_def dest: store_laws
        split: prod.splits sum.splits option.splits run.splits)
next
  case (Next_Interval m)
  obtain w1 now where n: "utc_now (qi_chrono q) w = (w1, now)" by force
  obtain w2 i where i: "qc_next_interval (qi_config q) w1 (queued_schedule (qi_storage q) m) = (w2, i)" by force
  have "store_ok w2 \<and> stored w2 = stored w" using now_law [OF n] next_interval_law [OF i] assms(3) by simp
  with assms Next_Interval n i show ?thesis
    by (auto simp: turn_ok_def next_interval_step_def Let_def split: prod.splits option.splits)
next
  case (Reschedule delay m sched)
  with assms show ?thesis
    by (auto simp: turn_ok_def reschedule_step_def io_retry_loop_def dest: store_laws
        split: prod.splits sum.splits option.splits run.splits)
next
  case (Drop delay qid m)
  with assms show ?thesis
    by (auto simp: turn_ok_def drop_step_def io_retry_loop_def cleanup_def dest: store_laws
        split: prod.splits sum.splits option.splits run.splits)
next
  case (Cleanup delay qid pm)
  with assms show ?thesis
    by (auto simp: turn_ok_def cleanup_step_def io_retry_loop_def dest: store_laws
        split: prod.splits sum.splits option.splits run.splits if_splits)
next
  case (Panicked qid)
  with assms show ?thesis by simp
qed

end

lemma turn_ok_cases:
  assumes "turn_ok st stored p x w w' ts"
  obtains (kept) t where "ts = [t]" "holds st t = Some (p, x)" "stored w' = stored w"
    | (moved) t p' where "ts = [t]" "holds st t = Some (p', x)" "p \<noteq> In_Cleanup" "stored w x = Some p"
        "stored w' = (stored w)(x \<mapsto> p')"
    | (gone) "ts = []" "stored w x \<noteq> Some p" "stored w' = stored w"
    | (cleaned) "ts = []" "p = In_Cleanup" "stored w x = Some p" "stored w' = (stored w)(x := None)"
    | (panicked) "ts = [Panicked x]" "stored w' = stored w"
  using assms unfolding turn_ok_def by blast

section \<open>Mails in flight have one holder\<close>

definition held1 :: "('w, 'qm, 'im, 'pm, 'e, 'u, 'r, 'enq) Storage \<Rightarrow> place \<Rightarrow>
    ('qm, 'im, 'pm, 'u, 'r, 'd, 's) task \<Rightarrow> QueueId list" where
  "held1 st p t = (case holds st t of Some (p', x) \<Rightarrow> if p' = p then [x] else [] | None \<Rightarrow> [])"

definition held :: "('w, 'qm, 'im, 'pm, 'e, 'u, 'r, 'enq) Storage \<Rightarrow> place \<Rightarrow>
    ('qm, 'im, 'pm, 'u, 'r, 'd, 's) task list \<Rightarrow> QueueId list" where
  "held st p ts = concat (map (held1 st p) ts)"

lemma held_simps [simp]:
  "held st p [] = []" "held st p (t # ts) = held1 st p t @ held st p ts" "held st p (ts @ us) = held st p ts @ held st p us"
  by (simp_all add: held_def)

lemma set_held1: "x \<in> set (held1 st p t) \<longleftrightarrow> holds st t = Some (p, x)"
  by (auto simp: held1_def split: option.splits)

lemma set_held: "x \<in> set (held st p ts) \<longleftrightarrow> (\<exists>t \<in> set ts. holds st t = Some (p, x))"
  by (induction ts) (auto simp: held1_def split: option.splits)

definition scan_mails :: "('e, 'm) scan \<Rightarrow> 'm list" where
  "scan_mails sc = (case sc of Listed es \<Rightarrow> concat (map (case_sum (\<lambda>_. []) (\<lambda>m. [m])) es) | _ \<Rightarrow> [])"

lemma scan_mails_simps [simp]:
  "scan_mails Unspawned = []" "scan_mails Unlisted = []" "scan_mails (Listed []) = []"
  "scan_mails (Listed (Inl e # es)) = scan_mails (Listed es)" "scan_mails (Listed (Inr m # es)) = m # scan_mails (Listed es)"
  by (simp_all add: scan_mails_def)

lemma set_scan_mails: "m \<in> set (scan_mails (Listed es)) \<longleftrightarrow> Inr m \<in> set es"
proof -
  have "(\<exists>y \<in> set es. m \<in> set (case_sum (\<lambda>_. []) (\<lambda>m. [m]) y)) \<longleftrightarrow> Inr m \<in> set es"
    by (induction es) (auto split: sum.splits)
  then show ?thesis by (simp add: scan_mails_def)
qed

definition inflight_ids :: "('w, 'qm, 'im, 'pm, 'e, 'u, 'r, 'enq) Storage \<Rightarrow>
    ('w, 'qm, 'im, 'pm, 'e, 'u, 'r, 'd, 's) runner \<Rightarrow> QueueId list" where
  "inflight_ids st s = map (inflight_id st) (scan_mails (rn_inflight_scan s)) @ held st In_Inflight (rn_tasks s)"

definition exclusive :: "('w, 'qm, 'im, 'pm, 'e, 'u, 'r, 'enq) Storage \<Rightarrow> ('w \<Rightarrow> QueueId \<Rightarrow> place option) \<Rightarrow>
    ('w, 'qm, 'im, 'pm, 'e, 'u, 'r, 'd, 's) runner \<Rightarrow> bool" where
  "exclusive st stored s \<longleftrightarrow>
     distinct (inflight_ids st s) \<and> (\<forall>x \<in> set (inflight_ids st s). stored (rn_world s) x = Some In_Inflight) \<and>
     (rn_inflight_scan s = Unlisted \<longrightarrow> held st In_Inflight (rn_tasks s) = [] \<and> held st In_Queue (rn_tasks s) = []) \<and>
     rn_inflight_scan s \<noteq> Unspawned \<and> (rn_queue_scan s \<noteq> Unspawned \<longrightarrow> rn_inflight_scan s = Listed [])"

context mail_store
begin

lemma exclusive_task:
  assumes ex: "exclusive (qi_storage q) stored s" and t: "rn_tasks s = ts @ t # us"
    and step: "task_step q (rn_world s) t = (w, evs, ts')" and ok: "store_ok (rn_world s)"
  shows "exclusive (qi_storage q) stored (s\<lparr>rn_world := w, rn_log := l, rn_tasks := ts @ ts' @ us\<rparr>)"
proof (cases "holds (qi_storage q) t")
  case None
  then obtain x where "t = Panicked x" by (cases t) auto
  with step ex t show ?thesis by (auto simp: exclusive_def inflight_ids_def)
next
  case (Some px)
  obtain p x where px: "holds (qi_storage q) t = Some (p, x)" using Some by (cases px) auto
  let ?L = "map (inflight_id (qi_storage q)) (scan_mails (rn_inflight_scan s)) @
      held (qi_storage q) In_Inflight ts @ held (qi_storage q) In_Inflight us"
  from task_turn [OF step px ok, THEN conjunct2] show ?thesis
  proof (cases rule: turn_ok_cases)
    case (kept t')
    then show ?thesis using ex t px by (simp add: exclusive_def inflight_ids_def held1_def)
  next
    case (moved t' p')
    have new: "x \<notin> set ?L"
      using ex t px moved by (cases "p = In_Inflight") (auto simp: exclusive_def inflight_ids_def held1_def)
    then have "\<forall>y \<in> set ?L. stored w y = Some In_Inflight" "distinct ?L"
      using ex t moved by (auto simp: exclusive_def inflight_ids_def)
    moreover have "rn_inflight_scan s \<noteq> Unlisted"
      using ex t px moved(3) by (cases p) (auto simp: exclusive_def held1_def)
    ultimately show ?thesis using ex moved new by (auto simp: exclusive_def inflight_ids_def held1_def)
  next
    case gone
    then show ?thesis using ex t by (auto simp: exclusive_def inflight_ids_def held1_def split: if_splits)
  next
    case cleaned
    then have "x \<notin> set ?L" using ex t by (auto simp: exclusive_def inflight_ids_def)
    then show ?thesis using ex t cleaned px by (auto simp: exclusive_def inflight_ids_def held1_def)
  next
    case panicked
    then show ?thesis using ex t by (auto simp: exclusive_def inflight_ids_def held1_def split: if_splits)
  qed
qed

lemma listing_cases:
  obtains "sc = Unspawned" | "sc = Unlisted" | "sc = Listed []"
    | e x es where "sc = Listed (Inl (e, x) # es)" | m es where "sc = Listed (Inr m # es)"
  by (metis scan.exhaust list.exhaust sum.exhaust prod.exhaust)

lemma scan_inflight_cases:
  obtains (same) "scan_inflight q s = s"
    | (listed) w es where "rn_inflight_scan s = Unlisted" "st_find_inflight (qi_storage q) (rn_world s) = (w, es)"
        "scan_inflight q s = s\<lparr>rn_world := w, rn_inflight_scan := Listed es\<rparr>"
    | (skipped) e x es where "rn_inflight_scan s = Listed (Inl (e, x) # es)"
        "scan_inflight q s = s\<lparr>rn_log := rn_log s @ [Log_Storage_Error e x, Skipped x], rn_inflight_scan := Listed es\<rparr>"
    | (found) i es where "rn_inflight_scan s = Listed (Inr i # es)"
        "scan_inflight q s = s\<lparr>rn_log := rn_log s @ [Log_Found_Inflight (inflight_id (qi_storage q) i)],
           rn_inflight_scan := Listed es, rn_tasks := rn_tasks s @ [Found_Inflight i]\<rparr>"
  by (cases rule: listing_cases [of "rn_inflight_scan s"]; cases "st_find_inflight (qi_storage q) (rn_world s)")
     (use that in \<open>auto simp: scan_inflight_def scan_entry_def split: prod.splits\<close>)

lemma scan_pending_cases:
  obtains (same) "scan_pending_cleanup q s = s"
    | (listed) w es where "rn_pending_scan s = Unlisted" "st_find_pending_cleanup (qi_storage q) (rn_world s) = (w, es)"
        "scan_pending_cleanup q s = s\<lparr>rn_world := w, rn_pending_scan := Listed es\<rparr>"
    | (skipped) e x es where "rn_pending_scan s = Listed (Inl (e, x) # es)"
        "scan_pending_cleanup q s = s\<lparr>rn_log := rn_log s @ [Log_Storage_Error e x, Skipped x], rn_pending_scan := Listed es\<rparr>"
    | (found) p es where "rn_pending_scan s = Listed (Inr p # es)"
        "scan_pending_cleanup q s = s\<lparr>rn_log := rn_log s @ [Log_Found_Pending_Cleanup (pending_id (qi_storage q) p)],
           rn_pending_scan := Listed es, rn_tasks := rn_tasks s @ [cleanup (qi_storage q) p]\<rparr>"
  by (cases rule: listing_cases [of "rn_pending_scan s"]; cases "st_find_pending_cleanup (qi_storage q) (rn_world s)")
     (use that in \<open>auto simp: scan_pending_cleanup_def scan_entry_def split: prod.splits\<close>)

lemma scan_queue_cases:
  obtains (same) "scan_queue q s = s"
    | (listed) w es where "rn_queue_scan s = Unlisted" "st_list_queue (qi_storage q) (rn_world s) = (w, es)"
        "scan_queue q s = s\<lparr>rn_world := w, rn_queue_scan := Listed es\<rparr>"
    | (skipped) e x es where "rn_queue_scan s = Listed (Inl (e, x) # es)"
        "scan_queue q s = s\<lparr>rn_log := rn_log s @ [Log_Storage_Error e x, Skipped x], rn_queue_scan := Listed es\<rparr>"
    | (found) m es where "rn_queue_scan s = Listed (Inr m # es)"
        "scan_queue q s = s\<lparr>rn_log := rn_log s, rn_queue_scan := Listed es, rn_tasks := rn_tasks s @ [Send m]\<rparr>"
  by (cases rule: listing_cases [of "rn_queue_scan s"]; cases "st_list_queue (qi_storage q) (rn_world s)")
     (use that in \<open>auto simp: scan_queue_def scan_entry_def split: prod.splits\<close>)

lemma commit_cases:
  assumes "enqueuer_commit q en ds s = Value (s', res)"
  obtains (failed) w e e' where "st_commit (qi_storage q) (rn_world s) e' ds = (w, Inl e)"
      "s' = s\<lparr>rn_world := w, rn_log := rn_log s @ [Commit_Failed e]\<rparr>"
    | (new) w ms e' where "st_commit (qi_storage q) (rn_world s) e' ds = (w, Inr ms)"
      "s' = s\<lparr>rn_world := w, rn_log := rn_log s @ map (\<lambda>m. Enqueued (queued_id (qi_storage q) m)) ms,
         rn_tasks := rn_tasks s @ map Send ms\<rparr>"
  using assms by (auto simp: enqueuer_commit_def split: option.splits prod.splits sum.splits)

lemma held_Send [simp]:
  "held st p (map Send ms) = (if p = In_Queue then map (queued_id st) ms else [])"
  by (induction ms) (auto simp: held1_def)

lemma exclusive_step:
  assumes step: "queue_step q outside s s'" and ok: "store_ok (rn_world s)" and ex: "exclusive (qi_storage q) stored s"
  shows "exclusive (qi_storage q) stored s'"
  using step
proof (cases rule: queue_step.cases)
  case inflight_scanned
  show ?thesis
  proof (cases rule: scan_inflight_cases [of s])
    case (listed w es)
    with find_inflight_law [OF listed(2) ok] ex inflight_scanned show ?thesis
      by (auto simp: exclusive_def inflight_ids_def set_scan_mails) (simp add: scan_mails_def)
  qed (use ex inflight_scanned in \<open>auto simp: exclusive_def inflight_ids_def held1_def\<close>)
next
  case pending_scanned
  show ?thesis
  proof (cases rule: scan_pending_cases [of s])
    case (listed w es)
    with find_pending_law [OF listed(2) ok] ex pending_scanned show ?thesis by (simp add: exclusive_def inflight_ids_def)
  qed (use ex pending_scanned in \<open>auto simp: exclusive_def inflight_ids_def held1_def cleanup_def\<close>)
next
  case joined
  with ex show ?thesis by (auto simp: exclusive_def inflight_ids_def queue_new_join_def)
next
  case queue_scanned
  show ?thesis
  proof (cases rule: scan_queue_cases [of s])
    case (listed w es)
    with list_queue_law [OF listed(2) ok] ex queue_scanned show ?thesis by (simp add: exclusive_def inflight_ids_def)
  qed (use ex queue_scanned in \<open>auto simp: exclusive_def inflight_ids_def held1_def\<close>)
next
  case (task_ran ts t us w evs ts')
  with exclusive_task [OF ex _ _ ok] show ?thesis by simp
next
  case (committed en ds res)
  from committed(2) show ?thesis
  proof (cases rule: commit_cases)
    case (failed w e e')
    then have "stored w x = stored (rn_world s) x" if "stored (rn_world s) x \<noteq> None" for x
      using commit_failed [OF failed(1) ok] that by (auto simp: map_le_def dom_def)
    with ex failed(2) show ?thesis by (auto simp: exclusive_def inflight_ids_def)
  next
    case (new w ms e')
    have "stored w x = Some In_Inflight" if "stored (rn_world s) x = Some In_Inflight" for x
      using commit_ok [OF new(1) ok] that by auto
    with ex new(2) committed(1) show ?thesis by (auto simp: exclusive_def inflight_ids_def)
  qed
next
  case (world_changed w)
  with ex outside_law ok show ?thesis by (auto simp: exclusive_def inflight_ids_def)
qed

lemma store_ok_step:
  assumes step: "queue_step q outside s s'" and ok: "store_ok (rn_world s)"
  shows "store_ok (rn_world s')"
  using step
proof (cases rule: queue_step.cases)
  case inflight_scanned
  then show ?thesis
    using find_inflight_law ok by (cases rule: scan_inflight_cases [of s]) auto
next
  case pending_scanned
  then show ?thesis
    using find_pending_law ok by (cases rule: scan_pending_cases [of s]) auto
next
  case joined
  then show ?thesis using ok by (simp add: queue_new_join_def)
next
  case queue_scanned
  then show ?thesis
    using list_queue_law ok by (cases rule: scan_queue_cases [of s]) auto
next
  case (task_ran ts t us w evs ts')
  show ?thesis
  proof (cases "holds (qi_storage q) t")
    case None
    then obtain x where "t = Panicked x" by (cases t) auto
    with task_ran ok show ?thesis by auto
  next
    case (Some px)
    with task_turn [OF task_ran(3) _ ok] task_ran(1) show ?thesis by (cases px) auto
  qed
next
  case (committed en ds res)
  from committed(2) show ?thesis
    using commit_failed [OF _ ok] commit_ok [OF _ ok] by (cases rule: commit_cases) auto
next
  case (world_changed w)
  then show ?thesis using outside_law ok by auto
qed

lemma reaches_ok: "queue_reaches q outside w0 s \<Longrightarrow> store_ok w0 \<Longrightarrow> store_ok (rn_world s)"
  by (induction rule: queue_reaches.induct) (auto simp: queue_new_def dest: store_ok_step)

lemma reaches_exclusive: "queue_reaches q outside w0 s \<Longrightarrow> store_ok w0 \<Longrightarrow> exclusive (qi_storage q) stored s"
proof (induction rule: queue_reaches.induct)
  case created
  show ?case by (simp add: exclusive_def inflight_ids_def queue_new_def)
next
  case (stepped s s')
  then show ?case using exclusive_step reaches_ok by blast
qed

end

section \<open>No mail is forgotten\<close>

text \<open>A scan that will still come to the mail, or to the error that hides it.\<close>

definition scan_covers :: "('m \<Rightarrow> QueueId) \<Rightarrow> ('e, 'm) scan \<Rightarrow> QueueId \<Rightarrow> bool" where
  "scan_covers id_of sc x =
     (case sc of
        Listed es \<Rightarrow> x \<in> id_of ` set (scan_mails sc) \<or> (\<exists>e. Inl (e, Some x) \<in> set es \<or> Inl (e, None) \<in> set es)
      | _ \<Rightarrow> True)"

fun place_scan :: "('w, 'qm, 'im, 'pm, 'e, 'u, 'r, 'enq) Storage \<Rightarrow>
    ('w, 'qm, 'im, 'pm, 'e, 'u, 'r, 'd, 's) runner \<Rightarrow> place \<Rightarrow> QueueId \<Rightarrow> bool" where
  "place_scan st s In_Queue x = scan_covers (queued_id st) (rn_queue_scan s) x"
| "place_scan st s In_Inflight x = scan_covers (inflight_id st) (rn_inflight_scan s) x"
| "place_scan st s In_Cleanup x = scan_covers (pending_id st) (rn_pending_scan s) x"

text \<open>The mail at that place is in the hands of a task, or will be.\<close>

definition looked_after :: "('w, 'qm, 'im, 'pm, 'e, 'u, 'r, 'enq) Storage \<Rightarrow>
    ('w, 'qm, 'im, 'pm, 'e, 'u, 'r, 'd, 's) runner \<Rightarrow> place \<Rightarrow> QueueId \<Rightarrow> bool" where
  "looked_after st s p x \<longleftrightarrow> x \<in> set (held st p (rn_tasks s)) \<or> place_scan st s p x"

text \<open>
  Reasons for a mail to have no task: a listing reported an error for it or one without saying
  for which mail, a commit failed half-way, or its task panicked.
\<close>

definition excused :: "('w, 'qm, 'im, 'pm, 'e, 'u, 'r, 'd, 's) runner \<Rightarrow> QueueId \<Rightarrow> bool" where
  "excused s x \<longleftrightarrow> Skipped (Some x) \<in> set (rn_log s) \<or> Skipped None \<in> set (rn_log s) \<or>
     (\<exists>e. Commit_Failed e \<in> set (rn_log s)) \<or> Panicked x \<in> set (rn_tasks s)"

definition minded :: "('w, 'qm, 'im, 'pm, 'e, 'u, 'r, 'enq) Storage \<Rightarrow> ('w \<Rightarrow> QueueId \<Rightarrow> place option) \<Rightarrow>
    ('w, 'qm, 'im, 'pm, 'e, 'u, 'r, 'd, 's) runner \<Rightarrow> bool" where
  "minded st stored s \<longleftrightarrow> (\<forall>x p. stored (rn_world s) x = Some p \<longrightarrow> looked_after st s p x \<or> excused s x)"

lemma scan_covers_simps [simp]:
  "scan_covers id_of Unspawned x" "scan_covers id_of Unlisted x" "\<not> scan_covers id_of (Listed []) x"
  "scan_covers id_of (Listed (Inl (e, y) # es)) x \<longleftrightarrow> y = Some x \<or> y = None \<or> scan_covers id_of (Listed es) x"
  "scan_covers id_of (Listed (Inr m # es)) x \<longleftrightarrow> id_of m = x \<or> scan_covers id_of (Listed es) x"
  by (auto simp: scan_covers_def)

lemma place_scan_unchanged [simp]:
  "place_scan st (s\<lparr>rn_world := w\<rparr>) p x = place_scan st s p x"
  "place_scan st (s\<lparr>rn_log := l\<rparr>) p x = place_scan st s p x"
  "place_scan st (s\<lparr>rn_tasks := ts\<rparr>) p x = place_scan st s p x"
  by (cases p; simp)+

text \<open>A step that only adds tasks and events, and moves no mail.\<close>

lemma minded_grows:
  assumes mi: "minded st stored s" and "stored (rn_world s') = stored (rn_world s)"
    and "rn_tasks s' = rn_tasks s @ ts" "rn_log s' = rn_log s @ evs"
    and "\<And>x p. stored (rn_world s) x = Some p \<Longrightarrow> place_scan st s p x \<Longrightarrow>
      place_scan st s' p x \<or> x \<in> set (held st p ts) \<or> Skipped (Some x) \<in> set evs \<or> Skipped None \<in> set evs"
  shows "minded st stored s'"
  using assms unfolding minded_def looked_after_def excused_def by fastforce

context mail_store
begin

lemma minded_task:
  assumes mi: "minded (qi_storage q) stored s" and t: "rn_tasks s = ts @ t # us"
    and step: "task_step q (rn_world s) t = (w, evs, ts')" and ok: "store_ok (rn_world s)"
  shows "minded (qi_storage q) stored (s\<lparr>rn_world := w, rn_log := rn_log s @ evs, rn_tasks := ts @ ts' @ us\<rparr>)"
    (is "minded _ _ ?s'")
proof (cases "holds (qi_storage q) t")
  case None
  then obtain x where "t = Panicked x" by (cases t) auto
  with step have "w = rn_world s" "evs = []" "ts' = [t]" by auto
  with mi t show ?thesis by (simp add: minded_def looked_after_def excused_def)
next
  case (Some px)
  obtain p x where px: "holds (qi_storage q) t = Some (p, x)" using Some by (cases px) auto
  have np: "t \<noteq> Panicked y" for y using px by auto
  have scans: "place_scan (qi_storage q) ?s' p' y = place_scan (qi_storage q) s p' y" for p' y
    by (cases p') simp_all
  have "looked_after (qi_storage q) ?s' p' y \<or> excused ?s' y" if st: "stored w y = Some p'" for y p'
  proof -
    have other: "looked_after (qi_storage q) ?s' p' y \<or> excused ?s' y"
      if "looked_after (qi_storage q) s p' y \<or> excused s y" "(p', y) \<noteq> (p, x) \<or> ts' \<noteq> [] \<and> holds (qi_storage q) (hd ts') = Some (p, x)"
      using that np t px scans [of p' y]
      by (cases ts') (auto simp: looked_after_def excused_def set_held set_held1)
    from task_turn [OF step px ok, THEN conjunct2] show ?thesis
    proof (cases rule: turn_ok_cases)
      case (kept t')
      with mi st other show ?thesis by (simp add: minded_def)
    next
      case (moved t' p'')
      show ?thesis
      proof (cases "y = x")
        case True
        with moved st show ?thesis by (auto simp: looked_after_def set_held1)
      next
        case False
        with moved st have "stored (rn_world s) y = Some p'" by simp
        with mi other False show ?thesis by (simp add: minded_def)
      qed
    next
      case gone
      with st have "(p', y) \<noteq> (p, x)" by auto
      with gone mi st other show ?thesis by (simp add: minded_def)
    next
      case cleaned
      with st have "y \<noteq> x" "stored (rn_world s) y = Some p'" by (auto split: if_splits)
      with mi other show ?thesis by (simp add: minded_def)
    next
      case panicked
      then show ?thesis
        using mi st other by (cases "y = x") (auto simp: minded_def excused_def)
    qed
  qed
  then show ?thesis by (simp add: minded_def)
qed

lemma minded_scan_inflight:
  assumes ok: "store_ok (rn_world s)" and mi: "minded (qi_storage q) stored s"
  shows "minded (qi_storage q) stored (scan_inflight q s)"
proof (cases rule: scan_inflight_cases [of s])
  case same
  with mi show ?thesis by simp
next
  case (listed w es)
  note law = find_inflight_law [OF listed(2) ok]
  show ?thesis
  proof (rule minded_grows [OF mi, where ts = "[]" and evs = "[]"], goal_cases)
    case (4 x p)
    then show ?case using listed law by (cases p) (auto simp: scan_covers_def set_scan_mails)
  qed (use listed law in simp_all)
next
  case (skipped e x es)
  show ?thesis
  proof (rule minded_grows [OF mi, where ts = "[]" and evs = "[Log_Storage_Error e x, Skipped x]"], goal_cases)
    case (4 y p)
    then show ?case using skipped by (cases p) auto
  qed (use skipped in simp_all)
next
  case (found m es)
  show ?thesis
  proof (rule minded_grows [OF mi, where ts = "[Found_Inflight m]" and evs = "[Log_Found_Inflight (inflight_id (qi_storage q) m)]"], goal_cases)
    case (4 y p)
    then show ?case using found by (cases p) (auto simp: held1_def cleanup_def)
  qed (use found in simp_all)
qed

lemma minded_scan_pending_cleanup:
  assumes ok: "store_ok (rn_world s)" and mi: "minded (qi_storage q) stored s"
  shows "minded (qi_storage q) stored (scan_pending_cleanup q s)"
proof (cases rule: scan_pending_cases [of s])
  case same
  with mi show ?thesis by simp
next
  case (listed w es)
  note law = find_pending_law [OF listed(2) ok]
  show ?thesis
  proof (rule minded_grows [OF mi, where ts = "[]" and evs = "[]"], goal_cases)
    case (4 x p)
    then show ?case using listed law by (cases p) (auto simp: scan_covers_def set_scan_mails)
  qed (use listed law in simp_all)
next
  case (skipped e x es)
  show ?thesis
  proof (rule minded_grows [OF mi, where ts = "[]" and evs = "[Log_Storage_Error e x, Skipped x]"], goal_cases)
    case (4 y p)
    then show ?case using skipped by (cases p) auto
  qed (use skipped in simp_all)
next
  case (found m es)
  show ?thesis
  proof (rule minded_grows [OF mi, where ts = "[cleanup (qi_storage q) m]" and evs = "[Log_Found_Pending_Cleanup (pending_id (qi_storage q) m)]"], goal_cases)
    case (4 y p)
    then show ?case using found by (cases p) (auto simp: held1_def cleanup_def)
  qed (use found in simp_all)
qed

lemma minded_scan_queue:
  assumes ok: "store_ok (rn_world s)" and mi: "minded (qi_storage q) stored s"
  shows "minded (qi_storage q) stored (scan_queue q s)"
proof (cases rule: scan_queue_cases [of s])
  case same
  with mi show ?thesis by simp
next
  case (listed w es)
  note law = list_queue_law [OF listed(2) ok]
  show ?thesis
  proof (rule minded_grows [OF mi, where ts = "[]" and evs = "[]"], goal_cases)
    case (4 x p)
    then show ?case using listed law by (cases p) (auto simp: scan_covers_def set_scan_mails)
  qed (use listed law in simp_all)
next
  case (skipped e x es)
  show ?thesis
  proof (rule minded_grows [OF mi, where ts = "[]" and evs = "[Log_Storage_Error e x, Skipped x]"], goal_cases)
    case (4 y p)
    then show ?case using skipped by (cases p) auto
  qed (use skipped in simp_all)
next
  case (found m es)
  show ?thesis
  proof (rule minded_grows [OF mi, where ts = "[Send m]" and evs = "[]"], goal_cases)
    case (4 y p)
    then show ?case using found by (cases p) (auto simp: held1_def cleanup_def)
  qed (use found in simp_all)
qed

lemma minded_commit:
  assumes ok: "store_ok (rn_world s)" and mi: "minded (qi_storage q) stored s" and c: "enqueuer_commit q en ds s = Value (s', res)"
  shows "minded (qi_storage q) stored s'"
  using c
proof (cases rule: commit_cases)
  case (failed w e e')
  then show ?thesis by (auto simp: minded_def excused_def)
next
  case (new w ms e')
  have "looked_after (qi_storage q) s' p x \<or> excused s' x" if "stored w x = Some p" for x p
  proof (cases "x \<in> queued_id (qi_storage q) ` set ms")
    case True
    with that commit_ok [OF new(1) ok] new(2) show ?thesis by (auto simp: looked_after_def)
  next
    case False
    with that commit_ok [OF new(1) ok] have "stored (rn_world s) x = Some p" by (auto split: if_splits)
    with mi have "looked_after (qi_storage q) s p x \<or> excused s x" by (simp add: minded_def)
    with new(2) show ?thesis by (auto simp: looked_after_def excused_def)
  qed
  with new(2) show ?thesis by (simp add: minded_def)
qed

lemma minded_step:
  assumes step: "queue_step q outside s s'" and ok: "store_ok (rn_world s)" and mi: "minded (qi_storage q) stored s"
  shows "minded (qi_storage q) stored s'"
  using step
proof (cases rule: queue_step.cases)
  case joined
  show ?thesis
  proof (rule minded_grows [OF mi, where ts = "[]" and evs = "[]"], goal_cases)
    case (4 x p)
    then show ?case using joined by (cases p) (auto simp: queue_new_join_def)
  qed (use joined in \<open>simp_all add: queue_new_join_def\<close>)
next
  case (world_changed w)
  show ?thesis
    by (rule minded_grows [OF mi, where ts = "[]" and evs = "[]"]) (use world_changed outside_law ok in auto)
qed (use mi minded_scan_inflight minded_scan_pending_cleanup minded_scan_queue minded_task minded_commit ok in simp_all)

lemma reaches_minded: "queue_reaches q outside w0 s \<Longrightarrow> store_ok w0 \<Longrightarrow> minded (qi_storage q) stored s"
proof (induction rule: queue_reaches.induct)
  case created
  have "place_scan st (queue_new w0 :: ('w, 'qm, 'im, 'pm, 'e, 'u, 'r, 'd, 's) runner) p x" for st :: "('w, 'qm, 'im, 'pm, 'e, 'u, 'r, 'enq) Storage" and p x
    by (cases p) (simp_all add: queue_new_def)
  then show ?case by (simp add: minded_def looked_after_def)
next
  case (stepped s s')
  then show ?case using minded_step reaches_ok by blast
qed

end

section \<open>No mail is deleted without a reason\<close>

definition reason :: "'e event list \<Rightarrow> QueueId \<Rightarrow> bool" where
  "reason log x \<longleftrightarrow> Delivered x \<in> set log \<or> Given_Up x \<in> set log \<or> Log_Found_Pending_Cleanup x \<in> set log"

lemma reason_append: "reason log x \<Longrightarrow> reason (log @ evs) x"
  by (auto simp: reason_def)

text \<open>The tasks on the way to a deletion have a reason for it in the log.\<close>

fun justified :: "('w, 'qm, 'im, 'pm, 'e, 'u, 'r, 'enq) Storage \<Rightarrow> 'e event list \<Rightarrow>
    ('qm, 'im, 'pm, 'u, 'r, 'd, 's) task \<Rightarrow> bool" where
  "justified st log (Send_Done delay qid i) \<longleftrightarrow> reason log (inflight_id st i)"
| "justified st log (Drop delay qid m) \<longleftrightarrow> reason log (queued_id st m)"
| "justified st log (Cleanup delay qid p) \<longleftrightarrow> reason log (pending_id st p)"
| "justified st log _ \<longleftrightarrow> True"

lemma justified_append: "justified st log t \<Longrightarrow> justified st (log @ evs) t"
  by (cases t) (auto simp: reason_append)

definition accounted :: "('w, 'qm, 'im, 'pm, 'e, 'u, 'r, 'enq) Storage \<Rightarrow> ('w \<Rightarrow> QueueId \<Rightarrow> place option) \<Rightarrow> 'w \<Rightarrow>
    ('w, 'qm, 'im, 'pm, 'e, 'u, 'r, 'd, 's) runner \<Rightarrow> bool" where
  "accounted st stored w0 s \<longleftrightarrow> (\<forall>t \<in> set (rn_tasks s). justified st (rn_log s) t) \<and>
     (\<forall>x. stored w0 x \<noteq> None \<or> Enqueued x \<in> set (rn_log s) \<longrightarrow> stored (rn_world s) x \<noteq> None \<or> reason (rn_log s) x)"

context mail_store
begin

lemma task_justified:
  assumes "task_step q w t = (w', evs, ts)" "store_ok w" "justified (qi_storage q) log t"
  shows "\<forall>t' \<in> set ts. justified (qi_storage q) (log @ evs) t'"
  using assms
  by (cases t) (auto simp: found_inflight_step_def found_cancel_step_def send_wait_step_def try_send_def
      send_start_step_def read_inflight_step_def destination_step_def connect_step_def transmit_step_def
      send_failed_def send_done_step_def send_cancel_step_def next_interval_step_def reschedule_step_def
      drop_step_def cleanup_step_def cleanup_def io_retry_loop_def Let_def reason_append reason_def
      dest: done_failed done_moved drop_failed drop_moved cleanup_failed
      split: prod.splits sum.splits option.splits run.splits)

lemma task_not_enqueued: "task_step q w t = (w', evs, ts) \<Longrightarrow> Enqueued x \<notin> set evs"
  by (cases t) (auto simp: found_inflight_step_def found_cancel_step_def send_wait_step_def try_send_def
      send_start_step_def read_inflight_step_def destination_step_def connect_step_def transmit_step_def
      send_failed_def send_done_step_def send_cancel_step_def next_interval_step_def chrono_interval_def reschedule_step_def
      drop_step_def cleanup_step_def cleanup_def io_retry_loop_def Let_def
      split: prod.splits sum.splits option.splits run.splits if_splits)

lemma task_removes:
  assumes step: "task_step q w t = (w', evs, ts)" and ok: "store_ok w" and x: "stored w x \<noteq> None" "stored w' x = None"
  shows "\<exists>delay qid p. t = Cleanup delay qid p \<and> x = pending_id (qi_storage q) p"
proof (cases "holds (qi_storage q) t")
  case None
  then obtain y where "t = Panicked y" by (cases t) auto
  with step x show ?thesis by auto
next
  case (Some py)
  obtain p y where py: "holds (qi_storage q) t = Some (p, y)" using Some by (cases py) auto
  from task_turn [OF step py ok, THEN conjunct2] x have "p = In_Cleanup" "x = y"
    by (auto elim!: turn_ok_cases split: if_splits)
  with py show ?thesis by (cases t) auto
qed

lemma accounted_task:
  assumes ac: "accounted (qi_storage q) stored w0 s" and t: "rn_tasks s = ts @ t # us"
    and step: "task_step q (rn_world s) t = (w, evs, ts')" and ok: "store_ok (rn_world s)"
  shows "accounted (qi_storage q) stored w0 (s\<lparr>rn_world := w, rn_log := rn_log s @ evs, rn_tasks := ts @ ts' @ us\<rparr>)"
proof -
  have j: "justified (qi_storage q) (rn_log s) t" using ac t by (simp add: accounted_def)
  have "stored w x \<noteq> None \<or> reason (rn_log s @ evs) x"
    if "stored w0 x \<noteq> None \<or> Enqueued x \<in> set (rn_log s @ evs)" for x
  proof (cases "stored (rn_world s) x \<noteq> None \<and> stored w x = None")
    case True
    with task_removes [OF step ok] j have "reason (rn_log s) x" by fastforce
    then show ?thesis by (simp add: reason_append)
  next
    case False
    have "stored (rn_world s) x \<noteq> None \<or> reason (rn_log s) x"
      using ac that task_not_enqueued [OF step] by (auto simp: accounted_def)
    with False show ?thesis by (auto simp: reason_append)
  qed
  with ac t task_justified [OF step ok j] show ?thesis by (auto simp: accounted_def justified_append)
qed

text \<open>A step that removes no mail and adds justified tasks.\<close>

lemma accounted_grows:
  assumes ac: "accounted (qi_storage q) stored w0 s"
    and "\<And>x. stored (rn_world s) x \<noteq> None \<Longrightarrow> stored (rn_world s') x \<noteq> None"
    and "rn_tasks s' = rn_tasks s @ ts" "rn_log s' = rn_log s @ evs"
    and "\<And>t. t \<in> set ts \<Longrightarrow> justified (qi_storage q) evs t"
    and "\<And>x. Enqueued x \<in> set evs \<Longrightarrow> stored (rn_world s') x \<noteq> None"
  shows "accounted (qi_storage q) stored w0 s'"
proof -
  have "justified (qi_storage q) (rn_log s @ evs) t" if "t \<in> set ts" for t
    using assms(5) [OF that] by (cases t) (auto simp: reason_def)
  with assms show ?thesis by (auto simp: accounted_def justified_append reason_append)
qed

lemma accounted_step:
  assumes step: "queue_step q outside s s'" and ok: "store_ok (rn_world s)" and ac: "accounted (qi_storage q) stored w0 s"
  shows "accounted (qi_storage q) stored w0 s'"
  using step
proof (cases rule: queue_step.cases)
  case inflight_scanned
  show ?thesis
  proof (cases rule: scan_inflight_cases [of s])
    case (listed w es)
    with find_inflight_law [OF listed(2) ok] inflight_scanned show ?thesis
      by (intro accounted_grows [OF ac, where ts = "[]" and evs = "[]"]) simp_all
  qed (use ac inflight_scanned in \<open>auto simp: accounted_def justified_append reason_append\<close>)
next
  case pending_scanned
  show ?thesis
  proof (cases rule: scan_pending_cases [of s])
    case (listed w es)
    with find_pending_law [OF listed(2) ok] pending_scanned show ?thesis
      by (intro accounted_grows [OF ac, where ts = "[]" and evs = "[]"]) simp_all
  qed (use ac pending_scanned in \<open>auto simp: accounted_def justified_append reason_append reason_def cleanup_def\<close>)
next
  case joined
  with ac show ?thesis by (simp add: queue_new_join_def accounted_def)
next
  case queue_scanned
  show ?thesis
  proof (cases rule: scan_queue_cases [of s])
    case (listed w es)
    with list_queue_law [OF listed(2) ok] queue_scanned show ?thesis
      by (intro accounted_grows [OF ac, where ts = "[]" and evs = "[]"]) simp_all
  qed (use ac queue_scanned in \<open>auto simp: accounted_def justified_append reason_append\<close>)
next
  case (task_ran ts t us w evs ts')
  with accounted_task [OF ac _ _ ok] show ?thesis by simp
next
  case (committed en ds res)
  from committed(2) show ?thesis
  proof (cases rule: commit_cases)
    case (failed w e e')
    then show ?thesis using commit_failed [OF failed(1) ok]
      by (intro accounted_grows [OF ac, where ts = "[]" and evs = "[Commit_Failed e]"])
         (auto simp: map_le_def dom_def)
  next
    case (new w ms e')
    then show ?thesis using commit_ok [OF new(1) ok]
      by (intro accounted_grows [OF ac, where ts = "map Send ms" and
            evs = "map (\<lambda>m. Enqueued (queued_id (qi_storage q) m)) ms"]) auto
  qed
next
  case (world_changed w)
  with outside_law [OF world_changed(2) ok] show ?thesis
    by (intro accounted_grows [OF ac, where ts = "[]" and evs = "[]"]) auto
qed

lemma reaches_accounted: "queue_reaches q outside w0 s \<Longrightarrow> store_ok w0 \<Longrightarrow> accounted (qi_storage q) stored w0 s"
proof (induction rule: queue_reaches.induct)
  case created
  show ?case by (simp add: accounted_def queue_new_def)
next
  case (stepped s s')
  then show ?case using accounted_step reaches_ok by blast
qed

end

end
