(* ===== verification/QueueFsStore.thy ===== *)
theory QueueFsStore
  imports QueueFs QueueSafety
begin

text \<open>
  The file-system storage keeps the contract of the queue runner, whatever calls fail: the place
  of a mail is the queue directory its link is in, and everything else an operation does happens
  below the data directory.
\<close>

section \<open>The invariant\<close>

declare map_of_eq_Some_iff [simp del] Some_eq_map_of_iff [simp del]

definition queue_dirs :: "string set" where
  "queue_dirs = {QUEUE_DIR, INFLIGHT_DIR, CLEANUP_DIR}"

lemma dirs_distinct [simp]:
  "QUEUE_DIR \<noteq> INFLIGHT_DIR" "QUEUE_DIR \<noteq> CLEANUP_DIR" "INFLIGHT_DIR \<noteq> CLEANUP_DIR"
  "INFLIGHT_DIR \<noteq> QUEUE_DIR" "CLEANUP_DIR \<noteq> QUEUE_DIR" "CLEANUP_DIR \<noteq> INFLIGHT_DIR"
  "DATA_DIR \<notin> queue_dirs" "QUEUE_DIR \<in> queue_dirs" "INFLIGHT_DIR \<in> queue_dirs" "CLEANUP_DIR \<in> queue_dirs"
  by (simp_all add: dir_defs queue_dirs_def)

definition mail_link :: "path \<Rightarrow> bool" where
  "mail_link l \<longleftrightarrow> (\<exists>m k. l = DATA_DIR_FROM_OTHER_QUEUE @ [m, k] \<and> is_name m \<and> is_name k)"

text \<open>
  The four directories exist, the queue directories hold links to destinations of mails and
  nothing else, no link name is in two of them, and below the data directory are no links.
\<close>

definition map_ok :: "(path \<Rightarrow> entry option) \<Rightarrow> bool" where
  "map_ok g \<longleftrightarrow> (\<forall>d \<in> insert DATA_DIR queue_dirs. g [d] = Some Fs_Dir) \<and>
     (\<forall>p e. g p = Some e \<longrightarrow> (\<forall>c \<in> set p. is_name c)) \<and>
     (\<forall>d \<in> queue_dirs. \<forall>r e. r \<noteq> [] \<longrightarrow> g (d # r) = Some e \<longrightarrow> (\<exists>n l. r = [n] \<and> e = Fs_Link l \<and> mail_link l)) \<and>
     (\<forall>d \<in> queue_dirs. \<forall>d' \<in> queue_dirs. \<forall>n. g [d, n] \<noteq> None \<longrightarrow> g [d', n] \<noteq> None \<longrightarrow> d = d') \<and>
     (\<forall>r l. g (DATA_DIR # r) \<noteq> Some (Fs_Link l))"

definition tree_ok :: "tree \<Rightarrow> bool" where
  "tree_ok t \<longleftrightarrow> distinct (map fst t) \<and> map_ok (map_of t)"

lemma map_okD:
  assumes "map_ok g"
  shows "d \<in> insert DATA_DIR queue_dirs \<Longrightarrow> g [d] = Some Fs_Dir"
    "g p = Some e \<Longrightarrow> c \<in> set p \<Longrightarrow> is_name c"
    "d \<in> queue_dirs \<Longrightarrow> r \<noteq> [] \<Longrightarrow> g (d # r) = Some e \<Longrightarrow> \<exists>n l. r = [n] \<and> e = Fs_Link l \<and> mail_link l"
    "d \<in> queue_dirs \<Longrightarrow> d' \<in> queue_dirs \<Longrightarrow> g [d, n] = Some e \<Longrightarrow> g [d', n] = Some e' \<Longrightarrow> d = d'"
    "g (DATA_DIR # r) \<noteq> Some (Fs_Link l)"
  using assms unfolding map_ok_def by blast+

lemma map_okI:
  assumes "\<And>d. d \<in> insert DATA_DIR queue_dirs \<Longrightarrow> g [d] = Some Fs_Dir"
    and "\<And>p e c. g p = Some e \<Longrightarrow> c \<in> set p \<Longrightarrow> is_name c"
    and "\<And>d r e. d \<in> queue_dirs \<Longrightarrow> r \<noteq> [] \<Longrightarrow> g (d # r) = Some e \<Longrightarrow> \<exists>n l. r = [n] \<and> e = Fs_Link l \<and> mail_link l"
    and "\<And>d d' n e e'. d \<in> queue_dirs \<Longrightarrow> d' \<in> queue_dirs \<Longrightarrow> g [d, n] = Some e \<Longrightarrow> g [d', n] = Some e' \<Longrightarrow> d = d'"
    and "\<And>r l. g (DATA_DIR # r) \<noteq> Some (Fs_Link l)"
  shows "map_ok g"
  unfolding map_ok_def
proof (intro conjI ballI allI impI, goal_cases)
  case (1 d)
  then show ?case by (rule assms(1))
next
  case (2 p e c)
  then show ?case by (rule assms(2))
next
  case (3 d r e)
  then show ?case by (rule assms(3))
next
  case (4 d d' n)
  then obtain e e' where "g [d, n] = Some e" "g [d', n] = Some e'" by auto
  with 4(1,2) show ?case by (rule assms(4))
next
  case (5 r l)
  show ?case by (rule assms(5))
qed

text \<open>The names that \<^verbatim>\<open>Uuid::new_v4\<close> will still give are new.\<close>

definition uuids_ok :: "'z fs_world_scheme \<Rightarrow> bool" where
  "uuids_ok w \<longleftrightarrow> inj (fs_uuids w) \<and> (\<forall>i. is_name (fs_uuids w i)) \<and>
     (\<forall>d \<in> queue_dirs. \<forall>i \<ge> fs_next_uuid w. map_of (fs_tree w) [d, fs_uuids w i] = None)"

definition fs_ok :: "'z fs_world_scheme \<Rightarrow> bool" where
  "fs_ok w \<longleftrightarrow> tree_ok (fs_tree w) \<and> uuids_ok w"

fun place_dir :: "place \<Rightarrow> string" where
  "place_dir In_Queue = QUEUE_DIR"
| "place_dir In_Inflight = INFLIGHT_DIR"
| "place_dir In_Cleanup = CLEANUP_DIR"

lemma place_dir_queue [simp]: "place_dir p \<in> queue_dirs"
  by (cases p) simp_all

lemma place_dir_inj [simp]: "place_dir p = place_dir p' \<longleftrightarrow> p = p'"
  by (cases p; cases p') (simp_all add: dir_defs)

fun fs_stored :: "'z fs_world_scheme \<Rightarrow> QueueId \<Rightarrow> place option" where
  "fs_stored w (QueueId n) =
     (if map_of (fs_tree w) [QUEUE_DIR, n] \<noteq> None then Some In_Queue
      else if map_of (fs_tree w) [INFLIGHT_DIR, n] \<noteq> None then Some In_Inflight
      else if map_of (fs_tree w) [CLEANUP_DIR, n] \<noteq> None then Some In_Cleanup
      else None)"

declare fs_stored.simps [simp del]

lemma fs_stored_iff:
  assumes "fs_ok w"
  shows "fs_stored w (QueueId n) = Some p \<longleftrightarrow> map_of (fs_tree w) [place_dir p, n] \<noteq> None"
proof -
  have "map_ok (map_of (fs_tree w))" using assms by (simp add: fs_ok_def tree_ok_def)
  note one = map_okD(4) [OF this]
  have "\<not> (map_of (fs_tree w) [QUEUE_DIR, n] \<noteq> None \<and> map_of (fs_tree w) [INFLIGHT_DIR, n] \<noteq> None)"
    "\<not> (map_of (fs_tree w) [QUEUE_DIR, n] \<noteq> None \<and> map_of (fs_tree w) [CLEANUP_DIR, n] \<noteq> None)"
    "\<not> (map_of (fs_tree w) [INFLIGHT_DIR, n] \<noteq> None \<and> map_of (fs_tree w) [CLEANUP_DIR, n] \<noteq> None)"
    using one dirs_distinct by blast+
  then show ?thesis by (cases p) (auto simp: fs_stored.simps)
qed

lemma fs_stored_eqI:
  assumes "fs_ok w" "fs_ok w'" "\<And>p. map_of (fs_tree w') [place_dir p, n] = None \<longleftrightarrow> map_of (fs_tree w) [place_dir p, n] = None"
  shows "fs_stored w' (QueueId n) = fs_stored w (QueueId n)"
proof -
  have "fs_stored w' (QueueId n) = Some p \<longleftrightarrow> fs_stored w (QueueId n) = Some p" for p
    using assms(3) [of p] fs_stored_iff [OF assms(1), of n p] fs_stored_iff [OF assms(2), of n p] by simp
  then show ?thesis by (metis not_None_eq)
qed

section \<open>Changes below the data directory\<close>

definition data_only :: "'z fs_world_scheme \<Rightarrow> 'z fs_world_scheme \<Rightarrow> bool" where
  "data_only w w' \<longleftrightarrow> (tree_ok (fs_tree w) \<longrightarrow> tree_ok (fs_tree w')) \<and>
     (\<forall>d \<in> queue_dirs. \<forall>r. map_of (fs_tree w') (d # r) = map_of (fs_tree w) (d # r)) \<and>
     fs_uuids w' = fs_uuids w \<and> fs_next_uuid w \<le> fs_next_uuid w'"

lemma data_only_refl [simp]: "data_only w w"
  by (simp add: data_only_def)

lemma data_only_trans: "data_only w w1 \<Longrightarrow> data_only w1 w2 \<Longrightarrow> data_only w w2"
  by (auto simp: data_only_def)

lemma data_only_ok:
  assumes "data_only w w'" "fs_ok w"
  shows "fs_ok w' \<and> fs_stored w' = fs_stored w"
proof
  show ok: "fs_ok w'" using assms by (auto simp: fs_ok_def uuids_ok_def data_only_def)
  show "fs_stored w' = fs_stored w"
  proof
    fix x
    obtain n where "x = QueueId n" by (cases x)
    then show "fs_stored w' x = fs_stored w x"
      using assms ok by (auto simp: data_only_def intro!: fs_stored_eqI)
  qed
qed

text \<open>How a system call ends.\<close>

lemma sys_cases:
  assumes "sys call w = (w', r)"
  obtains (fault) msg where "r = Inl (os_error msg)" "w' = w\<lparr>fs_faults := tl (fs_faults w)\<rparr>"
    | (error) e where "call (fs_tree w) = Inl e" "r = Inl e" "w' = w\<lparr>fs_faults := tl (fs_faults w)\<rparr>"
    | (answered) t a where "call (fs_tree w) = Inr (t, a)" "r = Inr a" "w' = w\<lparr>fs_faults := tl (fs_faults w), fs_tree := t\<rparr>"
proof -
  let ?run = "case call (fs_tree w) of Inl e \<Rightarrow> (w\<lparr>fs_faults := tl (fs_faults w)\<rparr>, Inl e)
     | Inr (t, a) \<Rightarrow> (w\<lparr>fs_faults := tl (fs_faults w), fs_tree := t\<rparr>, Inr a)"
  consider msg fs where "fs_faults w = Some msg # fs" | "sys call w = ?run"
    by (cases "fs_faults w"; cases "hd (fs_faults w)") (auto simp: sys_def Let_def split: sum.split)
  then show ?thesis
  proof cases
    case 1
    with assms fault show ?thesis by (auto simp: sys_def)
  next
    case 2
    with assms error answered show ?thesis by (auto split: sum.splits)
  qed
qed

lemma sys_data_only:
  assumes "sys call w = (w', r)"
    and "\<And>t' a. tree_ok (fs_tree w) \<Longrightarrow> call (fs_tree w) = Inr (t', a) \<Longrightarrow> tree_ok t'"
    and "\<And>t' a d s. call (fs_tree w) = Inr (t', a) \<Longrightarrow> d \<in> queue_dirs \<Longrightarrow> map_of t' (d # s) = map_of (fs_tree w) (d # s)"
  shows "data_only w w'"
  using assms(1) by (cases rule: sys_cases) (use assms(2,3) in \<open>auto simp: data_only_def\<close>)

text \<open>Calls that only look.\<close>

lemma read_only_calls:
  "os_sub_dir base rel w = (w', r1) \<Longrightarrow> data_only w w'"
  "os_read_file base rel w = (w', r2) \<Longrightarrow> data_only w w'"
  "os_read_link dir name w = (w', r3) \<Longrightarrow> data_only w w'"
  "os_list_dir dir w = (w', r4) \<Longrightarrow> data_only w w'"
  "os_links dir w = (w', r5) \<Longrightarrow> data_only w w'"
  "fs_enqueuer_flush w = (w', r6) \<Longrightarrow> data_only w w'"
  unfolding os_sub_dir_def os_read_file_def os_read_link_def os_list_dir_def os_links_def fs_enqueuer_flush_def
  by (erule sys_data_only; auto split: sum.splits option.splits entry.splits if_splits)+

text \<open>Changing the tree at a place below the data directory.\<close>

lemma map_of_data_change:
  "d \<in> queue_dirs \<Longrightarrow> map_of (AList.delete (DATA_DIR # xs) t) (d # s) = map_of t (d # s)"
  "d \<in> queue_dirs \<Longrightarrow> map_of (AList.update (DATA_DIR # xs) e t) (d # s) = map_of t (d # s)"
  using dirs_distinct(7) by (auto simp: AList.delete_conv' AList.update_conv')

lemma tree_ok_delete:
  assumes "tree_ok t"
  shows "tree_ok (AList.delete (DATA_DIR # x # xs) t)"
proof -
  have g: "map_ok (map_of t)" "distinct (map fst t)" using assms by (simp_all add: tree_ok_def)
  have "map_ok ((map_of t)(DATA_DIR # x # xs := None))"
    by (rule map_okI) (use map_okD [OF g(1)] in \<open>auto split: if_splits\<close>)
  with g(2) show ?thesis by (simp add: tree_ok_def AList.delete_conv' AList.distinct_delete)
qed

lemma tree_ok_update:
  assumes "tree_ok t" "\<forall>c \<in> set (DATA_DIR # x # xs). is_name c" "\<And>l. e \<noteq> Fs_Link l"
  shows "tree_ok (AList.update (DATA_DIR # x # xs) e t)"
proof -
  have g: "map_ok (map_of t)" "distinct (map fst t)" using assms by (simp_all add: tree_ok_def)
  have "map_ok ((map_of t)(DATA_DIR # x # xs \<mapsto> e))"
    by (rule map_okI) (use map_okD [OF g(1)] assms(2,3) dirs_distinct(7) in \<open>auto split: if_splits\<close>)
  with g(2) show ?thesis by (simp add: tree_ok_def AList.update_conv' AList.distinct_update)
qed

lemma tree_ok_names: "tree_ok t \<Longrightarrow> map_of t p = Some e \<Longrightarrow> c \<in> set p \<Longrightarrow> is_name c"
  using map_okD(2) unfolding tree_ok_def by blast

lemma append_name: "\<exists>x xs'. xs @ [name] = x # xs'"
  by (cases xs) auto

lemma os_create_data:
  assumes "os_create e (DATA_DIR # xs) name w = (w', r)" "\<And>l. e \<noteq> Fs_Link l"
  shows "data_only w w'"
proof -
  obtain x xs' where x: "xs @ [name] = x # xs'" using append_name [of xs name] by blast
  have "\<forall>c \<in> set (DATA_DIR # x # xs'). is_name c"
    if "tree_ok t" "map_of t (DATA_DIR # xs) = Some Fs_Dir" "is_name name" for t
    using tree_ok_names [OF that(1,2)] that(3) by (simp flip: x)
  then show ?thesis using assms unfolding os_create_def
    by (elim sys_data_only) (auto simp: x map_of_data_change intro!: tree_ok_update split: if_splits)
qed

lemma os_write_data:
  assumes "os_write_file (DATA_DIR # xs) name bs w = (w', r)"
  shows "data_only w w'"
proof -
  obtain x xs' where x: "xs @ [name] = x # xs'" using append_name [of xs name] by blast
  show ?thesis using assms unfolding os_write_file_def
    by (elim sys_data_only)
       (auto simp: x map_of_data_change dest: tree_ok_names intro!: tree_ok_update split: option.splits entry.splits)
qed

lemma os_remove_file_data:
  assumes "os_remove_file (DATA_DIR # xs) name w = (w', r)"
  shows "data_only w w'"
proof -
  obtain x xs' where x: "xs @ [name] = x # xs'" using append_name [of xs name] by blast
  show ?thesis using assms unfolding os_remove_file_def
    by (elim sys_data_only)
       (auto simp: x map_of_data_change intro!: tree_ok_delete split: option.splits entry.splits)
qed

section \<open>Moving a mail\<close>

lemma tree_ok_move:
  assumes ok: "tree_ok t" and d: "d \<in> queue_dirs" "d' \<in> queue_dirs" "d \<noteq> d'" and e: "map_of t [d, n] = Some e"
  shows "tree_ok (AList.update [d', n] e (AList.delete [d, n] t))"
proof -
  have g: "map_ok (map_of t)" "distinct (map fst t)" using ok by (simp_all add: tree_ok_def)
  note D = map_okD [OF g(1)]
  obtain l where l: "e = Fs_Link l" "mail_link l" using D(3) [OF d(1) _ e] by auto
  have n: "is_name d'" "is_name n" using D(2) [OF e] D(2) [OF D(1) [of d']] d by auto
  have "map_ok ((map_of t)([d, n] := None, [d', n] \<mapsto> e))" (is "map_ok ?g")
  proof (rule map_okI, goal_cases)
    case (1 x)
    then show ?case using D(1) by simp
  next
    case (2 q a c)
    then show ?case using D(2) [of q a c] n by (auto split: if_splits)
  next
    case (3 x r a)
    then show ?case using D(3) [of x r a] l by (auto split: if_splits)
  next
    case (4 x y k a b)
    have new: "z = d'" if "z \<in> queue_dirs" "?g [z, n] = Some c" for z c
    proof (rule ccontr)
      assume "z \<noteq> d'"
      with that(2) have "z \<noteq> d" "map_of t [z, n] = Some c" by (simp_all split: if_splits)
      with D(4) [OF d(1) that(1) e] show False by simp
    qed
    show ?case
    proof (cases "k = n")
      case True
      with new 4 show ?thesis by metis
    next
      case False
      with 4 D(4) [of x y k a b] show ?thesis by simp
    qed
  next
    case (5 r a)
    have "d' \<noteq> DATA_DIR" using d(2) dirs_distinct(7) by blast
    then show ?case using D(5) [of r a] by simp
  qed
  with g(2) show ?thesis
    by (simp add: tree_ok_def AList.update_conv' AList.delete_conv' AList.distinct_update AList.distinct_delete)
qed

definition rename_call :: "path \<Rightarrow> string \<Rightarrow> path \<Rightarrow> string \<Rightarrow> tree \<Rightarrow> io_error + tree \<times> unit" where
  "rename_call dir name dir' name' t =
     (case map_of t (dir @ [name]) of
       None \<Rightarrow> Inl not_found
     | Some e \<Rightarrow>
         (if map_of t dir' \<noteq> Some Fs_Dir then Inl not_found
          else if e = Fs_Dir \<or> map_of t (dir' @ [name']) = Some Fs_Dir then Inl (os_error ''Is a directory'')
          else Inr (AList.update (dir' @ [name']) e (AList.delete (dir @ [name]) t), ())))"

lemma os_rename_call: "os_rename dir name dir' name' = sys (rename_call dir name dir' name')"
  by (simp add: os_rename_def rename_call_def [abs_def])

text \<open>The outcomes of a move between two queue directories.\<close>

definition moved :: "place \<Rightarrow> place \<Rightarrow> string \<Rightarrow> 'm \<Rightarrow> 'n \<Rightarrow> 'z fs_world_scheme \<Rightarrow> 'z fs_world_scheme \<times> ('m \<times> FsError + 'n option) \<Rightarrow> bool" where
  "moved p p' n mail mail' w res \<longleftrightarrow> fs_ok (fst res) \<and>
     (case snd res of
        Inl (m, e) \<Rightarrow> m = mail \<and> fs_stored (fst res) = fs_stored w
      | Inr None \<Rightarrow> fs_stored (fst res) = fs_stored w \<and> fs_stored w (QueueId n) \<noteq> Some p
      | Inr (Some m) \<Rightarrow> m = mail' \<and> fs_stored w (QueueId n) = Some p \<and>
          fs_stored (fst res) = (fs_stored w)(QueueId n \<mapsto> p'))"

lemma fs_move_cases:
  assumes move: "fs_move [place_dir p] [place_dir p'] n mail err into w = (w', r)" and ok: "fs_ok w" and p: "p \<noteq> p'"
  shows "fs_ok w' \<and>
    ((\<exists>e. r = Inl (mail, e) \<and> fs_stored w' = fs_stored w) \<or>
     (r = Inr None \<and> fs_stored w' = fs_stored w \<and> fs_stored w (QueueId n) \<noteq> Some p) \<or>
     (r = Inr (Some (into mail)) \<and> fs_stored w (QueueId n) = Some p \<and>
        fs_stored w' = (fs_stored w)(QueueId n \<mapsto> p')))"
proof -
  let ?t = "fs_tree w"
  have t: "tree_ok ?t" and g: "map_ok (map_of ?t)" using ok by (simp_all add: fs_ok_def tree_ok_def)
  obtain r1 where rn: "sys (rename_call [place_dir p] n [place_dir p'] n) w = (w', r1)"
    and r: "r = (case r1 of Inl e \<Rightarrow> if io_kind e = NotFound then Inr None else Inl (mail, err e) | Inr _ \<Rightarrow> Inr (Some (into mail)))"
    using move by (auto simp: fs_move_def fs_found_def os_rename_call split: prod.splits sum.splits if_splits)
  have unmoved: "fs_ok w' \<and> fs_stored w' = fs_stored w" if "w' = w\<lparr>fs_faults := tl (fs_faults w)\<rparr>"
    by (rule data_only_ok [OF _ ok]) (simp add: that data_only_def)
  from rn show ?thesis
  proof (cases rule: sys_cases)
    case (fault msg)
    with unmoved r show ?thesis by (simp add: os_error_def)
  next
    case (error e)
    have "map_of ?t [place_dir p, n] = None" if "io_kind e = NotFound"
      using error(1) that map_okD(1) [OF g, of "place_dir p'"]
      by (auto simp: rename_call_def os_error_def split: option.splits if_splits)
    with error unmoved r fs_stored_iff [OF ok, of n p] show ?thesis by auto
  next
    case (answered t' u)
    then obtain e where e: "map_of ?t [place_dir p, n] = Some e"
      and t': "t' = AList.update [place_dir p', n] e (AList.delete [place_dir p, n] ?t)"
      by (auto simp: rename_call_def split: option.splits if_splits)
    have m: "map_of (fs_tree w') = (map_of ?t)([place_dir p, n] := None, [place_dir p', n] \<mapsto> e)"
      using answered t' by (simp add: AList.update_conv' AList.delete_conv')
    have "tree_ok (fs_tree w')" using tree_ok_move [OF t _ _ _ e, of "place_dir p'"] p answered t' by simp
    moreover have "uuids_ok w'"
    proof -
      have "fs_uuids w i \<noteq> n" if "fs_next_uuid w \<le> i" for i
        using ok that e by (auto simp: fs_ok_def uuids_ok_def)
      then show ?thesis using ok m answered by (auto simp: fs_ok_def uuids_ok_def)
    qed
    ultimately have ok': "fs_ok w'" by (simp add: fs_ok_def)
    have pn: "fs_stored w (QueueId n) = Some p" using fs_stored_iff [OF ok, of n p] e by simp
    have "fs_stored w' x = ((fs_stored w)(QueueId n \<mapsto> p')) x" for x
    proof (cases "x = QueueId n")
      case True
      then show ?thesis using fs_stored_iff [OF ok', of n p'] m by simp
    next
      case False
      then obtain k where k: "x = QueueId k" "k \<noteq> n" by (cases x) auto
      then have "fs_stored w' (QueueId k) = fs_stored w (QueueId k)"
        by (intro fs_stored_eqI [OF ok ok']) (simp add: m)
      then show ?thesis using k False by simp
    qed
    with ok' pn r answered show ?thesis by auto
  qed
qed

lemma fs_move_moved:
  assumes "fs_ok w" "p \<noteq> p'"
  shows "moved p p' n mail (into mail) w (fs_move [place_dir p] [place_dir p'] n mail err into w)"
proof -
  obtain w' r where m: "fs_move [place_dir p] [place_dir p'] n mail err into w = (w', r)" by force
  from fs_move_cases [OF this assms] show ?thesis unfolding m by (auto simp: moved_def)
qed

lemma fs_moves:
  assumes "fs_ok w"
  shows "moved In_Queue In_Inflight (fq_id m) m (queued_into_inflight m) w (fs_send_start m w)"
    "moved In_Inflight In_Cleanup (fi_id i) i (inflight_into_pending_cleanup i) w (fs_send_done i w)"
    "moved In_Inflight In_Queue (fi_id i) i (inflight_into_queued i) w (fs_send_cancel i w)"
    "moved In_Queue In_Cleanup (fq_id m) m (queued_into_pending_cleanup m) w (fs_drop m w)"
  unfolding fs_send_start_def fs_send_done_def fs_send_cancel_def fs_drop_def handle_defs place_dir.simps [symmetric]
  by (rule fs_move_moved [OF assms], simp)+

section \<open>Listings\<close>

lemma set_dir_names: "n \<in> set (dir_names t dir) \<longleftrightarrow> map_of t (dir @ [n]) \<noteq> None"
proof
  assume "n \<in> set (dir_names t dir)"
  then obtain p e where p: "(p, e) \<in> set t" "p \<noteq> []" "butlast p = dir" "n = last p" by (auto simp: dir_names_def)
  then have "dir @ [n] = p" by (metis append_butlast_last_id)
  with weak_map_of_SomeI [OF p(1)] show "map_of t (dir @ [n]) \<noteq> None" by auto
next
  assume "map_of t (dir @ [n]) \<noteq> None"
  then obtain e where "(dir @ [n], e) \<in> set t" by (auto dest: map_of_SomeD)
  then show "n \<in> set (dir_names t dir)" by (force simp: dir_names_def)
qed

lemma distinct_dir_names:
  assumes "distinct (map fst t)"
  shows "distinct (dir_names t dir)"
  using assms
proof (induction t)
  case Nil
  then show ?case by (simp add: dir_names_def)
next
  case (Cons x t)
  obtain p e where x: "x = (p, e)" by force
  have "last p \<notin> set (dir_names t dir)" if "p \<noteq> []" "butlast p = dir"
  proof -
    have "map_of t p = None" using Cons.prems x by (simp add: map_of_eq_None_iff)
    moreover have "dir @ [last p] = p" using that by (metis append_butlast_last_id)
    ultimately show ?thesis by (simp add: set_dir_names)
  qed
  then show ?case using Cons x by (auto simp: dir_names_def)
qed

definition rights :: "('a + 'b) list \<Rightarrow> 'b list" where
  "rights xs = concat (map (case_sum (\<lambda>_. []) (\<lambda>b. [b])) xs)"

lemma rights_simps [simp]:
  "rights [] = []" "rights (Inl a # xs) = rights xs" "rights (Inr b # xs) = b # rights xs"
  "rights (map Inr ys) = ys" "rights (map (map_sum f g) xs) = map g (rights xs)"
proof -
  show "rights (map Inr ys) = ys" by (induction ys) (simp_all add: rights_def)
  show "rights (map (map_sum f g) xs) = map g (rights xs)"
    by (induction xs) (auto simp: rights_def split: sum.splits)
qed (simp_all add: rights_def)

lemma set_rights: "b \<in> set (rights xs) \<longleftrightarrow> Inr b \<in> set xs"
  by (induction xs) (auto simp: rights_def split: sum.splits)

text \<open>The entries for the mails \<open>ns\<close>: each is found, or there is an error for it.\<close>

definition lists_names :: "string set \<Rightarrow> (FsError \<times> QueueId option + 'm) list \<Rightarrow> ('m \<Rightarrow> string) \<Rightarrow> bool" where
  "lists_names ns es name \<longleftrightarrow> distinct (map name (rights es)) \<and> name ` set (rights es) \<subseteq> ns \<and>
     (\<forall>n \<in> ns. n \<in> name ` set (rights es) \<or> (\<exists>e. Inl (e, Some (QueueId n)) \<in> set es \<or> Inl (e, None) \<in> set es))"

lemma lists_names_map:
  "lists_names ns es name \<Longrightarrow> (\<And>m. name' (f m) = name m) \<Longrightarrow> lists_names ns (map (map_sum id f) es) name'"
  unfolding lists_names_def by (force simp: image_iff comp_def)

definition link_names :: "'z fs_world_scheme \<Rightarrow> string \<Rightarrow> string set" where
  "link_names w d = {n. map_of (fs_tree w) [d, n] \<noteq> None}"

lemma fs_scan_folder_lists:
  assumes "fs_scan_folder [d] w = (w', es)" "fs_ok w" "d \<in> queue_dirs"
  shows "data_only w w' \<and> lists_names (link_names w d) es id"
proof -
  obtain r where l: "os_links [d] w = (w', r)"
    and es: "es = (case r of Inl e \<Rightarrow> [Inl (WalkingDirectory [d] e, None)] | Inr ns \<Rightarrow> map Inr ns)"
    using assms(1) by (auto simp: fs_scan_folder_def split: prod.splits sum.splits)
  have ok: "distinct (map fst (fs_tree w))" "map_ok (map_of (fs_tree w))"
    using assms(2) by (simp_all add: fs_ok_def tree_ok_def)
  have "set ns = link_names w d" "distinct ns" if "r = Inr ns" for ns
  proof -
    from l [unfolded os_links_def] that
    have ns: "ns = filter (\<lambda>n. case map_of (fs_tree w) ([d] @ [n]) of Some (Fs_Link _) \<Rightarrow> True | _ \<Rightarrow> False)
        (dir_names (fs_tree w) [d])"
      by (cases rule: sys_cases) (auto split: if_splits)
    show "distinct ns" using ns distinct_dir_names [OF ok(1)] by simp
    have "\<exists>l. e = Fs_Link l" if "map_of (fs_tree w) [d, n] = Some e" for n e
      using map_okD(3) [OF ok(2) assms(3) _ that] by auto
    then show "set ns = link_names w d"
      unfolding ns by (fastforce simp: set_dir_names link_names_def split: option.splits entry.splits)
  qed
  with es read_only_calls(5) [OF l] show ?thesis by (cases r) (auto simp: lists_names_def)
qed

lemma fs_read_schedule_data:
  assumes "fs_read_schedule js dir name w = (w', r)"
  shows "data_only w w'"
proof -
  obtain w1 x where o: "os_read_file dir [name, SCHEDULE_FILE] w = (w1, x)" by force
  with assms have "w' = w1" by (auto simp: fs_read_schedule_def fs_try_def split: sum.splits)
  with read_only_calls(2) [OF o] show ?thesis by simp
qed

lemma fs_scan_entries_lists:
  assumes "fs_scan_entries js dir es w = (w', fs)"
  shows "data_only w w' \<and> set (map fm_id (rights fs)) \<subseteq> set (rights es) \<and>
    (distinct (rights es) \<longrightarrow> distinct (map fm_id (rights fs))) \<and>
    (\<forall>n \<in> set (rights es). n \<in> fm_id ` set (rights fs) \<or> (\<exists>e. Inl (e, Some (QueueId n)) \<in> set fs)) \<and>
    (\<forall>x. Inl x \<in> set es \<longrightarrow> Inl x \<in> set fs)"
  using assms
proof (induction js dir es w arbitrary: w' fs rule: fs_scan_entries.induct)
  case (1 js dir w)
  then show ?case by simp
next
  case (2 js dir e es w)
  then show ?case by (auto split: prod.splits)
next
  case (3 js dir name es w)
  obtain w1 r where r: "fs_read_schedule js dir name w = (w1, r)" by force
  obtain w2 gs where g: "fs_scan_entries js dir es w1 = (w2, gs)" by force
  have "w' = w2" and fs: "fs = (case r of Inl e \<Rightarrow> Inl (e, Some (QueueId name)) | Inr sched \<Rightarrow> Inr \<lparr>fm_id = name, fm_schedule = sched\<rparr>) # gs"
    using 3(2) r g by auto
  with 3(1) [OF r [symmetric] g] data_only_trans [OF fs_read_schedule_data [OF r]]
  show ?case by (cases r) auto
qed

lemma fs_scan_queue_lists:
  assumes "fs_scan_queue js [d] w = (w', fs)" "fs_ok w" "d \<in> queue_dirs"
  shows "data_only w w' \<and> lists_names (link_names w d) fs fm_id"
proof -
  obtain w1 es where f: "fs_scan_folder [d] w = (w1, es)" and e: "fs_scan_entries js [d] es w1 = (w', fs)"
    using assms(1) by (auto simp: fs_scan_queue_def split: prod.splits)
  note 1 = fs_scan_folder_lists [OF f assms(2,3)] and 2 = fs_scan_entries_lists [OF e]
  from 1 2 have "data_only w w'" using data_only_trans by blast
  moreover have "lists_names (link_names w d) fs fm_id"
    unfolding lists_names_def
  proof (intro conjI ballI)
    fix n assume "n \<in> link_names w d"
    with 1 consider "n \<in> set (rights es)" | e where "Inl (e, Some (QueueId n)) \<in> set es \<or> Inl (e, None) \<in> set es"
      by (auto simp: lists_names_def)
    then show "n \<in> fm_id ` set (rights fs) \<or> (\<exists>e. Inl (e, Some (QueueId n)) \<in> set fs \<or> Inl (e, None) \<in> set fs)"
      by cases (use 2 in blast)+
  qed (use 1 2 in \<open>auto simp: lists_names_def\<close>)
  ultimately show ?thesis by blast
qed

section \<open>Cleaning up\<close>

lemma walk_name: "is_name n \<Longrightarrow> walk t fuel base [n] = Inr (base @ [n])"
  by (simp add: is_name_def)

text \<open>A link in a queue directory leads to the destination it names.\<close>

lemma os_sub_dir_link:
  assumes "os_sub_dir [d] (DATA_DIR_FROM_OTHER_QUEUE @ [m, k]) w = (w', Inr p)" "fs_ok w" "is_name m" "is_name k"
  shows "p = [DATA_DIR, m, k]"
proof -
  have g: "map_ok (map_of (fs_tree w))" using assms(2) by (simp add: fs_ok_def tree_ok_def)
  have n: "m \<noteq> ''.''" "m \<noteq> ''..''" "k \<noteq> ''.''" "k \<noteq> ''..''" using assms(3,4) by (auto simp: is_name_def)
  from assms(1) [unfolded os_sub_dir_def]
  have "walk (fs_tree w) MAX_LINKS [d] (DATA_DIR_FROM_OTHER_QUEUE @ [m, k]) = Inr p"
    by (cases rule: sys_cases) (auto split: sum.splits option.splits entry.splits)
  moreover have "map_of (fs_tree w) [''data''] = Some Fs_Dir" "map_of (fs_tree w) [''data'', m] \<noteq> Some (Fs_Link l)" for l
    using map_okD(1) [OF g, of DATA_DIR] map_okD(5) [OF g, of "[m]" l] by (simp_all add: DATA_DIR_def)
  ultimately show ?thesis
    using n by (auto simp: dir_defs split: option.splits entry.splits)
qed

lemma os_remove_dir_data:
  assumes "os_remove_dir (DATA_DIR # xs) [n] w = (w', r)"
  shows "data_only w w'"
proof -
  obtain x xs' where x: "xs @ [n] = x # xs'" using append_name [of xs n] by blast
  show ?thesis using assms unfolding os_remove_dir_def
    by (elim sys_data_only)
       (auto simp: x map_of_data_change intro!: tree_ok_delete split: sum.splits option.splits entry.splits if_splits)
qed

text \<open>What cleaning up may do: fail, with every mail where it was, or take the link away.\<close>

definition cleaned :: "FsPendingCleanupMail \<Rightarrow> 'z fs_world_scheme \<Rightarrow> 'z fs_world_scheme \<times> (FsPendingCleanupMail \<times> FsError + bool) \<Rightarrow> bool" where
  "cleaned mail w res \<longleftrightarrow> fs_ok (fst res) \<and>
     (case snd res of
        Inl (m, e) \<Rightarrow> m = mail \<and> fs_stored (fst res) = fs_stored w
      | Inr _ \<Rightarrow> fs_stored (fst res) = (if fs_stored w (QueueId (fp_id mail)) = Some In_Cleanup
                   then (fs_stored w)(QueueId (fp_id mail) := None) else fs_stored w))"

lemma cleaned_trans:
  assumes "fs_ok w" "data_only w w1" "cleaned mail w1 res"
  shows "cleaned mail w res"
proof -
  have "fs_stored w1 = fs_stored w" using data_only_ok [OF assms(2,1)] by simp
  with assms(3) show ?thesis by (simp only: cleaned_def)
qed

lemma cleaned_found:
  assumes ok: "fs_ok w" and d: "\<And>w1 r. call w = (w1, r) \<Longrightarrow> data_only w w1"
    and mail: "\<And>e. fst (err e) = mail"
    and found: "\<And>w1 a. call w = (w1, Inr a) \<Longrightarrow> fs_ok w1 \<Longrightarrow> cleaned mail w1 (f (Some a) w1)"
    and gone: "\<And>w1 e. call w = (w1, Inl e) \<Longrightarrow> io_kind e = NotFound \<Longrightarrow> fs_ok w1 \<Longrightarrow> cleaned mail w1 (f None w1)"
  shows "cleaned mail w (fs_found call err f w)"
proof -
  obtain w1 r where c: "call w = (w1, r)" by force
  have ok1: "fs_ok w1" "fs_stored w1 = fs_stored w" using data_only_ok [OF d [OF c] ok] by simp_all
  note trans = cleaned_trans [OF ok d [OF c]]
  show ?thesis
  proof (cases r)
    case (Inr a)
    with trans found [OF _ ok1(1)] c show ?thesis by (simp add: fs_found_def)
  next
    case (Inl e)
    show ?thesis
    proof (cases "io_kind e = NotFound")
      case True
      with trans gone [OF _ True ok1(1)] c Inl show ?thesis by (simp add: fs_found_def)
    next
      case False
      with c Inl mail [of e] ok1 show ?thesis by (cases "err e") (simp add: fs_found_def cleaned_def)
    qed
  qed
qed

lemma tree_ok_unlink:
  assumes "tree_ok t" "d \<in> queue_dirs"
  shows "tree_ok (AList.delete [d, n] t)"
proof -
  have g: "map_ok (map_of t)" "distinct (map fst t)" using assms by (simp_all add: tree_ok_def)
  note D = map_okD [OF g(1)]
  have "map_ok ((map_of t)([d, n] := None))"
  proof (rule map_okI, goal_cases)
    case (4 x y k a b)
    then show ?case using D(4) [of x y k a b] by (simp split: if_splits)
  next
    case (3 x r a)
    then show ?case using D(3) [of x r a] by (simp split: if_splits)
  qed (use D(1,2,5) in \<open>simp_all split: if_splits\<close>)
  with g(2) show ?thesis by (simp add: tree_ok_def AList.delete_conv' AList.distinct_delete)
qed

lemma remove_link_cleaned:
  assumes ok: "fs_ok w"
  shows "cleaned mail w (fs_remove_link mail vanished w)"
proof -
  let ?n = "fp_id mail"
  obtain w' r where rm: "os_remove_file [CLEANUP_DIR] ?n w = (w', r)" by force
  have g: "tree_ok (fs_tree w)" "map_ok (map_of (fs_tree w))" using ok by (simp_all add: fs_ok_def tree_ok_def)
  have unmoved: "fs_ok w' \<and> fs_stored w' = fs_stored w" if "w' = w\<lparr>fs_faults := tl (fs_faults w)\<rparr>"
    by (rule data_only_ok [OF _ ok]) (simp add: that data_only_def)
  note st = fs_stored_iff [OF ok, of ?n In_Cleanup]
  from rm [unfolded os_remove_file_def] show ?thesis
  proof (cases rule: sys_cases)
    case (fault msg)
    with rm unmoved show ?thesis
      by (simp add: fs_remove_link_def fs_found_def cleaned_def os_error_def fs_cleanup_dir_def)
  next
    case (error e)
    have "map_of (fs_tree w) [CLEANUP_DIR, ?n] = None" if "io_kind e = NotFound"
      using error(1) that by (auto simp: os_error_def split: option.splits entry.splits)
    with rm error unmoved st show ?thesis
      by (auto simp: fs_remove_link_def fs_found_def cleaned_def fs_cleanup_dir_def)
  next
    case (answered t u)
    then have t: "t = AList.delete [CLEANUP_DIR, ?n] (fs_tree w)" and e: "map_of (fs_tree w) [CLEANUP_DIR, ?n] \<noteq> None"
      by (auto split: option.splits entry.splits)
    have m: "map_of (fs_tree w') = (map_of (fs_tree w))([CLEANUP_DIR, ?n] := None)"
      using answered t by (simp add: AList.delete_conv')
    have "tree_ok (fs_tree w')" using answered t tree_ok_unlink [OF g(1)] by simp
    moreover have "uuids_ok w'" using ok m answered by (auto simp: fs_ok_def uuids_ok_def)
    ultimately have ok': "fs_ok w'" by (simp add: fs_ok_def)
    have "fs_stored w' x = ((fs_stored w)(QueueId ?n := None)) x" for x
    proof (cases "x = QueueId ?n")
      case True
      have "fs_stored w' (QueueId ?n) \<noteq> Some p" for p
      proof
        assume "fs_stored w' (QueueId ?n) = Some p"
        then obtain a where a: "map_of (fs_tree w) [place_dir p, ?n] = Some a" and p: "place_dir p \<noteq> CLEANUP_DIR"
          using fs_stored_iff [OF ok', of ?n p] m by (auto split: if_splits)
        from e obtain b where "map_of (fs_tree w) [CLEANUP_DIR, ?n] = Some b" by blast
        from map_okD(4) [OF g(2) _ _ a this] p show False by simp
      qed
      then show ?thesis using True by auto
    next
      case False
      then obtain k where k: "x = QueueId k" "k \<noteq> ?n" by (cases x) auto
      then have "fs_stored w' (QueueId k) = fs_stored w (QueueId k)"
        by (intro fs_stored_eqI [OF ok ok']) (simp add: m)
      then show ?thesis using k False by simp
    qed
    then show ?thesis using rm answered ok' st e
      by (auto simp: fs_remove_link_def fs_found_def cleaned_def fs_cleanup_dir_def)
  qed
qed

lemma remove_mail_dir_cleaned:
  assumes ok: "fs_ok w" and f: "\<And>w1. fs_ok w1 \<Longrightarrow> cleaned mail w1 (f w1)"
  shows "cleaned mail w (fs_remove_mail_dir mail dest [DATA_DIR, m] [m] f w)"
proof -
  have "cleaned mail w1 (fs_found (os_remove_dir fs_data [m]) (\<lambda>e. (mail, RemovingFolderFromQueue [m] Data_Q e)) (\<lambda>_. f) w1)"
    if "fs_ok w1" for w1
    by (rule cleaned_found [OF that]) (use f os_remove_dir_data in \<open>auto simp: fs_data_def\<close>)
  then show ?thesis unfolding fs_remove_mail_dir_def fs_remove_quietly_def
    by (intro cleaned_found [OF ok]) (auto dest: os_remove_file_data)
qed

lemma cleanup_mail_cleaned:
  assumes ok: "fs_ok w" and m: "is_name m"
  shows "cleaned mail w (fs_cleanup_mail mail dest [m] k vanished w)"
proof -
  have listed: "cleaned mail w1 (fs_found (os_list_dir [DATA_DIR, m]) (\<lambda>e. (mail, ListingFolderInQueue [m] Data_Q e))
      (\<lambda>names. case names of
          None \<Rightarrow> fs_remove_link mail True
        | Some names \<Rightarrow>
            (if list_all (\<lambda>n. n = CONTENTS_FILE) names
             then fs_remove_mail_dir mail dest [DATA_DIR, m] [m] (fs_remove_link mail v)
             else fs_remove_link mail v)) w1)" if "fs_ok w1" for w1 v
    by (rule cleaned_found [OF that])
       (auto dest: read_only_calls(4) intro: remove_link_cleaned remove_mail_dir_cleaned)
  have removed: "cleaned mail w1 (fs_found (os_remove_dir [DATA_DIR, m] [k])
      (\<lambda>e. (mail, RemovingFolderFromMail [k] [m] Cleanup_Q e))
      (\<lambda>removed. let vanished = (vanished \<or> removed = None) in
         fs_found (os_list_dir [DATA_DIR, m]) (\<lambda>e. (mail, ListingFolderInQueue [m] Data_Q e))
           (\<lambda>names. case names of
              None \<Rightarrow> fs_remove_link mail True
            | Some names \<Rightarrow>
                (if list_all (\<lambda>n. n = CONTENTS_FILE) names
                 then fs_remove_mail_dir mail dest [DATA_DIR, m] [m] (fs_remove_link mail vanished)
                 else fs_remove_link mail vanished))) w1)" if "fs_ok w1" for w1
    unfolding Let_def by (rule cleaned_found [OF that]) (use listed in \<open>auto dest: os_remove_dir_data\<close>)
  have "a = [DATA_DIR, m]" if "os_sub_dir fs_data [m] w = (w1, Inr a)" for w1 a
    using that [unfolded os_sub_dir_def] walk_name [OF m]
    by (cases rule: sys_cases) (auto simp: fs_data_def split: option.splits entry.splits)
  then show ?thesis unfolding fs_cleanup_mail_def
    by (intro cleaned_found [OF ok]) (use removed remove_link_cleaned in \<open>auto dest: read_only_calls(1)\<close>)
qed

text \<open>The destination directory emptied of its two files.\<close>

lemma dest_files_cleaned:
  assumes ok: "fs_ok w" and f: "\<And>w1. fs_ok w1 \<Longrightarrow> cleaned mail w1 (f w1)"
  shows "cleaned mail w (fs_remove_quietly [DATA_DIR, m, k] METADATA_FILE (\<lambda>e. (mail, err e))
    (fs_remove_quietly [DATA_DIR, m, k] SCHEDULE_FILE (\<lambda>e. (mail, err' e)) f) w)"
proof -
  have "cleaned mail w1 (fs_remove_quietly [DATA_DIR, m, k] SCHEDULE_FILE (\<lambda>e. (mail, err' e)) f w1)"
    if "fs_ok w1" for w1
    unfolding fs_remove_quietly_def by (rule cleaned_found [OF that]) (use f in \<open>auto dest: os_remove_file_data\<close>)
  then show ?thesis unfolding fs_remove_quietly_def [of _ METADATA_FILE]
    by (intro cleaned_found [OF ok]) (auto dest: os_remove_file_data)
qed

lemma read_cleanup_link:
  assumes ok: "fs_ok w" and c: "os_read_link fs_cleanup_dir n w = (w1, r)"
  shows "r = Inr l \<Longrightarrow> mail_link l"
    "r = Inl e \<Longrightarrow> io_kind e = NotFound \<Longrightarrow> fs_stored w (QueueId n) \<noteq> Some In_Cleanup"
proof -
  have g: "map_ok (map_of (fs_tree w))" using ok by (simp add: fs_ok_def tree_ok_def)
  show "mail_link l" if "r = Inr l"
    using c [unfolded os_read_link_def] that map_okD(3) [OF g, of CLEANUP_DIR "[n]"]
    by (cases rule: sys_cases) (auto simp: fs_cleanup_dir_def split: option.splits entry.splits)
  show "fs_stored w (QueueId n) \<noteq> Some In_Cleanup" if "r = Inl e" "io_kind e = NotFound"
    using c [unfolded os_read_link_def] that fs_stored_iff [OF ok, of n In_Cleanup]
    by (cases rule: sys_cases) (auto simp: fs_cleanup_dir_def os_error_def split: option.splits entry.splits)
qed

lemma fs_cleanup_cleaned:
  assumes ok: "fs_ok w"
  shows "cleaned mail w (fs_cleanup mail w)"
  unfolding fs_cleanup_def
proof (rule cleaned_found [OF ok], goal_cases)
  case (1 w1 r)
  then show ?case by (rule read_only_calls(3))
next
  case (3 w1 l)
  from read_cleanup_link(1) [OF ok 3(1) refl]
  obtain m k where l: "l = DATA_DIR_FROM_OTHER_QUEUE @ [m, k]" "is_name m" "is_name k"
    by (auto simp: mail_link_def)
  have names: "strip_prefix DATA_DIR_FROM_OTHER_QUEUE l = Some [m, k]" "path_parent [m, k] = Some [m]" "path_file_name l = Some k"
    using l by (auto simp: strip_prefix_def path_parent_def path_file_name_def is_name_def)
  have p: "p = [DATA_DIR, m, k]" if "os_sub_dir fs_cleanup_dir l w1 = (w2, Inr p)" for w2 p
    using os_sub_dir_link [OF _ 3(2) l(2,3)] that l(1) by (simp add: fs_cleanup_dir_def)
  show ?case unfolding option.case names Let_def prod.case
    by (rule cleaned_found [OF 3(2)])
       (auto dest!: p dest: read_only_calls(1) intro!: cleanup_mail_cleaned [OF _ l(2)] dest_files_cleaned)
next
  case (4 w1 e)
  then have "fs_stored w1 (QueueId (fp_id mail)) \<noteq> Some In_Cleanup"
    using read_cleanup_link(2) [OF ok 4(1) refl] data_only_ok [OF read_only_calls(3) [OF 4(1)] ok] by simp
  with 4(3) show ?case by (simp add: cleaned_def)
qed simp

section \<open>Reading, rescheduling and enqueueing\<close>

lemma data_try:
  assumes "fs_try call err f w = (w', r)"
    and "\<And>w1 a. call w = (w1, a) \<Longrightarrow> data_only w w1"
    and "\<And>w1 a w2 r2. call w = (w1, Inr a) \<Longrightarrow> f a w1 = (w2, r2) \<Longrightarrow> data_only w1 w2"
  shows "data_only w w'"
proof -
  obtain w1 x where c: "call w = (w1, x)" by force
  show ?thesis
  proof (cases x)
    case (Inl e)
    with assms(1,2) c show ?thesis by (auto simp: fs_try_def)
  next
    case (Inr a)
    with assms(1) c have "f a w1 = (w', r)" by (simp add: fs_try_def)
    with assms(2) [OF c] assms(3) [OF c [unfolded Inr]] data_only_trans show ?thesis by blast
  qed
qed

lemma data_only_return [simp]: "(w, x) = (w', r) \<Longrightarrow> data_only w w'"
  by simp

lemma new_uuid_data: "new_uuid w = (w1, uuid) \<Longrightarrow> data_only w w1"
  by (auto simp: new_uuid_def data_only_def)

lemma read_inflight_data:
  assumes "fs_read_inflight js mail w = (w', r)"
  shows "data_only w w'"
  using assms unfolding fs_read_inflight_def Let_def
proof (rule data_try)
  fix w1 dest w2 r2
  assume "fs_try (os_sub_dir fs_inflight dest) (OpeningFolderInQueue [fi_id mail] Inflight_Q)
     (\<lambda>dest_dir. fs_try (os_read_file dest_dir [METADATA_FILE]) (OpeningFileInMail METADATA_FILE (fi_id mail) Inflight_Q)
       (\<lambda>bs. case js_parse_meta js bs of
          Inl e \<Rightarrow> (\<lambda>w. (w, Inl (ParsingJsonFileInMail METADATA_FILE (fi_id mail) Inflight_Q e)))
        | Inr metadata \<Rightarrow>
            fs_try (os_sub_dir dest_dir [''..'']) (OpeningParentFromMail (fi_id mail))
              (\<lambda>parent. fs_try (os_read_file parent [CONTENTS_FILE]) (OpeningFileInMailParent (fi_id mail))
                (\<lambda>contents w. (w, Inr (metadata, contents)))))) w1 = (w2, r2)"
  then show "data_only w1 w2"
    by (elim data_try) (auto elim!: data_try dest: read_only_calls split: sum.splits)
qed (rule read_only_calls)

text \<open>Renaming within a directory below the data directory.\<close>

lemma os_rename_data:
  assumes "os_rename (DATA_DIR # x # xs) n (DATA_DIR # x # xs) n' w = (w', r)" "is_name n'"
  shows "data_only w w'"
  using assms(1) unfolding os_rename_call
proof (rule sys_data_only)
  fix t' a
  assume t: "tree_ok (fs_tree w)" and "rename_call (DATA_DIR # x # xs) n (DATA_DIR # x # xs) n' (fs_tree w) = Inr (t', a)"
  then obtain e where e: "map_of (fs_tree w) (DATA_DIR # x # xs @ [n]) = Some e"
      "map_of (fs_tree w) (DATA_DIR # x # xs) = Some Fs_Dir"
    and t': "t' = AList.update (DATA_DIR # x # xs @ [n']) e (AList.delete (DATA_DIR # x # xs @ [n]) (fs_tree w))"
    by (auto simp: rename_call_def split: option.splits if_splits)
  have "e \<noteq> Fs_Link l" for l using map_okD(5) [of "map_of (fs_tree w)" "x # xs @ [n]" l] t e(1) by (auto simp: tree_ok_def)
  moreover have "\<forall>c \<in> set (DATA_DIR # x # xs @ [n']). is_name c"
    using tree_ok_names [OF t e(2)] assms(2) by auto
  ultimately show "tree_ok t'" unfolding t' by (intro tree_ok_update tree_ok_delete t) auto
next
  fix t' a d s
  assume "rename_call (DATA_DIR # x # xs) n (DATA_DIR # x # xs) n' (fs_tree w) = Inr (t', a)" "d \<in> queue_dirs"
  then show "map_of t' (d # s) = map_of (fs_tree w) (d # s)"
    by (auto simp: rename_call_def map_of_data_change split: option.splits if_splits)
qed

lemma reschedule_data:
  fixes w :: "'z fs_world_scheme"
  assumes r: "fs_reschedule js mail sched w = (w', mail', r)" and ok: "fs_ok w"
  shows "data_only w w' \<and> fq_id mail' = fq_id mail"
proof -
  let ?m = "fq_id mail"
  define body :: "path \<Rightarrow> 'z fs_world_scheme \<Rightarrow> 'z fs_world_scheme \<times> (FsError + unit)" where "body = (\<lambda>dest_dir w.
       case new_uuid w of
         (w, uuid) \<Rightarrow>
           (let tmp = TMP_SCHEDULE_FILE_PREFIX @ uuid in
            fs_try (os_create (Fs_File []) dest_dir tmp) (CreatingFileInMail tmp [?m] Queue_Q)
              (\<lambda>_. fs_try (os_write_file dest_dir tmp (js_sched js sched)) (WritingJsonFileInMail tmp [?m] Queue_Q)
                (\<lambda>_. fs_try (os_rename dest_dir tmp dest_dir SCHEDULE_FILE)
                           (RenamingFileInMail tmp SCHEDULE_FILE ?m Queue_Q)
                  (\<lambda>_ w. (w, Inr ())))) w))"
  have body: "data_only w1 w2" if "body [DATA_DIR, m, k] w1 = (w2, x)" for m k w1 w2 x
  proof -
    obtain w3 uuid where u: "new_uuid w1 = (w3, uuid)" by force
    have "is_name SCHEDULE_FILE" by (simp add: is_name_def SCHEDULE_FILE_def)
    with that u have "data_only w3 w2"
      unfolding body_def Let_def
      by (auto elim!: data_try dest: os_create_data os_write_data os_rename_data)
    with new_uuid_data [OF u] data_only_trans show ?thesis by blast
  qed
  from r have s: "fs_try (os_read_link fs_queue ?m) (ReadingLinkInQueue ?m Queue_Q)
      (\<lambda>dest. fs_try (os_sub_dir fs_queue dest) (OpeningFolderInQueue [?m] Queue_Q) body) w = (w', r)"
    and m: "mail' = mail\<lparr>fq_schedule := sched\<rparr>"
    by (auto simp: fs_reschedule_def Let_def body_def split: prod.splits)
  have "data_only w w'"
    using s
  proof (rule data_try)
    fix w1 l w2 r2
    assume l: "os_read_link fs_queue ?m w = (w1, Inr l)"
      and t: "fs_try (os_sub_dir fs_queue l) (OpeningFolderInQueue [?m] Queue_Q) body w1 = (w2, r2)"
    have g: "map_ok (map_of (fs_tree w))" using ok by (simp add: fs_ok_def tree_ok_def)
    have ok1: "fs_ok w1" using data_only_ok [OF read_only_calls(3) [OF l] ok] by simp
    have "mail_link l"
      using l [unfolded os_read_link_def] map_okD(3) [OF g, of QUEUE_DIR "[?m]"]
      by (cases rule: sys_cases) (auto simp: fs_queue_def split: option.splits entry.splits)
    then obtain m k where mk: "l = DATA_DIR_FROM_OTHER_QUEUE @ [m, k]" "is_name m" "is_name k" by (auto simp: mail_link_def)
    from t show "data_only w1 w2"
    proof (rule data_try)
      fix w3 p w4 r4
      assume p: "os_sub_dir fs_queue l w1 = (w3, Inr p)" and "body p w3 = (w4, r4)"
      moreover have "p = [DATA_DIR, m, k]" using os_sub_dir_link [OF _ ok1 mk(2,3)] p mk(1) by (simp add: fs_queue_def)
      ultimately show "data_only w3 w4" using body by simp
    qed (rule read_only_calls)
  qed (rule read_only_calls)
  with m show ?thesis by simp
qed


lemma fs_enqueue_data:
  assumes "fs_enqueue w = (w', r)" and ok: "fs_ok w"
  shows "data_only w w'"
proof -
  obtain w1 uuid where u: "new_uuid w = (w1, uuid)" by force
  then have n: "is_name uuid" using ok by (auto simp: new_uuid_def fs_ok_def uuids_ok_def)
  have sub: "p = [DATA_DIR, uuid]" if "os_sub_dir [DATA_DIR] [uuid] w2 = (w3, Inr p)" for w2 w3 p
    using that [unfolded os_sub_dir_def walk_name [OF n]]
    by (cases rule: sys_cases) (auto split: option.splits entry.splits)
  have "data_only w1 w'"
    using assms(1) u unfolding fs_enqueue_def
    by (auto elim!: data_try dest!: sub dest: os_create_data read_only_calls simp: fs_data_def)
  with new_uuid_data [OF u] data_only_trans show ?thesis by blast
qed

lemma fs_enqueuer_write_data: "fs_enqueuer_write en bs w = (w', r) \<Longrightarrow> data_only w w'"
  unfolding fs_enqueuer_write_def fe_mail_dir_def fs_data_def by (auto dest: os_write_data)

section \<open>Committing\<close>

text \<open>The outcomes of making a destination: an error and no new mail, or a new mail in the queue.\<close>

definition made :: "'z fs_world_scheme \<Rightarrow> 'z fs_world_scheme \<times> (FsError + FsQueuedMail) \<Rightarrow> bool" where
  "made w res \<longleftrightarrow> fs_ok (fst res) \<and>
     (case snd res of
        Inl e \<Rightarrow> fs_stored (fst res) = fs_stored w
      | Inr m \<Rightarrow> fs_stored w (QueueId (fq_id m)) = None \<and>
          fs_stored (fst res) = (fs_stored w)(QueueId (fq_id m) \<mapsto> In_Queue))"

lemma made_try:
  assumes ok: "fs_ok w" and d: "\<And>w1 r. call w = (w1, r) \<Longrightarrow> data_only w w1"
    and f: "\<And>w1 a. call w = (w1, Inr a) \<Longrightarrow> fs_ok w1 \<Longrightarrow> made w1 (f a w1)"
  shows "made w (fs_try call err f w)"
proof -
  obtain w1 r where c: "call w = (w1, r)" by force
  have ok1: "fs_ok w1" "fs_stored w1 = fs_stored w" using data_only_ok [OF d [OF c] ok] by simp_all
  show ?thesis
  proof (cases r)
    case (Inl e)
    with c ok1 show ?thesis by (simp add: fs_try_def made_def)
  next
    case (Inr a)
    with f c ok1 have "made w1 (f a w1)" by simp
    with c ok1 Inr show ?thesis by (simp add: fs_try_def made_def split: sum.splits)
  qed
qed

lemma tree_ok_link:
  assumes ok: "tree_ok t" and n: "is_name n" and l: "mail_link l"
    and new: "\<And>d. d \<in> queue_dirs \<Longrightarrow> map_of t [d, n] = None"
  shows "tree_ok (AList.update [QUEUE_DIR, n] (Fs_Link l) t)"
proof -
  have g: "map_ok (map_of t)" "distinct (map fst t)" using ok by (simp_all add: tree_ok_def)
  note D = map_okD [OF g(1)]
  have "map_ok ((map_of t)([QUEUE_DIR, n] \<mapsto> Fs_Link l))"
  proof (rule map_okI, goal_cases)
    case (1 x)
    then show ?case using D(1) by simp
  next
    case (2 q a c)
    have "is_name QUEUE_DIR" by (simp add: dir_defs is_name_def)
    then show ?case using 2 D(2) [of q a c] n by (auto split: if_splits)
  next
    case (3 x r a)
    then show ?case using D(3) [of x r a] l by (auto split: if_splits)
  next
    case (4 x y k a b)
    then show ?case using D(4) [of x y k a b] new by (auto split: if_splits)
  next
    case (5 r a)
    have "QUEUE_DIR \<noteq> DATA_DIR" by (simp add: dir_defs)
    then show ?case using D(5) [of r a] by simp
  qed
  with g(2) show ?thesis by (simp add: tree_ok_def AList.update_conv' AList.distinct_update)
qed

text \<open>Linking a destination into the queue under a name just made.\<close>

lemma link_made:
  assumes ok: "fs_ok w" and u: "new_uuid w = (w1, uuid)" and l: "mail_link l"
  shows "made w (fs_try (os_create (Fs_Link l) fs_queue uuid) err
    (\<lambda>_ w. (w, Inr (queued_found \<lparr>fm_id = uuid, fm_schedule = sched\<rparr>))) w1)"
proof -
  obtain w2 r where c: "os_create (Fs_Link l) [QUEUE_DIR] uuid w1 = (w2, r)" by force
  have ok1: "fs_ok w1" "fs_stored w1 = fs_stored w" using data_only_ok [OF new_uuid_data [OF u] ok] by simp_all
  have t: "tree_ok (fs_tree w)" and uu: "uuids_ok w" using ok by (simp_all add: fs_ok_def)
  have u': "uuid = fs_uuids w (fs_next_uuid w)" "w1 = w\<lparr>fs_next_uuid := fs_next_uuid w + 1\<rparr>"
    using u by (simp_all add: new_uuid_def)
  then have n: "is_name uuid" "d \<in> queue_dirs \<Longrightarrow> map_of (fs_tree w) [d, uuid] = None" for d
    using uu by (auto simp: uuids_ok_def)
  have unmoved: "fs_ok w2 \<and> fs_stored w2 = fs_stored w" if "w2 = w1\<lparr>fs_faults := tl (fs_faults w1)\<rparr>"
    using data_only_ok [OF _ ok1(1), of w2] ok1(2) by (simp add: that data_only_def)
  from c [unfolded os_create_def] show ?thesis
  proof (cases rule: sys_cases)
    case (fault msg)
    with unmoved c show ?thesis by (simp add: fs_try_def made_def fs_queue_def)
  next
    case (error e)
    with unmoved c show ?thesis by (simp add: fs_try_def made_def fs_queue_def)
  next
    case (answered t' a)
    then have t': "t' = AList.update [QUEUE_DIR, uuid] (Fs_Link l) (fs_tree w)"
      by (auto simp: u' split: if_splits)
    have m: "map_of (fs_tree w2) = (map_of (fs_tree w))([QUEUE_DIR, uuid] \<mapsto> Fs_Link l)"
      using answered t' by (simp add: AList.update_conv')
    have "fs_uuids w i \<noteq> uuid" if "Suc (fs_next_uuid w) \<le> i" for i
      using uu that u'(1) by (auto simp: uuids_ok_def dest: injD)
    then have "uuids_ok w2" using uu m answered u' by (auto simp: uuids_ok_def)
    with tree_ok_link [OF t n(1) l n(2)] t' answered have ok2: "fs_ok w2" by (simp add: fs_ok_def)
    have new: "fs_stored w (QueueId uuid) = None"
      using fs_stored_iff [OF ok, of uuid] n(2) place_dir_queue by (metis not_None_eq)
    have "fs_stored w2 x = ((fs_stored w)(QueueId uuid \<mapsto> In_Queue)) x" for x
    proof (cases "x = QueueId uuid")
      case True
      then show ?thesis using fs_stored_iff [OF ok2, of uuid In_Queue] m by simp
    next
      case False
      then obtain k where k: "x = QueueId k" "k \<noteq> uuid" by (cases x) auto
      then have "fs_stored w2 (QueueId k) = fs_stored w (QueueId k)"
        by (intro fs_stored_eqI [OF ok ok2]) (simp add: m)
      then show ?thesis using k False by simp
    qed
    with ok2 new answered c show ?thesis
      by (auto simp: fs_try_def made_def fs_queue_def queued_found_def)
  qed
qed

lemma sub_dir_name:
  assumes "os_sub_dir base [n] w = (w', Inr p)" "is_name n"
  shows "p = base @ [n] \<and> map_of (fs_tree w) p = Some Fs_Dir"
  using assms(1) [unfolded os_sub_dir_def walk_name [OF assms(2)]]
  by (cases rule: sys_cases) (auto split: option.splits entry.splits)


text \<open>The calls of \<^verbatim>\<open>make_dest_dir\<close>, one rule for each.\<close>

lemma create_made:
  assumes "fs_ok w" "\<And>l. e \<noteq> Fs_Link l" "\<And>w1. fs_ok w1 \<Longrightarrow> made w1 (k w1)"
  shows "made w (fs_try (os_create e (DATA_DIR # d) n) err (\<lambda>_. k) w)"
  by (rule made_try [OF assms(1)], erule os_create_data, rule assms(2), rule assms(3))

lemma write_made:
  assumes "fs_ok w" "\<And>w1. fs_ok w1 \<Longrightarrow> made w1 (k w1)"
  shows "made w (fs_try (os_write_file (DATA_DIR # d) n bs) err (\<lambda>_. k) w)"
  by (rule made_try [OF assms(1)], erule os_write_data, rule assms(2))

lemma sub_dir_made:
  assumes ok: "fs_ok w" and n: "is_name n"
    and f: "\<And>w1. fs_ok w1 \<Longrightarrow> \<forall>c \<in> set base. is_name c \<Longrightarrow> made w1 (f (base @ [n]) w1)"
  shows "made w (fs_try (os_sub_dir base [n]) err f w)"
proof (rule made_try [OF ok read_only_calls(1)])
  fix w1 p
  assume s: "os_sub_dir base [n] w = (w1, Inr p)" and "fs_ok w1"
  moreover have "\<forall>c \<in> set base. is_name c"
    using sub_dir_name [OF s n] ok tree_ok_names by (fastforce simp: fs_ok_def)
  ultimately show "made w1 (f p w1)" using f sub_dir_name [OF s n] by simp
qed

lemma make_dest_dir_made:
  assumes ok: "fs_ok w" and n: "is_name dest_id"
  shows "made w (make_dest_dir js en dest_id meta sched w)"
proof -
  let ?l = "DATA_DIR_FROM_OTHER_QUEUE @ [fe_mail_uuid en, dest_id]"
  have link: "made w (case new_uuid w of (w, uuid) \<Rightarrow> fs_try (os_create (Fs_Link ?l) fs_queue uuid) (err uuid)
        (\<lambda>_ w. (w, Inr (queued_found \<lparr>fm_id = uuid, fm_schedule = sched\<rparr>))) w)"
    if "fs_ok w" "\<forall>c \<in> set [DATA_DIR, fe_mail_uuid en]. is_name c" for w err
  proof -
    obtain w1 uuid where u: "new_uuid w = (w1, uuid)" by force
    have "mail_link ?l" using that(2) n by (auto simp: mail_link_def)
    with link_made [OF that(1) u] u show ?thesis by simp
  qed
  show ?thesis unfolding make_dest_dir_def Let_def fe_mail_dir_def fs_data_def append_Cons append_Nil
    by (rule create_made [OF ok], simp, rule sub_dir_made, assumption, rule n, unfold append_Cons append_Nil,
        rule create_made, assumption, simp, rule write_made, assumption, rule create_made, assumption, simp,
        rule write_made, assumption, rule link, assumption, assumption)
qed

text \<open>Cleaning up after a failure touches no link.\<close>

lemma ignoring_data: "(\<And>w' r. call w = (w', r) \<Longrightarrow> data_only w w') \<Longrightarrow> data_only w (ignoring call w)"
  by (cases "call w") (auto simp: ignoring_def)

lemma cleanup_dest_dir_data:
  assumes n: "is_name dest_id"
  shows "data_only w (cleanup_dest_dir (DATA_DIR # d) dest_id w)"
proof -
  obtain w1 r where s: "os_sub_dir (DATA_DIR # d) [dest_id] w = (w1, r)" by force
  note d1 = read_only_calls(1) [OF s]
  show ?thesis
  proof (cases r)
    case (Inl e)
    with s d1 show ?thesis by (simp add: cleanup_dest_dir_def)
  next
    case (Inr p)
    with sub_dir_name n s have p: "p = DATA_DIR # d @ [dest_id]" by fastforce
    let ?w2 = "ignoring (os_remove_file p METADATA_FILE) w1"
    let ?w3 = "ignoring (os_remove_file p SCHEDULE_FILE) ?w2"
    have "data_only w1 ?w2" "data_only ?w2 ?w3" "data_only ?w3 (ignoring (os_remove_dir (DATA_DIR # d) [dest_id]) ?w3)"
      unfolding p by (rule ignoring_data, erule os_remove_file_data os_remove_dir_data)+
    then have "data_only w (ignoring (os_remove_dir (DATA_DIR # d) [dest_id]) ?w3)"
      using d1 data_only_trans by meson
    then show ?thesis using s Inr by (simp add: cleanup_dest_dir_def)
  qed
qed

lemma cleanup_contents_dir_data:
  assumes ok: "fs_ok w"
  shows "data_only w (cleanup_contents_dir fs_queue uuid (DATA_DIR # d) w)"
proof -
  let ?w1 = "ignoring (os_remove_file (DATA_DIR # d) CONTENTS_FILE) w"
  have d1: "data_only w ?w1" by (rule ignoring_data) (erule os_remove_file_data)
  then have ok1: "fs_ok ?w1" using data_only_ok ok by blast
  have no_dir: "map_of (fs_tree ?w1) [QUEUE_DIR, uuid] \<noteq> Some Fs_Dir"
    using map_okD(3) [of "map_of (fs_tree ?w1)" QUEUE_DIR "[uuid]" Fs_Dir] ok1 by (auto simp: fs_ok_def tree_ok_def)
  have "data_only ?w1 (ignoring (os_remove_dir fs_queue [uuid]) ?w1)"
  proof (rule ignoring_data)
    fix w' r
    assume "os_remove_dir fs_queue [uuid] ?w1 = (w', r)"
    then show "data_only ?w1 w'"
      unfolding os_remove_dir_def by (cases rule: sys_cases) (use no_dir in \<open>auto simp: data_only_def fs_queue_def
        split: if_splits option.splits entry.splits\<close>)
  qed
  with d1 data_only_trans show ?thesis unfolding cleanup_contents_dir_def by blast
qed

lemma cleanup_dest_dirs_data:
  "\<forall>k \<in> set ids. is_name k \<Longrightarrow> data_only w (fold (cleanup_dest_dir (DATA_DIR # d)) ids w)"
proof (induction ids arbitrary: w)
  case (Cons k ids)
  then show ?case using data_only_trans [OF cleanup_dest_dir_data [of k w d]] by simp
qed simp

lemma name_destinations_data:
  assumes "name_destinations ds w = (w', named)" "fs_ok w"
  shows "data_only w w' \<and> (\<forall>x \<in> set named. is_name (fst x))"
  using assms
proof (induction ds w arbitrary: w' named rule: name_destinations.induct)
  case (2 meta sched ds w)
  obtain w1 uuid where u: "new_uuid w = (w1, uuid)" by force
  obtain rest where r: "name_destinations ds w1 = (w', rest)" "named = (uuid, meta, sched) # rest"
    using 2(2) u by (auto split: prod.splits)
  have "is_name uuid" using 2(3) u by (auto simp: new_uuid_def fs_ok_def uuids_ok_def)
  moreover have d1: "data_only w w1" using new_uuid_data [OF u] .
  moreover have "data_only w1 w' \<and> (\<forall>x \<in> set rest. is_name (fst x))"
    using "2.IH" [OF u [symmetric] r(1)] data_only_ok [OF d1 2(3)] by simp
  ultimately show ?case using r(2) data_only_trans by auto
qed simp

text \<open>The outcomes of a commit.\<close>

definition committed :: "'z fs_world_scheme \<Rightarrow> 'z fs_world_scheme \<times> (FsError + FsQueuedMail list) \<Rightarrow> bool" where
  "committed w res \<longleftrightarrow> fs_ok (fst res) \<and>
     (case snd res of
        Inl e \<Rightarrow> fs_stored w \<subseteq>\<^sub>m fs_stored (fst res) \<and>
          (\<forall>x. fs_stored (fst res) x \<noteq> fs_stored w x \<longrightarrow> fs_stored (fst res) x = Some In_Queue)
      | Inr ms \<Rightarrow> (\<forall>m \<in> set ms. fs_stored w (QueueId (fq_id m)) = None) \<and>
          fs_stored (fst res) = (\<lambda>x. if x \<in> (\<lambda>m. QueueId (fq_id m)) ` set ms then Some In_Queue else fs_stored w x))"

lemma committed_data:
  assumes "committed w1 res" "data_only w w1" "fs_ok w"
  shows "committed w res"
proof -
  have "fs_stored w1 = fs_stored w" using data_only_ok [OF assms(2,3)] by simp
  with assms(1) show ?thesis by (simp only: committed_def)
qed

lemma committed_failed:
  assumes "data_only w w'" "fs_ok w"
  shows "committed w (w', Inl e)"
  using data_only_ok [OF assms] by (simp add: committed_def)

lemma make_dest_dirs_committed:
  assumes "fs_ok w" "\<forall>k \<in> set ids. is_name k" "\<forall>x \<in> set ds. is_name (fst x)"
  shows "committed w (make_dest_dirs js en ids ds w)"
  using assms
proof (induction js en ids ds w rule: make_dest_dirs.induct)
  case (1 js en ids w)
  then show ?case by (simp add: committed_def)
next
  case (2 js en ids dest_id meta sched ds w)
  obtain w1 r where m: "make_dest_dir js en dest_id meta sched w = (w1, r)" by force
  have md: "made w (w1, r)" using make_dest_dir_made [OF 2(2), of dest_id js en meta sched] m 2(4) by simp
  show ?case
  proof (cases r)
    case (Inl e)
    with md have 1: "fs_ok w1" "fs_stored w1 = fs_stored w" by (simp_all add: made_def)
    have dir: "fe_mail_dir en = [DATA_DIR, fe_mail_uuid en]" by (simp add: fe_mail_dir_def fs_data_def)
    let ?w2 = "fold (cleanup_dest_dir (fe_mail_dir en)) ids w1"
    have d2: "data_only w1 ?w2" unfolding dir using 2(3) by (rule cleanup_dest_dirs_data)
    then have "fs_ok ?w2" using data_only_ok 1 by blast
    then have "data_only w1 (cleanup_contents_dir fs_queue (fe_mail_uuid en) (fe_mail_dir en) ?w2)"
      unfolding dir by (intro data_only_trans [OF d2 [unfolded dir]] cleanup_contents_dir_data)
    from data_only_ok [OF this 1(1)] 1 m Inl show ?thesis by (simp add: committed_def)
  next
    case (Inr mail)
    let ?x = "QueueId (fq_id mail)"
    from md Inr have 1: "fs_ok w1" "fs_stored w ?x = None" "fs_stored w1 = (fs_stored w)(?x \<mapsto> In_Queue)"
      by (simp_all add: made_def)
    obtain w2 r2 where rest: "make_dest_dirs js en (ids @ [dest_id]) ds w1 = (w2, r2)" by force
    have c: "committed w1 (w2, r2)" using "2.IH" [OF m [symmetric] Inr] 1 2(3,4) rest by simp
    show ?thesis
    proof (cases r2)
      case (Inl e)
      with c have "fs_stored w1 \<subseteq>\<^sub>m fs_stored w2" "\<And>x. fs_stored w2 x \<noteq> fs_stored w1 x \<Longrightarrow> fs_stored w2 x = Some In_Queue"
        by (simp_all add: committed_def)
      moreover have "fs_stored w \<subseteq>\<^sub>m fs_stored w1" using 1 by (auto simp: map_le_def)
      ultimately have "fs_stored w \<subseteq>\<^sub>m fs_stored w2"
        "\<And>x. fs_stored w2 x \<noteq> fs_stored w x \<Longrightarrow> fs_stored w2 x = Some In_Queue"
        using 1(3) map_le_trans by (blast, metis fun_upd_apply)
      with c Inl m Inr rest show ?thesis by (simp add: committed_def)
    next
      case (Inr mails)
      with c have "\<forall>m \<in> set mails. fs_stored w1 (QueueId (fq_id m)) = None"
        "fs_stored w2 = (\<lambda>x. if x \<in> (\<lambda>m. QueueId (fq_id m)) ` set mails then Some In_Queue else fs_stored w1 x)"
        by (simp_all add: committed_def)
      with 1 have "\<forall>m \<in> set (mail # mails). fs_stored w (QueueId (fq_id m)) = None"
        "fs_stored w2 = (\<lambda>x. if x \<in> (\<lambda>m. QueueId (fq_id m)) ` set (mail # mails) then Some In_Queue else fs_stored w x)"
        by (auto simp: fun_eq_iff split: if_splits)
      with c Inr m \<open>r = Inr mail\<close> rest show ?thesis by (simp add: committed_def)
    qed
  qed
qed

lemma fs_commit_committed:
  assumes ok: "fs_ok w"
  shows "committed w (fs_commit js en ds w)"
proof -
  obtain w1 r where f: "fs_enqueuer_flush w = (w1, r)" by force
  note d1 = read_only_calls(6) [OF f]
  have ok1: "fs_ok w1" using data_only_ok [OF d1 ok] by simp
  show ?thesis
  proof (cases r)
    case (Inl e)
    have "data_only w1 (cleanup_contents_dir fs_queue (fe_mail_uuid en) (fe_mail_dir en) w1)"
      unfolding fe_mail_dir_def fs_data_def append_Cons append_Nil by (rule cleanup_contents_dir_data [OF ok1])
    from committed_failed [OF data_only_trans [OF d1 this] ok] f Inl show ?thesis by (simp add: fs_commit_def)
  next
    case (Inr u)
    obtain w2 named where n: "name_destinations ds w1 = (w2, named)" by force
    note nd = name_destinations_data [OF n ok1]
    then have "committed w2 (make_dest_dirs js en [] named w2)"
      using data_only_ok ok1 by (intro make_dest_dirs_committed) auto
    from committed_data [OF this _ ok] data_only_trans [OF d1] nd f Inr n show ?thesis by (simp add: fs_commit_def)
  qed
qed

section \<open>The queue on a file system\<close>

text \<open>
  The transport, the configuration and the clock work on the rest of the world. Between the steps
  of the runner a reception may open an enqueuer and write to it, and the rest of the world and the
  faults still to come may change.
\<close>

definition elsewhere :: "('z \<Rightarrow> 'z \<times> 'a) \<Rightarrow> 'z fs_world_scheme \<Rightarrow> 'z fs_world_scheme \<times> 'a" where
  "elsewhere f w = (case f (fs_world.more w) of (z, a) \<Rightarrow> (fs_world.more_update (\<lambda>_. z) w, a))"

definition fs_queue_impl :: "'u Json \<Rightarrow> 'z QConfig \<Rightarrow> ('z, 'u, bytes, 'd, 's) Transport \<Rightarrow> 'z Chrono \<Rightarrow>
    ('z fs_world_scheme, FsQueuedMail, FsInflightMail, FsPendingCleanupMail, FsError, 'u, bytes, FsEnqueuer, 'd, 's) QueueImpl" where
  "fs_queue_impl js c tr ch =
     \<lparr>qi_config = \<lparr>qc_next_interval = (\<lambda>w sched. elsewhere (\<lambda>z. qc_next_interval c z sched) w),
                   qc_found_inflight_check_delay = qc_found_inflight_check_delay c,
                   qc_io_error_next_retry_delay = qc_io_error_next_retry_delay c\<rparr>,
      qi_storage = fs_storage js,
      qi_transport = \<lparr>tr_destination = (\<lambda>w meta. elsewhere (\<lambda>z. tr_destination tr z meta) w),
                      tr_connect = (\<lambda>w dest. elsewhere (\<lambda>z. tr_connect tr z dest) w),
                      tr_send = (\<lambda>w sender meta reader. elsewhere (\<lambda>z. tr_send tr z sender meta reader) w)\<rparr>,
      qi_chrono = \<lparr>utc_now = elsewhere (utc_now ch), from_std = from_std ch, instant_add = instant_add ch\<rparr>\<rparr>"

inductive fs_outside :: "'z fs_world_scheme \<Rightarrow> 'z fs_world_scheme \<Rightarrow> bool" where
  enqueued: "fs_enqueue w = (w', r) \<Longrightarrow> fs_outside w w'"
| written: "fs_enqueuer_write en bs w = (w', r) \<Longrightarrow> fs_outside w w'"
| other: "fs_outside w (fs_world.more_update (\<lambda>_. z) (w\<lparr>fs_faults := fs\<rparr>))"

lemma elsewhere_data: "elsewhere f w = (w', a) \<Longrightarrow> data_only w w'"
  by (auto simp: elsewhere_def data_only_def split: prod.splits)

lemma fs_outside_data:
  assumes "fs_outside w w'" "fs_ok w"
  shows "data_only w w'"
  using assms(1)
proof cases
  case (enqueued r)
  then show ?thesis by (rule fs_enqueue_data) (rule assms(2))
next
  case (written en bs r)
  then show ?thesis by (rule fs_enqueuer_write_data)
next
  case (other z fs)
  then show ?thesis by (simp add: data_only_def)
qed

lemma fs_queue_impl_simps [simp]:
  "qi_storage (fs_queue_impl js c tr ch) = fs_storage js"
  by (simp add: fs_queue_impl_def)

lemma listing_law:
  assumes "data_only w w' \<and> lists_names (link_names w (place_dir p)) es name" "fs_ok w"
  shows "fs_ok w' \<and> fs_stored w' = fs_stored w \<and>
    (\<forall>x. fs_stored w x = Some p \<longrightarrow>
        (\<exists>m. Inr m \<in> set es \<and> QueueId (name m) = x) \<or> (\<exists>e. Inl (e, Some x) \<in> set es \<or> Inl (e, None) \<in> set es)) \<and>
    (\<forall>m. Inr m \<in> set es \<longrightarrow> fs_stored w (QueueId (name m)) = Some p) \<and>
    distinct (map (\<lambda>m. QueueId (name m)) (rights es))"
proof -
  have stored: "fs_stored w (QueueId n) = Some p \<longleftrightarrow> n \<in> link_names w (place_dir p)" for n
    using fs_stored_iff [OF assms(2), of n p] by (simp add: link_names_def)
  from assms(1) have d: "distinct (map name (rights es))"
    and sub: "\<And>m. Inr m \<in> set es \<Longrightarrow> name m \<in> link_names w (place_dir p)"
    and all: "\<And>n. n \<in> link_names w (place_dir p) \<Longrightarrow>
      (\<exists>m. Inr m \<in> set es \<and> name m = n) \<or> (\<exists>e. Inl (e, Some (QueueId n)) \<in> set es \<or> Inl (e, None) \<in> set es)"
    by (fastforce simp: lists_names_def set_rights image_iff)+
  have "(\<exists>m. Inr m \<in> set es \<and> QueueId (name m) = x) \<or> (\<exists>e. Inl (e, Some x) \<in> set es \<or> Inl (e, None) \<in> set es)"
    if "fs_stored w x = Some p" for x
    using that all by (cases x) (auto simp: stored)
  moreover have "distinct (map (\<lambda>m. QueueId (name m)) (rights es))"
    using d by (simp add: distinct_map inj_on_def)
  ultimately show ?thesis using data_only_ok [OF _ assms(2)] assms(1) sub stored by blast
qed

lemma fs_listings:
  assumes ok: "fs_ok w"
  shows "fs_list_queue js w = (w', es) \<Longrightarrow> data_only w w' \<and> lists_names (link_names w (place_dir In_Queue)) es fq_id"
    "fs_find_inflight js w = (w', es') \<Longrightarrow> data_only w w' \<and> lists_names (link_names w (place_dir In_Inflight)) es' fi_id"
    "fs_find_pending_cleanup w = (w', es'') \<Longrightarrow> data_only w w' \<and> lists_names (link_names w (place_dir In_Cleanup)) es'' fp_id"
  using fs_scan_queue_lists [OF _ ok, of js] fs_scan_folder_lists [OF _ ok]
  by (fastforce simp: fs_list_queue_def fs_find_inflight_def fs_find_pending_cleanup_def handle_defs queued_found_def
      inflight_found_def pending_found_def intro!: lists_names_map split: prod.splits)+

text \<open>The contract of the queue runner, kept by the storage over any transport, configuration and clock.\<close>

lemma fs_storage_ops [simp]:
  "st_list_queue (fs_storage js) = fs_list_queue js"
  "st_find_inflight (fs_storage js) = fs_find_inflight js"
  "st_find_pending_cleanup (fs_storage js) = fs_find_pending_cleanup"
  "st_read_inflight (fs_storage js) w i = fs_read_inflight js i w"
  "st_enqueue (fs_storage js) = fs_enqueue"
  "st_reschedule (fs_storage js) w m sched = fs_reschedule js m sched w"
  "st_send_start (fs_storage js) w m = fs_send_start m w"
  "st_send_done (fs_storage js) w i = fs_send_done i w"
  "st_send_cancel (fs_storage js) w i = fs_send_cancel i w"
  "st_drop (fs_storage js) w m = fs_drop m w"
  "st_cleanup (fs_storage js) w p = fs_cleanup p w"
  "st_commit (fs_storage js) w en ds = fs_commit js en ds w"
  "queued_id (fs_storage js) m = QueueId (fq_id m)"
  "queued_schedule (fs_storage js) = fq_schedule"
  "inflight_id (fs_storage js) i = QueueId (fi_id i)"
  "pending_id (fs_storage js) p = QueueId (fp_id p)"
  by (simp_all add: fs_storage_def)

lemmas into_defs = queued_into_inflight_def inflight_into_pending_cleanup_def inflight_into_queued_def
  queued_into_pending_cleanup_def

lemma fs_mail_store: "mail_store (fs_queue_impl js c tr ch) fs_outside fs_stored fs_ok"
proof (unfold_locales, unfold fs_queue_impl_simps fs_storage_ops, goal_cases)
  case (1 w w' qs)
  then show ?case using listing_law [OF fs_listings(1), OF 1(2,1,2)] by simp
next
  case (2 w w' "is")
  then show ?case using listing_law [OF fs_listings(2), OF 2(2,1,2)] by (simp add: rights_def)
next
  case (3 w w' ps)
  then show ?case using listing_law [OF fs_listings(3), OF 3(2,1,2)] by simp
next
  case (4 w i w' rr)
  then show ?case by (intro data_only_ok [OF read_inflight_data, OF 4])
next
  case (5 w m sched w' m' ru)
  then show ?case using reschedule_data [OF 5] data_only_ok [OF conjunct1 [OF reschedule_data [OF 5]] 5(2)] by simp
next
  case (6 w m w' m' e)
  then show ?case using fs_moves(1) [OF 6(2), of m] by (simp add: moved_def)
next
  case (7 w m w')
  then show ?case using fs_moves(1) [OF 7(2), of m] by (simp add: moved_def)
next
  case (8 w m w' i)
  then show ?case using fs_moves(1) [OF 8(2), of m] by (auto simp: moved_def into_defs)
next
  case (9 w i w' i' e)
  then show ?case using fs_moves(2) [OF 9(2), of i] by (simp add: moved_def)
next
  case (10 w i w')
  then show ?case using fs_moves(2) [OF 10(2), of i] by (simp add: moved_def)
next
  case (11 w i w' p)
  then show ?case using fs_moves(2) [OF 11(2), of i] by (auto simp: moved_def into_defs)
next
  case (12 w i w' i' e)
  then show ?case using fs_moves(3) [OF 12(2), of i] by (simp add: moved_def)
next
  case (13 w i w')
  then show ?case using fs_moves(3) [OF 13(2), of i] by (simp add: moved_def)
next
  case (14 w i w' m)
  then show ?case using fs_moves(3) [OF 14(2), of i] by (auto simp: moved_def into_defs)
next
  case (15 w m w' m' e)
  then show ?case using fs_moves(4) [OF 15(2), of m] by (simp add: moved_def)
next
  case (16 w m w')
  then show ?case using fs_moves(4) [OF 16(2), of m] by (simp add: moved_def)
next
  case (17 w m w' p)
  then show ?case using fs_moves(4) [OF 17(2), of m] by (auto simp: moved_def into_defs)
next
  case (18 w p w' p' e)
  then show ?case using fs_cleanup_cleaned [OF 18(2), of p] by (simp add: cleaned_def)
next
  case (19 w p w' b)
  then show ?case using fs_cleanup_cleaned [OF 19(2), of p] by (simp add: cleaned_def)
next
  case (20 w en ds w' e)
  then show ?case using fs_commit_committed [OF 20(2), of js en ds] by (simp add: committed_def)
next
  case (21 w en ds w' ms)
  then show ?case using fs_commit_committed [OF 21(2), of js en ds] by (simp add: committed_def)
next
  case (22 w meta w' rd)
  then show ?case by (intro data_only_ok elsewhere_data) (simp_all add: fs_queue_impl_def)
next
  case (23 w dest w' rs)
  then show ?case by (intro data_only_ok elsewhere_data) (simp_all add: fs_queue_impl_def)
next
  case (24 w s meta r w' rt)
  then show ?case by (intro data_only_ok elsewhere_data) (simp_all add: fs_queue_impl_def)
next
  case (25 w w' t)
  then show ?case by (intro data_only_ok elsewhere_data) (simp_all add: fs_queue_impl_def)
next
  case (26 w sched w' ri)
  then show ?case by (intro data_only_ok elsewhere_data) (simp_all add: fs_queue_impl_def)
next
  case (27 w w')
  then show ?case by (intro data_only_ok fs_outside_data)
qed

interpretation fsq: mail_store "fs_queue_impl js c tr ch" fs_outside fs_stored fs_ok for js c tr ch
  by (rule fs_mail_store)

end
