(* ===== verification/QueueFsFiles.thy ===== *)
theory QueueFsFiles
  imports QueueFsStore
begin

text \<open>
  What the file-system storage keeps of a mail: a committed mail is read back as it was written,
  a calm file system lets a mail be delivered and removed, and a stray file in the directory of a
  destination keeps it from being removed.
\<close>

section \<open>What is on disk\<close>

definition mail_files :: "tree \<Rightarrow> string \<Rightarrow> string \<Rightarrow> bytes \<Rightarrow> bytes \<Rightarrow> bytes \<Rightarrow> bool" where
  "mail_files t m k meta sched contents \<longleftrightarrow> is_name m \<and> is_name k \<and>
     map_of t [DATA_DIR, m] = Some Fs_Dir \<and> map_of t [DATA_DIR, m, k] = Some Fs_Dir \<and>
     map_of t [DATA_DIR, m, k, METADATA_FILE] = Some (Fs_File meta) \<and>
     map_of t [DATA_DIR, m, k, SCHEDULE_FILE] = Some (Fs_File sched) \<and>
     map_of t [DATA_DIR, m, CONTENTS_FILE] = Some (Fs_File contents)"

definition on_disk :: "'u Json \<Rightarrow> tree \<Rightarrow> place \<Rightarrow> string \<Rightarrow> 'u QMailMetadata \<Rightarrow> ScheduleInfo \<Rightarrow> bytes \<Rightarrow> bool" where
  "on_disk js t p n meta sched contents \<longleftrightarrow>
     (\<exists>m k. map_of t [place_dir p, n] = Some (Fs_Link (DATA_DIR_FROM_OTHER_QUEUE @ [m, k])) \<and>
        mail_files t m k (js_meta js meta) (js_sched js sched) contents)"

section \<open>Calls that have succeeded\<close>

lemma fs_try_ok:
  assumes "fs_try call err f w = (w', Inr b)"
  obtains w1 a where "call w = (w1, Inr a)" "f a w1 = (w', Inr b)"
  using assms by (auto simp: fs_try_def split: prod.splits sum.splits)

lemma os_create_ok:
  assumes "os_create e d n w = (w', Inr u)"
  shows "map_of (fs_tree w) d = Some Fs_Dir \<and> is_name n \<and> map_of (fs_tree w) (d @ [n]) = None \<and>
    map_of (fs_tree w') = (map_of (fs_tree w))(d @ [n] \<mapsto> e)"
  using assms [unfolded os_create_def]
  by (cases rule: sys_cases) (auto simp: AList.update_conv' split: if_splits)

lemma os_write_file_ok:
  assumes "os_write_file d n bs w = (w', Inr u)" "map_of (fs_tree w) (d @ [n]) = Some (Fs_File old)"
  shows "map_of (fs_tree w') = (map_of (fs_tree w))(d @ [n] \<mapsto> Fs_File (old @ bs))"
  using assms(1) [unfolded os_write_file_def] assms(2)
  by (cases rule: sys_cases) (auto simp: AList.update_conv')

lemma os_sub_dir_ok: "os_sub_dir d r w = (w', Inr p) \<Longrightarrow> fs_tree w' = fs_tree w"
  unfolding os_sub_dir_def by (erule sys_cases) (auto split: sum.splits option.splits entry.splits)

lemma new_uuid_tree: "new_uuid w = (w', uuid) \<Longrightarrow> fs_tree w' = fs_tree w"
  by (auto simp: new_uuid_def)

lemma fs_enqueuer_flush_ok: "fs_enqueuer_flush w = (w', Inr u) \<Longrightarrow> fs_tree w' = fs_tree w"
  unfolding fs_enqueuer_flush_def by (erule sys_cases) auto

lemma name_destinations_tree: "name_destinations ds w = (w', named) \<Longrightarrow> fs_tree w' = fs_tree w \<and> map snd named = ds"
proof (induction ds w arbitrary: w' named rule: name_destinations.induct)
  case (2 meta sched ds w)
  obtain w1 uuid where u: "new_uuid w = (w1, uuid)" by force
  obtain rest where r: "name_destinations ds w1 = (w', rest)" "named = (uuid, meta, sched) # rest"
    using 2(2) u by (auto split: prod.splits)
  from "2.IH" [OF u [symmetric] r(1)] r(2) new_uuid_tree [OF u] show ?case by simp
qed simp

text \<open>A file made and written in one go.\<close>

lemma file_ok:
  assumes "os_create (Fs_File []) d n w = (w1, Inr u)" "os_write_file d n bs w1 = (w2, Inr v)"
  shows "map_of (fs_tree w) (d @ [n]) = None" "map_of (fs_tree w2) = (map_of (fs_tree w))(d @ [n] \<mapsto> Fs_File bs)"
  using os_create_ok [OF assms(1)] os_write_file_ok [OF assms(2), of "[]"] by simp_all

section \<open>A committed mail\<close>

lemma files_distinct [simp]: "METADATA_FILE \<noteq> SCHEDULE_FILE" "SCHEDULE_FILE \<noteq> METADATA_FILE"
  by (simp_all add: METADATA_FILE_def SCHEDULE_FILE_def)

lemma make_dest_dir_ok:
  assumes ok: "make_dest_dir js en dest_id meta sched w = (w', Inr mail)"
    and c: "map_of (fs_tree w) [DATA_DIR, fe_mail_uuid en, CONTENTS_FILE] = Some (Fs_File contents)"
    and m: "is_name (fe_mail_uuid en)"
  shows "map_of (fs_tree w) \<subseteq>\<^sub>m map_of (fs_tree w') \<and> fq_schedule mail = sched \<and>
    on_disk js (fs_tree w') In_Queue (fq_id mail) meta sched contents"
proof -
  let ?d = "[DATA_DIR, fe_mail_uuid en]" and ?k = "[DATA_DIR, fe_mail_uuid en, dest_id]"
  have dir: "fe_mail_dir en = ?d" by (simp add: fe_mail_dir_def fs_data_def)
  let ?l = "DATA_DIR_FROM_OTHER_QUEUE @ [fe_mail_uuid en, dest_id]"
  from ok obtain w1 u w2 p w3 a3 w4 a4 w5 a5 w6 a6 where 1: "os_create Fs_Dir ?d dest_id w = (w1, Inr u)"
      "os_sub_dir ?d [dest_id] w1 = (w2, Inr p)"
    and 2: "os_create (Fs_File []) p SCHEDULE_FILE w2 = (w3, Inr a3)"
      "os_write_file p SCHEDULE_FILE (js_sched js sched) w3 = (w4, Inr a4)"
      "os_create (Fs_File []) p METADATA_FILE w4 = (w5, Inr a5)"
      "os_write_file p METADATA_FILE (js_meta js meta) w5 = (w6, Inr a6)"
    and rest: "(case new_uuid w6 of (w, dest_uuid) \<Rightarrow> fs_try (os_create (Fs_Link ?l) fs_queue dest_uuid)
        (SymlinkingIntoQueue dest_uuid Queue_Q ?l)
        (\<lambda>_ w. (w, Inr (queued_found \<lparr>fm_id = dest_uuid, fm_schedule = sched\<rparr>))) w) = (w', Inr mail)"
    unfolding make_dest_dir_def Let_def dir by (elim fs_try_ok) (rule that)
  note c1 = os_create_ok [OF 1(1)]
  have p: "p = ?k" using sub_dir_name [OF 1(2)] c1 by simp
  have t2: "map_of (fs_tree w2) = (map_of (fs_tree w))(?k \<mapsto> Fs_Dir)" using os_sub_dir_ok [OF 1(2)] c1 by simp
  note s2 = file_ok [OF 2(1,2)] and s4 = file_ok [OF 2(3,4)]
  obtain w7 uuid x where u: "new_uuid w6 = (w7, uuid)"
    and l: "os_create (Fs_Link ?l) fs_queue uuid w7 = (w', Inr x)"
    and mail: "mail = queued_found \<lparr>fm_id = uuid, fm_schedule = sched\<rparr>"
    using rest by (cases "new_uuid w6") (auto elim!: fs_try_ok)
  note c5 = os_create_ok [OF l]
  have t': "map_of (fs_tree w') = (map_of (fs_tree w6))([QUEUE_DIR, uuid] \<mapsto> Fs_Link ?l)"
    "map_of (fs_tree w6) [QUEUE_DIR, uuid] = None"
    using c5 new_uuid_tree [OF u] by (simp_all add: fs_queue_def)
  have ne: "QUEUE_DIR \<noteq> DATA_DIR" "DATA_DIR \<noteq> QUEUE_DIR" by (simp_all add: dir_defs)
  have kc: "dest_id \<noteq> CONTENTS_FILE" using c c1 by auto
  have le: "f \<subseteq>\<^sub>m g" if "g = f(a \<mapsto> b)" "f a = None" for f g :: "path \<Rightarrow> entry option" and a b
    using that by (auto simp: map_le_def dom_def)
  have "map_of (fs_tree w) \<subseteq>\<^sub>m map_of (fs_tree w2)" using le [OF t2] c1 by simp
  then have "map_of (fs_tree w) \<subseteq>\<^sub>m map_of (fs_tree w')"
    using le [OF s2(2,1)] le [OF s4(2,1)] le [OF t'] map_le_trans by meson
  moreover have "mail_files (fs_tree w') (fe_mail_uuid en) dest_id (js_meta js meta) (js_sched js sched) contents"
    using m c c1 kc ne by (simp add: mail_files_def t' s4 s2 t2 p)
  ultimately show ?thesis using mail ne by (auto simp: on_disk_def queued_found_def t')
qed

lemma map_le_Some: "f \<subseteq>\<^sub>m g \<Longrightarrow> f x = Some y \<Longrightarrow> g x = Some y"
  by (metis map_le_def domI)

lemma on_disk_grows:
  assumes "on_disk js t p n meta sched contents" and le: "map_of t \<subseteq>\<^sub>m map_of t'"
  shows "on_disk js t' p n meta sched contents"
proof -
  note le' = map_le_Some [OF le]
  from assms(1) obtain m k where "map_of t [place_dir p, n] = Some (Fs_Link (DATA_DIR_FROM_OTHER_QUEUE @ [m, k]))"
      "mail_files t m k (js_meta js meta) (js_sched js sched) contents"
    by (auto simp: on_disk_def)
  then have "map_of t' [place_dir p, n] = Some (Fs_Link (DATA_DIR_FROM_OTHER_QUEUE @ [m, k]))"
      "mail_files t' m k (js_meta js meta) (js_sched js sched) contents"
    by (simp_all add: mail_files_def le')
  then show ?thesis unfolding on_disk_def by blast
qed

lemma make_dest_dirs_ok:
  assumes "make_dest_dirs js en ids ds w = (w', Inr ms)"
    and "map_of (fs_tree w) [DATA_DIR, fe_mail_uuid en, CONTENTS_FILE] = Some (Fs_File contents)"
    and "is_name (fe_mail_uuid en)"
  shows "map_of (fs_tree w) \<subseteq>\<^sub>m map_of (fs_tree w') \<and>
    list_all2 (\<lambda>m (_, meta, sched). fq_schedule m = sched \<and> on_disk js (fs_tree w') In_Queue (fq_id m) meta sched contents) ms ds"
  using assms
proof (induction js en ids ds w arbitrary: ms rule: make_dest_dirs.induct)
  case (2 js en ids dest_id meta sched ds w)
  from 2(2) obtain w1 mail ms' where m: "make_dest_dir js en dest_id meta sched w = (w1, Inr mail)"
    and r: "make_dest_dirs js en (ids @ [dest_id]) ds w1 = (w', Inr ms')" "ms = mail # ms'"
    by (auto split: prod.splits sum.splits)
  have le: "map_of (fs_tree w) \<subseteq>\<^sub>m map_of (fs_tree w1)" and sched: "fq_schedule mail = sched"
    and disk: "on_disk js (fs_tree w1) In_Queue (fq_id mail) meta sched contents"
    using make_dest_dir_ok [OF m 2(3,4)] by simp_all
  note IH = "2.IH" [OF m [symmetric] refl r(1) map_le_Some [OF le 2(3)] 2(4)]
  show ?case unfolding r(2) using map_le_trans [OF le] on_disk_grows [OF disk] IH sched by simp
qed simp

text \<open>Reading a mail on disk, when nothing fails.\<close>

lemma sys_calm:
  "fs_faults w = [] \<Longrightarrow> sys call w = (case call (fs_tree w) of Inl e \<Rightarrow> (w, Inl e) | Inr (t, a) \<Rightarrow> (w\<lparr>fs_tree := t\<rparr>, Inr a))"
  by (auto simp: sys_def Let_def split: sum.splits)

lemma walk_link:
  assumes "map_of t [DATA_DIR] = Some Fs_Dir" "map_of t [DATA_DIR, m] = Some Fs_Dir" "is_name m" "is_name k"
  shows "walk t fuel [d] (DATA_DIR_FROM_OTHER_QUEUE @ [m, k]) = Inr [DATA_DIR, m, k]"
  using assms by (simp add: dir_defs is_name_def)

lemma follow_file:
  assumes "walk t MAX_LINKS base rel = Inr p" "map_of t p = Some (Fs_File bs)"
  shows "follow t MAX_LINKS base rel = Inr p"
proof -
  have "MAX_LINKS = Suc 39" by (simp add: MAX_LINKS_def)
  with assms show ?thesis using follow.simps(2) [of t 39 base rel] by simp
qed

lemma read_on_disk:
  assumes disk: "on_disk js (fs_tree w) In_Inflight (fi_id i) meta sched contents" and ok: "fs_ok w"
    and calm: "fs_faults w = []" and js: "js_parse_meta js (js_meta js meta) = Inr meta"
  shows "fs_read_inflight js i w = (w, Inr (meta, contents))"
proof -
  from disk obtain m k where l: "map_of (fs_tree w) [INFLIGHT_DIR, fi_id i] = Some (Fs_Link (DATA_DIR_FROM_OTHER_QUEUE @ [m, k]))"
    and f: "mail_files (fs_tree w) m k (js_meta js meta) (js_sched js sched) contents"
    by (auto simp: on_disk_def)
  have d: "map_of (fs_tree w) [DATA_DIR] = Some Fs_Dir" using ok map_okD(1) by (auto simp: fs_ok_def tree_ok_def)
  have "is_name METADATA_FILE" "is_name CONTENTS_FILE" "is_name SCHEDULE_FILE"
    by (simp_all add: is_name_def METADATA_FILE_def CONTENTS_FILE_def SCHEDULE_FILE_def)
  note n = this [THEN walk_name]
  show ?thesis unfolding fs_read_inflight_def Let_def
    using l f d calm js walk_link [OF d]
    by (simp add: fs_try_def os_read_link_def os_sub_dir_def os_read_file_def sys_calm fs_inflight_def mail_files_def
        follow_file [OF n(1)] follow_file [OF n(2)])
qed

lemma fs_move_ok:
  assumes "fs_move d d' n mail err into w = (w', Inr (Some x))"
  shows "x = into mail" "\<exists>e. map_of (fs_tree w) (d @ [n]) = Some e \<and>
    map_of (fs_tree w') = (map_of (fs_tree w))(d @ [n] := None, d' @ [n] \<mapsto> e)"
proof -
  obtain u where s: "sys (rename_call d n d' n) w = (w', Inr u)" and x: "x = into mail"
    using assms by (auto simp: fs_move_def fs_found_def os_rename_call split: prod.splits sum.splits if_splits)
  show "x = into mail" by (rule x)
  from s show "\<exists>e. map_of (fs_tree w) (d @ [n]) = Some e \<and>
      map_of (fs_tree w') = (map_of (fs_tree w))(d @ [n] := None, d' @ [n] \<mapsto> e)"
    by (cases rule: sys_cases)
       (auto simp: rename_call_def AList.update_conv' AList.delete_conv' split: option.splits if_splits)
qed

lemma data_not_queue [simp]: "place_dir p \<noteq> DATA_DIR" "DATA_DIR \<noteq> place_dir p"
  using place_dir_queue [of p] dirs_distinct(7) by metis+

lemma moved_on_disk:
  assumes "fs_move [place_dir p] [place_dir p'] n mail err into w = (w', Inr (Some x))"
    and "on_disk js (fs_tree w) p n meta sched contents"
  shows "on_disk js (fs_tree w') p' n meta sched contents"
proof -
  from assms(2) obtain m k where l: "map_of (fs_tree w) [place_dir p, n] = Some (Fs_Link (DATA_DIR_FROM_OTHER_QUEUE @ [m, k]))"
    and f: "mail_files (fs_tree w) m k (js_meta js meta) (js_sched js sched) contents"
    by (auto simp: on_disk_def)
  with fs_move_ok(2) [OF assms(1)] have t: "map_of (fs_tree w') = (map_of (fs_tree w))([place_dir p, n] := None,
      [place_dir p', n] \<mapsto> Fs_Link (DATA_DIR_FROM_OTHER_QUEUE @ [m, k]))" by auto
  have "map_of (fs_tree w') [place_dir p', n] = Some (Fs_Link (DATA_DIR_FROM_OTHER_QUEUE @ [m, k]))"
    "mail_files (fs_tree w') m k (js_meta js meta) (js_sched js sched) contents"
    using f by (simp_all add: mail_files_def t)
  then show ?thesis unfolding on_disk_def by blast
qed

lemma fs_enqueue_contents:
  assumes "fs_enqueue w = (w', Inr en)"
  shows "is_name (fe_mail_uuid en) \<and> map_of (fs_tree w') (fe_mail_dir en @ [CONTENTS_FILE]) = Some (Fs_File [])"
proof -
  obtain w1 uuid where u: "new_uuid w = (w1, uuid)" by force
  obtain w2 a w3 p b where c: "os_create Fs_Dir fs_data uuid w1 = (w2, Inr a)" "os_sub_dir fs_data [uuid] w2 = (w3, Inr p)"
      "os_create (Fs_File []) p CONTENTS_FILE w3 = (w', Inr b)" and en: "en = \<lparr>fe_mail_uuid = uuid\<rparr>"
    using assms unfolding fs_enqueue_def u prod.case by (elim fs_try_ok) auto
  note n = os_create_ok [OF c(1)]
  with sub_dir_name [OF c(2)] os_create_ok [OF c(3)] en show ?thesis by (simp add: fe_mail_dir_def)
qed

lemma fs_commit_ok:
  assumes "fs_commit js en ds w = (w', Inr ms)" "is_name (fe_mail_uuid en)"
    and "map_of (fs_tree w) (fe_mail_dir en @ [CONTENTS_FILE]) = Some (Fs_File contents)"
  shows "list_all2 (\<lambda>m (meta, sched). fq_schedule m = sched \<and>
    on_disk js (fs_tree w') In_Queue (fq_id m) meta sched contents) ms ds"
proof -
  obtain w1 u where f: "fs_enqueuer_flush w = (w1, Inr u)"
    using assms(1) by (auto simp: fs_commit_def split: prod.splits sum.splits)
  obtain w2 named where n: "name_destinations ds w1 = (w2, named)" by force
  have "make_dest_dirs js en [] named w2 = (w', Inr ms)" using assms(1) by (simp add: fs_commit_def f n)
  moreover have "map_of (fs_tree w2) [DATA_DIR, fe_mail_uuid en, CONTENTS_FILE] = Some (Fs_File contents)"
    using assms(3) fs_enqueuer_flush_ok [OF f] name_destinations_tree [OF n] by (simp add: fe_mail_dir_def fs_data_def)
  ultimately have "list_all2 (\<lambda>m (_, meta, sched). fq_schedule m = sched \<and>
      on_disk js (fs_tree w') In_Queue (fq_id m) meta sched contents) ms named"
    using make_dest_dirs_ok assms(2) by blast
  then have "list_all2 (\<lambda>m x. case snd x of (meta, sched) \<Rightarrow> fq_schedule m = sched \<and>
      on_disk js (fs_tree w') In_Queue (fq_id m) meta sched contents) ms named"
    by (rule list_all2_mono) auto
  then have "list_all2 (\<lambda>m (meta, sched). fq_schedule m = sched \<and>
      on_disk js (fs_tree w') In_Queue (fq_id m) meta sched contents) ms (map snd named)"
    by (simp only: list.rel_map)
  with name_destinations_tree [OF n] show ?thesis by simp
qed

text \<open>A mail on disk in the queue is read once sending it starts.\<close>

lemma queued_mail_read:
  assumes disk: "on_disk js (fs_tree w) In_Queue (fq_id mail) meta sched contents" and ok: "fs_ok w"
    and start: "fs_send_start mail w = (w', Inr (Some i))"
    and calm: "fs_faults w' = []" and js: "js_parse_meta js (js_meta js meta) = Inr meta"
  shows "fi_schedule i = fq_schedule mail \<and> fs_read_inflight js i w' = (w', Inr (meta, contents))"
proof -
  note mv = start [unfolded fs_send_start_def fs_queue_def fs_inflight_def, folded place_dir.simps]
  have i: "i = queued_into_inflight mail" using fs_move_ok(1) [OF mv] .
  then have "on_disk js (fs_tree w') In_Inflight (fi_id i) meta sched contents"
    using moved_on_disk [OF mv disk] by (simp add: queued_into_inflight_def)
  moreover have "fs_ok w'" using fs_moves(1) [OF ok, of mail] start by (simp add: moved_def)
  ultimately show ?thesis using read_on_disk [OF _ _ calm js] i by (simp add: queued_into_inflight_def)
qed

section \<open>A committed mail is read back\<close>

text \<open>
  Claim C26. Round trip through the storage: a mail is enqueued, its contents written, and the
  commit succeeds; then every destination has a mail, in order, and once sending it starts reading
  it gives exactly the metadata it was committed with and the contents that were written, whatever
  other destinations there are.
\<close>

theorem commit_read_round_trip:
  assumes "fs_ok w" "fs_enqueue w = (w1, Inr en)" "fs_enqueuer_write en contents w1 = (w2, Inr u)"
    and "fs_commit js en ds w2 = (w3, Inr ms)" "j < length ds"
    and "fs_send_start (ms ! j) w3 = (w4, Inr (Some i))" "fs_faults w4 = []"
    and "js_parse_meta js (js_meta js (fst (ds ! j))) = Inr (fst (ds ! j))"
  shows "length ms = length ds \<and> fi_schedule i = snd (ds ! j) \<and>
    fs_read_inflight js i w4 = (w4, Inr (fst (ds ! j), contents))"
proof -
  note e = fs_enqueue_contents [OF assms(2)]
  have c: "map_of (fs_tree w2) (fe_mail_dir en @ [CONTENTS_FILE]) = Some (Fs_File contents)"
    using os_write_file_ok [OF assms(3) [unfolded fs_enqueuer_write_def]] e by simp
  have ms: "list_all2 (\<lambda>m (meta, sched). fq_schedule m = sched \<and>
      on_disk js (fs_tree w3) In_Queue (fq_id m) meta sched contents) ms ds"
    using fs_commit_ok [OF assms(4) _ c] e by simp
  have queued: "fq_schedule (ms ! j) = snd (ds ! j)"
    "on_disk js (fs_tree w3) In_Queue (fq_id (ms ! j)) (fst (ds ! j)) (snd (ds ! j)) contents"
    using list_all2_nthD2 [OF ms assms(5)] by (simp_all add: case_prod_beta)
  have "fs_ok w1" using data_only_ok [OF fs_enqueue_data, OF assms(2,1,1)] by simp
  then have "fs_ok w2" using data_only_ok [OF fs_enqueuer_write_data, OF assms(3)] by simp
  then have "fs_ok w3" using fs_commit_committed [of w2 js en ds] assms(4) by (simp add: committed_def)
  from queued_mail_read [OF queued(2) this assms(6,7,8)] queued(1) list_all2_lengthD [OF ms] show ?thesis by simp
qed

section \<open>An empty storage\<close>

definition empty_tree :: tree where
  "empty_tree = [([], Fs_Dir), ([DATA_DIR], Fs_Dir), ([QUEUE_DIR], Fs_Dir), ([INFLIGHT_DIR], Fs_Dir), ([CLEANUP_DIR], Fs_Dir)]"

lemma map_of_empty_tree: "map_of empty_tree p =
  (if p \<in> {[], [DATA_DIR], [QUEUE_DIR], [INFLIGHT_DIR], [CLEANUP_DIR]} then Some Fs_Dir else None)"
  by (auto simp: empty_tree_def)

lemma empty_tree_ok: "tree_ok empty_tree"
proof -
  have "distinct (map fst empty_tree)" by (simp add: empty_tree_def dir_defs)
  moreover have "map_ok (map_of empty_tree)"
    by (rule map_okI) (auto simp: map_of_empty_tree queue_dirs_def dir_defs is_name_def split: if_splits)
  ultimately show ?thesis by (simp add: tree_ok_def)
qed

lemma empty_storage_ok:
  assumes "fs_tree w = empty_tree" "inj (fs_uuids w)" "\<forall>i. is_name (fs_uuids w i)"
  shows "fs_ok w \<and> fs_stored w x = None"
  using assms empty_tree_ok
  by (cases x) (auto simp: fs_ok_def uuids_ok_def fs_stored.simps map_of_empty_tree queue_dirs_def)

lemma dir_names_ok: "is_name DATA_DIR" "is_name QUEUE_DIR" "is_name INFLIGHT_DIR" "is_name CLEANUP_DIR"
  by (simp_all add: dir_defs is_name_def)

lemma data_dir_distinct [simp]:
  "DATA_DIR \<noteq> QUEUE_DIR" "DATA_DIR \<noteq> INFLIGHT_DIR" "DATA_DIR \<noteq> CLEANUP_DIR"
  "QUEUE_DIR \<noteq> DATA_DIR" "INFLIGHT_DIR \<noteq> DATA_DIR" "CLEANUP_DIR \<noteq> DATA_DIR"
  by (simp_all add: dir_defs)

lemma open_existing:
  assumes "fs_faults w = []" "is_name sub" "map_of (fs_tree w) [sub] = Some Fs_Dir"
  shows "maybe_create_and_open sub w = (w, Inr [sub])"
  using assms by (simp add: maybe_create_and_open_def fs_found_def os_sub_dir_def sys_calm is_name_def)

lemma open_new:
  assumes "fs_faults w = []" "is_name sub" "map_of (fs_tree w) [] = Some Fs_Dir" "map_of (fs_tree w) [sub] = None"
  shows "maybe_create_and_open sub w = (w\<lparr>fs_tree := AList.update [sub] Fs_Dir (fs_tree w)\<rparr>, Inr [sub])"
proof -
  have "os_sub_dir [] [sub] w = (w, Inl not_found)"
    using assms by (simp add: os_sub_dir_def sys_calm is_name_def)
  moreover have "os_create Fs_Dir [] sub w = (w\<lparr>fs_tree := AList.update [sub] Fs_Dir (fs_tree w)\<rparr>, Inr ())"
    using assms by (simp add: os_create_def sys_calm)
  moreover have "os_sub_dir [] [sub] (w\<lparr>fs_tree := AList.update [sub] Fs_Dir (fs_tree w)\<rparr>) =
      (w\<lparr>fs_tree := AList.update [sub] Fs_Dir (fs_tree w)\<rparr>, Inr [sub])"
    using assms by (simp add: os_sub_dir_def sys_calm is_name_def AList.update_conv')
  ultimately show ?thesis
    by (simp add: maybe_create_and_open_def fs_found_def fs_try_def not_found_def)
qed

lemma open_main_dir:
  assumes "fs_faults w = []"
  shows "map_of (fs_tree w) [] = Some Fs_Dir \<Longrightarrow> main_dir w = (w, Inr [])"
    "map_of (fs_tree w) [] = None \<Longrightarrow> main_dir w = (w, Inl not_found)"
    "create_main_dir w = (w\<lparr>fs_tree := AList.update [] Fs_Dir (fs_tree w)\<rparr>, Inr ())"
  using assms by (simp_all add: main_dir_def create_main_dir_def sys_calm)

text \<open>
  Claim C27. Opening the storage: on a calm file system, where the directory does not exist it is
  made, with its four subdirectories, and the storage is empty and in order; where an
  orderly storage exists it is opened as it is, with every mail in its place. The handles are those
  of the four subdirectories.
\<close>

theorem storage_opens:
  assumes "fs_faults w = []" "inj (fs_uuids w)" "\<forall>i. is_name (fs_uuids w i)"
    and "fs_tree w = [] \<or> fs_ok w \<and> map_of (fs_tree w) [] = Some Fs_Dir"
  shows "\<exists>w'. fs_storage_new w = (w', Inr \<lparr>fst_data = fs_data, fst_queue = fs_queue, fst_inflight = fs_inflight,
      fst_cleanup = fs_cleanup_dir\<rparr>) \<and> fs_ok w' \<and>
    fs_stored w' = (if fs_tree w = [] then Map.empty else fs_stored w)"
proof -
  show ?thesis
  proof (cases "fs_tree w = []")
    case True
    have "fs_storage_new w = (w\<lparr>fs_tree := empty_tree\<rparr>, Inr \<lparr>fst_data = fs_data, fst_queue = fs_queue,
        fst_inflight = fs_inflight, fst_cleanup = fs_cleanup_dir\<rparr>)"
      unfolding fs_storage_new_def handle_defs using assms(1) True
      by (simp add: bind_fs_def fs_found_def fs_try_def open_main_dir open_new dir_names_ok not_found_def empty_tree_def)
    moreover have "fs_ok (w\<lparr>fs_tree := empty_tree\<rparr>) \<and> fs_stored (w\<lparr>fs_tree := empty_tree\<rparr>) x = None" for x
      by (rule empty_storage_ok) (use assms(2,3) in simp_all)
    ultimately show ?thesis using True by auto
  next
    case False
    with assms(4) have ok: "fs_ok w" "map_of (fs_tree w) [] = Some Fs_Dir" by simp_all
    then have "map_of (fs_tree w) [d] = Some Fs_Dir" if "d \<in> insert DATA_DIR queue_dirs" for d
      using map_okD(1) that by (auto simp: fs_ok_def tree_ok_def)
    then have "fs_storage_new w = (w, Inr \<lparr>fst_data = fs_data, fst_queue = fs_queue,
        fst_inflight = fs_inflight, fst_cleanup = fs_cleanup_dir\<rparr>)"
      unfolding fs_storage_new_def handle_defs using assms(1) ok
      by (simp add: bind_fs_def fs_found_def open_main_dir open_existing dir_names_ok)
    with ok False show ?thesis by simp
  qed
qed

section \<open>Cleaning up on a calm file system\<close>

lemma remove_quietly_calm:
  assumes "fs_faults w = []" "map_of (fs_tree w) (d @ [n]) \<noteq> Some Fs_Dir"
  shows "fs_remove_quietly d n err f w = f (w\<lparr>fs_tree := AList.delete (d @ [n]) (fs_tree w)\<rparr>)"
proof (cases "map_of (fs_tree w) (d @ [n])")
  case None
  then have "AList.delete (d @ [n]) (fs_tree w) = fs_tree w" by (simp add: map_of_eq_None_iff)
  with None assms(1) show ?thesis
    by (simp add: fs_remove_quietly_def fs_found_def os_remove_file_def sys_calm not_found_def)
next
  case (Some e)
  with assms show ?thesis
    by (cases e) (simp_all add: fs_remove_quietly_def fs_found_def os_remove_file_def sys_calm)
qed

lemma remove_dir_calm:
  assumes "fs_faults w = []" "is_name k" "map_of (fs_tree w) (d @ [k]) = Some Fs_Dir"
  shows "os_remove_dir d [k] w =
    (if \<forall>f. map_of (fs_tree w) (d @ [k, f]) = None then (w\<lparr>fs_tree := AList.delete (d @ [k]) (fs_tree w)\<rparr>, Inr ())
     else (w, Inl (os_error ''Directory not empty'')))"
proof -
  have "dir_names (fs_tree w) (d @ [k]) = [] \<longleftrightarrow> (\<forall>f. map_of (fs_tree w) (d @ [k, f]) = None)"
    using set_dir_names [of _ "fs_tree w" "d @ [k]"] by (metis append.assoc append_Cons append_Nil list.set_intros(1) neq_Nil_conv empty_iff empty_set)
  with assms show ?thesis by (simp add: os_remove_dir_def sys_calm is_name_def)
qed

text \<open>A mail whose link is in the cleanup directory, with the names of its directories.\<close>

definition to_clean :: "tree \<Rightarrow> string \<Rightarrow> string \<Rightarrow> string \<Rightarrow> bool" where
  "to_clean t n m k \<longleftrightarrow> is_name m \<and> is_name k \<and>
     map_of t [CLEANUP_DIR, n] = Some (Fs_Link (DATA_DIR_FROM_OTHER_QUEUE @ [m, k])) \<and>
     map_of t [DATA_DIR] = Some Fs_Dir \<and> map_of t [DATA_DIR, m] = Some Fs_Dir \<and> map_of t [DATA_DIR, m, k] = Some Fs_Dir \<and>
     map_of t [DATA_DIR, m, k, METADATA_FILE] \<noteq> Some Fs_Dir \<and> map_of t [DATA_DIR, m, k, SCHEDULE_FILE] \<noteq> Some Fs_Dir"

definition without_files :: "string \<Rightarrow> string \<Rightarrow> tree \<Rightarrow> tree" where
  "without_files m k t = AList.delete [DATA_DIR, m, k, SCHEDULE_FILE] (AList.delete [DATA_DIR, m, k, METADATA_FILE] t)"

lemma map_of_without_files: "map_of (without_files m k t) =
  (map_of t)([DATA_DIR, m, k, METADATA_FILE] := None, [DATA_DIR, m, k, SCHEDULE_FILE] := None)"
  by (simp add: without_files_def AList.delete_conv')

lemma to_clean_without_files: "to_clean t n m k \<Longrightarrow> to_clean (without_files m k t) n m k"
  by (simp add: to_clean_def map_of_without_files)

lemma cleanup_calm:
  assumes "fs_faults w = []" "to_clean (fs_tree w) (fp_id mail) m k"
  shows "fs_cleanup mail w = fs_cleanup_mail mail (DATA_DIR_FROM_OTHER_QUEUE @ [m, k]) [m] k False
    (w\<lparr>fs_tree := without_files m k (fs_tree w)\<rparr>)"
proof -
  let ?l = "DATA_DIR_FROM_OTHER_QUEUE @ [m, k]"
  from assms(2) have n: "is_name m" "is_name k" and t: "map_of (fs_tree w) [CLEANUP_DIR, fp_id mail] = Some (Fs_Link ?l)"
      "map_of (fs_tree w) [DATA_DIR] = Some Fs_Dir" "map_of (fs_tree w) [DATA_DIR, m] = Some Fs_Dir"
      "map_of (fs_tree w) [DATA_DIR, m, k] = Some Fs_Dir"
    and f: "map_of (fs_tree w) [DATA_DIR, m, k, METADATA_FILE] \<noteq> Some Fs_Dir" "map_of (fs_tree w) [DATA_DIR, m, k, SCHEDULE_FILE] \<noteq> Some Fs_Dir"
    by (simp_all add: to_clean_def)
  have names: "strip_prefix DATA_DIR_FROM_OTHER_QUEUE ?l = Some [m, k]" "path_parent [m, k] = Some [m]" "path_file_name ?l = Some k"
    using n by (auto simp: strip_prefix_def path_parent_def path_file_name_def is_name_def)
  have rl: "os_read_link fs_cleanup_dir (fp_id mail) w = (w, Inr ?l)"
    using assms(1) t by (simp add: os_read_link_def fs_cleanup_dir_def sys_calm)
  have sd: "os_sub_dir fs_cleanup_dir ?l w = (w, Inr [DATA_DIR, m, k])"
    using assms(1) t walk_link [OF t(2,3) n] by (simp add: os_sub_dir_def fs_cleanup_dir_def sys_calm)
  show ?thesis unfolding fs_cleanup_def fs_found_def rl prod.case sum.case option.case sd Let_def names
    using assms(1) f by (simp add: remove_quietly_calm AList.delete_conv' without_files_def)
qed

lemma cleanup_mail_calm:
  assumes "fs_faults w = []" "to_clean (fs_tree w) n m k"
  shows "fs_cleanup_mail mail dest [m] k v w =
    fs_found (os_remove_dir [DATA_DIR, m] [k]) (\<lambda>e. (mail, RemovingFolderFromMail [k] [m] Cleanup_Q e))
      (\<lambda>removed. let vanished = (v \<or> removed = None) in
         fs_found (os_list_dir [DATA_DIR, m]) (\<lambda>e. (mail, ListingFolderInQueue [m] Data_Q e))
           (\<lambda>names. case names of
              None \<Rightarrow> fs_remove_link mail True
            | Some names \<Rightarrow>
                (if list_all (\<lambda>n. n = CONTENTS_FILE) names
                 then fs_remove_mail_dir mail dest [DATA_DIR, m] [m] (fs_remove_link mail vanished)
                 else fs_remove_link mail vanished))) w"
proof -
  have "os_sub_dir fs_data [m] w = (w, Inr [DATA_DIR, m])"
    using assms by (simp add: os_sub_dir_def fs_data_def sys_calm to_clean_def is_name_def)
  then show ?thesis by (simp add: fs_cleanup_mail_def fs_found_def [of "os_sub_dir fs_data [m]"])
qed

section \<open>A stray file\<close>

definition stray :: "tree \<Rightarrow> string \<Rightarrow> string \<Rightarrow> bool" where
  "stray t m k \<longleftrightarrow> (\<exists>f. f \<noteq> METADATA_FILE \<and> f \<noteq> SCHEDULE_FILE \<and> map_of t [DATA_DIR, m, k, f] \<noteq> None)"

lemma stray_without_files: "stray (without_files m k t) m k \<longleftrightarrow> stray t m k"
  by (auto simp: stray_def map_of_without_files)

lemma cleanup_stray:
  assumes "fs_faults w = []" "to_clean (fs_tree w) (fp_id mail) m k" "stray (fs_tree w) m k"
  shows "fs_cleanup mail w = (w\<lparr>fs_tree := without_files m k (fs_tree w)\<rparr>,
    Inl (mail, RemovingFolderFromMail [k] [m] Cleanup_Q (os_error ''Directory not empty'')))"
proof -
  let ?w = "w\<lparr>fs_tree := without_files m k (fs_tree w)\<rparr>"
  note c = to_clean_without_files [OF assms(2)]
  have "os_remove_dir [DATA_DIR, m] [k] ?w = (?w, Inl (os_error ''Directory not empty''))"
    using remove_dir_calm [of ?w k "[DATA_DIR, m]"] assms(1,3) c
    by (auto simp: to_clean_def stray_def map_of_without_files)
  then show ?thesis
    using cleanup_calm [OF assms(1,2)] cleanup_mail_calm [of ?w "fp_id mail" m k] assms(1) c
    by (simp add: fs_found_def os_error_def)
qed

text \<open>
  Claim C39. A stray file next to the metadata and the schedule of a destination, such as the
  temporary schedule that a reschedule leaves behind when its rename fails, keeps the mail from
  ever being cleaned up: on a calm file system every attempt fails the same way, and the mail stays
  in the cleanup directory.
\<close>

theorem stray_file_blocks_cleanup:
  assumes "fs_ok w" "fs_faults w = []" "to_clean (fs_tree w) (fp_id mail) m k" "stray (fs_tree w) m k"
    and "w' = ((\<lambda>w. fst (fs_cleanup mail w)) ^^ n) w"
  shows "snd (fs_cleanup mail w') = Inl (mail, RemovingFolderFromMail [k] [m] Cleanup_Q (os_error ''Directory not empty'')) \<and>
    fs_stored w' (QueueId (fp_id mail)) = Some In_Cleanup"
proof -
  have "fs_ok w' \<and> fs_faults w' = [] \<and> to_clean (fs_tree w') (fp_id mail) m k \<and> stray (fs_tree w') m k"
    unfolding assms(5)
  proof (induction n)
    case 0
    show ?case using assms(1-4) by simp
  next
    case (Suc n)
    let ?v = "((\<lambda>w. fst (fs_cleanup mail w)) ^^ n) w"
    have "fs_ok (fst (fs_cleanup mail ?v))" using fs_cleanup_cleaned [of ?v mail] Suc by (simp add: cleaned_def)
    with Suc show ?case
      using cleanup_stray [of ?v mail m k] by (simp add: to_clean_without_files stray_without_files)
  qed
  then show ?thesis using cleanup_stray [of w' mail m k] fs_stored_iff [of w' "fp_id mail" In_Cleanup] by (auto simp: to_clean_def)
qed

section \<open>Delivery\<close>

lemma remove_link_calm:
  assumes "fs_faults w = []" "map_of (fs_tree w) [CLEANUP_DIR, fp_id mail] = Some (Fs_Link l)"
  shows "\<exists>w'. fs_remove_link mail False w = (w', Inr True)"
  using assms by (simp add: fs_remove_link_def fs_found_def os_remove_file_def sys_calm fs_cleanup_dir_def)

lemma cleanup_tidy:
  assumes calm: "fs_faults w = []" and c: "to_clean (fs_tree w) (fp_id mail) m k" and t: "\<not> stray (fs_tree w) m k"
    and f: "map_of (fs_tree w) [DATA_DIR, m, CONTENTS_FILE] \<noteq> Some Fs_Dir"
  shows "\<exists>w'. fs_cleanup mail w = (w', Inr True)"
proof -
  let ?w1 = "w\<lparr>fs_tree := without_files m k (fs_tree w)\<rparr>"
  let ?w2 = "?w1\<lparr>fs_tree := AList.delete [DATA_DIR, m, k] (fs_tree ?w1)\<rparr>"
  let ?w3 = "?w2\<lparr>fs_tree := AList.delete [DATA_DIR, m, CONTENTS_FILE] (fs_tree ?w2)\<rparr>"
  note c1 = to_clean_without_files [OF c]
  have m2: "map_of (fs_tree ?w2) = (map_of (fs_tree ?w1))([DATA_DIR, m, k] := None)" by (simp add: AList.delete_conv')
  have rd: "os_remove_dir [DATA_DIR, m] [k] ?w1 = (?w2, Inr ())"
    using remove_dir_calm [of ?w1 k "[DATA_DIR, m]"] calm c1 t
    by (auto simp: to_clean_def stray_def map_of_without_files)
  have ls: "os_list_dir [DATA_DIR, m] ?w2 = (?w2, Inr (dir_names (fs_tree ?w2) [DATA_DIR, m]))"
    using calm c1 by (simp add: os_list_dir_def sys_calm to_clean_def AList.delete_conv')
  have link: "\<exists>w'. fs_remove_link mail False v = (w', Inr True)"
    if "fs_faults v = []" "map_of (fs_tree v) [CLEANUP_DIR, fp_id mail] = map_of (fs_tree w) [CLEANUP_DIR, fp_id mail]" for v :: "'a fs_world_scheme"
    using remove_link_calm [OF that(1)] that(2) c by (simp add: to_clean_def)
  have mail: "\<exists>w'. fs_remove_mail_dir mail dest [DATA_DIR, m] [m] (fs_remove_link mail False) ?w2 = (w', Inr True)"
    if "list_all (\<lambda>n. n = CONTENTS_FILE) (dir_names (fs_tree ?w2) [DATA_DIR, m])" for dest
  proof -
    have "map_of (fs_tree ?w2) [DATA_DIR, m, g] = None" if "g \<noteq> CONTENTS_FILE" for g
      using that \<open>list_all _ _\<close> set_dir_names [of g "fs_tree ?w2" "[DATA_DIR, m]"] by (auto simp: list_all_iff)
    then have "os_remove_dir [DATA_DIR] [m] ?w3 = (?w3\<lparr>fs_tree := AList.delete [DATA_DIR, m] (fs_tree ?w3)\<rparr>, Inr ())"
      using remove_dir_calm [of ?w3 m "[DATA_DIR]"] calm c1 by (auto simp: to_clean_def AList.delete_conv')
    moreover have "\<exists>w'. fs_remove_link mail False (?w3\<lparr>fs_tree := AList.delete [DATA_DIR, m] (fs_tree ?w3)\<rparr>) = (w', Inr True)"
      by (rule link) (use calm in \<open>simp_all add: AList.delete_conv' map_of_without_files\<close>)
    ultimately show ?thesis
      unfolding fs_remove_mail_dir_def fs_data_def using calm f
      by (simp add: remove_quietly_calm AList.delete_conv' map_of_without_files fs_found_def)
  qed
  have "\<exists>w'. fs_remove_link mail False ?w2 = (w', Inr True)"
    by (rule link) (use calm in \<open>simp_all add: AList.delete_conv' map_of_without_files\<close>)
  with mail show ?thesis
    using cleanup_calm [OF calm c] cleanup_mail_calm [of ?w1 "fp_id mail" m k mail _ False] calm c1
    by (simp add: fs_found_def rd [simplified] ls [simplified] Let_def)
qed

text \<open>A mail on disk with nothing else in the directory of its destination.\<close>

definition tidy :: "'u Json \<Rightarrow> 'z fs_world_scheme \<Rightarrow> place \<Rightarrow> string \<Rightarrow> 'u QMailMetadata \<Rightarrow> ScheduleInfo \<Rightarrow> bytes \<Rightarrow> bool" where
  "tidy js w p n meta sched contents \<longleftrightarrow> fs_ok w \<and> fs_faults w = [] \<and>
     (\<exists>m k. map_of (fs_tree w) [place_dir p, n] = Some (Fs_Link (DATA_DIR_FROM_OTHER_QUEUE @ [m, k])) \<and>
        mail_files (fs_tree w) m k (js_meta js meta) (js_sched js sched) contents \<and> \<not> stray (fs_tree w) m k)"

lemma tidy_elsewhere:
  assumes "tidy js w p n meta sched contents" "elsewhere f w = (w', a)"
  shows "tidy js w' p n meta sched contents"
proof -
  have "fs_ok w'" using data_only_ok [OF elsewhere_data [OF assms(2)]] assms(1) by (simp add: tidy_def)
  moreover have "fs_tree w' = fs_tree w" "fs_faults w' = fs_faults w"
    using assms(2) by (auto simp: elsewhere_def split: prod.splits)
  ultimately show ?thesis using assms(1) by (simp add: tidy_def)
qed

lemma fs_move_calm:
  assumes t: "tidy js w p n meta sched contents" and p: "p \<noteq> p'"
  shows "\<exists>w'. fs_move [place_dir p] [place_dir p'] n mail err into w = (w', Inr (Some (into mail))) \<and>
    tidy js w' p' n meta sched contents"
proof -
  from t obtain m k where ok: "fs_ok w" "fs_faults w = []"
    and l: "map_of (fs_tree w) [place_dir p, n] = Some (Fs_Link (DATA_DIR_FROM_OTHER_QUEUE @ [m, k]))"
    and f: "mail_files (fs_tree w) m k (js_meta js meta) (js_sched js sched) contents" "\<not> stray (fs_tree w) m k"
    by (auto simp: tidy_def)
  let ?w = "w\<lparr>fs_tree := AList.update [place_dir p', n] (Fs_Link (DATA_DIR_FROM_OTHER_QUEUE @ [m, k]))
      (AList.delete [place_dir p, n] (fs_tree w))\<rparr>"
  have g: "map_ok (map_of (fs_tree w))" using ok(1) by (simp add: fs_ok_def tree_ok_def)
  have mv: "fs_move [place_dir p] [place_dir p'] n mail err into w = (?w, Inr (Some (into mail)))"
    using ok(2) l map_okD(1) [OF g, of "place_dir p'"] map_okD(3) [OF g, of "place_dir p'" "[n]" Fs_Dir]
    by (auto simp: fs_move_def fs_found_def os_rename_def sys_calm)
  moreover have "fs_ok ?w" using fs_move_moved [OF ok(1) p, of n mail into err] mv by (simp add: moved_def)
  moreover have "mail_files (fs_tree ?w) m k (js_meta js meta) (js_sched js sched) contents" "\<not> stray (fs_tree ?w) m k"
    using f by (simp_all add: mail_files_def stray_def AList.update_conv' AList.delete_conv')
  ultimately show ?thesis using ok(2) unfolding tidy_def by (auto simp: AList.update_conv')
qed

lemma tidy_read:
  assumes "tidy js w In_Inflight (fi_id i) meta sched contents" "js_parse_meta js (js_meta js meta) = Inr meta"
  shows "fs_read_inflight js i w = (w, Inr (meta, contents))"
proof (rule read_on_disk)
  show "on_disk js (fs_tree w) In_Inflight (fi_id i) meta sched contents"
    using assms(1) unfolding tidy_def on_disk_def by blast
qed (use assms in \<open>simp_all add: tidy_def\<close>)

lemma tidy_cleanup:
  assumes "tidy js w In_Cleanup (fp_id mail) meta sched contents"
  shows "\<exists>w'. fs_cleanup mail w = (w', Inr True) \<and> fs_stored w' (QueueId (fp_id mail)) = None"
proof -
  from assms obtain m k where ok: "fs_ok w" "fs_faults w = []"
    and l: "map_of (fs_tree w) [CLEANUP_DIR, fp_id mail] = Some (Fs_Link (DATA_DIR_FROM_OTHER_QUEUE @ [m, k]))"
    and f: "mail_files (fs_tree w) m k (js_meta js meta) (js_sched js sched) contents" "\<not> stray (fs_tree w) m k"
    by (auto simp: tidy_def)
  have "map_of (fs_tree w) [DATA_DIR] = Some Fs_Dir" using ok(1) map_okD(1) by (auto simp: fs_ok_def tree_ok_def)
  with l f have "to_clean (fs_tree w) (fp_id mail) m k" by (simp add: to_clean_def mail_files_def)
  from cleanup_tidy [OF ok(2) this f(2)] f(1) obtain w' where w': "fs_cleanup mail w = (w', Inr True)"
    by (auto simp: mail_files_def)
  moreover have "fs_stored w (QueueId (fp_id mail)) = Some In_Cleanup" using fs_stored_iff [OF ok(1), of _ In_Cleanup] l by simp
  ultimately show ?thesis using fs_cleanup_cleaned [OF ok(1), of mail] by (auto simp: cleaned_def)
qed

text \<open>The turns of the task that sends a mail, when everything goes well.\<close>

lemma calm_turns:
  assumes "js_parse_meta js (js_meta js meta) = Inr meta"
  shows
    "tidy js w In_Queue (fq_id mail) meta sched contents \<Longrightarrow> \<exists>w' evs. task_step (fs_queue_impl js c tr ch) w (Send mail) =
        (w', evs, [Send_Start initial_delay (QueueId (fq_id mail)) mail]) \<and> tidy js w' In_Queue (fq_id mail) meta sched contents"
    "tidy js w In_Queue (fq_id mail) meta sched contents \<Longrightarrow> \<exists>w' evs. task_step (fs_queue_impl js c tr ch) w (Send_Start dl qid mail) =
        (w', evs, [Read_Inflight initial_delay qid (queued_into_inflight mail)]) \<and> tidy js w' In_Inflight (fq_id mail) meta sched contents"
    "tidy js w In_Inflight (fi_id i) meta sched contents \<Longrightarrow> \<exists>w' evs. task_step (fs_queue_impl js c tr ch) w (Read_Inflight dl qid i) =
        (w', evs, [Destination qid i meta contents]) \<and> tidy js w' In_Inflight (fi_id i) meta sched contents"
    "tidy js w In_Inflight (fi_id i) meta sched contents \<Longrightarrow> \<exists>w' evs. task_step (fs_queue_impl js c tr ch) w (Send_Done dl qid i) =
        (w', evs, [Cleanup initial_delay (QueueId (fi_id i)) (inflight_into_pending_cleanup i)]) \<and>
        tidy js w' In_Cleanup (fi_id i) meta sched contents"
    "tidy js w In_Cleanup (fp_id pm) meta sched contents \<Longrightarrow> \<exists>w' evs. task_step (fs_queue_impl js c tr ch) w (Cleanup dl qid pm) =
        (w', evs, []) \<and> fs_stored w' (QueueId (fp_id pm)) = None"
proof -
  assume t: "tidy js w In_Queue (fq_id mail) meta sched contents"
  obtain w' now where "elsewhere (utc_now ch) w = (w', now)" by force
  with t tidy_elsewhere show "\<exists>w' evs. task_step (fs_queue_impl js c tr ch) w (Send mail) =
        (w', evs, [Send_Start initial_delay (QueueId (fq_id mail)) mail]) \<and> tidy js w' In_Queue (fq_id mail) meta sched contents"
    by (auto simp: send_wait_step_def fs_queue_impl_def try_send_def Let_def)
  show "\<exists>w' evs. task_step (fs_queue_impl js c tr ch) w (Send_Start dl qid mail) =
        (w', evs, [Read_Inflight initial_delay qid (queued_into_inflight mail)]) \<and> tidy js w' In_Inflight (fq_id mail) meta sched contents"
    using fs_move_calm [OF t, of In_Inflight mail "MovingMailBetweenQueues (fq_id mail) Queue_Q Inflight_Q" queued_into_inflight]
    by (auto simp: send_start_step_def io_retry_loop_def fs_send_start_def handle_defs)
next
  assume t: "tidy js w In_Inflight (fi_id i) meta sched contents"
  show "\<exists>w' evs. task_step (fs_queue_impl js c tr ch) w (Read_Inflight dl qid i) =
        (w', evs, [Destination qid i meta contents]) \<and> tidy js w' In_Inflight (fi_id i) meta sched contents"
    using t tidy_read [OF t assms] by (simp add: read_inflight_step_def io_retry_loop_def)
  show "\<exists>w' evs. task_step (fs_queue_impl js c tr ch) w (Send_Done dl qid i) =
        (w', evs, [Cleanup initial_delay (QueueId (fi_id i)) (inflight_into_pending_cleanup i)]) \<and>
        tidy js w' In_Cleanup (fi_id i) meta sched contents"
    using fs_move_calm [OF t, of In_Cleanup i "MovingMailBetweenQueues (fi_id i) Inflight_Q Cleanup_Q" inflight_into_pending_cleanup]
    by (auto simp: send_done_step_def io_retry_loop_def fs_send_done_def handle_defs cleanup_def inflight_into_pending_cleanup_def)
next
  assume t: "tidy js w In_Cleanup (fp_id pm) meta sched contents"
  show "\<exists>w' evs. task_step (fs_queue_impl js c tr ch) w (Cleanup dl qid pm) =
        (w', evs, []) \<and> fs_stored w' (QueueId (fp_id pm)) = None"
    using tidy_cleanup [OF t] by (auto simp: cleanup_step_def io_retry_loop_def)
qed

lemma tidy_answer:
  assumes "tidy js w p n meta sched contents" "f (fs_world.more w) = (z, a)"
  shows "\<exists>w'. elsewhere f w = (w', a) \<and> tidy js w' p n meta sched contents"
  using tidy_elsewhere [OF assms(1), of f] assms(2) by (simp add: elsewhere_def)

lemma accepted_turns:
  assumes t: "tidy js w In_Inflight (fi_id i) meta sched contents"
  shows "(\<And>z. \<exists>z' d. tr_destination tr z meta = (z', Inr d)) \<Longrightarrow>
      \<exists>w' evs d. task_step (fs_queue_impl js c tr ch) w (Destination qid i meta contents) =
        (w', evs, [Connect qid i meta contents d]) \<and> tidy js w' In_Inflight (fi_id i) meta sched contents"
    "(\<And>z. \<exists>z' sn. tr_connect tr z d = (z', Inr sn)) \<Longrightarrow>
      \<exists>w' evs sn. task_step (fs_queue_impl js c tr ch) w (Connect qid i meta contents d) =
        (w', evs, [Transmit qid i meta contents sn]) \<and> tidy js w' In_Inflight (fi_id i) meta sched contents"
    "(\<And>z. \<exists>z' u. tr_send tr z sn meta contents = (z', Inr u)) \<Longrightarrow>
      \<exists>w'. task_step (fs_queue_impl js c tr ch) w (Transmit qid i meta contents sn) =
        (w', [Delivered (QueueId (fi_id i))], [Send_Done initial_delay qid i]) \<and> tidy js w' In_Inflight (fi_id i) meta sched contents"
proof -
  {
    assume "\<And>z. \<exists>z' d. tr_destination tr z meta = (z', Inr d)"
    then obtain z' d where "tr_destination tr (fs_world.more w) meta = (z', Inr d)" by blast
    from tidy_answer [OF t, of "\<lambda>z. tr_destination tr z meta", OF this]
    show "\<exists>w' evs d. task_step (fs_queue_impl js c tr ch) w (Destination qid i meta contents) =
        (w', evs, [Connect qid i meta contents d]) \<and> tidy js w' In_Inflight (fi_id i) meta sched contents"
      by (auto simp: destination_step_def fs_queue_impl_def)
  next
    assume "\<And>z. \<exists>z' sn. tr_connect tr z d = (z', Inr sn)"
    then obtain z' sn where "tr_connect tr (fs_world.more w) d = (z', Inr sn)" by blast
    from tidy_answer [OF t, of "\<lambda>z. tr_connect tr z d", OF this]
    show "\<exists>w' evs sn. task_step (fs_queue_impl js c tr ch) w (Connect qid i meta contents d) =
        (w', evs, [Transmit qid i meta contents sn]) \<and> tidy js w' In_Inflight (fi_id i) meta sched contents"
      by (auto simp: connect_step_def fs_queue_impl_def)
  next
    assume "\<And>z. \<exists>z' u. tr_send tr z sn meta contents = (z', Inr u)"
    then obtain z' u where "tr_send tr (fs_world.more w) sn meta contents = (z', Inr u)" by blast
    from tidy_answer [OF t, of "\<lambda>z. tr_send tr z sn meta contents", OF this]
    show "\<exists>w'. task_step (fs_queue_impl js c tr ch) w (Transmit qid i meta contents sn) =
        (w', [Delivered (QueueId (fi_id i))], [Send_Done initial_delay qid i]) \<and> tidy js w' In_Inflight (fi_id i) meta sched contents"
      by (auto simp: transmit_step_def fs_queue_impl_def)
  }
qed


text \<open>One task going on while the others wait.\<close>

definition with_task :: "('w, 'qm, 'im, 'pm, 'e, 'u, 'r, 'd, 's) runner \<Rightarrow> ('qm, 'im, 'pm, 'u, 'r, 'd, 's) task list \<Rightarrow>
    ('qm, 'im, 'pm, 'u, 'r, 'd, 's) task list \<Rightarrow> 'w \<Rightarrow> 'e event list \<Rightarrow> ('qm, 'im, 'pm, 'u, 'r, 'd, 's) task list \<Rightarrow>
    ('w, 'qm, 'im, 'pm, 'e, 'u, 'r, 'd, 's) runner" where
  "with_task s ts us w log t = s\<lparr>rn_world := w, rn_log := log, rn_tasks := ts @ t @ us\<rparr>"

lemma with_task_turn:
  assumes "task_step q w t = (w', evs, ts')"
  shows "queue_step q outside (with_task s ts us w log [t]) (with_task s ts us w' (log @ evs) ts')"
  using queue_step.task_ran [of "with_task s ts us w log [t]" ts t us q w' evs ts' outside] assms by (simp add: with_task_def)

lemma with_task_turns:
  assumes "rtranclp (queue_step q outside) s0 (with_task s ts us w log [t])" "task_step q w t = (w', evs, ts')"
  shows "rtranclp (queue_step q outside) s0 (with_task s ts us w' (log @ evs) ts')"
  using assms(1) with_task_turn [OF assms(2)] by (rule rtranclp.rtrancl_into_rtrancl)

text \<open>
  Claim C24. Delivery: whatever the other tasks are, when nothing fails and the transport accepts
  the mail, a mail waiting in the queue gets delivered: its task can go on to its end, the mail has
  then been handed to the transport with the metadata and contents that are on disk, and it is gone
  from the storage; the other tasks are as they were.
\<close>

theorem mail_gets_delivered:
  assumes task: "rn_tasks s = ts @ Send mail # us"
    and t: "tidy js (rn_world s) In_Queue (fq_id mail) meta sched contents"
    and js: "js_parse_meta js (js_meta js meta) = Inr meta"
    and tr: "\<And>z. \<exists>z' d. tr_destination tr z meta = (z', Inr d)" "\<And>z d. \<exists>z' sn. tr_connect tr z d = (z', Inr sn)"
      "\<And>z sn. \<exists>z' u. tr_send tr z sn meta contents = (z', Inr u)"
  shows "\<exists>s'. rtranclp (queue_step (fs_queue_impl js c tr ch) fs_outside) s s' \<and> rn_tasks s' = ts @ us \<and>
    Delivered (QueueId (fq_id mail)) \<in> set (rn_log s') \<and> fs_stored (rn_world s') (QueueId (fq_id mail)) = None"
proof -
  let ?q = "fs_queue_impl js c tr ch" and ?i = "queued_into_inflight mail" and ?x = "QueueId (fq_id mail)"
  let ?p = "inflight_into_pending_cleanup ?i"
  have ids: "fi_id ?i = fq_id mail" "fp_id ?p = fq_id mail" by (simp_all add: into_defs)
  note go = with_task_turns [where q = ?q and outside = fs_outside and s = s and ts = ts and us = us]
  have 0: "rtranclp (queue_step ?q fs_outside) s (with_task s ts us (rn_world s) (rn_log s) [Send mail])"
    using task by (cases s) (simp add: with_task_def)
  obtain w1 e1 where 1: "task_step ?q (rn_world s) (Send mail) = (w1, e1, [Send_Start initial_delay ?x mail])"
      "tidy js w1 In_Queue (fq_id mail) meta sched contents" using calm_turns(1) [OF js t] by blast
  obtain w2 e2 where 2: "task_step ?q w1 (Send_Start initial_delay ?x mail) = (w2, e2, [Read_Inflight initial_delay ?x ?i])"
      "tidy js w2 In_Inflight (fi_id ?i) meta sched contents" using calm_turns(2) [OF js 1(2)] ids by metis
  obtain w3 e3 where 3: "task_step ?q w2 (Read_Inflight initial_delay ?x ?i) = (w3, e3, [Destination ?x ?i meta contents])"
      "tidy js w3 In_Inflight (fi_id ?i) meta sched contents" using calm_turns(3) [OF js 2(2)] by blast
  obtain w4 e4 d where 4: "task_step ?q w3 (Destination ?x ?i meta contents) = (w4, e4, [Connect ?x ?i meta contents d])"
      "tidy js w4 In_Inflight (fi_id ?i) meta sched contents" using accepted_turns(1) [OF 3(2) tr(1)] by blast
  obtain w5 e5 sn where 5: "task_step ?q w4 (Connect ?x ?i meta contents d) = (w5, e5, [Transmit ?x ?i meta contents sn])"
      "tidy js w5 In_Inflight (fi_id ?i) meta sched contents" using accepted_turns(2) [OF 4(2) tr(2)] by blast
  obtain w6 where 6: "task_step ?q w5 (Transmit ?x ?i meta contents sn) = (w6, [Delivered ?x], [Send_Done initial_delay ?x ?i])"
      "tidy js w6 In_Inflight (fi_id ?i) meta sched contents" using accepted_turns(3) [OF 5(2) tr(3)] ids by metis
  obtain w7 e7 where 7: "task_step ?q w6 (Send_Done initial_delay ?x ?i) = (w7, e7, [Cleanup initial_delay ?x ?p])"
      "tidy js w7 In_Cleanup (fp_id ?p) meta sched contents" using calm_turns(4) [OF js 6(2)] ids by metis
  obtain w8 e8 where 8: "task_step ?q w7 (Cleanup initial_delay ?x ?p) = (w8, e8, [])" "fs_stored w8 ?x = None"
    using calm_turns(5) [OF js 7(2)] ids by metis
  note go [OF go [OF go [OF go [OF go [OF go [OF go [OF go [OF 0 1(1)] 2(1)] 3(1)] 4(1)] 5(1)] 6(1)] 7(1)] 8(1)]
  moreover have "rn_tasks (with_task s ts us w8 l []) = ts @ us" "rn_world (with_task s ts us w8 l []) = w8"
      "rn_log (with_task s ts us w8 l []) = l" for l by (simp_all add: with_task_def)
  ultimately show ?thesis using 8(2) by fastforce
qed

section \<open>An example\<close>

definition demo_uuid :: "nat \<Rightarrow> string" where
  "demo_uuid i = replicate (Suc i) (CHR ''u'')"

lemma demo_uuids: "inj demo_uuid \<and> (\<forall>i. is_name (demo_uuid i))"
proof (intro conjI injI allI)
  fix i j
  assume "demo_uuid i = demo_uuid j"
  then have "length (demo_uuid i) = length (demo_uuid j)" by simp
  then show "i = j" by (simp add: demo_uuid_def)
next
  fix i
  have "set (demo_uuid i) = {CHR ''u''}" unfolding demo_uuid_def by (rule set_replicate_Suc)
  then have "CHR ''.'' \<notin> set (demo_uuid i)" "CHR ''/'' \<notin> set (demo_uuid i)" "demo_uuid i \<noteq> []"
    by (simp_all add: demo_uuid_def)
  then show "is_name (demo_uuid i)" unfolding is_name_def by (cases "demo_uuid i") auto
qed

definition demo_world :: "tree \<Rightarrow> nat \<Rightarrow> fs_world" where
  "demo_world t i = \<lparr>fs_tree = t, fs_faults = [], fs_uuids = demo_uuid, fs_next_uuid = i\<rparr>"

lemma demo_world_simps [simp]:
  "fs_tree (demo_world t i) = t" "fs_faults (demo_world t i) = []" "(demo_world t i)\<lparr>fs_tree := t'\<rparr> = demo_world t' i"
  "fs_uuids (demo_world t i) = demo_uuid" "new_uuid (demo_world t i) = (demo_world t (Suc i), demo_uuid i)"
  by (simp_all add: demo_world_def new_uuid_def)

lemma demo_empty_ok: "fs_ok (demo_world empty_tree i)"
  using empty_storage_ok [of "demo_world empty_tree i"] demo_uuids by simp

text \<open>Two destinations of a mail, told apart by their metadata.\<close>

definition demo_meta :: "bool \<Rightarrow> bool QMailMetadata" where
  "demo_meta b = \<lparr>qmm_from = None, qmm_to = \<lparr>em_localpart = Lp_Ascii ''root'', em_hostname = None\<rparr>, qmm_metadata = b\<rparr>"

definition demo_json :: "bool Json" where
  "demo_json = \<lparr>js_meta = (\<lambda>m. if qmm_metadata m then ''t'' else ''f''), js_parse_meta = (\<lambda>bs. Inr (demo_meta (bs = ''t''))),
     js_sched = (\<lambda>_. ''s''), js_parse_sched = (\<lambda>_. Inr \<lparr>sched_at = 0, last_attempt = None\<rparr>)\<rparr>"

definition demo_dests :: "(bool QMailMetadata \<times> ScheduleInfo) list" where
  "demo_dests = [(demo_meta True, \<lparr>sched_at = 0, last_attempt = None\<rparr>), (demo_meta False, \<lparr>sched_at = 5, last_attempt = None\<rparr>)]"

definition written_tree :: "bytes \<Rightarrow> tree" where
  "written_tree bs = empty_tree @ [([DATA_DIR, ''u''], Fs_Dir), ([DATA_DIR, ''u'', CONTENTS_FILE], Fs_File bs)]"

definition dest_tree :: "string \<Rightarrow> bytes \<Rightarrow> string \<Rightarrow> string \<Rightarrow> tree" where
  "dest_tree k meta q l =
     [([DATA_DIR, ''u'', k], Fs_Dir), ([DATA_DIR, ''u'', k, SCHEDULE_FILE], Fs_File ''s''),
      ([DATA_DIR, ''u'', k, METADATA_FILE], Fs_File meta), ([q, l], Fs_Link (DATA_DIR_FROM_OTHER_QUEUE @ [''u'', k]))]"

lemmas demo_calls = fs_try_def os_create_def os_sub_dir_def os_write_file_def sys_calm handle_defs dir_defs is_name_def
  CONTENTS_FILE_def SCHEDULE_FILE_def METADATA_FILE_def

lemma demo_enqueue: "fs_enqueue (demo_world empty_tree 0) = (demo_world (written_tree []) 1, Inr \<lparr>fe_mail_uuid = ''u''\<rparr>)"
  by (simp add: fs_enqueue_def demo_calls written_tree_def empty_tree_def demo_uuid_def)

lemma demo_write: "fs_enqueuer_write \<lparr>fe_mail_uuid = ''u''\<rparr> bs (demo_world (written_tree []) i) = (demo_world (written_tree bs) i, Inr ())"
  by (simp add: fs_enqueuer_write_def fe_mail_dir_def demo_calls written_tree_def empty_tree_def)

lemma demo_dest:
  assumes "(k, l) = (''uu'', ''uuuu'') \<and> i = 3 \<and> t = [] \<or> (k, l) = (''uuu'', ''uuuuu'') \<and> i = 4 \<and> t = dest_tree ''uu'' ''t'' QUEUE_DIR ''uuuu''"
  shows "make_dest_dir demo_json \<lparr>fe_mail_uuid = ''u''\<rparr> k (demo_meta b) sched (demo_world (written_tree bs @ t) i) =
   (demo_world (written_tree bs @ t @ dest_tree k (if b then ''t'' else ''f'') QUEUE_DIR l) (Suc i),
    Inr \<lparr>fq_id = l, fq_schedule = sched\<rparr>)"
  using assms
  by (elim disjE)
     (simp_all add: make_dest_dir_def Let_def fe_mail_dir_def demo_calls written_tree_def empty_tree_def dest_tree_def demo_json_def demo_meta_def
      queued_found_def demo_uuid_def numeral_eq_Suc)

definition demo_committed :: "bytes \<Rightarrow> tree" where
  "demo_committed bs = written_tree bs @ dest_tree ''uu'' ''t'' QUEUE_DIR ''uuuu'' @ dest_tree ''uuu'' ''f'' QUEUE_DIR ''uuuuu''"

definition demo_mails :: "FsQueuedMail list" where
  "demo_mails = [\<lparr>fq_id = ''uuuu'', fq_schedule = \<lparr>sched_at = 0, last_attempt = None\<rparr>\<rparr>,
     \<lparr>fq_id = ''uuuuu'', fq_schedule = \<lparr>sched_at = 5, last_attempt = None\<rparr>\<rparr>]"

lemma demo_commit:
  "fs_commit demo_json \<lparr>fe_mail_uuid = ''u''\<rparr> demo_dests (demo_world (written_tree bs) 1) =
    (demo_world (demo_committed bs) 5, Inr demo_mails)"
  using demo_dest [of "''uu''" "''uuuu''" 3 "[]" True "\<lparr>sched_at = 0, last_attempt = None\<rparr>" bs]
    demo_dest [of "''uuu''" "''uuuuu''" 4 "dest_tree ''uu'' ''t'' QUEUE_DIR ''uuuu''" False "\<lparr>sched_at = 5, last_attempt = None\<rparr>" bs]
  by (simp add: fs_commit_def fs_enqueuer_flush_def sys_calm demo_dests_def demo_committed_def demo_mails_def demo_uuid_def numeral_eq_Suc)

lemma demo_written_ok: "fs_ok (demo_world (written_tree bs) 1)"
proof -
  have "fs_ok (demo_world (written_tree []) 1)"
    using data_only_ok [OF fs_enqueue_data, OF demo_enqueue] demo_empty_ok by blast
  then show ?thesis using data_only_ok [OF fs_enqueuer_write_data, OF demo_write] by blast
qed

lemma demo_committed_ok: "fs_ok (demo_world (demo_committed bs) 5)"
proof -
  from fs_commit_committed [OF demo_written_ok, of bs demo_json "\<lparr>fe_mail_uuid = ''u''\<rparr>" demo_dests, unfolded demo_commit] show ?thesis
    by (simp add: committed_def)
qed

definition demo_sent :: "bytes \<Rightarrow> tree" where
  "demo_sent bs = written_tree bs @ dest_tree ''uu'' ''t'' QUEUE_DIR ''uuuu'' @ dest_tree ''uuu'' ''f'' INFLIGHT_DIR ''uuuuu''"

lemma demo_send_start:
  "fs_send_start (demo_mails ! 1) (demo_world (demo_committed bs) i) =
    (demo_world (demo_sent bs) i, Inr (Some \<lparr>fi_id = ''uuuuu'', fi_schedule = \<lparr>sched_at = 5, last_attempt = None\<rparr>\<rparr>))"
  by (simp add: fs_send_start_def fs_move_def fs_found_def os_rename_def demo_calls demo_mails_def demo_committed_def demo_sent_def
      written_tree_def empty_tree_def dest_tree_def queued_into_inflight_def)

lemma commit_read_round_trip_witness:
  "\<exists>w1 w2 w3 w4 en i. fs_enqueue (demo_world empty_tree 0) = (w1, Inr en) \<and>
    fs_enqueuer_write en ''Hello'' w1 = (w2, Inr ()) \<and> fs_commit demo_json en demo_dests w2 = (w3, Inr demo_mails) \<and>
    fs_send_start (demo_mails ! 1) w3 = (w4, Inr (Some i)) \<and>
    fs_read_inflight demo_json i w4 = (w4, Inr (demo_meta False, ''Hello''))"
proof -
  have parse: "js_parse_meta demo_json (js_meta demo_json (fst (demo_dests ! 1))) = Inr (fst (demo_dests ! 1))"
    by (simp add: demo_json_def demo_dests_def demo_meta_def)
  note commit_read_round_trip [OF demo_empty_ok demo_enqueue demo_write demo_commit _ demo_send_start _ parse]
  moreover have "1 < length demo_dests" "fst (demo_dests ! 1) = demo_meta False" by (simp_all add: demo_dests_def)
  ultimately show ?thesis using demo_enqueue demo_write demo_commit demo_send_start by fastforce
qed

lemma storage_opens_witness:
  "\<exists>w'. fs_storage_new (demo_world [] 0) = (w', Inr \<lparr>fst_data = fs_data, fst_queue = fs_queue, fst_inflight = fs_inflight,
      fst_cleanup = fs_cleanup_dir\<rparr>) \<and> fs_ok w' \<and> fs_stored w' = Map.empty"
  using storage_opens [of "demo_world [] 0"] demo_uuids by simp

text \<open>A transport that accepts every mail, a configuration that gives up at once, and a stopped clock.\<close>

definition demo_transport :: "(unit, bool, bytes, unit, unit) Transport" where
  "demo_transport = \<lparr>tr_destination = (\<lambda>z _. (z, Inr ())), tr_connect = (\<lambda>z _. (z, Inr ())), tr_send = (\<lambda>z _ _ _. (z, Inr ()))\<rparr>"

definition demo_config :: "unit QConfig" where
  "demo_config = \<lparr>qc_next_interval = (\<lambda>z _. (z, None)), qc_found_inflight_check_delay = default_found_inflight_check_delay,
     qc_io_error_next_retry_delay = default_io_error_next_retry_delay\<rparr>"

definition demo_chrono :: "unit Chrono" where
  "demo_chrono = \<lparr>utc_now = (\<lambda>z. (z, 0)), from_std = (\<lambda>d. Some (int d)), instant_add = (\<lambda>a b. Some (a + b))\<rparr>"

lemma demo_tidy:
  "tidy demo_json (demo_world (demo_committed bs) 5) In_Queue ''uuuu'' (demo_meta True) \<lparr>sched_at = 0, last_attempt = None\<rparr> bs"
proof -
  let ?t = "demo_committed bs"
  have "map_of ?t [QUEUE_DIR, ''uuuu''] = Some (Fs_Link (DATA_DIR_FROM_OTHER_QUEUE @ [''u'', ''uu'']))"
    by (simp add: demo_committed_def written_tree_def empty_tree_def dest_tree_def demo_calls)
  moreover have "mail_files ?t ''u'' ''uu'' (js_meta demo_json (demo_meta True)) (js_sched demo_json \<lparr>sched_at = 0, last_attempt = None\<rparr>) bs"
    by (simp add: mail_files_def demo_json_def demo_meta_def demo_committed_def written_tree_def empty_tree_def dest_tree_def demo_calls)
  moreover have "\<not> stray ?t ''u'' ''uu''"
    by (auto simp: stray_def demo_committed_def written_tree_def empty_tree_def dest_tree_def demo_calls split: if_splits)
  ultimately show ?thesis unfolding tidy_def using demo_committed_ok by auto
qed

definition demo_runner :: "(fs_world, FsQueuedMail, FsInflightMail, FsPendingCleanupMail, FsError, bool, bytes, unit, unit) runner" where
  "demo_runner = (queue_new (demo_world (demo_committed ''Hi'') 5))\<lparr>rn_tasks := map Send demo_mails\<rparr>"

lemma mail_gets_delivered_witness:
  "\<exists>s'. rtranclp (queue_step (fs_queue_impl demo_json demo_config demo_transport demo_chrono) fs_outside) demo_runner s' \<and>
    rn_tasks s' = [Send (demo_mails ! 1)] \<and> Delivered (QueueId ''uuuu'') \<in> set (rn_log s') \<and>
    fs_stored (rn_world s') (QueueId ''uuuu'') = None"
proof -
  have t: "rn_tasks demo_runner = [] @ Send (demo_mails ! 0) # [Send (demo_mails ! 1)]"
    by (simp add: demo_runner_def demo_mails_def)
  have "tidy demo_json (rn_world demo_runner) In_Queue (fq_id (demo_mails ! 0)) (demo_meta True) \<lparr>sched_at = 0, last_attempt = None\<rparr> ''Hi''"
    using demo_tidy by (simp add: demo_runner_def demo_mails_def queue_new_def)
  from mail_gets_delivered [OF t this] show ?thesis
    by (simp add: demo_transport_def demo_json_def demo_meta_def) (simp add: demo_mails_def)
qed

text \<open>How a stray file comes about: the rename at the end of a reschedule fails, and the mail is given up.\<close>

definition demo_faulty :: "tree \<Rightarrow> nat \<Rightarrow> string option list \<Rightarrow> fs_world" where
  "demo_faulty t i fs = (demo_world t i)\<lparr>fs_faults := fs\<rparr>"

lemma demo_faulty_simps:
  "sys call (demo_faulty t i (None # fs)) =
     (case call t of Inl e \<Rightarrow> (demo_faulty t i fs, Inl e) | Inr (t', a) \<Rightarrow> (demo_faulty t' i fs, Inr a))"
  "sys call (demo_faulty t i (Some msg # fs)) = (demo_faulty t i fs, Inl (os_error msg))"
  "new_uuid (demo_faulty t i fs) = (demo_faulty t (Suc i) fs, demo_uuid i)"
  "demo_faulty t i [] = demo_world t i"
  by (auto simp: demo_faulty_def demo_world_def sys_def Let_def new_uuid_def split: sum.splits)

definition demo_left :: tree where
  "demo_left = demo_committed ''Hi'' @ [([DATA_DIR, ''u'', ''uu'', TMP_SCHEDULE_FILE_PREFIX @ demo_uuid 5], Fs_File ''s'')]"

lemma demo_reschedule:
  "fs_reschedule demo_json (demo_mails ! 0) \<lparr>sched_at = 60, last_attempt = Some 0\<rparr>
     (demo_faulty (demo_committed ''Hi'') 5 [None, None, None, None, Some ''I/O error'']) =
   (demo_world demo_left 6, \<lparr>fq_id = ''uuuu'', fq_schedule = \<lparr>sched_at = 60, last_attempt = Some 0\<rparr>\<rparr>,
    Inl (RenamingFileInMail (TMP_SCHEDULE_FILE_PREFIX @ demo_uuid 5) SCHEDULE_FILE ''uuuu'' Queue_Q (os_error ''I/O error'')))"
  by (simp add: fs_reschedule_def os_read_link_def os_rename_def fs_try_def os_create_def os_sub_dir_def os_write_file_def
      demo_faulty_simps handle_defs dir_defs is_name_def CONTENTS_FILE_def SCHEDULE_FILE_def METADATA_FILE_def
      demo_left_def demo_mails_def demo_committed_def written_tree_def empty_tree_def dest_tree_def
      demo_json_def demo_uuid_def TMP_SCHEDULE_FILE_PREFIX_def MAX_LINKS_def numeral_eq_Suc Let_def)

definition demo_stray :: tree where
  "demo_stray = AList.update [CLEANUP_DIR, ''uuuu''] (Fs_Link (DATA_DIR_FROM_OTHER_QUEUE @ [''u'', ''uu'']))
     (AList.delete [QUEUE_DIR, ''uuuu''] demo_left)"

lemma demo_left_lookup:
  "map_of demo_left [QUEUE_DIR, ''uuuu''] = Some (Fs_Link (DATA_DIR_FROM_OTHER_QUEUE @ [''u'', ''uu'']))"
  "map_of demo_left [DATA_DIR, ''u''] = Some Fs_Dir" "map_of demo_left [DATA_DIR, ''u'', ''uu''] = Some Fs_Dir"
  "map_of demo_left [DATA_DIR, ''u'', ''uu'', METADATA_FILE] = Some (Fs_File ''t'')"
  "map_of demo_left [DATA_DIR, ''u'', ''uu'', SCHEDULE_FILE] = Some (Fs_File ''s'')"
  "map_of demo_left [DATA_DIR, ''u'', ''uu'', TMP_SCHEDULE_FILE_PREFIX @ demo_uuid 5] = Some (Fs_File ''s'')"
  "map_of demo_left [CLEANUP_DIR, ''uuuu''] = None" "map_of demo_left [CLEANUP_DIR] = Some Fs_Dir" "map_of demo_left [DATA_DIR] = Some Fs_Dir"
  by (simp_all add: demo_left_def demo_committed_def written_tree_def empty_tree_def dest_tree_def dir_defs
      CONTENTS_FILE_def SCHEDULE_FILE_def METADATA_FILE_def TMP_SCHEDULE_FILE_PREFIX_def demo_uuid_def numeral_eq_Suc)

lemma demo_drop: "fs_drop (demo_mails ! 0) (demo_world demo_left 6) = (demo_world demo_stray 6, Inr (Some \<lparr>fp_id = ''uuuu''\<rparr>))"
  by (simp add: fs_drop_def fs_move_def fs_found_def os_rename_def sys_calm handle_defs demo_mails_def demo_left_lookup demo_stray_def
      queued_into_pending_cleanup_def)

lemma demo_stray_ok: "fs_ok (demo_world demo_stray 6)"
proof -
  have "fs_ok (demo_faulty (demo_committed ''Hi'') 5 [None, None, None, None, Some ''I/O error''])"
    using demo_committed_ok [of "''Hi''"] by (simp add: demo_faulty_def fs_ok_def uuids_ok_def)
  then have "fs_ok (demo_world demo_left 6)" using reschedule_data [OF demo_reschedule] data_only_ok by blast
  from fs_moves(4) [OF this, of "demo_mails ! 0", unfolded demo_drop] show ?thesis by (simp add: moved_def)
qed

lemma demo_stray_world: "to_clean demo_stray ''uuuu'' ''u'' ''uu'' \<and> stray demo_stray ''u'' ''uu''"
proof
  show "to_clean demo_stray ''uuuu'' ''u'' ''uu''"
    by (simp add: to_clean_def demo_stray_def AList.update_conv' AList.delete_conv' demo_left_lookup is_name_def)
  have "map_of demo_stray [DATA_DIR, ''u'', ''uu'', TMP_SCHEDULE_FILE_PREFIX @ demo_uuid 5] = Some (Fs_File ''s'')"
    by (simp add: demo_stray_def AList.update_conv' AList.delete_conv' demo_left_lookup)
  then show "stray demo_stray ''u'' ''uu''" unfolding stray_def
    by (intro exI [of _ "TMP_SCHEDULE_FILE_PREFIX @ demo_uuid 5"])
       (simp add: METADATA_FILE_def SCHEDULE_FILE_def TMP_SCHEDULE_FILE_PREFIX_def demo_uuid_def)
qed

lemma stray_file_blocks_cleanup_witness:
  "snd (fs_cleanup \<lparr>fp_id = ''uuuu''\<rparr> (((\<lambda>w. fst (fs_cleanup \<lparr>fp_id = ''uuuu''\<rparr> w)) ^^ 7) (demo_world demo_stray 6))) =
     Inl (\<lparr>fp_id = ''uuuu''\<rparr>, RemovingFolderFromMail [''uu''] [''u''] Cleanup_Q (os_error ''Directory not empty''))"
  using stray_file_blocks_cleanup [OF demo_stray_ok, of "\<lparr>fp_id = ''uuuu''\<rparr>" "''u''" "''uu''" _ 7, OF _ _ _ refl] demo_stray_world
  by simp

end
