(* ===== verification/QueueProperties.thy ===== *)
theory QueueProperties
  imports QueueFsFiles
begin

text \<open>
  What the queue promises, for the runner over the file-system storage: over any sequence of
  steps, with any faults of the file system, any transport, configuration and clock.
\<close>

section \<open>A run of the queue\<close>

abbreviation demo_queue where
  "demo_queue \<equiv> fs_queue_impl demo_json demo_config demo_transport demo_chrono"

text \<open>One mail was in flight when the queue stopped, another waits; both are found and given a task.\<close>

definition demo_start :: fs_world where
  "demo_start = demo_world (demo_sent ''Hi'') 5"

definition demo_found :: "(fs_world, FsQueuedMail, FsInflightMail, FsPendingCleanupMail, FsError, bool, bytes, unit, unit) runner" where
  "demo_found = scan_inflight demo_queue (scan_inflight demo_queue (queue_new demo_start))"

lemma demo_start_ok: "fs_ok demo_start"
  using fs_moves(1) [OF demo_committed_ok, of "demo_mails ! 1" "''Hi''"] unfolding demo_send_start
  by (simp add: moved_def demo_start_def)

lemma demo_found_reached: "queue_reaches demo_queue fs_outside demo_start demo_found"
  unfolding demo_found_def by (rule stepped [OF stepped [OF created inflight_scanned] inflight_scanned])

lemma walk_through_link:
  assumes "map_of t (base @ [n]) = Some (Fs_Link l)" "is_name n" "cs \<noteq> []"
  shows "walk t MAX_LINKS base (n # cs) = walk t 39 base (l @ cs)"
proof -
  have "walk t (Suc f) base (n # cs) = walk t f base (l @ cs)" for f using assms by (simp add: is_name_def)
  from this [of 39] show ?thesis by (simp add: MAX_LINKS_def)
qed

lemma demo_find_inflight:
  "fs_find_inflight demo_json demo_start = (demo_start, [Inr \<lparr>fi_id = ''uuuuu'', fi_schedule = \<lparr>sched_at = 0, last_attempt = None\<rparr>\<rparr>])"
proof -
  have l: "os_links fs_inflight demo_start = (demo_start, Inr [''uuuuu''])"
    by (simp add: os_links_def dir_names_def demo_start_def sys_calm demo_sent_def written_tree_def empty_tree_def dest_tree_def demo_calls)
  have t: "map_of (demo_sent bs) ([INFLIGHT_DIR] @ [''uuuuu'']) = Some (Fs_Link (DATA_DIR_FROM_OTHER_QUEUE @ [''u'', ''uuu'']))"
    "map_of (demo_sent bs) [DATA_DIR] = Some Fs_Dir" "map_of (demo_sent bs) [DATA_DIR, ''u''] = Some Fs_Dir"
    "map_of (demo_sent bs) [DATA_DIR, ''u'', ''uuu''] = Some Fs_Dir"
    "map_of (demo_sent bs) [DATA_DIR, ''u'', ''uuu'', SCHEDULE_FILE] = Some (Fs_File ''s'')" for bs
    by (simp_all add: demo_sent_def written_tree_def empty_tree_def dest_tree_def demo_calls)
  have "is_name ''uuuuu''" by (simp add: is_name_def)
  then have "walk (demo_sent bs) MAX_LINKS [INFLIGHT_DIR] [''uuuuu'', SCHEDULE_FILE] = Inr [DATA_DIR, ''u'', ''uuu'', SCHEDULE_FILE]" for bs
    using t [of bs] unfolding walk_through_link [OF t(1) \<open>is_name _\<close> not_Cons_self2]
    by (simp add: dir_defs SCHEDULE_FILE_def)
  from follow_file [OF this t(5)]
  have "fs_read_schedule demo_json fs_inflight ''uuuuu'' demo_start = (demo_start, Inr \<lparr>sched_at = 0, last_attempt = None\<rparr>)"
    by (simp add: fs_read_schedule_def fs_try_def os_read_file_def demo_start_def sys_calm fs_inflight_def t demo_json_def)
  with l show ?thesis by (simp add: fs_find_inflight_def fs_scan_queue_def fs_scan_folder_def inflight_found_def)
qed

lemma demo_found_eq:
  "demo_found = \<lparr>rn_world = demo_start, rn_log = [Log_Found_Inflight (QueueId ''uuuuu'')], rn_inflight_scan = Listed [],
     rn_pending_scan = Unlisted, rn_queue_scan = Unspawned,
     rn_tasks = [Found_Inflight \<lparr>fi_id = ''uuuuu'', fi_schedule = \<lparr>sched_at = 0, last_attempt = None\<rparr>\<rparr>]\<rparr>"
  by (simp add: demo_found_def scan_inflight_def queue_new_def demo_find_inflight scan_entry_def)

section \<open>Safety of the mails\<close>

text \<open>
  Claim C23. No mail is sent twice at once: in every reachable state, no two tasks hold the same
  mail in flight, and a mail that a task has in flight is in the inflight directory.
\<close>

theorem one_sender_per_mail:
  assumes "queue_reaches (fs_queue_impl js c tr ch) fs_outside w0 s" "fs_ok w0"
  shows "distinct (held (qi_storage (fs_queue_impl js c tr ch)) In_Inflight (rn_tasks s)) \<and>
    (x \<in> set (held (qi_storage (fs_queue_impl js c tr ch)) In_Inflight (rn_tasks s)) \<longrightarrow> fs_stored (rn_world s) x = Some In_Inflight)"
  using fsq.reaches_exclusive [OF assms] by (auto simp: exclusive_def inflight_ids_def)

lemma one_sender_per_mail_witness:
  "held (qi_storage demo_queue) In_Inflight (rn_tasks demo_found) = [QueueId ''uuuuu''] \<and>
    distinct (held (qi_storage demo_queue) In_Inflight (rn_tasks demo_found)) \<and>
    fs_stored (rn_world demo_found) (QueueId ''uuuuu'') = Some In_Inflight"
proof -
  have "held (qi_storage demo_queue) In_Inflight (rn_tasks demo_found) = [QueueId ''uuuuu'']"
    by (simp add: demo_found_eq held1_def)
  with one_sender_per_mail [OF demo_found_reached demo_start_ok, of "QueueId ''uuuuu''"] show ?thesis by simp
qed

text \<open>
  Claim C22. No mail is forgotten: in every reachable state, every mail in the storage is held by
  a task, or will be come across by a scan that has not ended; the exceptions are a listing that
  reported an error for it, or for no mail in particular, a commit that failed half-way, and a task
  that panicked.
\<close>

theorem no_mail_forgotten:
  assumes "queue_reaches (fs_queue_impl js c tr ch) fs_outside w0 s" "fs_ok w0"
    and "fs_stored (rn_world s) x = Some p"
  shows "x \<in> set (held (qi_storage (fs_queue_impl js c tr ch)) p (rn_tasks s)) \<or> place_scan (qi_storage (fs_queue_impl js c tr ch)) s p x \<or> excused s x"
  using fsq.reaches_minded [OF assms(1,2)] assms(3) by (auto simp: minded_def looked_after_def)

lemma no_mail_forgotten_witness:
  "fs_stored (rn_world demo_found) (QueueId ''uuuu'') = Some In_Queue \<and>
    (QueueId ''uuuu'' \<in> set (held (qi_storage demo_queue) In_Queue (rn_tasks demo_found)) \<or>
     place_scan (qi_storage demo_queue) demo_found In_Queue (QueueId ''uuuu'') \<or> excused demo_found (QueueId ''uuuu''))"
proof -
  have "fs_stored (rn_world demo_found) (QueueId ''uuuu'') = Some In_Queue"
    by (simp add: demo_found_eq demo_start_def fs_stored.simps demo_sent_def written_tree_def empty_tree_def dest_tree_def dir_defs)
  with no_mail_forgotten [OF demo_found_reached demo_start_ok this] show ?thesis by simp
qed



section \<open>The storage as a map\<close>

text \<open>The abstract storage: where each mail is. A move that finds the mail at its place puts it at the other one.\<close>

fun place_move :: "place \<Rightarrow> place \<Rightarrow> QueueId \<Rightarrow> bool \<Rightarrow> (QueueId \<rightharpoonup> place) \<Rightarrow> (QueueId \<rightharpoonup> place) \<times> bool option" where
  "place_move p p' x failed m =
     (if failed then (m, None) else if m x = Some p then (m(x \<mapsto> p'), Some True) else (m, Some False))"

definition place_result :: "'m \<times> FsError + 'n option \<Rightarrow> bool option" where
  "place_result r = (case r of Inl _ \<Rightarrow> None | Inr v \<Rightarrow> Some (v \<noteq> None))"

definition refines_move :: "place \<Rightarrow> place \<Rightarrow> string \<Rightarrow> 'z fs_world_scheme \<Rightarrow>
    'z fs_world_scheme \<times> ('m \<times> FsError + 'n option) \<Rightarrow> bool" where
  "refines_move p p' n w res \<longleftrightarrow> fs_ok (fst res) \<and>
     (fs_stored (fst res), place_result (snd res)) = place_move p p' (QueueId n) (isl (snd res)) (fs_stored w)"

lemma moved_refines: "moved p p' n mail mail' w res \<Longrightarrow> refines_move p p' n w res"
  by (auto simp: moved_def refines_move_def place_result_def split: sum.splits option.splits)

text \<open>
  Claim C25. The four moves of the storage, on any state of its directories and with any fault,
  implement the moves of a map from mails to places: the invariant is kept; a move that reports an
  error has changed no mail's place; one that reports that the mail has vanished did not find it;
  and one that succeeds has moved this mail and no other.
\<close>

theorem storage_moves_refine_places:
  assumes "fs_ok w"
  shows "refines_move In_Queue In_Inflight (fq_id m) w (fs_send_start m w) \<and>
    refines_move In_Inflight In_Cleanup (fi_id i) w (fs_send_done i w) \<and>
    refines_move In_Inflight In_Queue (fi_id i) w (fs_send_cancel i w) \<and>
    refines_move In_Queue In_Cleanup (fq_id m) w (fs_drop m w)"
  using fs_moves [OF assms, THEN moved_refines] by blast

text \<open>
  A commit that succeeds puts exactly the mails it returns into the queue, none
  of them known before, and moves nothing else; one that fails takes nothing away either, but
  may leave destinations that were already linked behind in the queue.
\<close>

theorem commit_adds_mails:
  assumes "fs_ok w" "fs_commit js en ds w = (w', r)"
  shows "fs_ok w' \<and> fs_stored w \<subseteq>\<^sub>m fs_stored w' \<and>
    (fs_stored w' x \<noteq> fs_stored w x \<longrightarrow> fs_stored w' x = Some In_Queue) \<and>
    (r = Inr ms \<longrightarrow> fs_stored w x = None \<longrightarrow> (fs_stored w' x = Some In_Queue \<longleftrightarrow> x \<in> (\<lambda>m. QueueId (fq_id m)) ` set ms))"
  using fs_commit_committed [OF assms(1), of js en ds] unfolding assms(2) committed_def
  by (auto simp: map_le_def dom_def split: sum.splits)

lemma commit_adds_mails_witness:
  "fs_ok (demo_world (demo_committed ''Hi'') 5) \<and> fs_stored (demo_world (demo_committed ''Hi'') 5) (QueueId ''uuuu'') = Some In_Queue"
proof -
  have "fs_stored (demo_world (written_tree ''Hi'') 1) (QueueId ''uuuu'') = None"
    by (simp add: fs_stored.simps written_tree_def empty_tree_def dir_defs)
  with commit_adds_mails [OF demo_written_ok demo_commit, where x = "QueueId ''uuuu''" and ms = demo_mails] show ?thesis
    by (simp add: demo_mails_def)
qed

lemma storage_moves_refine_places_witness:
  "fs_send_start (demo_mails ! 1) (demo_world (demo_committed ''Hi'') 5) =
     (demo_world (demo_sent ''Hi'') 5, Inr (Some \<lparr>fi_id = ''uuuuu'', fi_schedule = \<lparr>sched_at = 5, last_attempt = None\<rparr>\<rparr>)) \<and>
   refines_move In_Queue In_Inflight (fq_id (demo_mails ! 1)) (demo_world (demo_committed ''Hi'') 5)
     (fs_send_start (demo_mails ! 1) (demo_world (demo_committed ''Hi'') 5))"
  using storage_moves_refine_places [OF demo_committed_ok] demo_send_start by blast

section \<open>Retries\<close>

text \<open>The delay before the attempt after the \<open>n\<close>th failed one, with the default configuration.\<close>

primrec retry_delay :: "nat \<Rightarrow> duration run" where
  "retry_delay 0 = Value initial_delay"
| "retry_delay (Suc n) = bind_run (retry_delay n) default_io_error_next_retry_delay"

lemma retry_delay_small: "n \<le> 58 \<Longrightarrow> retry_delay (Suc n) = Value (from_secs (60 * 2 ^ n))"
proof (induction n)
  case 0
  show ?case by (simp add: default_io_error_next_retry_delay_def initial_delay_def from_secs_def)
next
  case (Suc n)
  have "(2::nat) ^ Suc n \<le> 2 ^ 58" using Suc.prems by (intro power_increasing) simp_all
  then have "60 * 2 ^ n * 10 ^ 9 * 2 \<le> 60 * 2 ^ 58 * (10 ^ 9 :: nat)" by simp
  also have "\<dots> \<le> max_duration" by (simp add: max_duration_def from_secs_def)
  finally have "from_secs (60 * 2 ^ n) * 2 \<le> max_duration" by (simp add: from_secs_def)
  moreover have "\<not> from_secs (60 * 2 ^ n) < from_secs 30"
  proof -
    have "(1::nat) \<le> 2 ^ n" by simp
    then have "60 * 1 * 10 ^ 9 \<le> 60 * 2 ^ n * (10 ^ 9 :: nat)" by (intro mult_le_mono) simp_all
    then show ?thesis by (simp add: from_secs_def)
  qed
  ultimately have "default_io_error_next_retry_delay (from_secs (60 * 2 ^ n)) = Value (from_secs (60 * 2 ^ Suc n))"
    by (simp add: default_io_error_next_retry_delay_def) (simp add: from_secs_def)
  with Suc show ?case unfolding retry_delay.simps(2) [of "Suc n"] by fastforce
qed

text \<open>
  Claim C37. The delays between attempts at a storage operation, with the default configuration:
  the first retry is immediate, the next ones come after one minute, two, four and so on; the
  fifty-ninth doubling does not fit a \<^verbatim>\<open>Duration\<close>, and computing it panics.
\<close>

theorem retry_delays:
  "retry_delay n =
    (if n = 0 then Value 0 else if n \<le> 59 then Value (from_secs (60 * 2 ^ (n - 1))) else Panic)"
proof -
  have "n = 0 \<or> (\<exists>k. n = Suc k \<and> k \<le> 58) \<or> (\<exists>k. n = 60 + k)" by presburger
  then consider "n = 0" | k where "n = Suc k" "k \<le> 58" | k where "n = 60 + k" by blast
  then show ?thesis
  proof cases
    case 1
    then show ?thesis by (simp add: initial_delay_def)
  next
    case 2
    then show ?thesis using retry_delay_small [of k] by simp
  next
    case (3 k)
    have "retry_delay (60 + k) = Panic"
    proof (induction k)
      case 0
      have "retry_delay 60 = bind_run (retry_delay 59) default_io_error_next_retry_delay" by (simp add: numeral_eq_Suc)
      also have "retry_delay 59 = Value (from_secs (60 * 2 ^ 58))" using retry_delay_small [of 58] by simp
      finally show ?case by (simp add: default_io_error_next_retry_delay_def max_duration_def from_secs_def)
    next
      case (Suc k)
      then show ?case unfolding add_Suc_right retry_delay.simps(2) [of "60 + k"] by simp
    qed
    with 3 show ?thesis by simp
  qed
qed

section \<open>Rescheduling\<close>



end
