(* ===== verification/Client.thy ===== *)
theory Client
  imports ServerSession ReplyParsing
begin

text \<open>
  The client of \<^verbatim>\<open>smtp-client/src/lib.rs\<close>: finding the servers of a destination, connecting,
  negotiating encryption, and sending a mail. Parameters: the resolver, TCP and the random number
  generator (\<open>ClientNet\<close>), the connection (\<open>ClientIo\<close>), the configuration (\<open>ClientConfig\<close>, the
  trait) and the parser of replies. As in the server, an awaited call is the call that finally
  answers, and the race of a call with a timer is decided by the parameter that says whether the
  timer fires first.
\<close>

section \<open>Errors\<close>

datatype IpAddr = IpV4 Ipv4Addr | IpV6 Ipv6Addr

datatype ResolveError = NoRecordsFound | OtherResolveError string

type_synonym ProtoError = string

text \<open>\<open>'n\<close> is \<^verbatim>\<open>trust_dns_resolver::Name\<close>.\<close>

datatype 'n TransportError =
    DnsMx bytes ResolveError
  | HostToTrustDns bytes ProtoError
  | DnsIp 'n ResolveError
  | Connecting IpAddr "16 word" io_error
  | ReceivingReplyBytes io_error
  | TimedOutWaitingForReply
  | ConnectionAborted
  | TooLongReply bytes
  | SyntaxError bytes
  | TimedOutSendingCommand
  | SendingCommand io_error
  | NegotiatingTls io_error
  | CannotDoTls
  | TransientMail "bytes Reply"
  | TransientMailbox "bytes Reply"
  | TransientMailSystem "bytes Reply"
  | PermanentMail "bytes Reply"
  | PermanentMailbox "bytes Reply"
  | PermanentMailSystem "bytes Reply"
  | UnexpectedReplyCode "bytes Reply"
  | TimedOutSendingData
  | SendingData io_error
  | ReadingMail io_error

datatype TransportErrorSeverity =
    Local
  | NetworkTransient
  | MailTransient
  | MailboxTransient
  | MailSystemTransient
  | MailPermanent
  | MailboxPermanent
  | MailSystemPermanent

fun severity :: "'n TransportError \<Rightarrow> TransportErrorSeverity" where
  "severity (DnsMx _ _) = NetworkTransient"
| "severity (HostToTrustDns _ _) = Local"
| "severity (DnsIp _ _) = NetworkTransient"
| "severity (Connecting _ _ _) = NetworkTransient"
| "severity (ReceivingReplyBytes _) = NetworkTransient"
| "severity TimedOutWaitingForReply = NetworkTransient"
| "severity ConnectionAborted = NetworkTransient"
| "severity (TooLongReply _) = NetworkTransient"
| "severity (SyntaxError _) = MailSystemTransient"
| "severity TimedOutSendingCommand = NetworkTransient"
| "severity (SendingCommand _) = NetworkTransient"
| "severity (NegotiatingTls _) = NetworkTransient"
| "severity CannotDoTls = NetworkTransient"
| "severity (TransientMail _) = MailTransient"
| "severity (TransientMailbox _) = MailboxTransient"
| "severity (TransientMailSystem _) = MailSystemTransient"
| "severity (PermanentMail _) = MailPermanent"
| "severity (PermanentMailbox _) = MailboxPermanent"
| "severity (PermanentMailSystem _) = MailSystemPermanent"
| "severity (UnexpectedReplyCode _) = NetworkTransient"
| "severity TimedOutSendingData = NetworkTransient"
| "severity (SendingData _) = NetworkTransient"
| "severity (ReadingMail _) = Local"

section \<open>The connection and the configuration\<close>

record 'io ClientIo =
  cl_read :: "'io \<Rightarrow> nat \<Rightarrow> 'io \<times> bytes io_result"
  cl_read_timer :: "'io \<Rightarrow> 'io option"
  cl_write :: "'io \<Rightarrow> bytes list \<Rightarrow> 'io \<times> unit io_result"
  cl_write_timer :: "'io \<Rightarrow> bytes list \<Rightarrow> 'io option"

text \<open>The timeouts of the trait are the business of the timers.\<close>

record 'io ClientConfig =
  ccfg_ehlo_hostname :: "bytes Hostname"
  ccfg_can_do_tls :: bool
  ccfg_must_do_tls :: bool
  ccfg_tls_connect :: "'io \<Rightarrow> 'io \<times> unit io_result"

definition default_can_do_tls_client :: bool where "default_can_do_tls_client = True"
definition default_must_do_tls :: bool where "default_must_do_tls = False"

definition CLIENT_RDBUF_SIZE :: nat where "CLIENT_RDBUF_SIZE = 16 * 1024"
definition DATABUF_SIZE :: nat where "DATABUF_SIZE = 16 * 1024"
definition CLIENT_MINIMUM_FREE_BUFSPACE :: nat where "CLIENT_MINIMUM_FREE_BUFSPACE = 128"
definition SMTP_PORT :: "16 word" where "SMTP_PORT = 25"

definition STARTTLS :: "8 word" where "STARTTLS = 1"

record 'io Sender =
  sn_io :: 'io
  sn_rdbuf :: bytes
  sn_start :: nat
  sn_end :: nat
  sn_extensions :: "8 word"

unbundle bit_operations_syntax

definition extensions_contains :: "8 word \<Rightarrow> 8 word \<Rightarrow> bool" where
  "extensions_contains e f \<longleftrightarrow> e AND f = f"

definition extensions_insert :: "8 word \<Rightarrow> 8 word \<Rightarrow> 8 word" where
  "extensions_insert e f = e OR f"

text \<open>How an operation ends: it returns a value or an error, panics, or never returns.\<close>

datatype ('s, 'e, 'a) outcome = Okay 's 'a | Failed 's 'e | Panicking | Forever

fun bind_out :: "('s, 'e, 'a) outcome \<Rightarrow> ('s \<Rightarrow> 'a \<Rightarrow> ('s, 'e, 'b) outcome) \<Rightarrow> ('s, 'e, 'b) outcome" where
  "bind_out (Okay s a) f = f s a"
| "bind_out (Failed s e) f = Failed s e"
| "bind_out Panicking f = Panicking"
| "bind_out Forever f = Forever"

section \<open>Replies\<close>

definition read_for_reply ::
  "'io ClientIo \<Rightarrow> 'io \<Rightarrow> nat \<Rightarrow> 'io \<times> ('n TransportError + bytes)" where
  "read_for_reply env io n =
     (case cl_read_timer env io of
        Some io \<Rightarrow> (io, Inl TimedOutWaitingForReply)
      | None \<Rightarrow>
          (case cl_read env io n of
             (io, Inl e) \<Rightarrow> (io, Inl (ReceivingReplyBytes e))
           | (io, Inr bs) \<Rightarrow> (io, Inr bs)))"

definition sn_unhandled :: "'io Sender \<Rightarrow> bytes" where
  "sn_unhandled s = subslice (sn_rdbuf s) (sn_start s) (sn_end s)"

definition reply_room :: "needed \<Rightarrow> 'io Sender \<Rightarrow> 'io Sender" where
  "reply_room n s =
     (if sn_start s \<noteq> 0 then
        (let missing = (case n of Needed_Unknown \<Rightarrow> CLIENT_MINIMUM_FREE_BUFSPACE
                        | Needed_Size k \<Rightarrow> max CLIENT_MINIMUM_FREE_BUFSPACE k)
         in if length (sn_rdbuf s) - sn_end s < missing
            then s\<lparr>sn_rdbuf := copy_within (sn_rdbuf s) (sn_start s) (sn_end s) 0,
                   sn_start := 0, sn_end := sn_end s - sn_start s\<rparr>
            else s)
      else s)"

type_synonym reply_parser = "bytes \<Rightarrow> bytes Reply iresult"

text \<open>The loop of \<^verbatim>\<open>read_reply\<close>; \<open>None\<close> if it never returns.\<close>

partial_function (option) read_reply_loop ::
  "reply_parser \<Rightarrow> 'io ClientIo \<Rightarrow> 'io Sender \<Rightarrow> ('io Sender \<times> ('n TransportError + bytes Reply)) option" where
  "read_reply_loop parse env s =
     (case parse (sn_unhandled s) of
        Inl (Incomplete n) \<Rightarrow>
          (let s = reply_room n s in
           if sn_end s = length (sn_rdbuf s) then Some (s, Inl (TooLongReply (sn_unhandled s)))
           else
             (case read_for_reply env (sn_io s) (length (sn_rdbuf s) - sn_end s) of
                (io, Inl e) \<Rightarrow> Some (s\<lparr>sn_io := io\<rparr>, Inl e)
              | (io, Inr bs) \<Rightarrow>
                  (let s = s\<lparr>sn_io := io, sn_rdbuf := write_at (sn_rdbuf s) (sn_end s) bs\<rparr> in
                   if bs = [] then Some (s, Inl ConnectionAborted)
                   else read_reply_loop parse env (s\<lparr>sn_end := sn_end s + length bs\<rparr>))))
      | Inl _ \<Rightarrow> Some (s, Inl (SyntaxError (sn_unhandled s)))
      | Inr (rem, reply) \<Rightarrow> Some (s\<lparr>sn_start := sn_end s - length rem\<rparr>, Inr reply))"

definition read_reply ::
  "reply_parser \<Rightarrow> 'io ClientIo \<Rightarrow> 'io Sender \<Rightarrow> ('io Sender, 'n TransportError, bytes Reply) outcome" where
  "read_reply parse env s =
     bind_out
       (if \<not> sn_start s < sn_end s then
          (case read_for_reply env (sn_io s) (length (sn_rdbuf s)) of
             (io, Inl e) \<Rightarrow> Failed (s\<lparr>sn_io := io\<rparr>) e
           | (io, Inr bs) \<Rightarrow>
               (let s = s\<lparr>sn_io := io, sn_rdbuf := write_at (sn_rdbuf s) 0 bs, sn_start := 0, sn_end := length bs\<rparr> in
                if bs = [] then Failed s ConnectionAborted else Okay s ()))
        else Okay s ())
       (\<lambda>s _. case read_reply_loop parse env s of
          None \<Rightarrow> Forever
        | Some (s, Inl e) \<Rightarrow> Failed s e
        | Some (s, Inr reply) \<Rightarrow> Okay s reply)"

definition verify_reply :: "bytes Reply \<Rightarrow> ReplyCodeKind \<Rightarrow> ('n TransportError + unit) run" where
  "verify_reply r expected =
     bind_run (reply_code_kind (rp_code r)) (\<lambda>kind.
       Value
        (if kind = expected then Inr ()
         else case (kind, map_option ecode_subject (rp_ecode r)) of
           (TransientNegative, Some Mailbox) \<Rightarrow> Inl (TransientMailbox r)
         | (PermanentNegative, Some Mailbox) \<Rightarrow> Inl (PermanentMailbox r)
         | (TransientNegative, Some MailSystem) \<Rightarrow> Inl (TransientMailSystem r)
         | (PermanentNegative, Some MailSystem) \<Rightarrow> Inl (PermanentMailSystem r)
         | (TransientNegative, _) \<Rightarrow> Inl (TransientMail r)
         | (PermanentNegative, _) \<Rightarrow> Inl (PermanentMail r)
         | (_, _) \<Rightarrow> Inl (UnexpectedReplyCode r)))"

text \<open>\<^verbatim>\<open>verify_reply(...)?\<close>\<close>

definition verified :: "bytes Reply \<Rightarrow> ReplyCodeKind \<Rightarrow> 'io Sender \<Rightarrow> ('io Sender, 'n TransportError, unit) outcome" where
  "verified r expected s =
     (case verify_reply r expected of
        Panic \<Rightarrow> Panicking
      | Value (Inl e) \<Rightarrow> Failed s e
      | Value (Inr _) \<Rightarrow> Okay s ())"

section \<open>Commands\<close>

definition send_command :: "'io ClientIo \<Rightarrow> bytes Command \<Rightarrow> 'io Sender \<Rightarrow> ('io Sender, 'n TransportError, unit) outcome" where
  "send_command env cmd s =
     (let slices = command_io_slices cmd in
      case cl_write_timer env (sn_io s) slices of
        Some io \<Rightarrow> Failed (s\<lparr>sn_io := io\<rparr>) TimedOutSendingCommand
      | None \<Rightarrow>
          (case cl_write env (sn_io s) slices of
             (io, Inl e) \<Rightarrow> Failed (s\<lparr>sn_io := io\<rparr>) (SendingCommand e)
           | (io, Inr _) \<Rightarrow> Okay (s\<lparr>sn_io := io\<rparr>) ()))"

section \<open>Connecting\<close>

text \<open>\<^verbatim>\<open>str::eq_ignore_ascii_case\<close>\<close>

definition eq_ignore_ascii_case :: "bytes \<Rightarrow> bytes \<Rightarrow> bool" where
  "eq_ignore_ascii_case a b \<longleftrightarrow> length a = length b \<and> list_all2 same_letter a b"

definition ehlo_extensions :: "bytes Reply \<Rightarrow> 8 word" where
  "ehlo_extensions reply =
     foldl (\<lambda>ext line. if eq_ignore_ascii_case (maybe_str line) ''STARTTLS'' then extensions_insert ext STARTTLS else ext)
       0 (rp_text reply)"

definition send_ehlo ::
  "reply_parser \<Rightarrow> 'io ClientIo \<Rightarrow> 'io ClientConfig \<Rightarrow> 'io Sender \<Rightarrow> ('io Sender, 'n TransportError, unit) outcome" where
  "send_ehlo parse env cfg s =
     bind_out (send_command env (Ehlo (ccfg_ehlo_hostname cfg)) s)
       (\<lambda>s _. bind_out (read_reply parse env s)
         (\<lambda>s reply. verified reply PositiveCompletion (s\<lparr>sn_extensions := ehlo_extensions reply\<rparr>)))"

definition starttls ::
  "reply_parser \<Rightarrow> 'io ClientIo \<Rightarrow> 'io ClientConfig \<Rightarrow> 'io Sender \<Rightarrow> ('io Sender, 'n TransportError, bool) outcome" where
  "starttls parse env cfg s =
     bind_out (send_command env Starttls s)
       (\<lambda>s _. bind_out (read_reply parse env s)
         (\<lambda>s reply. case (verify_reply reply PositiveCompletion :: ('n TransportError + unit) run) of
            Panic \<Rightarrow> Panicking
          | Value (Inl _) \<Rightarrow> Okay s False
          | Value (Inr _) \<Rightarrow>
              (case ccfg_tls_connect cfg (sn_io s) of
                 (io, Inl e) \<Rightarrow> Failed (s\<lparr>sn_io := io\<rparr>) (NegotiatingTls e)
               | (io, Inr _) \<Rightarrow>
                   bind_out (send_ehlo parse env cfg (s\<lparr>sn_io := io\<rparr>)) (\<lambda>s _. Okay s True))))"

definition sender_new :: "'io \<Rightarrow> 'io Sender" where
  "sender_new io = \<lparr>sn_io = io, sn_rdbuf = replicate CLIENT_RDBUF_SIZE (CHR 0x00), sn_start = 0, sn_end = 0, sn_extensions = 0\<rparr>"

definition connect_to_stream ::
  "reply_parser \<Rightarrow> 'io ClientIo \<Rightarrow> 'io ClientConfig \<Rightarrow> 'io \<Rightarrow> ('io Sender, 'n TransportError, unit) outcome" where
  "connect_to_stream parse env cfg io =
     bind_out (read_reply parse env (sender_new io))
       (\<lambda>s reply. bind_out (verified reply PositiveCompletion s)
         (\<lambda>s _. bind_out (send_ehlo parse env cfg s)
           (\<lambda>s _. bind_out
              (if extensions_contains (sn_extensions s) STARTTLS \<and> ccfg_can_do_tls cfg
               then starttls parse env cfg s else Okay s False)
              (\<lambda>s did_tls. if \<not> did_tls \<and> ccfg_must_do_tls cfg then Failed s CannotDoTls else Okay s ()))))"

section \<open>Finding a server\<close>

text \<open>The resolver, TCP and the random number generator, with the state they work on.\<close>

record ('w, 'n, 'io) ClientNet =
  net_mx_lookup :: "'w \<Rightarrow> bytes \<Rightarrow> 'w \<times> (ResolveError + (16 word \<times> 'n) list)"
  net_lookup_ip :: "'w \<Rightarrow> 'n \<Rightarrow> 'w \<times> (ResolveError + IpAddr list)"
  net_into_name :: "bytes \<Rightarrow> ProtoError + 'n"
  net_shuffle :: "'w \<Rightarrow> 'n list \<Rightarrow> 'w \<times> 'n list"
  net_connect :: "'w \<Rightarrow> IpAddr \<Rightarrow> 16 word \<Rightarrow> 'w \<times> 'io io_result"

record Destination =
  dst_host :: "bytes Hostname"

definition get_destination :: "bytes Hostname \<Rightarrow> 'n TransportError + Destination" where
  "get_destination host = Inr \<lparr>dst_host = host\<rparr>"

text \<open>
  A client: the parameters of its operations. An attempt to connect ends in a sender or an
  error, together with the world it leaves.
\<close>

record ('w, 'n, 'io) Client =
  ct_net :: "('w, 'n, 'io) ClientNet"
  ct_io :: "'io ClientIo"
  ct_cfg :: "'io ClientConfig"
  ct_parse :: reply_parser

type_synonym ('w, 'n, 'io) attempt = "('w, 'n TransportError, 'io Sender) outcome"

definition connect_to_ip :: "('w, 'n, 'io) Client \<Rightarrow> 'w \<Rightarrow> IpAddr \<Rightarrow> 16 word \<Rightarrow> ('w, 'n, 'io) attempt" where
  "connect_to_ip c w ip port =
     (case net_connect (ct_net c) w ip port of
        (w, Inl e) \<Rightarrow> Failed w (Connecting ip port e)
      | (w, Inr io) \<Rightarrow>
          (case connect_to_stream (ct_parse c) (ct_io c) (ct_cfg c) io of
             Okay s _ \<Rightarrow> Okay w s
           | Failed _ e \<Rightarrow> Failed w e
           | Panicking \<Rightarrow> Panicking
           | Forever \<Rightarrow> Forever))"

text \<open>
  Trying one address after the other: the first sender, or else the first error. Without an
  address \<^verbatim>\<open>first_error.unwrap()\<close> panics.
\<close>

fun try_each :: "('w \<Rightarrow> 'a \<Rightarrow> ('w, 'e, 's) outcome) \<Rightarrow> 'e option \<Rightarrow> 'a list \<Rightarrow> 'w \<Rightarrow> ('w, 'e option, 's) outcome" where
  "try_each attempt first_error [] w = Failed w first_error"
| "try_each attempt first_error (a # as) w =
     (case attempt w a of
        Okay w s \<Rightarrow> Okay w s
      | Failed w e \<Rightarrow> try_each attempt (case first_error of None \<Rightarrow> Some e | Some f \<Rightarrow> Some f) as w
      | Panicking \<Rightarrow> Panicking
      | Forever \<Rightarrow> Forever)"

fun unwrap_error :: "('w, 'e option, 's) outcome \<Rightarrow> ('w, 'e, 's) outcome" where
  "unwrap_error (Okay w s) = Okay w s"
| "unwrap_error (Failed w (Some e)) = Failed w e"
| "unwrap_error (Failed w None) = Panicking"
| "unwrap_error Panicking = Panicking"
| "unwrap_error Forever = Forever"

definition connect_to_host :: "('w, 'n, 'io) Client \<Rightarrow> 'w \<Rightarrow> 'n \<Rightarrow> 16 word \<Rightarrow> ('w, 'n, 'io) attempt" where
  "connect_to_host c w name port =
     (case net_lookup_ip (ct_net c) w name of
        (w, Inl e) \<Rightarrow> Failed w (DnsIp name e)
      | (w, Inr ips) \<Rightarrow> unwrap_error (try_each (\<lambda>w ip. connect_to_ip c w ip port) None ips w))"

text \<open>The \<^verbatim>\<open>BTreeMap\<close> from preferences to exchanges: the next record, appended to its group.\<close>

fun mx_insert :: "16 word \<times> 'n \<Rightarrow> (16 word \<times> 'n list) list \<Rightarrow> (16 word \<times> 'n list) list" where
  "mx_insert (p, x) [] = [(p, [x])]"
| "mx_insert (p, x) ((q, xs) # m) =
     (if p < q then (p, [x]) # (q, xs) # m
      else if p = q then (q, xs @ [x]) # m
      else (q, xs) # mx_insert (p, x) m)"

definition mx_records :: "(16 word \<times> 'n) list \<Rightarrow> (16 word \<times> 'n list) list" where
  "mx_records records = foldl (\<lambda>m r. mx_insert r m) [] records"

fun connect_to_groups :: "('w, 'n, 'io) Client \<Rightarrow> 'n TransportError option \<Rightarrow> (16 word \<times> 'n list) list \<Rightarrow> 'w \<Rightarrow>
    ('w, 'n TransportError option, 'io Sender) outcome" where
  "connect_to_groups c first_error [] w = Failed w first_error"
| "connect_to_groups c first_error ((_, mxes) # groups) w =
     (case net_shuffle (ct_net c) w mxes of
        (w, mxes) \<Rightarrow>
          (case try_each (\<lambda>w mx. connect_to_host c w mx SMTP_PORT) first_error mxes w of
             Failed w e \<Rightarrow> connect_to_groups c e groups w
           | Okay w s \<Rightarrow> Okay w s
           | Panicking \<Rightarrow> Panicking
           | Forever \<Rightarrow> Forever))"

definition connect_by_address :: "('w, 'n, 'io) Client \<Rightarrow> 'w \<Rightarrow> bytes \<Rightarrow> ('w, 'n, 'io) attempt" where
  "connect_by_address c w host =
     (case net_into_name (ct_net c) host of
        Inl e \<Rightarrow> Failed w (HostToTrustDns host e)
      | Inr name \<Rightarrow> connect_to_host c w name SMTP_PORT)"

definition connect_to_mx :: "('w, 'n, 'io) Client \<Rightarrow> 'w \<Rightarrow> bytes \<Rightarrow> ('w, 'n, 'io) attempt" where
  "connect_to_mx c w host =
     (case net_mx_lookup (ct_net c) w host of
        (w, Inl e) \<Rightarrow>
          (if e = NoRecordsFound then connect_by_address c w host else Failed w (DnsMx host e))
      | (w, Inr records) \<Rightarrow>
          (if mx_records records = [] then connect_by_address c w host
           else unwrap_error (connect_to_groups c None (mx_records records) w)))"

definition connect :: "('w, 'n, 'io) Client \<Rightarrow> 'w \<Rightarrow> Destination \<Rightarrow> ('w, 'n, 'io) attempt" where
  "connect c w dest =
     (case dst_host dest of
        Ipv4 _ ip \<Rightarrow> connect_to_ip c w (IpV4 ip) SMTP_PORT
      | Ipv6 _ ip \<Rightarrow> connect_to_ip c w (IpV6 ip) SMTP_PORT
      | AsciiDomain raw \<Rightarrow> connect_to_mx c w raw
      | Utf8Domain _ punycode \<Rightarrow> connect_to_mx c w punycode)"

section \<open>Sending a mail\<close>

text \<open>The loop that copies the mail; \<open>None\<close> if it never returns.\<close>

partial_function (option) send_data_loop ::
  "'io ClientIo \<Rightarrow> ('m \<Rightarrow> nat \<Rightarrow> 'm \<times> bytes io_result) \<Rightarrow> 'm \<Rightarrow> 'io Sender \<Rightarrow>
     ('io Sender \<times> ('n TransportError + unit)) option" where
  "send_data_loop env mail_read mail s =
     (case mail_read mail DATABUF_SIZE of
        (mail, Inl e) \<Rightarrow> Some (s, Inl (ReadingMail e))
      | (mail, Inr bs) \<Rightarrow>
          (if bs = [] then Some (s, Inr ())
           else case cl_write_timer env (sn_io s) [bs] of
             Some io \<Rightarrow> Some (s\<lparr>sn_io := io\<rparr>, Inl TimedOutSendingData)
           | None \<Rightarrow>
               (case cl_write env (sn_io s) [bs] of
                  (io, Inl e) \<Rightarrow> Some (s\<lparr>sn_io := io\<rparr>, Inl (SendingData e))
                | (io, Inr _) \<Rightarrow> send_data_loop env mail_read mail (s\<lparr>sn_io := io\<rparr>))))"

definition send_data ::
  "'io ClientIo \<Rightarrow> ('m \<Rightarrow> nat \<Rightarrow> 'm \<times> bytes io_result) \<Rightarrow> 'm \<Rightarrow> 'io Sender \<Rightarrow> ('io Sender, 'n TransportError, unit) outcome" where
  "send_data env mail_read mail s =
     (case send_data_loop env mail_read mail s of
        None \<Rightarrow> Forever
      | Some (s, Inl e) \<Rightarrow> Failed s e
      | Some (s, Inr _) \<Rightarrow> Okay s ())"

text \<open>A command and the reply it must have; the macros of \<^verbatim>\<open>send\<close>.\<close>

definition expect_reply ::
  "reply_parser \<Rightarrow> 'io ClientIo \<Rightarrow> ReplyCodeKind \<Rightarrow> 'io Sender \<Rightarrow> ('io Sender, 'n TransportError, unit) outcome" where
  "expect_reply parse env expected s = bind_out (read_reply parse env s) (\<lambda>s reply. verified reply expected s)"

definition exchange ::
  "reply_parser \<Rightarrow> 'io ClientIo \<Rightarrow> bytes Command \<Rightarrow> ReplyCodeKind \<Rightarrow> 'io Sender \<Rightarrow> ('io Sender, 'n TransportError, unit) outcome" where
  "exchange parse env cmd expected s = bind_out (send_command env cmd s) (\<lambda>s _. expect_reply parse env expected s)"

definition sender_send ::
  "reply_parser \<Rightarrow> 'io ClientIo \<Rightarrow> ('m \<Rightarrow> nat \<Rightarrow> 'm \<times> bytes io_result) \<Rightarrow> bytes Email option \<Rightarrow> bytes Email \<Rightarrow> 'm \<Rightarrow>
     'io Sender \<Rightarrow> ('io Sender, 'n TransportError, unit) outcome" where
  "sender_send parse env mail_read frm rcpt mail s =
     bind_out (exchange parse env (Mail None frm (Parameters [])) PositiveCompletion s)
       (\<lambda>s _. bind_out (exchange parse env (Rcpt None rcpt (Parameters [])) PositiveCompletion s)
         (\<lambda>s _. bind_out (exchange parse env Data PositiveIntermediate s)
           (\<lambda>s _. bind_out (send_data env mail_read mail s)
             (\<lambda>s _. expect_reply parse env PositiveCompletion s))))"

end
