(* ===== verification/Kannader.thy ===== *)
theory Kannader
  imports Server Queue Client
begin

text \<open>
  What the program \<^verbatim>\<open>kannader\<close> puts between its parts: the transport that sends the mails of the
  queue with the client (\<^verbatim>\<open>queue_transport.rs\<close>), the reception of a mail into the queue
  (\<^verbatim>\<open>handle_mail\<close> of \<^verbatim>\<open>server_config.rs\<close>), and what a failing hook of the configuration blob stands
  for in \<^verbatim>\<open>queue_config.rs\<close> and \<^verbatim>\<open>client_config.rs\<close>. The hooks themselves are parameters.
\<close>

section \<open>The transport of the queue\<close>

definition transport_error_client_to_queue :: "'n TransportError \<Rightarrow> TransportFailure" where
  "transport_error_client_to_queue err =
     (case severity err of
        TransportErrorSeverity.Local \<Rightarrow> TransportFailure.Local
      | TransportErrorSeverity.NetworkTransient \<Rightarrow> TransportFailure.NetworkTransient
      | TransportErrorSeverity.MailTransient \<Rightarrow> TransportFailure.MailTransient
      | TransportErrorSeverity.MailboxTransient \<Rightarrow> TransportFailure.MailboxTransient
      | TransportErrorSeverity.MailSystemTransient \<Rightarrow> TransportFailure.MailSystemTransient
      | TransportErrorSeverity.MailPermanent \<Rightarrow> TransportFailure.MailPermanent
      | TransportErrorSeverity.MailboxPermanent \<Rightarrow> TransportFailure.MailboxPermanent
      | TransportErrorSeverity.MailSystemPermanent \<Rightarrow> TransportFailure.MailSystemPermanent)"

text \<open>\<^verbatim>\<open>map_err\<close>\<close>

fun map_err :: "('e \<Rightarrow> 'f) \<Rightarrow> ('s, 'e, 'a) outcome \<Rightarrow> ('s, 'f, 'a) outcome" where
  "map_err f (Okay s a) = Okay s a"
| "map_err f (Failed s e) = Failed s (f e)"
| "map_err f Panicking = Panicking"
| "map_err f Forever = Forever"

lemma map_err_Okay: "map_err f out = Okay s a \<longleftrightarrow> out = Okay s a"
  by (cases out) simp_all

text \<open>The constant \<^verbatim>\<open>localhost\<close> is parsed on every call, and must parse.\<close>

definition transport_destination ::
  "nom \<Rightarrow> 'q lexers \<Rightarrow> 'u QMailMetadata \<Rightarrow> (TransportFailure + Destination) run" where
  "transport_destination N X meta =
     (case hostname_parse N X ''localhost'' of
        Inr (_, PHostname localhost) \<Rightarrow>
          Value (map_sum transport_error_client_to_queue id
            (get_destination (case em_hostname (qmm_to meta) of Some h \<Rightarrow> h | None \<Rightarrow> localhost) :: unit TransportError + Destination))
      | _ \<Rightarrow> Panic)"

definition transport_connect ::
  "('w, 'n, 'io) Client \<Rightarrow> 'w \<Rightarrow> Destination \<Rightarrow> ('w, TransportFailure, 'io Sender) outcome" where
  "transport_connect c w dest = map_err transport_error_client_to_queue (connect c w dest)"

definition transport_send ::
  "reply_parser \<Rightarrow> 'io ClientIo \<Rightarrow> ('m \<Rightarrow> nat \<Rightarrow> 'm \<times> bytes io_result) \<Rightarrow> 'io Sender \<Rightarrow> 'u QMailMetadata \<Rightarrow> 'm \<Rightarrow>
     ('io Sender, TransportFailure, unit) outcome" where
  "transport_send parse env mail_read sender meta mail =
     map_err (transport_error_client_to_queue :: unit TransportError \<Rightarrow> TransportFailure)
       (sender_send parse env mail_read (qmm_from meta) (qmm_to meta) mail sender)"

section \<open>Hooks\<close>

text \<open>
  \<^verbatim>\<open>run_hook!\<close>: what a call of the blob returned (\<open>Inl\<close> for a trap or an answer that cannot be
  decoded), and the expression that replaces it then.
\<close>

definition run_hook :: "'t + 'a \<Rightarrow> 'a run \<Rightarrow> 'a run" where
  "run_hook res fallback = (case res of Inr a \<Rightarrow> Value a | Inl _ \<Rightarrow> fallback)"

definition queue_next_interval :: "'t + duration option \<Rightarrow> duration option run" where
  "queue_next_interval res = run_hook res (Value (Some (from_secs (4 * 3600))))"

definition queue_found_inflight_check_delay :: "'t + duration \<Rightarrow> duration run" where
  "queue_found_inflight_check_delay res = run_hook res (Value (from_secs 3600))"

definition queue_io_error_next_retry_delay :: "'t + duration \<Rightarrow> duration \<Rightarrow> duration run" where
  "queue_io_error_next_retry_delay res d =
     run_hook res
       (if d < from_secs 30 then Value (from_secs 60)
        else if d * 2 \<le> max_duration then Value (d * 2) else Panic)"

definition client_ehlo_hostname :: "'t + bytes Hostname \<Rightarrow> bytes Hostname run" where
  "client_ehlo_hostname res = run_hook res Panic"

definition client_can_do_tls :: "'t + bool \<Rightarrow> bool run" where
  "client_can_do_tls res = run_hook res (Value True)"

definition client_must_do_tls :: "'t + bool \<Rightarrow> bool run" where
  "client_must_do_tls res = run_hook res (Value False)"

section \<open>Receiving a mail\<close>

definition KANNADER_DATABUF_SIZE :: nat where "KANNADER_DATABUF_SIZE = 16 * 1024"

datatype Meta = Meta

text \<open>
  The buffer is given empty to every read; of what it holds only the bytes just read are looked at.
\<close>

definition read_stream :: "'io ServerIo \<Rightarrow> 'io EscapedDataReader \<Rightarrow>
    ('io EscapedDataReader \<times> bytes list \<times> nat io_result poll) run" where
  "read_stream env reader = poll_read (awaited_read env) reader (replicate KANNADER_DATABUF_SIZE (CHR 0x00))"

text \<open>The loop that throws away the rest of the mail after a failed write; \<open>None\<close> if it never ends.\<close>

partial_function (option) drain_stream ::
  "'io ServerIo \<Rightarrow> 'io EscapedDataReader \<Rightarrow> 'io EscapedDataReader run option" where
  "drain_stream env reader =
     (case read_stream env reader of
        Panic \<Rightarrow> Some Panic
      | Value (reader', bufs, Pending) \<Rightarrow> drain_stream env reader'
      | Value (reader', bufs, Ready (Inl e)) \<Rightarrow> Some (Value reader')
      | Value (reader', bufs, Ready (Inr n)) \<Rightarrow>
          (if n = 0 then Some (Value reader') else drain_stream env reader'))"

text \<open>
  The loop that copies the mail to the queue, with whether it came to the end of the stream.
  \<open>put\<close> is \<^verbatim>\<open>write_all\<close> on the enqueuer of the storage.
\<close>

type_synonym ('w, 'enq) enqueuer_write = "'w \<Rightarrow> 'enq \<Rightarrow> bytes \<Rightarrow> 'w \<times> 'enq \<times> unit io_result"

definition enqueuer_write_all ::
  "('w, 'enq) enqueuer_write \<Rightarrow> 'enq Enqueuer \<Rightarrow> bytes \<Rightarrow> 'w \<Rightarrow> ('enq Enqueuer \<times> 'w \<times> unit io_result) run" where
  "enqueuer_write_all put en bs w =
     enqueuer_poll (\<lambda>e bs. case put w e bs of (w', e', r) \<Rightarrow> (e', w', r)) en bs"

partial_function (option) copy_loop ::
  "'io ServerIo \<Rightarrow> ('w, 'enq) enqueuer_write \<Rightarrow> 'io EscapedDataReader \<Rightarrow> 'enq Enqueuer \<Rightarrow> 'w \<Rightarrow>
     ('io EscapedDataReader \<times> 'enq Enqueuer \<times> 'w \<times> bool) run option" where
  "copy_loop env put reader en w =
     (case read_stream env reader of
        Panic \<Rightarrow> Some Panic
      | Value (reader', bufs, Pending) \<Rightarrow> copy_loop env put reader' en w
      | Value (reader', bufs, Ready (Inl e)) \<Rightarrow> Some (Value (reader', en, w, False))
      | Value (reader', bufs, Ready (Inr n)) \<Rightarrow>
          (if n = 0 then Some (Value (reader', en, w, True))
           else case enqueuer_write_all put en (take n (concat bufs)) w of
             Panic \<Rightarrow> Some Panic
           | Value (en', w', Inl e) \<Rightarrow>
               (case drain_stream env reader' of
                  None \<Rightarrow> None
                | Some Panic \<Rightarrow> Some Panic
                | Some (Value reader'') \<Rightarrow> Some (Value (reader'', en', w', False)))
           | Value (en', w', Inr u) \<Rightarrow> copy_loop env put reader' en' w'))"

fun mail_destinations ::
  "'w Chrono \<Rightarrow> bytes Email option \<Rightarrow> bytes Email list \<Rightarrow> 'w \<Rightarrow> 'w \<times> (Meta QMailMetadata \<times> ScheduleInfo) list" where
  "mail_destinations ch frm [] w = (w, [])"
| "mail_destinations ch frm (rcpt # rcpts) w =
     (case utc_now ch w of
        (w, now) \<Rightarrow>
          (case mail_destinations ch frm rcpts w of
             (w, ds) \<Rightarrow> (w, (\<lparr>qmm_from = frm, qmm_to = rcpt, qmm_metadata = Meta\<rparr>,
                            \<lparr>sched_at = now, last_attempt = None\<rparr>) # ds)))"

text \<open>
  \<^verbatim>\<open>handle_mail\<close>. Its state is the runner of the queue; the other tasks of the runner do not go on
  while it waits for the stream.
\<close>

definition kannader_handle_mail ::
  "'io ServerIo \<Rightarrow> ('w, 'enq) enqueuer_write \<Rightarrow> ('w, 'qm, 'im, 'pm, 'e, Meta, 'r, 'enq, 'd, 's) QueueImpl \<Rightarrow>
     'io EscapedDataReader \<Rightarrow> ('w, 'qm, 'im, 'pm, 'e, Meta, 'r, 'd, 's) runner \<Rightarrow> 'mu MailMetadata \<Rightarrow>
     ('io EscapedDataReader \<times> ('w, 'qm, 'im, 'pm, 'e, Meta, 'r, 'd, 's) runner \<times> unit Decision) run option" where
  "kannader_handle_mail env put q stream s meta =
     (case queue_enqueue q (rn_world s) of
        (w, Inl e) \<Rightarrow> Some (Value (stream, s\<lparr>rn_world := w\<rparr>, Reject internal_server_error))
      | (w, Inr enqueuer) \<Rightarrow>
          (case copy_loop env put stream enqueuer w of
             None \<Rightarrow> None
           | Some Panic \<Rightarrow> Some Panic
           | Some (Value (stream, enqueuer, w, copied)) \<Rightarrow>
               (if \<not> copied \<or> \<not> is_finished stream then
                  Some (Value (stream, s\<lparr>rn_world := w\<rparr>, Reject internal_server_error))
                else case complete stream of
                  Panic \<Rightarrow> Some Panic
                | Value stream \<Rightarrow>
                    (case mail_destinations (qi_chrono q) (mm_from meta) (mm_to meta) w of
                       (w, destinations) \<Rightarrow>
                         (case enqueuer_commit q enqueuer destinations (s\<lparr>rn_world := w\<rparr>) of
                            Panic \<Rightarrow> Some Panic
                          | Value (s, Inl e) \<Rightarrow> Some (Value (stream, s, Reject internal_server_error))
                          | Value (s, Inr u) \<Rightarrow> Some (Value (stream, s, Accept okay_mail ())))))))"

section \<open>Copying\<close>

text \<open>
  Reading a message through the data buffer: every read answers, with an error, or with the next
  bytes of the message and none only at its end.
\<close>

lemma read_stream_cases:
  assumes "connection env incoming wire" "rd_wf d" "length (rd_buf d) = RDBUF_SIZE"
  obtains (failed) d' bufs e where "read_stream env d = Value (d', bufs, Ready (Inl e))"
      "reader_run (awaited_read env) d [] d'"
    | (ended) bufs where "read_stream env d = Value (d, bufs, Ready (Inr 0))" "is_finished d"
    | (more) d' bufs n where "read_stream env d = Value (d', bufs, Ready (Inr n))" "0 < n" "\<not> is_finished d"
      "rd_wf d'" "length (rd_buf d') = RDBUF_SIZE" "length (rd_remaining incoming d') < length (rd_remaining incoming d)"
      "reader_run (awaited_read env) d (take n (concat bufs)) d'"
proof -
  note ar = connection.awaited_async_read [OF assms(1)]
  let ?bufs = "[replicate KANNADER_DATABUF_SIZE (CHR 0x00)] :: bytes list"
  have size: "total_len ?bufs = RDBUF_SIZE" by (simp add: KANNADER_DATABUF_SIZE_def RDBUF_SIZE_def)
  have r: "read_stream env d = poll_read_vectored (awaited_read env) d ?bufs"
    by (simp add: read_stream_def poll_read_def)
  obtain d' bufs res where p: "poll_read_vectored (awaited_read env) d ?bufs = Value (d', bufs, res)"
    using async_read.poll_no_panic [OF ar assms(2), of ?bufs] size assms(3)
    by (cases "poll_read_vectored (awaited_read env) d ?bufs") auto
  consider (e) e where "res = Ready (Inl e)" | (n) n where "res = Ready (Inr n)" | (p) "res = Pending"
    by (cases res) (auto split: sum.splits, metis sum.exhaust)
  then show thesis
  proof cases
    case e
    then show thesis using failed r p reader_run.failed [OF reader_run.start] by metis
  next
    case p': p
    have "awaited_read env io b \<noteq> (io', b', Pending)" for io b io' b'
      by (auto simp: awaited_read_def split: prod.splits sum.splits)
    moreover have "poll_scan d1 b k \<noteq> Value (d2, b2, Pending)" for d1 d2 :: "'a EscapedDataReader" and b k b2
      by (auto simp: poll_scan_def split: if_splits prod.splits option.splits)
    ultimately have False using p p'
      by (auto simp: poll_read_vectored_def Let_def split: if_splits prod.splits poll.splits sum.splits run.splits)
    then show thesis ..
  next
    case n
    note p = p [unfolded n]
    show thesis
    proof (cases "is_finished d")
      case True
      with p have "d' = d" "n = 0" by (auto simp: poll_read_vectored_def)
      with True p r ended show thesis by simp
    next
      case False
      have "0 < total_len ?bufs" using size by (simp add: RDBUF_SIZE_def)
      from async_read.poll_progress [OF ar False this assms(2) p] have "0 < n" .
      moreover note ok = async_read.poll_ok [OF ar assms(2) False p]
      moreover have "reader_run (awaited_read env) d ([] @ take n (concat bufs)) d'"
        by (rule reader_run.delivered [OF reader_run.start p])
      moreover have "length (rd_remaining incoming d) - n < length (rd_remaining incoming d)" using ok \<open>0 < n\<close> by linarith
      ultimately show thesis using more [of d' bufs n] r p False assms(3) by simp
    qed
  qed
qed

lemma drain_stream_returns:
  assumes "connection env incoming wire" "rd_wf d" "length (rd_buf d) = RDBUF_SIZE"
  shows "\<exists>d'. drain_stream env d = Some (Value d')"
  using assms(2,3)
proof (induction "length (rd_remaining incoming d)" arbitrary: d rule: less_induct)
  case less
  show ?case
  proof (rule read_stream_cases [OF assms(1) less.prems])
    fix d' bufs e
    assume "read_stream env d = Value (d', bufs, Ready (Inl e))"
    then show ?thesis by (subst drain_stream.simps) simp
  next
    fix bufs
    assume "read_stream env d = Value (d, bufs, Ready (Inr 0))"
    then show ?thesis by (subst drain_stream.simps) simp
  next
    fix d' bufs n
    assume rd: "read_stream env d = Value (d', bufs, Ready (Inr n))" "0 < n"
      and d': "rd_wf d'" "length (rd_buf d') = RDBUF_SIZE"
      and lt: "length (rd_remaining incoming d') < length (rd_remaining incoming d)"
    from less.hyps [OF lt d'] obtain d'' where "drain_stream env d' = Some (Value d'')" ..
    with rd show ?thesis by (subst drain_stream.simps) simp
  qed
qed

text \<open>
  What the copying needs of the enqueuer: \<open>given w e c\<close> says that in the world \<open>w\<close> the enqueuer \<open>e\<close> has
  been given the contents \<open>c\<close>, \<open>fine w\<close> that the storage is in order.
\<close>

locale mail_enqueuer =
  fixes put :: "('w, 'enq) enqueuer_write" and given :: "'w \<Rightarrow> 'enq \<Rightarrow> bytes \<Rightarrow> bool" and fine :: "'w \<Rightarrow> bool"
  assumes write_done: "given w e c \<Longrightarrow> put w e bs = (w', e', Inr u) \<Longrightarrow> given w' e' (c @ bs)"
    and write_failed: "given w e c \<Longrightarrow> put w e bs = (w', e', Inl err) \<Longrightarrow> fine w'"
    and given_fine: "given w e c \<Longrightarrow> fine w"
begin

definition copied :: "'io ServerIo \<Rightarrow> 'io EscapedDataReader \<Rightarrow> bytes \<Rightarrow>
    'io EscapedDataReader \<times> 'enq Enqueuer \<times> 'w \<times> bool \<Rightarrow> bool" where
  "copied env d c res \<longleftrightarrow>
     (case res of (d', en, w, to_end) \<Rightarrow> if to_end
        then is_finished d' \<and> (\<exists>out e. reader_run (awaited_read env) d out d' \<and> en = \<lparr>en_enqueuer = Some e\<rparr> \<and> given w e (c @ out))
        else fine w)"

lemma copied_more:
  assumes "copied env d' (c @ bs) res" "reader_run (awaited_read env) d bs d'"
  shows "copied env d c res"
  using assms(1) reader_run_trans [OF _ assms(2)] by (fastforce simp: copied_def)

lemma copy_loop_copies:
  assumes "connection env incoming wire" "rd_wf d" "length (rd_buf d) = RDBUF_SIZE" "given w e c"
  shows "\<exists>res. copy_loop env put d \<lparr>en_enqueuer = Some e\<rparr> w = Some (Value res) \<and> copied env d c res"
  using assms(2-)
proof (induction "length (rd_remaining incoming d)" arbitrary: d w e c rule: less_induct)
  case less
  let ?loop = "copy_loop env put d \<lparr>en_enqueuer = Some e\<rparr> w"
  note fine = given_fine [OF less.prems(3)]
  show ?case
  proof (rule read_stream_cases [OF assms(1) less.prems(1,2)])
    fix d' bufs err
    assume "read_stream env d = Value (d', bufs, Ready (Inl err))"
    then have "?loop = Some (Value (d', \<lparr>en_enqueuer = Some e\<rparr>, w, False))" by (subst copy_loop.simps) simp
    with fine show ?thesis by (simp add: copied_def)
  next
    fix bufs
    assume rd: "read_stream env d = Value (d, bufs, Ready (Inr 0))" and fin: "is_finished d"
    from rd have "?loop = Some (Value (d, \<lparr>en_enqueuer = Some e\<rparr>, w, True))" by (subst copy_loop.simps) simp
    moreover have "copied env d c (d, \<lparr>en_enqueuer = Some e\<rparr>, w, True)"
      using fin less.prems(3) reader_run.start [of "awaited_read env" d]
      unfolding copied_def by (auto intro: exI [of _ "[]"])
    ultimately show ?thesis by blast
  next
    fix d' and bufs :: "bytes list" and n
    let ?bs = "take n (concat bufs)"
    assume rd: "read_stream env d = Value (d', bufs, Ready (Inr n))" "0 < n"
      and d': "rd_wf d'" "length (rd_buf d') = RDBUF_SIZE"
      and lt: "length (rd_remaining incoming d') < length (rd_remaining incoming d)"
      and run: "reader_run (awaited_read env) d ?bs d'"
    obtain w' e' r where w: "put w e ?bs = (w', e', r)" by (cases "put w e ?bs")
    have step: "enqueuer_write_all put \<lparr>en_enqueuer = Some e\<rparr> ?bs w = Value (\<lparr>en_enqueuer = Some e'\<rparr>, w', r)"
      using w by (simp add: enqueuer_write_all_def enqueuer_poll_def)
    show ?thesis
    proof (cases r)
      case (Inl err)
      obtain d'' where "drain_stream env d' = Some (Value d'')" using drain_stream_returns [OF assms(1) d'] ..
      with rd step Inl have "?loop = Some (Value (d'', \<lparr>en_enqueuer = Some e'\<rparr>, w', False))"
        by (subst copy_loop.simps) simp
      moreover have "fine w'" using write_failed [OF less.prems(3)] w Inl by auto
      ultimately show ?thesis by (simp add: copied_def)
    next
      case (Inr u)
      with write_done [OF less.prems(3)] w have "given w' e' (c @ ?bs)" by auto
      from less.hyps [OF lt d' this] obtain res where
        "copy_loop env put d' \<lparr>en_enqueuer = Some e'\<rparr> w' = Some (Value res)" "copied env d' (c @ ?bs) res" by blast
      moreover from this(1) rd step Inr have "?loop = Some (Value res)" by (subst copy_loop.simps) simp
      ultimately show ?thesis using copied_more [OF _ run] by blast
    qed
  qed
qed

end

end
