(* ===== verification/ClientSession.thy ===== *)
theory ClientSession
  imports Client
begin

text \<open>
  The client's buffer and its conversation: what a reply read from the connection leaves behind,
  what is written and in which order, and what encryption does to it.
\<close>

section \<open>Parsing replies\<close>

locale reply_parsing =
  fixes parse :: reply_parser
  assumes parse_rest: "parse b = Inr (rem, r) \<Longrightarrow> suffix rem b"
    and parse_code: "parse b = Inr (rem, r) \<Longrightarrow> valid_reply_code (rp_code r)"

context grammar
begin

lemma reply_text_consumes [consumption]: "consumes (reply_text_parse N X)"
  unfolding reply_text_parse_def by (intro consumption regex_consumes)

lemma reply_code_consumes [consumption]: "consumes (reply_code_parse N X)"
  unfolding reply_code_parse_def by (intro consumption regex_consumes)

lemma ecode_consumes [consumption]: "consumes (ecode_parse N X)"
  unfolding ecode_parse_def by (intro consumption regex_consumes)

lemma reply_line_consumes [consumption]: "consumes (reply_line_parse N X)"
  unfolding reply_line_parse_def by (intro consumption)

lemma reply_parse_suffix: "reply_parse N X b = Inr (rem, r) \<Longrightarrow> suffix rem b"
proof -
  have "consumes (reply_parse_pv N X)"
    unfolding reply_parse_pv_def continuation_line_def by (intro consumption)
  moreover assume "reply_parse N X b = Inr (rem, r)"
  then obtain v where "reply_parse_pv N X b = Inr (rem, v)"
    by (auto simp: reply_parse_def ires_extract_def ires_bind_Inr split: option.splits)
  ultimately show ?thesis by (rule consumesD)
qed

lemma reply_code_parse_valid:
  assumes "reply_code_parse N X i = Inr (rest, PCode c)"
  shows "valid_reply_code c"
proof -
  from assms obtain w where w: "apply_regex (REPLY_CODE X) i = Inr (rest, w)" "reply_code_value_of (PBytes w) = PCode c"
    by (auto simp: reply_code_parse_def regex_def ires_map_Inr)
  then have l: "w \<in> lang REPLY_CODE_re" using reply_code.apply_regex_lang by blast
  then have "length w = 3" using reply_code_length by blast
  then obtain x y z where "w = [x, y, z]" by (auto simp: length_Suc_conv numeral_eq_Suc)
  with w(2) l show ?thesis by (auto simp: reply_code_value_of_def valid_reply_code_iff)
qed

lemma reply_line_valid:
  assumes "reply_line_parse N X i = Inr (rest, PLine l)"
  shows "valid_reply_code (rl_code l)"
proof -
  from assms obtain r1 v1 vs where "reply_code_parse N X i = Inr (r1, v1)" "reply_line_value (PList (v1 # vs)) = PLine l"
    by (auto simp: reply_line_parse_def map_law tuple_Cons ires_map_Inr ires_bind_Inr)
  moreover from this(2) have "v1 = PCode (rl_code l)"
    by (auto simp: reply_line_value_def component_def split: pv.splits)
  ultimately show ?thesis using reply_code_parse_valid by blast
qed

lemma reply_parse_valid:
  assumes "reply_parse N X b = Inr (rem, r)"
  shows "valid_reply_code (rp_code r)"
proof -
  from assms have "reply_parse_pv N X b = Inr (rem, PReply r)"
    by (auto simp: reply_parse_def ires_extract_def get_reply_def ires_bind_Inr split: option.splits pv.splits)
  then obtain v v1 r1 where v: "PReply r = reply_value (PPair v1 v)" "reply_line_parse N X r1 = Inr (rem, v)"
    by (auto simp: reply_parse_pv_def map_law pair_law verify_law ires_map_Inr ires_bind_Inr split: if_splits)
  from v(1) obtain l where "v = PLine l" "rp_code r = rl_code l" by (auto simp: reply_value_def split: pv.splits)
  with v(2) reply_line_valid show ?thesis by simp
qed

end

sublocale grammar \<subseteq> reply_parsing "reply_parse N X"
  by unfold_locales (erule reply_parse_suffix, erule reply_parse_valid)

lemma grammar_reply_parsing:
  assumes "grammar N X"
  shows "reply_parsing (reply_parse N X)"
  using grammar.reply_parse_suffix [OF assms] grammar.reply_parse_valid [OF assms] by (intro reply_parsing.intro) blast+

lemma valid_code_kind: "valid_reply_code c \<Longrightarrow> \<exists>k. reply_code_kind c = Value k"
  by (cases c) (auto simp: valid_reply_code.simps)

section \<open>The connection\<close>

text \<open>
  \<open>wire\<close> is what has been written to the connection, \<open>secure\<close> whether it is encrypted. A read
  gives no more than it was asked for. A write that fails or is timed out may have written a part.
\<close>

locale client_connection =
  fixes env :: "'io ClientIo" and tls_connect :: "'io \<Rightarrow> 'io \<times> unit io_result"
    and wire :: "'io \<Rightarrow> bytes" and secure :: "'io \<Rightarrow> bool"
  assumes read_kept: "cl_read env io n = (io', rd) \<Longrightarrow> wire io' = wire io \<and> secure io' = secure io"
    and read_fits: "cl_read env io n = (io', Inr bs) \<Longrightarrow> length bs \<le> n"
    and read_timer_kept: "cl_read_timer env io = Some io' \<Longrightarrow> wire io' = wire io \<and> secure io' = secure io"
    and write_done: "cl_write env io bss = (io', Inr u) \<Longrightarrow> wire io' = wire io @ concat bss \<and> secure io' = secure io"
    and write_failed: "cl_write env io bss = (io', Inl e) \<Longrightarrow> (\<exists>k. wire io' = wire io @ take k (concat bss)) \<and> secure io' = secure io"
    and write_timer: "cl_write_timer env io bss = Some io' \<Longrightarrow> (\<exists>k. wire io' = wire io @ take k (concat bss)) \<and> secure io' = secure io"
    and tls_done: "tls_connect io = (io', Inr u) \<Longrightarrow> wire io' = wire io \<and> secure io'"

section \<open>Reading a reply\<close>

definition sender_ok :: "'io Sender \<Rightarrow> bool" where
  "sender_ok s \<longleftrightarrow> sn_start s \<le> sn_end s \<and> sn_end s \<le> length (sn_rdbuf s) \<and> length (sn_rdbuf s) = CLIENT_RDBUF_SIZE"

lemma sender_new_ok: "sender_ok (sender_new io)" "sn_io (sender_new io) = io"
  by (simp_all add: sender_ok_def sender_new_def)

lemma reply_room_props:
  assumes "sender_ok s"
  shows "sender_ok (reply_room n s) \<and> sn_unhandled (reply_room n s) = sn_unhandled s \<and> sn_io (reply_room n s) = sn_io s \<and>
    sn_extensions (reply_room n s) = sn_extensions s"
proof -
  have "subslice (copy_within (sn_rdbuf s) (sn_start s) (sn_end s) 0) 0 (sn_end s - sn_start s) = subslice (sn_rdbuf s) (sn_start s) (sn_end s)"
  proof -
    have "0 + (sn_end s - sn_start s) \<le> length (sn_rdbuf s)" using assms unfolding sender_ok_def by linarith
    then show ?thesis
      using take_copy_within [of "sn_start s" "sn_end s" "sn_rdbuf s" 0] assms by (simp add: sender_ok_def subslice_def)
  qed
  with assms show ?thesis by (auto simp: reply_room_def Let_def sender_ok_def sn_unhandled_def)
qed

lemma filled_sender:
  assumes "sender_ok s" "length bs \<le> length (sn_rdbuf s) - sn_end s"
  shows "sender_ok (s\<lparr>sn_io := io, sn_rdbuf := write_at (sn_rdbuf s) (sn_end s) bs, sn_end := sn_end s + length bs\<rparr>) \<and>
    sn_unhandled (s\<lparr>sn_io := io, sn_rdbuf := write_at (sn_rdbuf s) (sn_end s) bs, sn_end := sn_end s + length bs\<rparr>) = sn_unhandled s @ bs"
proof -
  have "sn_end s + length bs \<le> length (sn_rdbuf s)" using assms unfolding sender_ok_def by linarith
  with write_at_props [OF this] assms(1) show ?thesis by (simp add: sender_ok_def sn_unhandled_def)
qed

lemma sender_rest:
  assumes ok: "sender_ok s" and "suffix rem (sn_unhandled s)"
  shows "sender_ok (s\<lparr>sn_start := sn_end s - length rem\<rparr>) \<and> sn_unhandled (s\<lparr>sn_start := sn_end s - length rem\<rparr>) = rem"
proof -
  let ?m = "sn_end s - length rem"
  from assms(2) obtain pre where pre: "sn_unhandled s = pre @ rem" by (auto simp: suffix_def)
  have le: "sn_start s \<le> sn_end s" "sn_end s \<le> length (sn_rdbuf s)" using ok by (simp_all add: sender_ok_def)
  then have "length pre + length rem = sn_end s - sn_start s"
    using arg_cong [OF pre, of length] by (simp add: sn_unhandled_def)
  then have m: "sn_start s \<le> ?m" "?m \<le> sn_end s" "length (subslice (sn_rdbuf s) (sn_start s) ?m) = length pre"
    using le by simp_all
  have "subslice (sn_rdbuf s) (sn_start s) ?m @ subslice (sn_rdbuf s) ?m (sn_end s) = pre @ rem"
    using subslice_split [OF m(1,2), of "sn_rdbuf s"] pre by (simp add: sn_unhandled_def)
  with m(3) have "subslice (sn_rdbuf s) ?m (sn_end s) = rem" by simp
  with ok show ?thesis by (simp add: sender_ok_def sn_unhandled_def)
qed

context client_connection
begin

lemma read_for_reply_props:
  assumes "read_for_reply env io n = (io', r)"
  shows "wire io' = wire io \<and> secure io' = secure io \<and> (\<forall>bs. r = Inr bs \<longrightarrow> length bs \<le> n)"
  using assms read_kept read_fits read_timer_kept
  by (fastforce simp: read_for_reply_def split: option.splits prod.splits sum.splits)

text \<open>A step of the loop reads more into the buffer, until a reply is complete or the buffer full.\<close>

definition reply_read :: "reply_parser \<Rightarrow> 'io Sender \<Rightarrow> 'io Sender \<times> ('n TransportError + bytes Reply) \<Rightarrow> bool" where
  "reply_read parse s res \<longleftrightarrow> (case res of (s', r) \<Rightarrow> sender_ok s' \<and> wire (sn_io s') = wire (sn_io s) \<and>
     secure (sn_io s') = secure (sn_io s) \<and> sn_extensions s' = sn_extensions s \<and>
     (\<forall>reply. r = Inr reply \<longrightarrow> (\<exists>bs. parse (sn_unhandled s @ bs) = Inr (sn_unhandled s', reply))))"

lemma reply_read_grown:
  assumes "reply_read parse s' res" "sn_unhandled s' = sn_unhandled s @ bs" "wire (sn_io s') = wire (sn_io s)"
    and "secure (sn_io s') = secure (sn_io s)" "sn_extensions s' = sn_extensions s"
  shows "reply_read parse s res"
  using assms unfolding reply_read_def by (fastforce split: prod.splits)

definition room_left :: "'io Sender \<Rightarrow> nat" where
  "room_left s = (if sn_start s = 0 then 0 else CLIENT_RDBUF_SIZE + 1) + (CLIENT_RDBUF_SIZE - sn_end s)"

lemma reply_room_left: "sender_ok s \<Longrightarrow> room_left (reply_room n s) \<le> room_left s"
  by (auto simp: reply_room_def Let_def room_left_def sender_ok_def)

lemma read_reply_loop_returns:
  assumes "reply_parsing parse" "sender_ok s"
  shows "\<exists>res :: 'io Sender \<times> ('n TransportError + bytes Reply). read_reply_loop parse env s = Some res \<and> reply_read parse s res"
  using assms(2)
proof (induction "room_left s" arbitrary: s rule: less_induct)
  case less
  note rest = reply_parsing.parse_rest [OF assms(1)]
  let ?loop = "read_reply_loop parse env :: 'io Sender \<Rightarrow> ('io Sender \<times> ('n TransportError + bytes Reply)) option"
  consider (incomplete) n where "parse (sn_unhandled s) = Inl (Incomplete n)"
    | (wrong) e where "parse (sn_unhandled s) = Inl e" "\<And>n. e \<noteq> Incomplete n"
    | (parsed) rem reply where "parse (sn_unhandled s) = Inr (rem, reply)"
    by (cases "parse (sn_unhandled s)"; cases "\<exists>n. parse (sn_unhandled s) = Inl (Incomplete n)") auto
  then show ?case
  proof cases
    case wrong
    have "e = Nom_Error \<or> e = Nom_Failure" using wrong(2) by (cases e) auto
    with wrong(1) have "?loop s = Some (s, Inl (SyntaxError (sn_unhandled s)))"
      by (auto simp: read_reply_loop.simps [of _ _ s])
    with less.prems show ?thesis by (auto simp: reply_read_def)
  next
    case parsed
    then have l: "?loop s = Some (s\<lparr>sn_start := sn_end s - length rem\<rparr>, Inr reply)" by (subst read_reply_loop.simps) simp
    with sender_rest [OF less.prems rest [OF parsed]] parsed show ?thesis by (auto simp: reply_read_def intro: exI [of _ "[]"])
  next
    case incomplete
    let ?s = "reply_room n s"
    note rp = reply_room_props [OF less.prems, of n]
    obtain io' r where io: "read_for_reply env (sn_io ?s) (length (sn_rdbuf ?s) - sn_end ?s) = (io', r :: 'n TransportError + bytes)" by force
    note rd = read_for_reply_props [OF io]
    have step: "?loop s = (if sn_end ?s = length (sn_rdbuf ?s) then Some (?s, Inl (TooLongReply (sn_unhandled ?s)))
        else case r of Inl e \<Rightarrow> Some (?s\<lparr>sn_io := io'\<rparr>, Inl e)
        | Inr bs \<Rightarrow> if bs = [] then Some (?s\<lparr>sn_io := io', sn_rdbuf := write_at (sn_rdbuf ?s) (sn_end ?s) bs\<rparr>, Inl ConnectionAborted)
            else ?loop (?s\<lparr>sn_io := io', sn_rdbuf := write_at (sn_rdbuf ?s) (sn_end ?s) bs, sn_end := sn_end ?s + length bs\<rparr>))"
      by (subst read_reply_loop.simps) (simp add: incomplete Let_def io split: sum.splits)
    show ?thesis
    proof (cases "sn_end ?s = length (sn_rdbuf ?s)")
      case True
      with step rp show ?thesis by (auto simp: reply_read_def)
    next
      case full: False
      show ?thesis
      proof (cases r)
        case (Inl e)
        with step rp rd full show ?thesis by (auto simp: reply_read_def sender_ok_def)
      next
        case (Inr bs)
        let ?t = "?s\<lparr>sn_io := io', sn_rdbuf := write_at (sn_rdbuf ?s) (sn_end ?s) bs, sn_end := sn_end ?s + length bs\<rparr>"
        have len: "length bs \<le> length (sn_rdbuf ?s) - sn_end ?s" using rd Inr by simp
        note fs = filled_sender [OF _ len, of io']
        show ?thesis
        proof (cases "bs = []")
          case True
          with step rp rd full Inr fs show ?thesis by (auto simp: reply_read_def)
        next
          case False
          have "sn_end ?s < CLIENT_RDBUF_SIZE" "0 < length bs" using rp full False by (auto simp: sender_ok_def)
          then have "CLIENT_RDBUF_SIZE - (sn_end ?s + length bs) < CLIENT_RDBUF_SIZE - sn_end ?s" by linarith
          then have "room_left ?t < room_left ?s" by (simp add: room_left_def)
          then have "room_left ?t < room_left s" using reply_room_left [OF less.prems, of n] by linarith
          from less.hyps [OF this] fs rp obtain res where res: "?loop ?t = Some res" "reply_read parse ?t res" by blast
          have "reply_read parse s res" by (rule reply_read_grown [OF res(2)]) (use fs rp rd in simp_all)
          with res(1) step full Inr False show ?thesis by simp
        qed
      qed
    qed
  qed
qed

definition reply_outcome :: "reply_parser \<Rightarrow> 'io Sender \<Rightarrow> ('io Sender, 'n TransportError, bytes Reply) outcome \<Rightarrow> bool" where
  "reply_outcome parse s out \<longleftrightarrow>
     (case out of Okay s' reply \<Rightarrow> reply_read parse s (s', Inr reply :: 'n TransportError + bytes Reply)
      | Failed s' e \<Rightarrow> reply_read parse s (s', Inl e) | _ \<Rightarrow> False)"

definition loop_outcome :: "('io Sender \<times> ('n TransportError + bytes Reply)) option \<Rightarrow> ('io Sender, 'n TransportError, bytes Reply) outcome" where
  "loop_outcome res = (case res of None \<Rightarrow> Forever | Some (s, Inl e) \<Rightarrow> Failed s e | Some (s, Inr reply) \<Rightarrow> Okay s reply)"

lemma read_reply_returns:
  assumes "reply_parsing parse" "sender_ok s"
  shows "reply_outcome parse s (read_reply parse env s :: ('io Sender, 'n TransportError, bytes Reply) outcome)"
proof -
  let ?read = "read_reply parse env :: 'io Sender \<Rightarrow> ('io Sender, 'n TransportError, bytes Reply) outcome"
  have loop: "reply_outcome parse t (loop_outcome (read_reply_loop parse env t) :: ('io Sender, 'n TransportError, bytes Reply) outcome)"
    if ok: "sender_ok t" for t
  proof -
    obtain s' r where "read_reply_loop parse env t = Some (s', r :: 'n TransportError + bytes Reply)" "reply_read parse t (s', r)"
      using read_reply_loop_returns [OF assms(1) ok] by (metis surj_pair)
    then show ?thesis by (cases r) (auto simp: reply_outcome_def loop_outcome_def)
  qed
  show ?thesis
  proof (cases "sn_start s < sn_end s")
    case True
    then have "?read s = loop_outcome (read_reply_loop parse env s)" by (simp add: read_reply_def loop_outcome_def)
    with loop [OF assms(2)] show ?thesis by simp
  next
    case False
    obtain io' r where io: "read_for_reply env (sn_io s) (length (sn_rdbuf s)) = (io', r :: 'n TransportError + bytes)" by force
    note rd = read_for_reply_props [OF io]
    have empty: "sn_unhandled s = []" using False assms(2) by (simp add: sn_unhandled_def sender_ok_def subslice_def)
    show ?thesis
    proof (cases r)
      case (Inl e)
      then have "?read s = Failed (s\<lparr>sn_io := io'\<rparr>) e" using io False by (simp add: read_reply_def)
      with rd assms(2) show ?thesis by (auto simp: reply_outcome_def reply_read_def sender_ok_def)
    next
      case (Inr bs)
      let ?t = "s\<lparr>sn_io := io', sn_rdbuf := write_at (sn_rdbuf s) 0 bs, sn_start := 0, sn_end := length bs\<rparr>"
      have len: "length bs \<le> length (sn_rdbuf s)" using rd Inr by simp
      then have ok: "sender_ok ?t" "sn_unhandled ?t = bs"
        using write_at_props [of 0 bs "sn_rdbuf s"] assms(2) by (simp_all add: sender_ok_def sn_unhandled_def)
      have step: "?read s = (if bs = [] then Failed ?t TransportError.ConnectionAborted else loop_outcome (read_reply_loop parse env ?t))"
        using io False Inr by (simp add: read_reply_def loop_outcome_def)
      have grown: "reply_read parse ?t res \<Longrightarrow> reply_read parse s res" for res :: "'io Sender \<times> ('n TransportError + bytes Reply)"
        by (erule reply_read_grown [where bs = bs]) (use ok empty rd in simp_all)
      have "reply_outcome parse ?t out \<Longrightarrow> reply_outcome parse s out" for out :: "('io Sender, 'n TransportError, bytes Reply) outcome"
        unfolding reply_outcome_def using grown by (cases out) simp_all
      with loop [OF ok(1)] step ok(1) rd show ?thesis by (auto simp: reply_outcome_def reply_read_def)
    qed
  qed
qed

section \<open>What is said\<close>

text \<open>
  \<open>said bs s out\<close>: the operation has written \<open>bs\<close> if it succeeded and a prefix of it if it failed;
  it neither panics nor hangs, and leaves the encryption as it was.
\<close>

definition said :: "bytes \<Rightarrow> 'io Sender \<Rightarrow> ('io Sender, 'e, 'a) outcome \<Rightarrow> bool" where
  "said bs s out \<longleftrightarrow>
     (case out of
        Okay s' _ \<Rightarrow> sender_ok s' \<and> wire (sn_io s') = wire (sn_io s) @ bs \<and> secure (sn_io s') = secure (sn_io s)
      | Failed s' _ \<Rightarrow> (\<exists>k. wire (sn_io s') = wire (sn_io s) @ take k bs) \<and> secure (sn_io s') = secure (sn_io s)
      | _ \<Rightarrow> False)"

lemma said_bind:
  assumes "said bs s out" "\<And>s' a. out = Okay s' a \<Longrightarrow> sender_ok s' \<Longrightarrow> said bs' s' (f s' a)"
  shows "said (bs @ bs') s (bind_out out f)"
proof (cases out)
  case (Okay s' a)
  with assms(1) have 1: "sender_ok s'" "wire (sn_io s') = wire (sn_io s) @ bs" "secure (sn_io s') = secure (sn_io s)"
    by (simp_all add: said_def)
  note 2 = assms(2) [OF Okay 1(1)]
  show ?thesis
  proof (cases "f s' a")
    case (Failed s2 e)
    with 2 obtain k where "wire (sn_io s2) = wire (sn_io s') @ take k bs'" "secure (sn_io s2) = secure (sn_io s')"
      by (auto simp: said_def)
    then have "wire (sn_io s2) = wire (sn_io s) @ take (length bs + k) (bs @ bs')" "secure (sn_io s2) = secure (sn_io s)"
      using 1 by simp_all
    then show ?thesis using Okay Failed unfolding said_def by (auto simp del: take_append)
  qed (use 1 2 Okay in \<open>simp_all add: said_def\<close>)
next
  case (Failed s' e)
  with assms(1) obtain k where "wire (sn_io s') = wire (sn_io s) @ take k bs" "secure (sn_io s') = secure (sn_io s)"
    by (auto simp: said_def)
  moreover have "take k bs = take (min k (length bs)) (bs @ bs')" by (cases "k \<le> length bs") simp_all
  ultimately show ?thesis using Failed unfolding said_def by (auto simp del: take_append)
qed (use assms(1) in \<open>simp_all add: said_def\<close>)

lemma said_read_reply:
  assumes "reply_parsing parse" "sender_ok s"
  shows "said [] s (read_reply parse env s :: ('io Sender, 'n TransportError, bytes Reply) outcome)"
  using read_reply_returns [OF assms, where 'n = 'n]
  by (auto simp: said_def reply_outcome_def reply_read_def split: outcome.splits)

lemma said_verified: "valid_reply_code (rp_code r) \<Longrightarrow> sender_ok s \<Longrightarrow> said [] s (verified r k s)"
  using valid_code_kind [of "rp_code r"]
  by (auto simp: said_def verified_def verify_reply_def split: run.splits sum.splits)

lemma read_reply_valid:
  assumes "reply_parsing parse" "sender_ok s"
    and "(read_reply parse env s :: ('io Sender, 'n TransportError, bytes Reply) outcome) = Okay s' r"
  shows "valid_reply_code (rp_code r)"
  using read_reply_returns [OF assms(1,2), where 'n = 'n] assms(3) reply_parsing.parse_code [OF assms(1)]
  by (fastforce simp: reply_outcome_def reply_read_def)

lemma said_send_command:
  assumes "sender_ok s"
  shows "said (concat (command_io_slices cmd)) s (send_command env cmd s)"
proof -
  have ok: "sender_ok (s\<lparr>sn_io := io\<rparr>)" for io using assms by (simp add: sender_ok_def)
  show ?thesis
  proof (cases "cl_write_timer env (sn_io s) (command_io_slices cmd)")
    case (Some io)
    with write_timer [OF Some] show ?thesis by (simp add: said_def send_command_def Let_def)
  next
    case None
    obtain io r where w: "cl_write env (sn_io s) (command_io_slices cmd) = (io, r)" by force
    with None ok write_done write_failed show ?thesis
      by (cases r) (fastforce simp: said_def send_command_def Let_def)+
  qed
qed

lemma said_expect_reply:
  assumes "reply_parsing parse" "sender_ok s"
  shows "said [] s (expect_reply parse env k s :: ('io Sender, 'n TransportError, unit) outcome)"
proof -
  have "said ([] @ []) s (expect_reply parse env k s :: ('io Sender, 'n TransportError, unit) outcome)"
    unfolding expect_reply_def
    by (rule said_bind [OF said_read_reply [OF assms]]) (auto intro: said_verified read_reply_valid [OF assms])
  then show ?thesis by simp
qed

lemma said_exchange:
  assumes "reply_parsing parse" "sender_ok s"
  shows "said (concat (command_io_slices cmd)) s (exchange parse env cmd k s :: ('io Sender, 'n TransportError, unit) outcome)"
proof -
  have "said (concat (command_io_slices cmd) @ []) s (exchange parse env cmd k s :: ('io Sender, 'n TransportError, unit) outcome)"
    unfolding exchange_def by (rule said_bind [OF said_send_command [OF assms(2)]]) (rule said_expect_reply [OF assms(1)])
  then show ?thesis by simp
qed

end

text \<open>A reader that gives \<open>contents\<close> in some number of pieces and then its end.\<close>

inductive reads_all :: "('m \<Rightarrow> nat \<Rightarrow> 'm \<times> bytes io_result) \<Rightarrow> 'm \<Rightarrow> bytes \<Rightarrow> bool" for mail_read where
  at_end: "mail_read mail DATABUF_SIZE = (mail', Inr []) \<Longrightarrow> reads_all mail_read mail []"
| piece: "\<lbrakk>mail_read mail DATABUF_SIZE = (mail', Inr bs); bs \<noteq> []; reads_all mail_read mail' rest\<rbrakk> \<Longrightarrow>
    reads_all mail_read mail (bs @ rest)"

context client_connection
begin

lemma said_send_data:
  assumes "reads_all mail_read mail contents" "sender_ok s"
  shows "said contents s (send_data env mail_read mail s :: ('io Sender, 'n TransportError, unit) outcome)"
  using assms
proof (induction arbitrary: s rule: reads_all.induct)
  case (at_end mail mail')
  then have "send_data_loop env mail_read mail s = Some (s, Inr () :: 'n TransportError + unit)"
    by (simp add: send_data_loop.simps [of _ _ mail])
  with at_end show ?case by (simp add: send_data_def said_def)
next
  case (piece mail mail' bs rest)
  let ?w = "case cl_write_timer env (sn_io s) [bs] of
      Some io \<Rightarrow> Failed (s\<lparr>sn_io := io\<rparr>) TimedOutSendingData
    | None \<Rightarrow> (case cl_write env (sn_io s) [bs] of (io, Inl e) \<Rightarrow> Failed (s\<lparr>sn_io := io\<rparr>) (SendingData e)
        | (io, Inr _) \<Rightarrow> Okay (s\<lparr>sn_io := io\<rparr>) ())"
  have ok: "sender_ok (s\<lparr>sn_io := io\<rparr>)" for io using piece.prems by (simp add: sender_ok_def)
  have step: "send_data env mail_read mail s = bind_out (?w :: ('io Sender, 'n TransportError, unit) outcome) (\<lambda>s _. send_data env mail_read mail' s)"
    using piece(1,2) by (simp add: send_data_def send_data_loop.simps [of _ _ mail] split: option.splits prod.splits sum.splits)
  have "said bs s (?w :: ('io Sender, 'n TransportError, unit) outcome)"
  proof (cases "cl_write_timer env (sn_io s) [bs]")
    case (Some io)
    with write_timer [OF Some] show ?thesis by (simp add: said_def)
  next
    case None
    obtain io r where "cl_write env (sn_io s) [bs] = (io, r)" by force
    with None ok write_done write_failed show ?thesis by (cases r) (fastforce simp: said_def)+
  qed
  then show ?case unfolding step by (rule said_bind) (rule piece.IH)
qed

lemma said_sender_send:
  assumes "reply_parsing parse" "reads_all mail_read mail contents" "sender_ok s"
  shows "said (concat (command_io_slices (Mail None frm (Parameters []))) @ concat (command_io_slices (Rcpt None rcpt (Parameters []))) @
      concat (command_io_slices Data) @ contents) s
    (sender_send parse env mail_read frm rcpt mail s :: ('io Sender, 'n TransportError, unit) outcome)"
proof -
  have "said (concat (command_io_slices (Mail None frm (Parameters []))) @ concat (command_io_slices (Rcpt None rcpt (Parameters []))) @
      concat (command_io_slices Data) @ contents @ []) s
    (sender_send parse env mail_read frm rcpt mail s :: ('io Sender, 'n TransportError, unit) outcome)"
    unfolding sender_send_def
    by (intro said_bind said_exchange [OF assms(1)] said_send_data [OF assms(2)] said_expect_reply [OF assms(1)] assms(3))
  then show ?thesis by simp
qed

section \<open>Encryption\<close>

definition connected :: "'io Sender \<Rightarrow> ('io Sender, 'e, bool) outcome \<Rightarrow> bool" where
  "connected s out \<longleftrightarrow>
     (case out of
        Okay s' did_tls \<Rightarrow> sender_ok s' \<and> (did_tls \<longrightarrow> secure (sn_io s'))
      | Failed s' _ \<Rightarrow> True
      | _ \<Rightarrow> False)"

lemma said_send_ehlo:
  assumes "reply_parsing parse" "sender_ok s"
  shows "said (concat (command_io_slices (Ehlo (ccfg_ehlo_hostname cfg)))) s (send_ehlo parse env cfg s :: ('io Sender, 'n TransportError, unit) outcome)"
proof -
  have ext: "said [] s' (out :: ('io Sender, 'n TransportError, unit) outcome)"
    if "said [] (s'\<lparr>sn_extensions := x\<rparr>) out" for s' out x
    using that by (simp add: said_def split: outcome.splits)
  have "said (concat (command_io_slices (Ehlo (ccfg_ehlo_hostname cfg))) @ [] @ []) s (send_ehlo parse env cfg s :: ('io Sender, 'n TransportError, unit) outcome)"
    unfolding send_ehlo_def
  proof (rule said_bind [OF said_send_command [OF assms(2)]], rule said_bind [OF said_read_reply [OF assms(1)]], assumption)
    fix s1 u s2 reply
    assume ok: "sender_ok s1" "sender_ok s2"
      and r: "(read_reply parse env s1 :: ('io Sender, 'n TransportError, bytes Reply) outcome) = Okay s2 reply"
    have "sender_ok (s2\<lparr>sn_extensions := ehlo_extensions reply\<rparr>)" using ok by (simp add: sender_ok_def)
    from said_verified [OF read_reply_valid [OF assms(1) ok(1) r] this]
    show "said [] s2 (verified reply PositiveCompletion (s2\<lparr>sn_extensions := ehlo_extensions reply\<rparr>) :: ('io Sender, 'n TransportError, unit) outcome)"
      by (rule ext)
  qed
  then show ?thesis by simp
qed

lemma starttls_connected:
  assumes parse: "reply_parsing parse" and ok: "sender_ok s" and tls: "ccfg_tls_connect cfg = tls_connect"
  shows "connected s (starttls parse env cfg s :: ('io Sender, 'n TransportError, bool) outcome)"
proof -
  have ehlo: "connected s (bind_out (send_ehlo parse env cfg t :: ('io Sender, 'n TransportError, unit) outcome) (\<lambda>s _. Okay s True))"
    if "sender_ok t" "secure (sn_io t)" for t
    using said_send_ehlo [OF parse that(1), of cfg, where 'n = 'n] that(2)
    by (cases "send_ehlo parse env cfg t :: ('io Sender, 'n TransportError, unit) outcome") (auto simp: said_def connected_def)
  have sc: "said (concat (command_io_slices Starttls)) s (send_command env Starttls s :: ('io Sender, 'n TransportError, unit) outcome)"
    by (rule said_send_command [OF ok])
  show ?thesis
  proof (cases "send_command env Starttls s :: ('io Sender, 'n TransportError, unit) outcome")
    case (Okay s1 u)
    with sc have ok1: "sender_ok s1" by (simp add: said_def)
    show ?thesis
    proof (cases "read_reply parse env s1 :: ('io Sender, 'n TransportError, bytes Reply) outcome")
      case r: (Okay s2 reply)
      have ok2: "sender_ok s2" using said_read_reply [OF parse ok1, where 'n = 'n] r by (simp add: said_def)
      obtain k where k: "reply_code_kind (rp_code reply) = Value k"
        using valid_code_kind [OF read_reply_valid [OF parse ok1 r]] by blast
      obtain v where v: "(verify_reply reply PositiveCompletion :: ('n TransportError + unit) run) = Value v"
        using k by (simp add: verify_reply_def)
      obtain io tr where io: "tls_connect (sn_io s2) = (io, tr)" by force
      have "sender_ok (s2\<lparr>sn_io := io\<rparr>)" using ok2 by (simp add: sender_ok_def)
      then show ?thesis
        using Okay r v io tls ok2 ehlo [of "s2\<lparr>sn_io := io\<rparr>"] tls_done [of "sn_io s2" io]
        by (auto simp: starttls_def connected_def split: sum.splits)
    qed (use Okay said_read_reply [OF parse ok1, where 'n = 'n] in \<open>auto simp: starttls_def connected_def said_def\<close>)
  qed (use sc in \<open>auto simp: starttls_def connected_def said_def\<close>)
qed

definition protected :: "'io ClientConfig \<Rightarrow> ('io Sender, 'e, 'a) outcome \<Rightarrow> bool" where
  "protected cfg out \<longleftrightarrow>
     (case out of
        Okay s _ \<Rightarrow> sender_ok s \<and> (ccfg_must_do_tls cfg \<longrightarrow> secure (sn_io s))
      | Failed _ _ \<Rightarrow> True
      | _ \<Rightarrow> False)"

lemma protected_bind:
  assumes "said bs s out" "\<And>s' a. out = Okay s' a \<Longrightarrow> sender_ok s' \<Longrightarrow> protected cfg (f s' a)"
  shows "protected cfg (bind_out out f)"
  using assms by (cases out) (auto simp: said_def protected_def [of cfg "Failed _ _"])

lemma connect_protected:
  assumes parse: "reply_parsing parse" and tls: "ccfg_tls_connect cfg = tls_connect"
  shows "protected cfg (connect_to_stream parse env cfg io :: ('io Sender, 'n TransportError, unit) outcome)"
proof -
  let ?read = "read_reply parse env :: 'io Sender \<Rightarrow> ('io Sender, 'n TransportError, bytes Reply) outcome"
  let ?fin = "\<lambda>s did_tls. if \<not> did_tls \<and> ccfg_must_do_tls cfg then Failed s CannotDoTls else Okay s ()"
  let ?tls = "\<lambda>s. if extensions_contains (sn_extensions s) STARTTLS \<and> ccfg_can_do_tls cfg then starttls parse env cfg s else Okay s False"
  have tls1: "protected cfg (bind_out (?tls s) ?fin :: ('io Sender, 'n TransportError, unit) outcome)" if ok: "sender_ok s" for s
  proof (cases "extensions_contains (sn_extensions s) STARTTLS \<and> ccfg_can_do_tls cfg")
    case True
    from starttls_connected [OF parse ok tls, where 'n = 'n] show ?thesis unfolding if_P [OF True]
      by (cases "starttls parse env cfg s :: ('io Sender, 'n TransportError, bool) outcome") (auto simp: connected_def protected_def)
  next
    case False
    show ?thesis unfolding if_not_P [OF False] using ok by (auto simp: protected_def)
  qed
  show ?thesis unfolding connect_to_stream_def
  proof (rule protected_bind [OF said_read_reply [OF parse sender_new_ok(1)]])
    fix s1 reply
    assume r: "?read (sender_new io) = Okay s1 reply" and ok1: "sender_ok s1"
    have valid: "valid_reply_code (rp_code reply)" by (rule read_reply_valid [OF parse sender_new_ok(1) r])
    show "protected cfg (bind_out (verified reply PositiveCompletion s1)
        (\<lambda>s _. bind_out (send_ehlo parse env cfg s) (\<lambda>s _. bind_out (?tls s) ?fin)) :: ('io Sender, 'n TransportError, unit) outcome)"
      by (rule protected_bind [OF said_verified [OF valid ok1]], rule protected_bind [OF said_send_ehlo [OF parse]], assumption, rule tls1)
  qed
qed

end

end
