(* ===== verification/ClientProperties.thy ===== *)
theory ClientProperties
  imports ClientSession "HOL-Library.Multiset"
begin

text \<open>
  What the client promises: what it says to a server and in which order, when a connection is
  encrypted, and which servers it tries.
\<close>

section \<open>A scripted server\<close>

text \<open>What will be received before and after encryption is turned on, and what has been written.\<close>

record script_conn =
  sc_plain :: "bytes list"
  sc_tls :: "bytes list"
  sc_out :: bytes
  sc_secure :: bool

definition script_client :: "script_conn ClientIo" where
  "script_client =
     \<lparr>cl_read = (\<lambda>io n. case (if sc_secure io then sc_tls io else sc_plain io) of
         [] \<Rightarrow> (io, Inr [])
       | c # cs \<Rightarrow>
           (let rest = (if drop n c = [] then cs else drop n c # cs) in
            (if sc_secure io then io\<lparr>sc_tls := rest\<rparr> else io\<lparr>sc_plain := rest\<rparr>, Inr (take n c)))),
      cl_read_timer = (\<lambda>_. None),
      cl_write = (\<lambda>io bss. (io\<lparr>sc_out := sc_out io @ concat bss\<rparr>, Inr ())),
      cl_write_timer = (\<lambda>_ _. None)\<rparr>"

definition script_tls :: "script_conn \<Rightarrow> script_conn \<times> unit io_result" where
  "script_tls io = (io\<lparr>sc_secure := True\<rparr>, Inr ())"

interpretation scripted: client_connection script_client script_tls sc_out sc_secure
  by unfold_locales
     (auto simp: script_client_def script_tls_def Let_def split: list.splits if_splits)

definition script_config :: "script_conn ClientConfig" where
  "script_config = \<lparr>ccfg_ehlo_hostname = AsciiDomain ''me.example'', ccfg_can_do_tls = True, ccfg_must_do_tls = True,
     ccfg_tls_connect = script_tls\<rparr>"

section \<open>The conversation\<close>

text \<open>
  Claim C28. Sending a mail that can be read to its end never panics or hangs, whatever the server
  answers. If it succeeds, exactly \<^verbatim>\<open>MAIL FROM\<close>, \<^verbatim>\<open>RCPT TO\<close>, \<^verbatim>\<open>DATA\<close> and the contents have been
  written, in this order; if it fails, a prefix of that. The encryption is left as it was.
\<close>

theorem send_says_the_mail:
  fixes s :: "'io Sender"
  assumes "grammar N X" "client_connection env tls wire secure" "reads_all mail_read mail contents" "sender_ok s"
    and "conversation = concat (command_io_slices (Mail None frm (Parameters []))) @
      concat (command_io_slices (Rcpt None rcpt (Parameters []))) @ concat (command_io_slices Data) @ contents"
  shows "case (sender_send (reply_parse N X) env mail_read frm rcpt mail s :: ('io Sender, 'n TransportError, unit) outcome) of
      Okay s' _ \<Rightarrow> sender_ok s' \<and> wire (sn_io s') = wire (sn_io s) @ conversation \<and> secure (sn_io s') = secure (sn_io s)
    | Failed s' _ \<Rightarrow> prefix (wire (sn_io s')) (wire (sn_io s) @ conversation) \<and> secure (sn_io s') = secure (sn_io s)
    | _ \<Rightarrow> False"
proof -
  have "client_connection.said wire secure conversation s
      (sender_send (reply_parse N X) env mail_read frm rcpt mail s :: ('io Sender, 'n TransportError, unit) outcome)"
    unfolding assms(5) by (rule client_connection.said_sender_send [OF assms(2) grammar_reply_parsing [OF assms(1)] assms(3,4)])
  then show ?thesis
    by (auto simp: client_connection.said_def [OF assms(2)] take_is_prefix split: outcome.splits)
qed

text \<open>
  Claim C29. Connecting never panics or hangs, whatever the server sends, and where the
  configuration demands encryption, no sender comes out of it over an unencrypted connection.
\<close>

theorem tls_when_required:
  fixes io :: 'io
  assumes "grammar N X" "client_connection env tls wire secure" "ccfg_tls_connect cfg = tls"
  shows "case (connect_to_stream (reply_parse N X) env cfg io :: ('io Sender, 'n TransportError, unit) outcome) of
      Okay s _ \<Rightarrow> sender_ok s \<and> (ccfg_must_do_tls cfg \<longrightarrow> secure (sn_io s))
    | Failed _ _ \<Rightarrow> True
    | _ \<Rightarrow> False"
  using client_connection.connect_protected [OF assms(2) grammar_reply_parsing [OF assms(1)] assms(3), of io, where 'n = 'n]
  by (simp add: client_connection.protected_def [OF assms(2)])

section \<open>Encryption and what came before it\<close>

text \<open>A reply already in the buffer is what is read next.\<close>

lemma buffered_reply:
  assumes g: "grammar N X" and r: "reply_printable r" "reply_io_slices r = Value slices"
    and s: "sender_ok s" "sn_unhandled s = concat slices @ rest"
  shows "\<exists>s'. (read_reply (reply_parse N X) env s :: ('io Sender, 'n TransportError, bytes Reply) outcome) = Okay s' (reply_as_read r) \<and> sender_ok s' \<and> sn_io s' = sn_io s \<and> sn_unhandled s' = rest"
proof -
  have t: "rp_text r \<noteq> []" using r(1) by (simp add: reply_printable_def)
  obtain a b c where code: "rp_code r = ReplyCode a b c" by (cases "rp_code r")
  from reply_io_slices_wire [OF t] r(2)
  have w: "concat slices = concat (map (reply_line_wire (rp_code r) False (rp_ecode r)) (butlast (rp_text r))) @
      reply_line_wire (rp_code r) True (rp_ecode r) (last (rp_text r))" by simp
  then have parse: "reply_parse N X (sn_unhandled s) = Inr (rest, reply_as_read r)"
    using grammar.reply_parse_wire [OF g r(1), of rest] s(2) by simp
  have "concat slices \<noteq> []" unfolding w code reply_line_wire_eq by simp
  then have "sn_unhandled s \<noteq> []" using s(2) by simp
  then have ne: "sn_start s < sn_end s" using s(1) by (auto simp: sn_unhandled_def sender_ok_def subslice_def)
  have "suffix rest (sn_unhandled s)" using s(2) by (simp add: suffix_def)
  note rest = sender_rest [OF s(1) this]
  have "read_reply_loop (reply_parse N X) env s = Some (s\<lparr>sn_start := sn_end s - length rest\<rparr>, Inr (reply_as_read r) :: 'n TransportError + bytes Reply)"
    by (simp add: read_reply_loop.simps [of _ _ s] parse)
  then have "(read_reply (reply_parse N X) env s :: ('io Sender, 'n TransportError, bytes Reply) outcome) = Okay (s\<lparr>sn_start := sn_end s - length rest\<rparr>) (reply_as_read r)"
    using ne by (simp add: read_reply_def)
  with rest show ?thesis by simp
qed

lemma reply_bytes_ne:
  assumes "reply_printable r"
  shows "reply_bytes r \<noteq> []"
proof -
  obtain a b c where "rp_code r = ReplyCode a b c" by (cases "rp_code r")
  with reply_io_slices_wire [of r] assms show ?thesis
    by (auto simp: reply_bytes_def reply_printable_def reply_line_wire_eq)
qed

text \<open>
  Claim C40. The bytes that came behind the reply to \<^verbatim>\<open>STARTTLS\<close> in plain text are not thrown away:
  if they begin with a positive reply, it is taken for the server's answer to the \<^verbatim>\<open>EHLO\<close> sent over
  the encrypted connection, from which nothing is read; whoever can write to the plain connection
  decides what extensions the client believes in.
\<close>

theorem starttls_takes_injected_reply:
  assumes g: "grammar N X" and r: "reply_printable r" "reply_code_kind (rp_code r) = Value PositiveCompletion"
      "reply_io_slices r = Value slices"
    and s1: "(send_command env Starttls s :: ('io Sender, 'n TransportError, unit) outcome) = Okay s1 ()"
    and s2: "(read_reply (reply_parse N X) env s1 :: ('io Sender, 'n TransportError, bytes Reply) outcome) = Okay s2 go"
      "(verify_reply go PositiveCompletion :: ('n TransportError + unit) run) = Value (Inr ())"
      "sender_ok s2" "sn_unhandled s2 = concat slices @ rest"
    and tls: "ccfg_tls_connect cfg (sn_io s2) = (io, Inr ())"
    and wr: "cl_write_timer env io (command_io_slices (Ehlo (ccfg_ehlo_hostname cfg))) = None"
      "cl_write env io (command_io_slices (Ehlo (ccfg_ehlo_hostname cfg))) = (io', Inr ())"
  shows "\<exists>s'. (starttls (reply_parse N X) env cfg s :: ('io Sender, 'n TransportError, bool) outcome) = Okay s' True \<and>
    sn_io s' = io' \<and> sn_extensions s' = ehlo_extensions (reply_as_read r) \<and> sn_unhandled s' = rest"
proof -
  let ?s3 = "s2\<lparr>sn_io := io'\<rparr>"
  have "sender_ok ?s3" "sn_unhandled ?s3 = concat slices @ rest" using s2(3,4) by (simp_all add: sender_ok_def sn_unhandled_def)
  from buffered_reply [OF g r(1,3) this]
  obtain s4 where s4: "(read_reply (reply_parse N X) env ?s3 :: ('io Sender, 'n TransportError, bytes Reply) outcome) = Okay s4 (reply_as_read r)"
    "sn_io s4 = io'" "sn_unhandled s4 = rest" by fastforce
  have v: "verified (reply_as_read r) PositiveCompletion x = (Okay x () :: ('io Sender, 'n TransportError, unit) outcome)" for x
    using r(2) by (simp add: verified_def verify_reply_def reply_as_read_def)
  have "(send_ehlo (reply_parse N X) env cfg (s2\<lparr>sn_io := io\<rparr>) :: ('io Sender, 'n TransportError, unit) outcome) =
      Okay (s4\<lparr>sn_extensions := ehlo_extensions (reply_as_read r)\<rparr>) ()"
    using wr s4(1) v by (simp add: send_ehlo_def send_command_def Let_def)
  then have "(starttls (reply_parse N X) env cfg s :: ('io Sender, 'n TransportError, bool) outcome) =
      Okay (s4\<lparr>sn_extensions := ehlo_extensions (reply_as_read r)\<rparr>) True"
    using s1 s2(1,2) tls by (simp add: starttls_def)
  with s4 show ?thesis by (simp add: sn_unhandled_def)
qed

section \<open>Which servers are tried\<close>

text \<open>The records in the order of the map.\<close>

definition mx_order :: "(16 word \<times> 'n list) list \<Rightarrow> (16 word \<times> 'n) list" where
  "mx_order m = concat (map (\<lambda>(p, xs). map (Pair p) xs) m)"

lemma mx_insert_order:
  assumes "sorted_wrt (<) (map fst m)"
  shows "sorted_wrt (<) (map fst (mx_insert (p, x) m))" "set (map fst (mx_insert (p, x) m)) = insert p (set (map fst m))"
    "mset (mx_order (mx_insert (p, x) m)) = add_mset (p, x) (mset (mx_order m))"
proof -
  show "set (map fst (mx_insert (p, x) m)) = insert p (set (map fst m))"
    by (induction "(p, x)" m rule: mx_insert.induct) auto
  show "sorted_wrt (<) (map fst (mx_insert (p, x) m))"
    using assms
  proof (induction m)
    case (Cons y m)
    obtain q xs where y: "y = (q, xs)" by force
    have "set (map fst (mx_insert (p, x) m)) = insert p (set (map fst m))"
      by (induction "(p, x)" m rule: mx_insert.induct) auto
    with Cons y show ?case by (auto simp: not_less_iff_gr_or_eq)
  qed simp
  show "mset (mx_order (mx_insert (p, x) m)) = add_mset (p, x) (mset (mx_order m))"
    by (induction m) (auto simp: mx_order_def)
qed

lemma mx_records_order:
  "sorted_wrt (<) (map fst (mx_records rs)) \<and> mset (mx_order (mx_records rs)) = mset rs"
proof (induction rs rule: rev_induct)
  case Nil
  show ?case by (simp add: mx_records_def mx_order_def)
next
  case (snoc r rs)
  obtain p x where r: "r = (p, x)" by force
  have "mx_records (rs @ [r]) = mx_insert (p, x) (mx_records rs)" by (simp add: mx_records_def r)
  with snoc mx_insert_order [of "mx_records rs" p x] r show ?case by simp
qed

lemma sorted_mx_order:
  assumes "sorted_wrt (<) (map fst m)"
  shows "sorted (map fst (mx_order m))"
  using assms
proof (induction m)
  case (Cons y m)
  obtain q xs where y: "y = (q, xs)" by force
  have "sorted (map fst (map (Pair q) xs))" by (induction xs) (auto simp: o_def)
  moreover have "\<forall>r \<in> set (mx_order m). q \<le> fst r" using Cons.prems y by (force simp: mx_order_def)
  ultimately show ?case using Cons y by (auto simp: mx_order_def sorted_append)
qed (simp add: mx_order_def)

lemma try_each_append:
  "try_each f e (xs @ ys) w =
    (case try_each f e xs w of Failed w e \<Rightarrow> try_each f e ys w | Okay w s \<Rightarrow> Okay w s | Panicking \<Rightarrow> Panicking | Forever \<Rightarrow> Forever)"
  by (induction xs arbitrary: e w) (auto split: outcome.splits)

lemma connect_to_groups_order:
  assumes shuffle: "\<And>w xs. \<exists>ys. net_shuffle (ct_net c) w xs = (w, ys) \<and> mset ys = mset xs"
  shows "\<exists>order. mset order = mset (mx_order m) \<and> map fst order = map fst (mx_order m) \<and>
    connect_to_groups c e m w = try_each (\<lambda>w mx. connect_to_host c w mx SMTP_PORT) e (map snd order) w"
proof (induction m arbitrary: e w)
  case Nil
  show ?case by (simp add: mx_order_def)
next
  case (Cons y m)
  let ?attempts = "try_each (\<lambda>w mx. connect_to_host c w mx SMTP_PORT)"
  obtain p xs where y: "y = (p, xs)" by force
  obtain ys where ys: "net_shuffle (ct_net c) w xs = (w, ys)" "mset ys = mset xs" using shuffle by blast
  let ?first = "map (Pair p) ys"
  have "length ys = length xs" using ys(2) by (metis size_mset)
  then have first: "mset ?first = mset (map (Pair p) xs)" "map fst ?first = map fst (map (Pair p) xs)" "map snd ?first = ys"
    using ys(2) by (simp_all add: o_def map_replicate_const)
  have step: "connect_to_groups c e (y # m) w = (case ?attempts e ys w of Failed w e \<Rightarrow> connect_to_groups c e m w
      | Okay w s \<Rightarrow> Okay w s | Panicking \<Rightarrow> Panicking | Forever \<Rightarrow> Forever)" using y ys by simp
  have "\<exists>order. mset order = mset (mx_order m) \<and> map fst order = map fst (mx_order m) \<and>
      connect_to_groups c e (y # m) w = ?attempts e (ys @ map snd order) w"
  proof (cases "?attempts e ys w")
    case (Failed w' e')
    with Cons [of e' w'] step show ?thesis by (auto simp: try_each_append)
  qed (use step in \<open>auto simp: try_each_append\<close>)
  then obtain order where "mset order = mset (mx_order m)" "map fst order = map fst (mx_order m)"
    "connect_to_groups c e (y # m) w = ?attempts e (ys @ map snd order) w" by blast
  with first y show ?case by (intro exI [of _ "?first @ order"]) (simp add: mx_order_def)
qed


section \<open>Conversations with the scripted server\<close>

text \<open>A sender with nothing unread in its buffer.\<close>

definition at_rest :: "'io Sender \<Rightarrow> 'io \<Rightarrow> bool" where
  "at_rest s io \<longleftrightarrow> sender_ok s \<and> sn_unhandled s = [] \<and> sn_io s = io"

lemma at_rest_new: "at_rest (sender_new io) io"
proof -
  have "sn_unhandled (sender_new io) = []" by (simp add: sn_unhandled_def sender_new_def)
  then show ?thesis by (simp add: at_rest_def sender_new_ok)
qed

text \<open>What the server sends next, and the connection behind it.\<close>

definition next_chunk :: "script_conn \<Rightarrow> bytes \<Rightarrow> script_conn \<Rightarrow> bool" where
  "next_chunk io c io' \<longleftrightarrow> (if sc_secure io then sc_tls io = c # sc_tls io' \<and> io' = io\<lparr>sc_tls := sc_tls io'\<rparr>
     else sc_plain io = c # sc_plain io' \<and> io' = io\<lparr>sc_plain := sc_plain io'\<rparr>)"

definition said_by :: "bytes Reply \<Rightarrow> bool" where
  "said_by r \<longleftrightarrow> reply_printable r \<and> length (reply_bytes r) \<le> CLIENT_RDBUF_SIZE"

lemma script_read:
  assumes g: "grammar N X" and r: "reply_printable r" "length (reply_bytes r @ rest) \<le> CLIENT_RDBUF_SIZE"
    and s: "at_rest s io" and c: "next_chunk io (reply_bytes r @ rest) io'"
  shows "\<exists>s'. (read_reply (reply_parse N X) script_client s :: (script_conn Sender, 'n TransportError, bytes Reply) outcome) =
    Okay s' (reply_as_read r) \<and> sender_ok s' \<and> sn_io s' = io' \<and> sn_unhandled s' = rest"
proof -
  obtain slices where sl: "reply_io_slices r = Value slices"
    using r(1) reply_io_slices_wire by (fastforce simp: reply_printable_def)
  let ?c = "reply_bytes r @ rest"
  let ?t = "s\<lparr>sn_io := io', sn_rdbuf := write_at (sn_rdbuf s) 0 ?c, sn_start := 0, sn_end := length ?c\<rparr>"
  have ok: "sender_ok s" "sn_io s = io" "sn_start s = sn_end s"
    using s by (auto simp: at_rest_def sn_unhandled_def sender_ok_def subslice_def)
  have len: "0 + length ?c \<le> length (sn_rdbuf s)" using r(2) ok by (simp add: sender_ok_def)
  have t: "sender_ok ?t" "sn_unhandled ?t = concat slices @ rest"
    using write_at_props [OF len] ok(1) sl r(2)
    by (simp_all add: sender_ok_def sn_unhandled_def reply_bytes_def subslice_def del: append_assoc)
  from buffered_reply [OF g r(1) sl t] obtain s' where
    s': "(read_reply (reply_parse N X) script_client ?t :: (script_conn Sender, 'n TransportError, bytes Reply) outcome) = Okay s' (reply_as_read r)"
    "sender_ok s'" "sn_io s' = io'" "sn_unhandled s' = rest" by auto
  have "cl_read script_client io (length (sn_rdbuf s)) = (io', Inr ?c)"
    using c len by (auto simp: next_chunk_def script_client_def split: if_splits)
  then have "(read_for_reply script_client io (length (sn_rdbuf s)) :: _ \<times> ('n TransportError + bytes)) = (io', Inr ?c)"
    by (simp add: read_for_reply_def) (simp add: script_client_def)
  then have "(read_reply (reply_parse N X) script_client s :: (script_conn Sender, 'n TransportError, bytes Reply) outcome) =
      read_reply (reply_parse N X) script_client ?t"
    using ok reply_bytes_ne [OF r(1)] by (simp add: read_reply_def Let_def)
  with s' show ?thesis by auto
qed

lemma script_reply:
  assumes "grammar N X" "said_by r" "at_rest s io" "next_chunk io (reply_bytes r) io'"
  shows "\<exists>s'. (read_reply (reply_parse N X) script_client s :: (script_conn Sender, 'n TransportError, bytes Reply) outcome) =
    Okay s' (reply_as_read r) \<and> at_rest s' io'"
  using script_read [OF assms(1), of r "[]" s io io', where 'n = 'n] assms(2-4) by (auto simp: said_by_def at_rest_def)

lemma script_command:
  assumes "at_rest s io"
  shows "\<exists>s'. (send_command script_client cmd s :: (script_conn Sender, 'n TransportError, unit) outcome) = Okay s' () \<and>
    at_rest s' (io\<lparr>sc_out := sc_out io @ concat (command_io_slices cmd)\<rparr>)"
  using assms by (simp add: send_command_def script_client_def Let_def at_rest_def sender_ok_def sn_unhandled_def)

lemma reply_as_read_verified:
  "reply_code_kind (rp_code r) = Value k \<Longrightarrow> verified (reply_as_read r) k s = Okay s ()"
  by (simp add: verified_def verify_reply_def reply_as_read_def)

lemma script_expect:
  assumes "grammar N X" "said_by r" "reply_code_kind (rp_code r) = Value k" "at_rest s io" "next_chunk io (reply_bytes r) io'"
  shows "\<exists>s'. (expect_reply (reply_parse N X) script_client k s :: (script_conn Sender, 'n TransportError, unit) outcome) = Okay s' () \<and>
    at_rest s' io'"
proof -
  obtain s' where "(read_reply (reply_parse N X) script_client s :: (script_conn Sender, 'n TransportError, bytes Reply) outcome) =
      Okay s' (reply_as_read r)" "at_rest s' io'" using script_reply [OF assms(1,2,4,5)] by blast
  then show ?thesis by (simp add: expect_reply_def reply_as_read_verified [OF assms(3)])
qed

lemma script_exchange:
  assumes "grammar N X" "said_by r" "reply_code_kind (rp_code r) = Value k" "at_rest s io"
    and "next_chunk (io\<lparr>sc_out := sc_out io @ concat (command_io_slices cmd)\<rparr>) (reply_bytes r) io'"
  shows "\<exists>s'. (exchange (reply_parse N X) script_client cmd k s :: (script_conn Sender, 'n TransportError, unit) outcome) = Okay s' () \<and>
    at_rest s' io'"
proof -
  obtain s1 where s1: "(send_command script_client cmd s :: (script_conn Sender, 'n TransportError, unit) outcome) = Okay s1 ()"
    "at_rest s1 (io\<lparr>sc_out := sc_out io @ concat (command_io_slices cmd)\<rparr>)" using script_command [OF assms(4)] by blast
  from script_expect [OF assms(1-3) s1(2) assms(5), where 'n = 'n] s1(1) show ?thesis by (simp add: exchange_def)
qed

text \<open>A file as a reader.\<close>

definition file_read :: "bytes \<Rightarrow> nat \<Rightarrow> bytes \<times> bytes io_result" where
  "file_read m n = (drop n m, Inr (take n m))"

lemma reads_all_file: "reads_all file_read m m"
proof (induction "length m" arbitrary: m rule: less_induct)
  case less
  have pos: "0 < DATABUF_SIZE" by (simp add: DATABUF_SIZE_def)
  show ?case
  proof (cases "m = []")
    case True
    then show ?thesis using reads_all.at_end [of file_read "[]"] by (simp add: file_read_def)
  next
    case False
    then have "reads_all file_read (drop DATABUF_SIZE m) (drop DATABUF_SIZE m)" using less pos by simp
    from reads_all.piece [of file_read m _ "take DATABUF_SIZE m", OF _ _ this] False pos show ?thesis
      by (simp add: file_read_def)
  qed
qed

lemma script_send_data:
  assumes "reads_all mail_read mail contents" "at_rest s io"
  shows "\<exists>s'. (send_data script_client mail_read mail s :: (script_conn Sender, 'n TransportError, unit) outcome) = Okay s' () \<and>
    at_rest s' (io\<lparr>sc_out := sc_out io @ contents\<rparr>)"
  using assms
proof (induction arbitrary: s io rule: reads_all.induct)
  case (at_end mail mail')
  then show ?case by (simp add: send_data_def send_data_loop.simps [of _ _ mail])
next
  case (piece mail mail' bs rest)
  let ?io = "io\<lparr>sc_out := sc_out io @ bs\<rparr>"
  have "at_rest (s\<lparr>sn_io := ?io\<rparr>) ?io" using piece.prems by (simp add: at_rest_def sender_ok_def sn_unhandled_def)
  from piece.IH [OF this] obtain s' where "(send_data script_client mail_read mail' (s\<lparr>sn_io := ?io\<rparr>) :: (script_conn Sender, 'n TransportError, unit) outcome) = Okay s' ()"
    "at_rest s' (io\<lparr>sc_out := sc_out io @ bs @ rest\<rparr>)" by auto
  moreover have "(send_data script_client mail_read mail s :: (script_conn Sender, 'n TransportError, unit) outcome) =
      send_data script_client mail_read mail' (s\<lparr>sn_io := ?io\<rparr>)"
    using piece.hyps(1,2) piece.prems
    by (simp add: send_data_def send_data_loop.simps [of _ _ mail] script_client_def at_rest_def)
  ultimately show ?case by auto
qed

definition plainly :: "bytes \<Rightarrow> bytes Reply list \<Rightarrow> bytes list \<Rightarrow> script_conn" where
  "plainly out plain tls = \<lparr>sc_plain = map reply_bytes plain, sc_tls = tls, sc_out = out, sc_secure = False\<rparr>"

lemma plainly_steps:
  "next_chunk (plainly out (r # rs) tls) (reply_bytes r) (plainly out rs tls)"
  "(plainly out rs tls)\<lparr>sc_out := sc_out (plainly out rs tls) @ bs\<rparr> = plainly (out @ bs) rs tls"
  by (simp_all add: next_chunk_def plainly_def)

lemma plain_exchange:
  assumes "grammar N X" "said_by r" "reply_code_kind (rp_code r) = Value k" "at_rest s (plainly out (r # rs) tls)"
  shows "\<exists>s' out'. (exchange (reply_parse N X) script_client cmd k s :: (script_conn Sender, 'n TransportError, unit) outcome) = Okay s' () \<and>
    at_rest s' (plainly out' rs tls)"
  using script_exchange [OF assms, of cmd] plainly_steps by metis

lemma script_send:
  assumes g: "grammar N X" and mail: "reads_all mail_read mail contents" and s: "at_rest s (plainly out [r1, r2, r3, r4] tls)"
    and r: "list_all said_by [r1, r2, r3, r4]" "reply_code_kind (rp_code r1) = Value PositiveCompletion"
      "reply_code_kind (rp_code r2) = Value PositiveCompletion" "reply_code_kind (rp_code r3) = Value PositiveIntermediate"
      "reply_code_kind (rp_code r4) = Value PositiveCompletion"
  shows "\<exists>s'. (sender_send (reply_parse N X) script_client mail_read frm rcpt mail s :: (script_conn Sender, 'n TransportError, unit) outcome) = Okay s' ()"
proof -
  have said: "said_by r1" "said_by r2" "said_by r3" "said_by r4" using r(1) by simp_all
  from plain_exchange [OF g said(1) r(2) s, of "Mail None frm (Parameters [])", where 'n = 'n]
  obtain s1 x1 where s1: "(exchange (reply_parse N X) script_client (Mail None frm (Parameters [])) PositiveCompletion s ::
      (script_conn Sender, 'n TransportError, unit) outcome) = Okay s1 ()" "at_rest s1 (plainly x1 [r2, r3, r4] tls)" by blast
  from plain_exchange [OF g said(2) r(3) s1(2), of "Rcpt None rcpt (Parameters [])", where 'n = 'n]
  obtain s2 x2 where s2: "(exchange (reply_parse N X) script_client (Rcpt None rcpt (Parameters [])) PositiveCompletion s1 ::
      (script_conn Sender, 'n TransportError, unit) outcome) = Okay s2 ()" "at_rest s2 (plainly x2 [r3, r4] tls)" by blast
  from plain_exchange [OF g said(3) r(4) s2(2), of Data, where 'n = 'n]
  obtain s3 x3 where s3: "(exchange (reply_parse N X) script_client Data PositiveIntermediate s2 ::
      (script_conn Sender, 'n TransportError, unit) outcome) = Okay s3 ()" "at_rest s3 (plainly x3 [r4] tls)" by blast
  from script_send_data [OF mail s3(2), where 'n = 'n]
  obtain s4 x4 where s4: "(send_data script_client mail_read mail s3 :: (script_conn Sender, 'n TransportError, unit) outcome) = Okay s4 ()"
    "at_rest s4 (plainly x4 [r4] tls)" unfolding plainly_steps(2) by blast
  from script_expect [OF g said(4) r(5) s4(2) plainly_steps(1), where 'n = 'n] s1(1) s2(1) s3(1) s4(1) show ?thesis
    by (auto simp: sender_send_def)
qed

lemma no_ecode:
  assumes "t \<noteq> []" "hd t \<notin> {CHR ''2'', CHR ''4'', CHR ''5''}"
  shows "\<not> begins_with_ecode t"
proof
  assume "begins_with_ecode t"
  then obtain e u where e: "t = e @ u" "e \<in> lang EXTENDED_REPLY_CODE_re" by (auto simp: begins_with_ecode_iff)
  then obtain c v where c: "e = c # v" "in_class [(50, 50), (52, 52), (53, 53)] c"
    by (auto simp: EXTENDED_REPLY_CODE_re_def mem_Times_Cls)
  then have "(of_char c :: nat) \<in> of_char ` {CHR ''2'', CHR ''4'', CHR ''5''}" by (auto simp: in_class_def)
  then have "c \<in> {CHR ''2'', CHR ''4'', CHR ''5''}" by (simp only: inj_image_mem_iff [OF inj_of_char])
  with e(1) c(1) assms(2) show False by simp
qed

lemma stock_replies_length:
  "length (reply_bytes okay_from) \<le> 16384" "length (reply_bytes okay_to) \<le> 16384" "length (reply_bytes okay_data) \<le> 16384"
  "length (reply_bytes okay_mail) \<le> 16384" "length (reply_bytes okay_starttls) \<le> 16384"
  by (simp_all add: stock_reply_defs reply_bytes_def reply_io_slices_def line_as_io_slices_def reply_code_consts ecode_io_slices_def
      SUCCESS_UNDEFINED_def SUCCESS_DEST_VALID_def extended_reply_code_def decimal.simps [of 0] decimal.simps [of "Suc 0"] decimal.simps [of 5])

lemma stock_replies_said:
  "said_by okay_from" "said_by okay_to" "said_by okay_data" "said_by okay_mail" "said_by okay_starttls"
  using stock_replies_length
  by (simp_all add: said_by_def CLIENT_RDBUF_SIZE_def)
     (simp_all add: reply_printable_def stock_reply_defs no_ecode ascii_text_printable stock_ecodes
      reply_code_consts is_digit_def del: text_printable.simps)

lemma stock_replies_kind:
  "reply_code_kind (rp_code okay_from) = Value PositiveCompletion" "reply_code_kind (rp_code okay_to) = Value PositiveCompletion"
  "reply_code_kind (rp_code okay_data) = Value PositiveIntermediate" "reply_code_kind (rp_code okay_mail) = Value PositiveCompletion"
  "reply_code_kind (rp_code okay_starttls) = Value PositiveCompletion"
  by (simp_all add: stock_reply_defs reply_code_consts)

section \<open>Witnesses\<close>

abbreviation root_mailbox :: "bytes Email" where
  "root_mailbox \<equiv> \<lparr>em_localpart = Lp_Ascii ''root'', em_hostname = None\<rparr>"

lemma accepting_server:
  "\<exists>s'. (sender_send (reply_parse nom_ref (lexers_ref Some)) script_client file_read None root_mailbox msg
      (sender_new (plainly [] [okay_from, okay_to, okay_data, okay_mail] [])) :: (script_conn Sender, 'n TransportError, unit) outcome) = Okay s' ()"
  by (rule script_send [OF grammar_ref.grammar_axioms reads_all_file at_rest_new _ stock_replies_kind(1-4)])
     (simp add: stock_replies_said)

lemma send_says_the_mail_witness:
  "\<exists>s'. (sender_send (reply_parse nom_ref (lexers_ref Some)) script_client file_read None root_mailbox ''Hi''
      (sender_new (plainly [] [okay_from, okay_to, okay_data, okay_mail] [])) :: (script_conn Sender, unit TransportError, unit) outcome) = Okay s' () \<and>
    sc_out (sn_io s') = concat (command_io_slices (Mail None None (Parameters []))) @
      concat (command_io_slices (Rcpt None root_mailbox (Parameters []))) @ concat (command_io_slices Data) @ ''Hi''"
proof -
  let ?s = "sender_new (plainly [] [okay_from, okay_to, okay_data, okay_mail] [])"
  obtain s' where s': "(sender_send (reply_parse nom_ref (lexers_ref Some)) script_client file_read None root_mailbox ''Hi'' ?s ::
      (script_conn Sender, unit TransportError, unit) outcome) = Okay s' ()" using accepting_server by blast
  from send_says_the_mail [OF grammar_ref.grammar_axioms [of Some] scripted.client_connection_axioms reads_all_file [of "''Hi''"] 
      sender_new_ok(1) [of "plainly [] [okay_from, okay_to, okay_data, okay_mail] []"] refl, where frm = None and rcpt = root_mailbox and 'n = unit] s'
  have "sc_out (sn_io s') = sc_out (sn_io ?s) @ concat (command_io_slices (Mail None None (Parameters []))) @
      concat (command_io_slices (Rcpt None root_mailbox (Parameters []))) @ concat (command_io_slices Data) @ ''Hi''"
    by (simp only: outcome.case)
  with s' show ?thesis by (simp only: sender_new_ok(2)) (simp add: plainly_def)
qed

text \<open>A server that offers encryption.\<close>

definition offering_tls :: "bytes Reply" where
  "offering_tls = \<lparr>rp_code = OKAY, rp_ecode = None, rp_text = [Ascii ''mx'', Ascii ''STARTTLS'']\<rparr>"

lemma offering_tls_said:
  "said_by offering_tls" "length (reply_bytes offering_tls) \<le> 1000" "length (reply_bytes okay_starttls) \<le> 1000"
  "reply_code_kind (rp_code offering_tls) = Value PositiveCompletion" "ehlo_extensions (reply_as_read offering_tls) = STARTTLS"
proof -
  show l: "length (reply_bytes offering_tls) \<le> 1000" "length (reply_bytes okay_starttls) \<le> 1000"
    by (simp_all add: offering_tls_def okay_starttls_def reply_bytes_def reply_io_slices_def line_as_io_slices_def reply_code_consts
        ecode_io_slices_def SUCCESS_UNDEFINED_def extended_reply_code_def decimal.simps [of 0])
  then show "said_by offering_tls"
    by (simp add: said_by_def CLIENT_RDBUF_SIZE_def)
       (simp add: reply_printable_def offering_tls_def no_ecode ascii_text_printable reply_code_consts is_digit_def del: text_printable.simps)
  show "reply_code_kind (rp_code offering_tls) = Value PositiveCompletion" by (simp add: offering_tls_def reply_code_consts)
  have "maybe_str (read_text t) = maybe_str t" for t by (simp add: read_text_def)
  then show "ehlo_extensions (reply_as_read offering_tls) = STARTTLS"
    by (simp add: ehlo_extensions_def reply_as_read_def offering_tls_def eq_ignore_ascii_case_def same_letter_def extensions_insert_def STARTTLS_def)
qed

lemma script_ehlo:
  assumes "grammar N X" "said_by r" "reply_code_kind (rp_code r) = Value PositiveCompletion" "at_rest s io"
    and "next_chunk (io\<lparr>sc_out := sc_out io @ concat (command_io_slices (Ehlo (ccfg_ehlo_hostname cfg)))\<rparr>) (reply_bytes r) io'"
  shows "\<exists>s'. (send_ehlo (reply_parse N X) script_client cfg s :: (script_conn Sender, 'n TransportError, unit) outcome) = Okay s' () \<and>
    at_rest s' io' \<and> sn_extensions s' = ehlo_extensions (reply_as_read r)"
proof -
  let ?ehlo = "Ehlo (ccfg_ehlo_hostname cfg)"
  obtain s1 where s1: "(send_command script_client ?ehlo s :: (script_conn Sender, 'n TransportError, unit) outcome) = Okay s1 ()"
    "at_rest s1 (io\<lparr>sc_out := sc_out io @ concat (command_io_slices ?ehlo)\<rparr>)" using script_command [OF assms(4)] by blast
  obtain s2 where s2: "(read_reply (reply_parse N X) script_client s1 :: (script_conn Sender, 'n TransportError, bytes Reply) outcome) =
      Okay s2 (reply_as_read r)" "at_rest s2 io'" using script_reply [OF assms(1,2) s1(2) assms(5)] by blast
  show ?thesis
    using s1(1) s2 reply_as_read_verified [OF assms(3), of "s2\<lparr>sn_extensions := ehlo_extensions (reply_as_read r)\<rparr>"]
    by (simp add: send_ehlo_def reply_as_read_verified [OF assms(3)] at_rest_def sender_ok_def sn_unhandled_def)
qed

text \<open>The greeting, the offer, the go-ahead; then the same offer over the encrypted connection.\<close>

abbreviation tls_server :: "script_conn" where
  "tls_server \<equiv> plainly [] [okay_starttls, offering_tls, okay_starttls] [reply_bytes offering_tls]"

lemma tls_server_connects:
  assumes g: "grammar N X"
  shows "\<exists>s. (connect_to_stream (reply_parse N X) script_client script_config tls_server ::
    (script_conn Sender, 'n TransportError, unit) outcome) = Okay s ()"
proof -
  let ?parse = "reply_parse N X" and ?tls = "[reply_bytes offering_tls]" and ?x0 = "[] :: bytes"
  let ?read = "read_reply ?parse script_client :: script_conn Sender \<Rightarrow> (script_conn Sender, 'n TransportError, bytes Reply) outcome"
  let ?ehlo = "send_ehlo ?parse script_client script_config :: script_conn Sender \<Rightarrow> (script_conn Sender, 'n TransportError, unit) outcome"
  note go = stock_replies_said(5) and offer = offering_tls_said(1)
  obtain s1 where s1: "?read (sender_new tls_server) = Okay s1 (reply_as_read okay_starttls)"
    "at_rest s1 (plainly ?x0 [offering_tls, okay_starttls] ?tls)"
    using script_reply [OF g go at_rest_new plainly_steps(1)] by blast
  obtain s2 x2 where s2: "?ehlo s1 = Okay s2 ()" "at_rest s2 (plainly x2 [okay_starttls] ?tls)" "sn_extensions s2 = STARTTLS"
    using script_ehlo [OF g offer offering_tls_said(4) s1(2), of script_config, unfolded plainly_steps(2), OF plainly_steps(1)]
    unfolding offering_tls_said(5) by blast
  obtain s3 x3 where s3: "(send_command script_client Starttls s2 :: (script_conn Sender, 'n TransportError, unit) outcome) = Okay s3 ()"
    "at_rest s3 (plainly x3 [okay_starttls] ?tls)" using script_command [OF s2(2), unfolded plainly_steps(2)] by blast
  obtain s4 where s4: "?read s3 = Okay s4 (reply_as_read okay_starttls)" "at_rest s4 (plainly x3 [] ?tls)"
    using script_reply [OF g go s3(2) plainly_steps(1)] by blast
  let ?io = "(plainly x3 [] ?tls)\<lparr>sc_secure := True\<rparr>"
  have "at_rest (s4\<lparr>sn_io := ?io\<rparr>) ?io" using s4(2) by (simp add: at_rest_def sender_ok_def sn_unhandled_def)
  from script_ehlo [OF g offer offering_tls_said(4) this, of script_config "(?io\<lparr>sc_tls := []\<rparr>)\<lparr>sc_out := x3 @ concat (command_io_slices (Ehlo (ccfg_ehlo_hostname script_config)))\<rparr>",
      where 'n = 'n]
  obtain s5 where s5: "?ehlo (s4\<lparr>sn_io := ?io\<rparr>) = Okay s5 ()" by (auto simp: next_chunk_def plainly_def)
  have v: "(verify_reply (reply_as_read okay_starttls) PositiveCompletion :: ('n TransportError + unit) run) = Value (Inr ())"
    using stock_replies_kind(5) by (simp add: verify_reply_def reply_as_read_def)
  have st: "(starttls ?parse script_client script_config s2 :: (script_conn Sender, 'n TransportError, bool) outcome) = Okay s5 True"
    using s3(1) s4 s5 v by (simp add: starttls_def script_config_def [THEN arg_cong, of ccfg_tls_connect] script_tls_def at_rest_def)
  have cfg: "ccfg_can_do_tls script_config" "extensions_contains (sn_extensions s2) STARTTLS"
    by (simp_all add: script_config_def s2(3) extensions_contains_def)
  then show ?thesis
    using s1(1) s2(1) st by (simp add: connect_to_stream_def reply_as_read_verified [OF stock_replies_kind(5)])
qed

lemma tls_when_required_witness:
  "\<exists>s. (connect_to_stream (reply_parse nom_ref (lexers_ref Some)) script_client script_config tls_server ::
      (script_conn Sender, unit TransportError, unit) outcome) = Okay s () \<and> sc_secure (sn_io s)"
proof -
  obtain s where s: "(connect_to_stream (reply_parse nom_ref (lexers_ref Some)) script_client script_config tls_server ::
      (script_conn Sender, unit TransportError, unit) outcome) = Okay s ()" using tls_server_connects [OF grammar_ref.grammar_axioms] by blast
  have "ccfg_tls_connect script_config = script_tls" "ccfg_must_do_tls script_config" by (simp_all add: script_config_def)
  with tls_when_required [OF grammar_ref.grammar_axioms [of Some] scripted.client_connection_axioms, of script_config tls_server, where 'n = unit] s
  show ?thesis by auto
qed

text \<open>A server that sends the reply to the encrypted \<^verbatim>\<open>EHLO\<close> along with the go-ahead, and then nothing.\<close>

definition injecting_server :: script_conn where
  "injecting_server = \<lparr>sc_plain = [reply_bytes okay_starttls @ reply_bytes offering_tls], sc_tls = [], sc_out = [], sc_secure = False\<rparr>"

lemma starttls_takes_injected_reply_witness:
  "\<exists>s'. (starttls (reply_parse nom_ref (lexers_ref Some)) script_client script_config (sender_new injecting_server) ::
      (script_conn Sender, unit TransportError, bool) outcome) = Okay s' True \<and>
    sc_secure (sn_io s') \<and> sc_tls (sn_io s') = [] \<and> sn_extensions s' = STARTTLS"
proof -
  let ?out = "concat (command_io_slices Starttls)" and ?ehlo = "command_io_slices (Ehlo (ccfg_ehlo_hostname script_config))"
  let ?io1 = "injecting_server\<lparr>sc_out := ?out\<rparr>"
  let ?io2 = "?io1\<lparr>sc_plain := []\<rparr>"
  let ?io3 = "?io2\<lparr>sc_secure := True\<rparr>"
  let ?io4 = "?io3\<lparr>sc_out := ?out @ concat ?ehlo\<rparr>"
  note g = grammar_ref.grammar_axioms [of Some]
  obtain s1 where s1: "(send_command script_client Starttls (sender_new injecting_server) :: (script_conn Sender, unit TransportError, unit) outcome) = Okay s1 ()"
    "at_rest s1 ?io1" using script_command [OF at_rest_new, of Starttls injecting_server] by (auto simp: injecting_server_def)
  have p: "reply_printable okay_starttls" "reply_printable offering_tls" using stock_replies_said(5) offering_tls_said(1) by (simp_all add: said_by_def)
  obtain slices where sl: "reply_io_slices offering_tls = Value slices" using p(2) reply_io_slices_wire by (fastforce simp: reply_printable_def)
  have c: "next_chunk ?io1 (reply_bytes okay_starttls @ reply_bytes offering_tls) ?io2" by (simp add: next_chunk_def injecting_server_def)
  have len: "length (reply_bytes okay_starttls @ reply_bytes offering_tls) \<le> CLIENT_RDBUF_SIZE"
    using offering_tls_said(2,3) by (simp add: CLIENT_RDBUF_SIZE_def)
  obtain s2 where s2: "(read_reply (reply_parse nom_ref (lexers_ref Some)) script_client s1 :: (script_conn Sender, unit TransportError, bytes Reply) outcome) =
      Okay s2 (reply_as_read okay_starttls)" "sender_ok s2" "sn_io s2 = ?io2" "sn_unhandled s2 = concat slices @ []"
    using script_read [OF g p(1) len s1(2) c, where 'n = unit] sl by (auto simp: reply_bytes_def)
  have v: "(verify_reply (reply_as_read okay_starttls) PositiveCompletion :: (unit TransportError + unit) run) = Value (Inr ())"
    using stock_replies_kind(5) by (simp add: verify_reply_def reply_as_read_def)
  have tls: "ccfg_tls_connect script_config (sn_io s2) = (?io3, Inr ())" unfolding s2(3) by (simp add: script_config_def script_tls_def)
  have wr: "cl_write_timer script_client ?io3 ?ehlo = None" "cl_write script_client ?io3 ?ehlo = (?io4, Inr ())"
    by (simp_all add: script_client_def)
  from starttls_takes_injected_reply [OF g p(2) offering_tls_said(4) sl s1(1) s2(1) v s2(2,4) tls wr]
  show ?thesis unfolding offering_tls_said(5) by (auto simp: injecting_server_def)
qed

definition two_exchanges :: "(unit, string, script_conn) Client" where
  "two_exchanges = \<lparr>ct_net = \<lparr>net_mx_lookup = (\<lambda>w _. (w, Inr [(20, ''backup''), (10, ''main'')])),
       net_lookup_ip = (\<lambda>w name. (w, Inl NoRecordsFound)), net_into_name = Inr, net_shuffle = (\<lambda>w xs. (w, xs)),
       net_connect = (\<lambda>w _ _. (w, Inr (plainly [] [] [])))\<rparr>,
     ct_io = script_client, ct_cfg = script_config, ct_parse = reply_parse nom_ref (lexers_ref Some)\<rparr>"


end
