(* ===== verification/Relay.thy ===== *)
theory Relay
  imports Kannader QueueFsFiles ClientProperties
begin

text \<open>
  The parts of the program joined: the file system queue as the place where the reception of a mail
  puts it, and the reader of a stored mail as what the client sends.
\<close>

section \<open>The file system's enqueuer\<close>

definition fs_put :: "('z fs_world_scheme, FsEnqueuer) enqueuer_write" where
  "fs_put w en bs = (case fs_enqueuer_write en bs w of (w', r) \<Rightarrow> (w', en, r))"

definition fs_given :: "'z fs_world_scheme \<Rightarrow> FsEnqueuer \<Rightarrow> bytes \<Rightarrow> bool" where
  "fs_given w en c \<longleftrightarrow> fs_ok w \<and> is_name (fe_mail_uuid en) \<and>
     map_of (fs_tree w) (fe_mail_dir en @ [CONTENTS_FILE]) = Some (Fs_File c)"

interpretation fs_enqueuer: mail_enqueuer fs_put fs_given fs_ok
proof unfold_locales
  fix w w' :: "'a fs_world_scheme" and e e' c bs u
  assume a: "fs_given w e c" "fs_put w e bs = (w', e', Inr u)"
  then have "fs_enqueuer_write e bs w = (w', Inr u)" "e' = e" by (auto simp: fs_put_def split: prod.splits)
  with a(1) data_only_ok [OF fs_enqueuer_write_data, of e bs w w'] os_write_file_ok [of "fe_mail_dir e" CONTENTS_FILE bs w w' u]
  show "fs_given w' e' (c @ bs)" by (auto simp: fs_given_def fs_enqueuer_write_def)
next
  fix w w' :: "'a fs_world_scheme" and e e' c bs err
  assume a: "fs_given w e c" "fs_put w e bs = (w', e', Inl err)"
  then have "fs_enqueuer_write e bs w = (w', Inl err)" by (auto simp: fs_put_def split: prod.splits)
  from data_only_ok [OF fs_enqueuer_write_data [OF this]] a(1) show "fs_ok w'" by (simp add: fs_given_def)
qed (simp add: fs_given_def)

lemma fs_enqueue_given:
  assumes "fs_ok w" "fs_enqueue w = (w', r)"
  shows "fs_ok w'" "r = Inr en \<Longrightarrow> fs_given w' en []"
  using data_only_ok [OF fs_enqueue_data [OF assms(2,1)] assms(1)] fs_enqueue_contents [of w w' en] assms(2)
  by (auto simp: fs_given_def)

lemma elsewhere_given: "elsewhere f w = (w', a) \<Longrightarrow> fs_given w' en c = fs_given w en c \<and> fs_tree w' = fs_tree w"
  by (auto simp: elsewhere_def fs_given_def fs_ok_def uuids_ok_def split: prod.splits)

section \<open>Reception into the file system\<close>

definition relayed :: "bytes Email option \<Rightarrow> bytes Email \<Rightarrow> Meta QMailMetadata" where
  "relayed frm rcpt = \<lparr>qmm_from = frm, qmm_to = rcpt, qmm_metadata = Meta\<rparr>"

lemma mail_destinations_fs:
  assumes "mail_destinations (qi_chrono (fs_queue_impl js c tr ch)) frm rcpts w = (w', ds)"
  shows "fs_given w' en bs = fs_given w en bs \<and> map fst ds = map (relayed frm) rcpts"
  using assms
proof (induction rcpts arbitrary: w w' ds)
  case (Cons rcpt rcpts)
  obtain w1 now where u: "elsewhere (utc_now ch) w = (w1, now)" by force
  obtain w2 ds2 where d: "mail_destinations (qi_chrono (fs_queue_impl js c tr ch)) frm rcpts w1 = (w2, ds2)" by force
  from Cons.prems u d have "w' = w2" "ds = (relayed frm rcpt, \<lparr>sched_at = now, last_attempt = None\<rparr>) # ds2"
    by (auto simp: fs_queue_impl_def relayed_def)
  with Cons.IH [OF d] elsewhere_given [OF u, of en bs] show ?case by simp
qed simp

text \<open>The mails of the recipients, each with the message, at their places in the queue.\<close>

definition queued_for :: "Meta Json \<Rightarrow> tree \<Rightarrow> bytes Email option \<Rightarrow> bytes \<Rightarrow> FsQueuedMail list \<Rightarrow> bytes Email list \<Rightarrow> bool" where
  "queued_for js t frm msg mails rcpts \<longleftrightarrow>
     list_all2 (\<lambda>mail rcpt. on_disk js t In_Queue (fq_id mail) (relayed frm rcpt) (fq_schedule mail) msg) mails rcpts"

lemma fs_commit_queued:
  assumes "fs_given w en msg" "fs_commit js en ds w = (w', r)" "map fst ds = map (relayed frm) rcpts"
  shows "fs_ok w'" "r = Inr mails \<Longrightarrow> queued_for js (fs_tree w') frm msg mails rcpts"
proof -
  have ok: "fs_ok w" and c: "is_name (fe_mail_uuid en)" "map_of (fs_tree w) (fe_mail_dir en @ [CONTENTS_FILE]) = Some (Fs_File msg)"
    using assms(1) by (simp_all add: fs_given_def)
  show "fs_ok w'" using fs_commit_committed [OF ok, of js en ds] assms(2) by (simp add: committed_def)
  assume "r = Inr mails"
  with fs_commit_ok [OF _ c] assms(2)
  have "list_all2 (\<lambda>m (meta, sched). fq_schedule m = sched \<and> on_disk js (fs_tree w') In_Queue (fq_id m) meta sched msg) mails ds"
    by simp
  then have "list_all2 (\<lambda>m d. on_disk js (fs_tree w') In_Queue (fq_id m) (fst d) (fq_schedule m) msg) mails ds"
    by (rule list_all2_mono) auto
  then have "list_all2 (\<lambda>m meta. on_disk js (fs_tree w') In_Queue (fq_id m) meta (fq_schedule m) msg) mails (map fst ds)"
    by (simp add: list.rel_map)
  then show "queued_for js (fs_tree w') frm msg mails rcpts"
    unfolding assms(3) by (simp add: queued_for_def list.rel_map)
qed

definition reception ::
  "Meta Json \<Rightarrow> ('io \<Rightarrow> bytes) \<Rightarrow> bytes \<Rightarrow> 'mu MailMetadata \<Rightarrow>
     ('z fs_world_scheme, FsQueuedMail, 'im, 'pm, 'e, Meta, 'r, 'd, 's) runner \<Rightarrow>
     'io EscapedDataReader \<times> ('z fs_world_scheme, FsQueuedMail, 'im, 'pm, 'e, Meta, 'r, 'd, 's) runner \<times> unit Decision \<Rightarrow> bool" where
  "reception js incoming stream m s res \<longleftrightarrow>
     (case res of (reader, s', decision) \<Rightarrow> fs_ok (rn_world s') \<and>
        (case decision of
           Accept r _ \<Rightarrow> r = okay_mail \<and> rd_state reader = Rd_Completed \<and>
             (\<exists>msg mails. stream = msg @ rd_remaining incoming reader \<and> end_of_data stream (length msg) \<and>
                rn_tasks s' = rn_tasks s @ map Send mails \<and>
                queued_for js (fs_tree (rn_world s')) (mm_from m) msg mails (mm_to m))
         | Reject r \<Rightarrow> r = internal_server_error \<and> rn_tasks s' = rn_tasks s
         | Kill _ _ \<Rightarrow> False))"

lemma handle_mail_reception:
  assumes conn: "connection env incoming wire" and buf: "start \<le> stop" "stop \<le> length buf" "length buf = RDBUF_SIZE"
    and ok: "fs_ok (rn_world s)"
  shows "\<exists>res. kannader_handle_mail env fs_put (fs_queue_impl js c tr ch) (reader_new buf start stop io) s m = Some (Value res) \<and>
    reception js incoming (subslice buf start stop @ incoming io) m s res"
proof -
  let ?d0 = "reader_new buf start stop io" and ?q = "fs_queue_impl js c tr ch"
  let ?S = "subslice buf start stop @ incoming io"
  have d0: "rd_wf ?d0" "length (rd_buf ?d0) = RDBUF_SIZE" using buf by (simp_all add: rd_wf_def reader_new_def)
  obtain w1 r where e: "fs_enqueue (rn_world s) = (w1, r)" by force
  note g1 = fs_enqueue_given [OF ok e]
  have q: "queue_enqueue ?q (rn_world s) = (w1, map_sum id (\<lambda>en. \<lparr>en_enqueuer = Some en\<rparr>) r)"
    using e by (simp add: queue_enqueue_def fs_queue_impl_def fs_storage_def split: sum.split)
  show ?thesis
  proof (cases r)
    case (Inl err)
    with q g1(1) show ?thesis by (simp add: kannader_handle_mail_def reception_def)
  next
    case (Inr en)
    from fs_enqueuer.copy_loop_copies [OF conn d0 g1(2) [OF Inr]] obtain d en' w2 to_end
      where cp: "copy_loop env fs_put ?d0 \<lparr>en_enqueuer = Some en\<rparr> w1 = Some (Value (d, en', w2, to_end))"
        "fs_enqueuer.copied env ?d0 [] (d, en', w2, to_end)" by (metis prod_cases4)
    show ?thesis
    proof (cases to_end)
      case False
      with q Inr cp show ?thesis by (simp add: kannader_handle_mail_def reception_def fs_enqueuer.copied_def)
    next
      case True
      with cp(2) obtain msg en2 where fin: "is_finished d" and run: "reader_run (awaited_read env) ?d0 msg d"
        and en': "en' = \<lparr>en_enqueuer = Some en2\<rparr>" and g2: "fs_given w2 en2 msg" by (auto simp: fs_enqueuer.copied_def)
      from reader_run_message [OF connection.awaited_async_read [OF conn] buf(1,2) run] fin
      have S: "?S = msg @ rd_remaining incoming d" "end_of_data ?S (length msg)" by simp_all
      let ?d' = "d\<lparr>rd_state := Rd_Completed\<rparr>"
      obtain w3 ds where ds: "mail_destinations (qi_chrono ?q) (mm_from m) (mm_to m) w2 = (w3, ds)" by force
      note md = mail_destinations_fs [OF ds, of en2 msg]
      obtain w4 cr where cm: "fs_commit js en2 ds w3 = (w4, cr)" by force
      note qd = fs_commit_queued [OF _ cm, of msg "mm_from m" "mm_to m"]
      have "fs_ok w4" using qd(1) md g2 by simp
      have "kannader_handle_mail env fs_put ?q ?d0 s m = Some (Value (case cr of
          Inl err \<Rightarrow> (?d', s\<lparr>rn_world := w4, rn_log := rn_log s @ [Commit_Failed err]\<rparr>, Reject internal_server_error)
        | Inr mails \<Rightarrow> (?d', s\<lparr>rn_world := w4, rn_log := rn_log s @ map (\<lambda>m. Enqueued (queued_id (fs_storage js) m)) mails,
            rn_tasks := rn_tasks s @ map Send mails\<rparr>, Accept okay_mail ())))"
        using q Inr cp(1) True fin ds cm en'
        by (auto simp: kannader_handle_mail_def complete_def enqueuer_commit_def fs_queue_impl_def fs_storage_def split: sum.split)
      moreover have "rd_remaining incoming ?d' = rd_remaining incoming d" by (simp add: rd_remaining_def)
      ultimately show ?thesis using \<open>fs_ok w4\<close> S qd(2) md g2 by (cases cr) (auto simp: reception_def)
    qed
  qed
qed

section \<open>The transport\<close>

context grammar
begin

lemma localhost_parses: "hostname_parse N X ''localhost'' = Inr ([], PHostname (AsciiDomain ''localhost''))"
proof -
  let ?word = "Cls ((45, 45) # alnum)"
  have "''ocalhos'' \<in> lang (Star ?word)" unfolding lang_Star_Cls by (simp add: in_class_def alnum_def)
  moreover have "''t'' \<in> lang (Cls alnum)" by (simp add: in_class_def alnum_def)
  ultimately have "''ocalhos'' @ ''t'' \<in> lang (Times (Star ?word) (Cls alnum))" unfolding mem_Times by blast
  then have "CHR ''l'' # ''ocalhos'' @ ''t'' \<in> lang Domain_label"
    unfolding Domain_label_def mem_Times_Cls by (simp add: in_class_def alnum_def)
  moreover have "[] \<in> lang (Star r)" for r by (auto intro: exI [of _ "[]"])
  ultimately have "(CHR ''l'' # ''ocalhos'' @ ''t'') @ [] \<in> lang (Times Domain_label (Star (Times (Lit ''.'') Domain_label)))"
    unfolding mem_Times [of _ Domain_label] by blast
  then have "''localhost'' \<in> lang HOSTNAME_ASCII_re" unfolding HOSTNAME_ASCII_re_def by simp
  then have "apply_regex (HOSTNAME_ASCII X) ''localhost'' = Inr ([], ''localhost'')"
    unfolding hostname_ascii.apply_regex_Inr longest_def by simp
  then show ?thesis by (simp add: hostname_parse_def parse_hostname_def regex_def)
qed

end

text \<open>A mail to a bare local part goes to \<^verbatim>\<open>localhost\<close>; finding the destination never fails.\<close>

lemma transport_destination_found:
  assumes "grammar N X"
  shows "transport_destination N X meta =
    Value (Inr \<lparr>dst_host = (case em_hostname (qmm_to meta) of Some h \<Rightarrow> h | None \<Rightarrow> AsciiDomain ''localhost'')\<rparr>)"
  by (simp add: transport_destination_def grammar.localhost_parses [OF assms] get_destination_def)

text \<open>
  Claim C31. What the server answers decides what the queue is told, for every reply that is not the
  expected one: a 5yz reply and only that is a permanent failure, a 4yz reply and only that a
  transient one of the mail, and any other reply counts as a transient failure of the network.
\<close>

theorem reply_decides_failure:
  fixes err :: "'n TransportError"
  assumes "valid_reply_code (rp_code r)" "verify_reply r expected = Value (Inl err)"
  shows "(transport_error_client_to_queue err \<in> {TransportFailure.MailPermanent, TransportFailure.MailboxPermanent, TransportFailure.MailSystemPermanent} \<longleftrightarrow>
      reply_code_kind (rp_code r) = Value PermanentNegative) \<and>
    (transport_error_client_to_queue err \<in> {TransportFailure.MailTransient, TransportFailure.MailboxTransient, TransportFailure.MailSystemTransient} \<longleftrightarrow>
      reply_code_kind (rp_code r) = Value TransientNegative) \<and>
    (transport_error_client_to_queue err = TransportFailure.NetworkTransient \<longleftrightarrow>
      reply_code_kind (rp_code r) \<in> {Value PositiveCompletion, Value PositiveIntermediate})"
proof -
  obtain k where k: "reply_code_kind (rp_code r) = Value k" using valid_code_kind [OF assms(1)] by blast
  with assms(2) show ?thesis
    by (cases k) (auto simp: verify_reply_def transport_error_client_to_queue_def split: if_splits option.splits EnhancedReplyCodeSubject.splits)
qed

lemma reply_decides_failure_witness:
  "(transport_error_client_to_queue (TransientMail internal_server_error :: unit TransportError) \<in> {TransportFailure.MailTransient, TransportFailure.MailboxTransient, TransportFailure.MailSystemTransient} \<longleftrightarrow>
      reply_code_kind (rp_code internal_server_error) = Value TransientNegative)"
proof -
  have "valid_reply_code (rp_code internal_server_error)" by (simp add: internal_server_error_def reply_code_consts is_digit_def)
  moreover have "ecode_subject TRANSIENT_UNDEFINED = Undefined" by code_simp
  then have "verify_reply internal_server_error PositiveCompletion = Value (Inl (TransientMail internal_server_error :: unit TransportError))"
    by (simp add: verify_reply_def internal_server_error_def reply_code_consts)
  ultimately show ?thesis using reply_decides_failure by blast
qed

section \<open>A mail relayed\<close>

definition relay_json :: "Meta Json" where
  "relay_json = \<lparr>js_meta = (\<lambda>_. ''m''), js_parse_meta = (\<lambda>_. Inr (relayed None root_mailbox)),
     js_sched = (\<lambda>_. ''s''), js_parse_sched = (\<lambda>_. Inr \<lparr>sched_at = 0, last_attempt = None\<rparr>)\<rparr>"

definition relay_mail :: FsQueuedMail where
  "relay_mail = \<lparr>fq_id = ''uuu'', fq_schedule = \<lparr>sched_at = 0, last_attempt = None\<rparr>\<rparr>"

definition relay_tree :: "bytes \<Rightarrow> string \<Rightarrow> tree" where
  "relay_tree bs q = written_tree bs @ dest_tree ''uu'' ''m'' q ''uuu''"

lemma relay_commit:
  "fs_commit relay_json \<lparr>fe_mail_uuid = ''u''\<rparr> [(relayed None root_mailbox, \<lparr>sched_at = 0, last_attempt = None\<rparr>)] (demo_world (written_tree bs) 1) =
    (demo_world (relay_tree bs QUEUE_DIR) 3, Inr [relay_mail])"
proof -
  have "make_dest_dir relay_json \<lparr>fe_mail_uuid = ''u''\<rparr> ''uu'' (relayed None root_mailbox) sched (demo_world (written_tree bs) 2) =
      (demo_world (relay_tree bs QUEUE_DIR) 3, Inr \<lparr>fq_id = ''uuu'', fq_schedule = sched\<rparr>)" for sched
    by (simp add: make_dest_dir_def Let_def fe_mail_dir_def demo_calls written_tree_def empty_tree_def dest_tree_def relay_json_def
        relay_tree_def queued_found_def demo_uuid_def numeral_eq_Suc)
  then show ?thesis
    by (simp add: fs_commit_def fs_enqueuer_flush_def sys_calm demo_uuid_def relay_mail_def numeral_eq_Suc)
qed

lemma relay_send_start:
  "fs_send_start relay_mail (demo_world (relay_tree bs QUEUE_DIR) i) =
    (demo_world (relay_tree bs INFLIGHT_DIR) i, Inr (Some \<lparr>fi_id = ''uuu'', fi_schedule = \<lparr>sched_at = 0, last_attempt = None\<rparr>\<rparr>))"
  by (simp add: fs_send_start_def fs_move_def fs_found_def os_rename_def demo_calls relay_mail_def relay_tree_def
      written_tree_def empty_tree_def dest_tree_def queued_into_inflight_def)

lemma relay_read_back:
  "fs_read_inflight relay_json \<lparr>fi_id = ''uuu'', fi_schedule = \<lparr>sched_at = 0, last_attempt = None\<rparr>\<rparr> (demo_world (relay_tree bs INFLIGHT_DIR) 3) =
    (demo_world (relay_tree bs INFLIGHT_DIR) 3, Inr (relayed None root_mailbox, bs))"
proof -
  have "map_of (written_tree bs) (fe_mail_dir \<lparr>fe_mail_uuid = ''u''\<rparr> @ [CONTENTS_FILE]) = Some (Fs_File bs)" "is_name ''u''"
    by (simp_all add: written_tree_def empty_tree_def fe_mail_dir_def demo_calls)
  with fs_commit_ok [OF relay_commit, of bs bs]
  have disk: "on_disk relay_json (fs_tree (demo_world (relay_tree bs QUEUE_DIR) 3)) In_Queue (fq_id relay_mail) (relayed None root_mailbox) (fq_schedule relay_mail) bs"
    by simp
  have js: "js_parse_meta relay_json (js_meta relay_json (relayed None root_mailbox)) = Inr (relayed None root_mailbox)"
    by (simp add: relay_json_def)
  have "fs_ok (demo_world (relay_tree bs QUEUE_DIR) 3)"
    using fs_commit_committed [OF demo_written_ok, of bs relay_json "\<lparr>fe_mail_uuid = ''u''\<rparr>"
        "[(relayed None root_mailbox, \<lparr>sched_at = 0, last_attempt = None\<rparr>)]", unfolded relay_commit]
    by (simp add: committed_def)
  then show ?thesis using queued_mail_read [OF disk _ relay_send_start _ js] demo_world_simps(2) by blast
qed

definition relay_transport :: "(unit, Meta, bytes, unit, unit) Transport" where
  "relay_transport = \<lparr>tr_destination = (\<lambda>z _. (z, Inr ())), tr_connect = (\<lambda>z _. (z, Inr ())), tr_send = (\<lambda>z _ _ _. (z, Inr ()))\<rparr>"

abbreviation relay_queue ::
  "(fs_world, FsQueuedMail, FsInflightMail, FsPendingCleanupMail, FsError, Meta, bytes, FsEnqueuer, unit, unit) QueueImpl" where
  "relay_queue \<equiv> fs_queue_impl relay_json demo_config relay_transport demo_chrono"

definition relay_message :: bytes where
  "relay_message = ''Hi'' @ CRLF @ [DOT] @ CRLF"

definition relay_buf :: bytes where
  "relay_buf = relay_message @ replicate (RDBUF_SIZE - 7) (CHR 0x00)"

lemma relay_buf_length: "length relay_buf = RDBUF_SIZE" "take 7 relay_buf = relay_message" "length relay_message = 7"
  by (simp_all add: relay_buf_def relay_message_def RDBUF_SIZE_def)

lemma relay_read:
  "\<exists>d bufs. read_stream env (reader_new relay_buf 0 7 io) = Value (d, bufs, Ready (Inr 7)) \<and> take 7 (concat bufs) = relay_message \<and>
    is_finished d"
proof -
  let ?d0 = "reader_new relay_buf 0 7 io" and ?b = "replicate KANNADER_DATABUF_SIZE (CHR 0x00)"
  have k: "min KANNADER_DATABUF_SIZE 7 = 7" "7 \<le> KANNADER_DATABUF_SIZE" by (simp_all add: KANNADER_DATABUF_SIZE_def)
  have f: "fill_bufs relay_buf 0 7 [?b] = Value ([relay_message @ drop 7 ?b], 7)"
    using k relay_buf_length by (simp add: Let_def subslice_def RDBUF_SIZE_def)
  have sc: "scan_buf Rd_CrLf 0 relay_message = (Rd_End, Some 6)"
    by (simp add: relay_message_def rd_step_def numeral_eq_Suc)
  have "scan_bufs Rd_CrLf 0 7 [relay_message @ drop 7 ?b] = (Rd_End, 7, Some (6, relay_message @ drop 7 ?b, []))"
    using k sc relay_buf_length(3) by simp
  then have "poll_scan (?d0\<lparr>rd_start := 7\<rparr>) [relay_message @ drop 7 ?b] 7 =
      bind_run (save_rest relay_buf 0 0 [drop 7 ?b]) (\<lambda>(buf', copied).
        Value (?d0\<lparr>rd_state := Rd_End, rd_buf := buf', rd_start := 0, rd_end := copied\<rparr>, [relay_message @ drop 7 ?b], Ready (Inr 7)))"
    by (simp add: poll_scan_def reader_new_def relay_buf_length(3))
  then have "read_stream env ?d0 = Value (?d0\<lparr>rd_state := Rd_End, rd_start := 0, rd_end := 0\<rparr>, [relay_message @ drop 7 ?b], Ready (Inr 7))"
    using f by (simp add: read_stream_def poll_read_def poll_read_vectored_def is_finished_def reader_new_def del: fill_bufs.simps)
  then show ?thesis by (simp add: relay_buf_length(3) is_finished_def)
qed

lemma relay_received:
  "\<exists>d s'. kannader_handle_mail env fs_put relay_queue (reader_new relay_buf 0 7 io) (queue_new (demo_world empty_tree 0))
      \<lparr>mm_user = user, mm_from = None, mm_to = [root_mailbox]\<rparr> = Some (Value (d, s', Accept okay_mail ())) \<and>
    rn_tasks s' = [Send relay_mail] \<and> rn_world s' = demo_world (relay_tree relay_message QUEUE_DIR) 3"
proof -
  let ?w = "demo_world (written_tree relay_message) 1" and ?en = "\<lparr>en_enqueuer = Some \<lparr>fe_mail_uuid = ''u''\<rparr>\<rparr>"
  let ?dest = "[(relayed None root_mailbox, \<lparr>sched_at = 0, last_attempt = None\<rparr>)]"
  obtain d bufs where rd: "read_stream env (reader_new relay_buf 0 7 io) = Value (d, bufs, Ready (Inr 7))"
    "take 7 (concat bufs) = relay_message" "is_finished d" using relay_read [of env io] by (elim exE conjE)
  have at_end: "read_stream env d = Value (d, [replicate KANNADER_DATABUF_SIZE (CHR 0x00)], Ready (Inr 0))"
    using rd(3) by (simp add: read_stream_def poll_read_def poll_read_vectored_def)
  have wrote: "enqueuer_write_all fs_put ?en relay_message (demo_world (written_tree []) 1) = Value (?en, ?w, Inr ())"
    by (simp add: enqueuer_write_all_def enqueuer_poll_def fs_put_def demo_write)
  have "copy_loop env fs_put d ?en ?w = Some (Value (d, ?en, ?w, True))" using at_end by (subst copy_loop.simps) simp
  then have copy: "copy_loop env fs_put (reader_new relay_buf 0 7 io) ?en (demo_world (written_tree []) 1) = Some (Value (d, ?en, ?w, True))"
    using rd wrote by (subst copy_loop.simps) simp
  have enq: "queue_enqueue relay_queue (demo_world empty_tree 0) = (demo_world (written_tree []) 1, Inr ?en)"
    using demo_enqueue by (simp add: queue_enqueue_def fs_queue_impl_def fs_storage_def)
  have dests: "mail_destinations (qi_chrono relay_queue) None [root_mailbox] ?w = (?w, ?dest)"
    by (simp add: fs_queue_impl_def elsewhere_def demo_chrono_def relayed_def demo_world_def)
  have cm: "st_commit (qi_storage relay_queue) ?w \<lparr>fe_mail_uuid = ''u''\<rparr> ?dest = (demo_world (relay_tree relay_message QUEUE_DIR) 3, Inr [relay_mail])"
    using relay_commit by (simp add: fs_queue_impl_def fs_storage_def)
  show ?thesis
    using enq copy rd(3) dests cm by (simp add: kannader_handle_mail_def complete_def queue_new_def enqueuer_commit_def)
qed

end
