(* ===== verification/Ffi.thy ===== *)
theory Ffi
  imports Prelude
begin

unbundle bit_operations_syntax

text \<open>
  The boundary between the program and its configuration blob, a WebAssembly module
  (\<^verbatim>\<open>kannader-config-macros\<close>): the code the macros generate around every hook. The host encodes
  the arguments, has the guest allocate a block for them, writes them there and calls the hook; the
  guest decodes them, runs the hook, and hands back the address and the size of a block with the
  encoded result in one 64-bit word. What a \<^verbatim>\<open>&mut\<close> argument holds afterwards comes back with the result.

  Parameters are \<^verbatim>\<open>bincode\<close>, the allocator of the guest and the module the host calls: it may be any
  module. The linear memory is a byte list. \<open>debug\<close> says whether \<^verbatim>\<open>debug_assert!\<close> is compiled in.
\<close>

section \<open>Memory\<close>

record 'g Store =
  st_memory :: bytes
  st_guest :: 'g

text \<open>
  Copies through raw pointers: outside of the memory (or of the vector that is read) they are
  undefined behaviour, here \<open>None\<close>.
\<close>

definition write_memory :: "nat \<Rightarrow> bytes \<Rightarrow> nat \<Rightarrow> 'g Store \<Rightarrow> 'g Store option" where
  "write_memory ptr src len st =
     (if ptr + len \<le> length (st_memory st) \<and> len \<le> length src
      then Some (st\<lparr>st_memory := take ptr (st_memory st) @ take len src @ drop (ptr + len) (st_memory st)\<rparr>)
      else None)"

definition read_memory :: "nat \<Rightarrow> nat \<Rightarrow> 'g Store \<Rightarrow> bytes option" where
  "read_memory ptr len st =
     (if ptr + len \<le> length (st_memory st) then Some (subslice (st_memory st) ptr (ptr + len)) else None)"

text \<open>A call into the guest ends with a trap or a value. A panic of the guest is a trap.\<close>

datatype Trap = Unreachable | Out_Of_Bounds | Trapped string

type_synonym ('g, 'a) wasm_call = "'g Store \<Rightarrow> 'g Store \<times> (Trap + 'a)"

record ('a, 'e) Bincode =
  bc_serialized_size :: "'a \<Rightarrow> 'e + 64 word"
  bc_serialize :: "'a \<Rightarrow> 'e + bytes"
  bc_deserialize :: "bytes \<Rightarrow> 'e + 'a"

section \<open>The host\<close>

datatype 'e FfiError =
    Figuring_Out_Size 'e
  | Allocating_Arg Trap
  | Arg_Outside_Memory
  | Serializing_Arg 'e
  | Running_Wasm Trap
  | Ret_Outside_Memory
  | Deallocating_Ret Trap
  | Deserializing_Ret 'e

datatype 'a host_run = Returned 'a | Panicked | Undefined_Behaviour

definition pack :: "32 word \<Rightarrow> 32 word \<Rightarrow> 64 word" where
  "pack ret_size ret_ptr = (push_bit 32 (ucast ret_size)) OR (ucast ret_ptr)"

definition unpack_ptr :: "64 word \<Rightarrow> nat" where
  "unpack_ptr res_u64 = unat (res_u64 AND 0xFFFFFFFF)"

definition unpack_size :: "64 word \<Rightarrow> nat" where
  "unpack_size res_u64 = unat (drop_bit 32 res_u64 AND 0xFFFFFFFF)"

text \<open>
  The part behind the call: the block that the word names is read, given back, and decoded.
\<close>

definition take_result ::
  "('r \<times> 'm, 'e) Bincode \<Rightarrow> (32 word \<Rightarrow> 32 word \<Rightarrow> ('g, unit) wasm_call) \<Rightarrow> 'm \<Rightarrow> 64 word \<Rightarrow> 'g Store \<Rightarrow>
     ('g Store \<times> 'm \<times> ('e FfiError + 'r)) host_run" where
  "take_result R dealloc muts res_u64 st =
     (let res_ptr = unpack_ptr res_u64; res_size = unpack_size res_u64
      in if length (st_memory st) < res_ptr + res_size then Returned (st, muts, Inl Ret_Outside_Memory)
         else case read_memory res_ptr res_size st of
           None \<Rightarrow> Undefined_Behaviour
         | Some res_msg \<Rightarrow>
             (case dealloc (of_nat res_ptr) (of_nat res_size) st of
                (st, Inl t) \<Rightarrow> Returned (st, muts, Inl (Deallocating_Ret t))
              | (st, Inr _) \<Rightarrow>
                  (case bc_deserialize R res_msg of
                     Inl e \<Rightarrow> Returned (st, muts, Inl (Deserializing_Ret e))
                   | Inr (res, muts') \<Rightarrow> Returned (st, muts', Inr res))))"

definition call_ffi_fn ::
  "bool \<Rightarrow> ('a, 'e) Bincode \<Rightarrow> ('r \<times> 'm, 'e) Bincode \<Rightarrow> (32 word \<Rightarrow> ('g, 32 word) wasm_call) \<Rightarrow>
   (32 word \<Rightarrow> 32 word \<Rightarrow> ('g, 64 word) wasm_call) \<Rightarrow> (32 word \<Rightarrow> 32 word \<Rightarrow> ('g, unit) wasm_call) \<Rightarrow>
   'a \<Rightarrow> 'm \<Rightarrow> 'g Store \<Rightarrow> ('g Store \<times> 'm \<times> ('e FfiError + 'r)) host_run" where
  "call_ffi_fn debug A R allocate wasm_fun dealloc arg muts st =
     (case bc_serialized_size A arg of
        Inl e \<Rightarrow> Returned (st, muts, Inl (Figuring_Out_Size e))
      | Inr size64 \<Rightarrow>
          (if debug \<and> 0xFFFFFFFF < size64 then Panicked
           else let arg_size = ucast size64 :: 32 word
             in case allocate arg_size st of
               (st, Inl t) \<Rightarrow> Returned (st, muts, Inl (Allocating_Arg t))
             | (st, Inr arg_ptr) \<Rightarrow>
                 (if length (st_memory st) < unat arg_ptr + unat arg_size
                  then Returned (st, muts, Inl Arg_Outside_Memory)
                  else case bc_serialize A arg of
                    Inl e \<Rightarrow> Returned (st, muts, Inl (Serializing_Arg e))
                  | Inr arg_vec \<Rightarrow>
                      (if debug \<and> unat arg_size \<noteq> length arg_vec then Panicked
                       else case write_memory (unat arg_ptr) arg_vec (unat arg_size) st of
                         None \<Rightarrow> Undefined_Behaviour
                       | Some st \<Rightarrow>
                           (case wasm_fun arg_ptr arg_size st of
                              (st, Inl t) \<Rightarrow> Returned (st, muts, Inl (Running_Wasm t))
                            | (st, Inr res_u64) \<Rightarrow> take_result R dealloc muts res_u64 st)))))"

section \<open>The guest\<close>

text \<open>
  The function the guest exports for a hook: \<open>hook\<close> runs on the decoded arguments and gives the
  result and what the \<^verbatim>\<open>&mut\<close> arguments hold. \<^verbatim>\<open>unwrap\<close> of an error and a failed assertion trap.
\<close>

definition run_ffi_fn ::
  "bool \<Rightarrow> ('a, 'e) Bincode \<Rightarrow> ('r \<times> 'm, 'e) Bincode \<Rightarrow> (32 word \<Rightarrow> ('g, 32 word) wasm_call) \<Rightarrow>
   (32 word \<Rightarrow> 32 word \<Rightarrow> ('g, unit) wasm_call) \<Rightarrow> ('a \<Rightarrow> ('g, 'r \<times> 'm) wasm_call) \<Rightarrow>
   32 word \<Rightarrow> 32 word \<Rightarrow> ('g, 64 word) wasm_call" where
  "run_ffi_fn debug A R allocate dealloc hook arg_ptr arg_size st =
     (case read_memory (unat arg_ptr) (unat arg_size) st of
        None \<Rightarrow> (st, Inl Out_Of_Bounds)
      | Some arg_slice \<Rightarrow>
          (case bc_deserialize A arg_slice of
             Inl e \<Rightarrow> (st, Inl Unreachable)
           | Inr args \<Rightarrow>
               (case dealloc arg_ptr arg_size st of
                  (st, Inl t) \<Rightarrow> (st, Inl t)
                | (st, Inr _) \<Rightarrow>
                    (case hook args st of
                       (st, Inl t) \<Rightarrow> (st, Inl t)
                     | (st, Inr res) \<Rightarrow>
                         (case bc_serialized_size R res of
                            Inl e \<Rightarrow> (st, Inl Unreachable)
                          | Inr size64 \<Rightarrow>
                              (if debug \<and> 0xFFFFFFFF < size64 then (st, Inl Unreachable)
                               else let ret_size = ucast size64 :: 32 word
                                 in case allocate ret_size st of
                                   (st, Inl t) \<Rightarrow> (st, Inl t)
                                 | (st, Inr ret_ptr) \<Rightarrow>
                                     (case bc_serialize R res of
                                        Inl e \<Rightarrow> (st, Inl Unreachable)
                                      | Inr bs \<Rightarrow>
                                          (if unat ret_size < length bs then (st, Inl Unreachable)
                                           else case write_memory (unat ret_ptr) bs (length bs) st of
                                             None \<Rightarrow> (st, Inl Out_Of_Bounds)
                                           | Some st \<Rightarrow> (st, Inr (pack ret_size ret_ptr)))))))))) "

text \<open>
  The guest keeps its configuration in \<^verbatim>\<open>KANNADER_CFG\<close>: \<^verbatim>\<open>setup\<close> fills it, once, and every hook
  reads it. \<^verbatim>\<open>setup\<close> returns nothing, so its result needs no block on either side.
\<close>

record ('c, 'x) Guest =
  kannader_cfg :: "'c option"
  guest_rest :: 'x

definition setup_hook :: "('p \<Rightarrow> Trap + 'c) \<Rightarrow> 'p \<Rightarrow> (('c, 'x) Guest, unit \<times> unit) wasm_call" where
  "setup_hook setup_cfg path st =
     (if kannader_cfg (st_guest st) \<noteq> None then (st, Inl Unreachable)
      else case setup_cfg path of
        Inl t \<Rightarrow> (st, Inl t)
      | Inr c \<Rightarrow> (st\<lparr>st_guest := (st_guest st)\<lparr>kannader_cfg := Some c\<rparr>\<rparr>, Inr ((), ())))"

definition setup_allocate :: "32 word \<Rightarrow> ('g, 32 word) wasm_call" where
  "setup_allocate ret_size st = (if ret_size = 0 then (st, Inr 0) else (st, Inl Unreachable))"

definition setup_deallocate :: "32 word \<Rightarrow> 32 word \<Rightarrow> ('g, unit) wasm_call" where
  "setup_deallocate p s st =
     (if s = 0 then (st, Inr ()) else (st, Inl (Trapped ''setup tried to return a non-empty result'')))"

definition guest_setup ::
  "bool \<Rightarrow> ('p, 'e) Bincode \<Rightarrow> (unit \<times> unit, 'e) Bincode \<Rightarrow> (32 word \<Rightarrow> 32 word \<Rightarrow> (('c, 'x) Guest, unit) wasm_call) \<Rightarrow>
   ('p \<Rightarrow> Trap + 'c) \<Rightarrow> 32 word \<Rightarrow> 32 word \<Rightarrow> (('c, 'x) Guest, 64 word) wasm_call" where
  "guest_setup debug A R dealloc setup_cfg = run_ffi_fn debug A R setup_allocate dealloc (setup_hook setup_cfg)"

definition host_setup ::
  "bool \<Rightarrow> ('p, 'e) Bincode \<Rightarrow> (unit \<times> unit, 'e) Bincode \<Rightarrow> (32 word \<Rightarrow> ('g, 32 word) wasm_call) \<Rightarrow>
   (32 word \<Rightarrow> 32 word \<Rightarrow> ('g, 64 word) wasm_call) \<Rightarrow> 'p \<Rightarrow> 'g Store \<Rightarrow> ('g Store \<times> unit \<times> ('e FfiError + unit)) host_run" where
  "host_setup debug A R allocate wasm_fun path st = call_ffi_fn debug A R allocate wasm_fun setup_deallocate path () st"

definition configured_hook :: "('c \<Rightarrow> 'a \<Rightarrow> 'r \<times> 'm) \<Rightarrow> 'a \<Rightarrow> (('c, 'x) Guest, 'r \<times> 'm) wasm_call" where
  "configured_hook f args st =
     (case kannader_cfg (st_guest st) of None \<Rightarrow> (st, Inl Unreachable) | Some c \<Rightarrow> (st, Inr (f c args)))"

section \<open>Packing\<close>

lemma unat_ucast_64 [simp]: "unat (ucast (w :: 32 word) :: 64 word) = unat w"
proof -
  have "unat w < 2 ^ 64" using unsigned_less [of w, where 'a = nat] by simp
  then show ?thesis by (simp add: unsigned_ucast_eq take_bit_nat_eq_self)
qed

lemma unpack_pack [simp]: "unpack_ptr (pack sz p) = unat p" "unpack_size (pack sz p) = unat sz"
proof -
  have m: "(0xFFFFFFFF :: 64 word) = mask 32" by (simp add: mask_eq_exp_minus_1)
  have "pack sz p AND mask 32 = (ucast p :: 64 word)"
    by (rule bit_word_eqI) (auto simp: pack_def bit_simps dest: bit_imp_le_length)
  then show "unpack_ptr (pack sz p) = unat p" by (simp add: unpack_ptr_def m)
  have "drop_bit 32 (pack sz p) AND mask 32 = (ucast sz :: 64 word)"
    by (rule bit_word_eqI) (auto simp: pack_def bit_simps dest: bit_imp_le_length)
  then show "unpack_size (pack sz p) = unat sz" by (simp add: unpack_size_def m)
qed

lemma unpack_bounds [simp]: "unpack_ptr r < 2 ^ 32" "unpack_size r < 2 ^ 32"
proof -
  have m: "(0xFFFFFFFF :: 64 word) = mask 32" by (simp add: mask_eq_exp_minus_1)
  have "x AND mask 32 < (2 ^ 32 :: 64 word)" for x by (rule and_mask_less') simp
  then show "unpack_ptr r < 2 ^ 32" "unpack_size r < 2 ^ 32"
    by (simp_all add: unpack_ptr_def unpack_size_def m word_less_nat_alt)
qed

section \<open>The host is safe from any module\<close>

text \<open>What the host needs of \<^verbatim>\<open>bincode\<close>: the size computed for a value is that of its encoding.\<close>

definition sized :: "('a, 'e) Bincode \<Rightarrow> bool" where
  "sized A \<longleftrightarrow> (\<forall>x n bs. bc_serialized_size A x = Inr n \<longrightarrow> bc_serialize A x = Inr bs \<longrightarrow> unat n = length bs)"

lemma unat_ucast_le: "unat (ucast w :: 32 word) \<le> unat (w :: 64 word)"
  by (simp add: unsigned_ucast_eq unsigned_take_bit_eq)

lemma sized_copy:
  assumes "sized A" "bc_serialized_size A x = Inr n" "bc_serialize A x = Inr bs"
  shows "unat (ucast n :: 32 word) \<le> length bs"
  using assms unat_ucast_le [of n] unfolding sized_def by metis

text \<open>Taking the result: defined whatever the word, and a failure leaves the \<^verbatim>\<open>&mut\<close> arguments alone.\<close>

lemma take_result_safe:
  "\<exists>st' muts' res. take_result R dealloc muts r st = Returned (st', muts', res) \<and>
     (case res of Inl _ \<Rightarrow> muts' = muts
      | Inr v \<Rightarrow> (\<exists>bs. read_memory (unpack_ptr r) (unpack_size r) st = Some bs \<and> bc_deserialize R bs = Inr (v, muts')))"
  by (auto simp: take_result_def read_memory_def Let_def split: prod.splits sum.splits)

lemma write_memory_some:
  assumes "ptr + len \<le> length (st_memory st)" "len \<le> length src"
  obtains st' where "write_memory ptr src len st = Some st'" "st_guest st' = st_guest st"
    "length (st_memory st') = length (st_memory st)" "read_memory ptr len st' = Some (take len src)"
    "\<And>i. i < ptr \<or> ptr + len \<le> i \<Longrightarrow> i < length (st_memory st) \<Longrightarrow> st_memory st' ! i = st_memory st ! i"
proof
  let ?st = "st\<lparr>st_memory := take ptr (st_memory st) @ take len src @ drop (ptr + len) (st_memory st)\<rparr>"
  show "write_memory ptr src len st = Some ?st" "st_guest ?st = st_guest st"
    "length (st_memory ?st) = length (st_memory st)" "read_memory ptr len ?st = Some (take len src)"
    using assms by (simp_all add: write_memory_def read_memory_def subslice_def)
  show "st_memory ?st ! i = st_memory st ! i" if "i < ptr \<or> ptr + len \<le> i" "i < length (st_memory st)" for i
    using assms that by (auto simp: nth_append min_def)
qed

text \<open>A call that gets as far as the hook.\<close>

lemma call_ffi_fn_calls:
  assumes "bc_serialized_size A arg = Inr n" "bc_serialize A arg = Inr bs" "\<not> (debug \<and> 0xFFFFFFFF < n)"
    and "allocate (ucast n) st = (st0, Inr ptr)" "unat ptr + unat (ucast n :: 32 word) \<le> length (st_memory st0)"
    and "\<not> (debug \<and> unat (ucast n :: 32 word) \<noteq> length bs)" "write_memory (unat ptr) bs (unat (ucast n :: 32 word)) st0 = Some st1"
    and "wasm_fun ptr (ucast n) st1 = (st2, res)"
  shows "call_ffi_fn debug A R allocate wasm_fun dealloc arg muts st =
    (case res of Inl t \<Rightarrow> Returned (st2, muts, Inl (Running_Wasm t)) | Inr w \<Rightarrow> take_result R dealloc muts w st2)"
  using assms by (auto simp: call_ffi_fn_def Let_def split: sum.splits)

lemma fitting_size:
  assumes "sized A" "bc_serialized_size A x = Inr n" "bc_serialize A x = Inr bs" "\<not> 0xFFFFFFFF < n"
  shows "unat (ucast n :: 32 word) = length bs"
proof -
  have "unat n = length bs" using assms(1-3) by (simp add: sized_def)
  then show ?thesis
    using assms(4) by (simp add: not_less word_le_nat_alt unsigned_ucast_eq unsigned_take_bit_eq take_bit_nat_eq_self)
qed

text \<open>
  Claim C33. The host is safe from its configuration blob: whatever the allocator, the hook and the
  deallocator of the module do and return, the raw copies stay inside of the module's memory and of
  the encoded argument, in a debug as in a release build. The only panic is that of a debug build on
  an argument whose encoding does not fit into 32 bits. A failure leaves the \<^verbatim>\<open>&mut\<close> arguments as
  they were; a success hands out what the bytes in the module's memory decode to.
\<close>

theorem host_call_safe:
  assumes "sized A"
  shows "case call_ffi_fn debug A R allocate wasm_fun dealloc arg muts st of
      Undefined_Behaviour \<Rightarrow> False
    | Panicked \<Rightarrow> debug \<and> (\<exists>n. bc_serialized_size A arg = Inr n \<and> 2 ^ 32 \<le> unat n)
    | Returned (st', muts', Inl e) \<Rightarrow> muts' = muts
    | Returned (st', muts', Inr r) \<Rightarrow>
        (\<exists>n arg_vec ptr st1 st2 w res_msg. bc_serialized_size A arg = Inr n \<and> bc_serialize A arg = Inr arg_vec \<and>
           read_memory (unat ptr) (unat (ucast n :: 32 word)) st1 = Some (take (unat (ucast n :: 32 word)) arg_vec) \<and>
           wasm_fun ptr (ucast n) st1 = (st2, Inr w) \<and>
           read_memory (unpack_ptr w) (unpack_size w) st2 = Some res_msg \<and> bc_deserialize R res_msg = Inr (r, muts'))"
proof (cases "bc_serialized_size A arg")
  case (Inl e)
  then show ?thesis by (simp add: call_ffi_fn_def)
next
  case size: (Inr n)
  let ?n = "ucast n :: 32 word"
  obtain st0 al where al: "allocate ?n st = (st0, al)" by (cases "allocate ?n st")
  show ?thesis
  proof (cases "debug \<and> 0xFFFFFFFF < n")
    case True
    then have "2 ^ 32 \<le> unat n" by (simp add: word_less_nat_alt)
    with True size show ?thesis by (simp add: call_ffi_fn_def)
  next
    case fits: False
    show ?thesis
    proof (cases "\<exists>ptr bs. al = Inr ptr \<and> unat ptr + unat ?n \<le> length (st_memory st0) \<and> bc_serialize A arg = Inr bs")
      case False
      with size al fits show ?thesis by (auto simp: call_ffi_fn_def Let_def not_less split: sum.splits)
    next
      case True
      then obtain ptr bs where al': "al = Inr ptr" "unat ptr + unat ?n \<le> length (st_memory st0)" and ser: "bc_serialize A arg = Inr bs" by blast
      obtain st1 where st1: "write_memory (unat ptr) bs (unat ?n) st0 = Some st1" "read_memory (unat ptr) (unat ?n) st1 = Some (take (unat ?n) bs)"
        using write_memory_some [OF al'(2) sized_copy [OF assms size ser]] by metis
      obtain st2 res where wf: "wasm_fun ptr ?n st1 = (st2, res)" by (cases "wasm_fun ptr ?n st1")
      have "\<not> (debug \<and> unat ?n \<noteq> length bs)" using fitting_size [OF assms size ser] fits by blast
      note run = call_ffi_fn_calls [where allocate = allocate and wasm_fun = wasm_fun, OF size ser fits al [unfolded al'(1)] al'(2) this st1(1) wf, of R dealloc muts]
      show ?thesis
      proof (cases res)
        case (Inl t)
        with run show ?thesis by simp
      next
        case (Inr w)
        with take_result_safe [of R dealloc muts w st2] run size ser st1(2) wf show ?thesis
          by (fastforce split: sum.splits)
      qed
    qed
  qed
qed

section \<open>A hook across the boundary\<close>

text \<open>
  What is relied on for a hook to work: \<open>encodes A x\<close> for the values that cross (\<^verbatim>\<open>bincode\<close> decodes what
  it encoded, in fewer than $2^{32}$ bytes), and an allocator that hands out blocks inside of the memory,
  in which the guest keeps nothing. \<open>view\<close> is what the hooks look at of the state of the guest.
\<close>

definition encodes :: "('a, 'e) Bincode \<Rightarrow> 'a \<Rightarrow> bool" where
  "encodes A x \<longleftrightarrow> (\<exists>bs. bc_serialize A x = Inr bs \<and> bc_serialized_size A x = Inr (of_nat (length bs)) \<and>
     bc_deserialize A bs = Inr x \<and> length bs < 2 ^ 32)"

definition keeps_clear :: "('g Store \<Rightarrow> 'v) \<Rightarrow> nat \<Rightarrow> nat \<Rightarrow> 'g Store \<Rightarrow> bool" where
  "keeps_clear view ptr len st \<longleftrightarrow> ptr + len \<le> length (st_memory st) \<and>
     (\<forall>src st'. write_memory ptr src len st = Some st' \<longrightarrow> view st' = view st)"

definition allocator ::
  "('g Store \<Rightarrow> 'v) \<Rightarrow> (32 word \<Rightarrow> ('g, 32 word) wasm_call) \<Rightarrow> (32 word \<Rightarrow> 32 word \<Rightarrow> ('g, unit) wasm_call) \<Rightarrow> bool" where
  "allocator view allocate dealloc \<longleftrightarrow>
     (\<forall>n st st' p. allocate n st = (st', Inr p) \<longrightarrow> view st' = view st \<and> keeps_clear view (unat p) (unat n) st') \<and>
     (\<forall>p n st st'. dealloc p n st = (st', Inr ()) \<longrightarrow> view st' = view st)"

lemma allocatorD:
  assumes "allocator view allocate dealloc" "allocate n st = (st', Inr p)" "unat n = length bs"
  obtains st'' where "view st' = view st" "unat p + length bs \<le> length (st_memory st')"
    "write_memory (unat p) bs (length bs) st' = Some st''" "view st'' = view st"
    "read_memory (unat p) (length bs) st'' = Some bs"
proof -
  from assms have k: "view st' = view st" "keeps_clear view (unat p) (length bs) st'"
    unfolding allocator_def by metis+
  then have in_mem: "unat p + length bs \<le> length (st_memory st')" by (simp add: keeps_clear_def)
  then show thesis
    using write_memory_some [OF in_mem, of bs] k that by (fastforce simp: keeps_clear_def)
qed

lemma encodesD:
  assumes "encodes A x"
  obtains bs n where "bc_serialize A x = Inr bs" "bc_serialized_size A x = Inr n" "\<not> 0xFFFFFFFF < n"
    "bc_deserialize A bs = Inr x" "unat (ucast n :: 32 word) = length bs"
proof -
  from assms obtain bs where bs: "bc_serialize A x = Inr bs" "bc_serialized_size A x = Inr (of_nat (length bs))"
      "bc_deserialize A bs = Inr x" "length bs < 2 ^ 32" unfolding encodes_def by blast
  have u: "unat (of_nat (length bs) :: 64 word) = length bs" using bs(4) by (simp add: unsigned_of_nat take_bit_nat_eq_self)
  have "\<not> (0xFFFFFFFF :: 64 word) < of_nat (length bs)" using bs(4) by (simp add: word_less_nat_alt u)
  moreover have "unat (ucast (of_nat (length bs) :: 64 word) :: 32 word) = length bs"
    using bs(4) by (simp add: unsigned_ucast_eq unsigned_take_bit_eq u take_bit_nat_eq_self)
  ultimately show thesis using that bs by blast
qed

text \<open>A trap of the allocator or the deallocator.\<close>

definition trapped ::
  "(32 word \<Rightarrow> ('g, 32 word) wasm_call) \<Rightarrow> (32 word \<Rightarrow> 32 word \<Rightarrow> ('g, unit) wasm_call) \<Rightarrow> Trap \<Rightarrow> bool" where
  "trapped allocate dealloc t \<longleftrightarrow> (\<exists>n s s'. allocate n s = (s', Inl t)) \<or> (\<exists>p n s s'. dealloc p n s = (s', Inl t))"

text \<open>The guest, called as the host calls it.\<close>

lemma run_ffi_fn_runs:
  assumes al: "allocator view allocate dealloc" and A: "bc_deserialize A bs = Inr arg"
    and arg: "read_memory (unat p) (unat n) st = Some bs"
    and R: "\<forall>s s' res. view s = view st \<longrightarrow> hook arg s = (s', Inr res) \<longrightarrow> encodes R res"
    and run: "run_ffi_fn debug A R allocate dealloc hook p n st = (st', res)"
  shows "case res of
      Inl t \<Rightarrow> trapped allocate dealloc t \<or> (\<exists>s s'. view s = view st \<and> hook arg s = (s', Inl t))
    | Inr w \<Rightarrow> \<exists>s s' r bs. view s = view st \<and> hook arg s = (s', Inr r) \<and> view st' = view s' \<and>
        unpack_ptr w + unpack_size w \<le> length (st_memory st') \<and>
        read_memory (unpack_ptr w) (unpack_size w) st' = Some bs \<and> bc_deserialize R bs = Inr r"
proof -
  obtain st1 d where d: "dealloc p n st = (st1, d)" by (cases "dealloc p n st")
  show ?thesis
  proof (cases d)
    case (Inl t)
    with run arg A d show ?thesis by (auto simp: run_ffi_fn_def trapped_def) blast
  next
    case d': (Inr u)
    have st1: "view st1 = view st" using al d d' by (auto simp: allocator_def)
    obtain st2 h where h: "hook arg st1 = (st2, h)" by (cases "hook arg st1")
    show ?thesis
    proof (cases h)
      case (Inl t)
      with run arg A d d' h st1 show ?thesis by (auto simp: run_ffi_fn_def)
    next
      case h': (Inr r)
      obtain rs k where R': "bc_serialize R r = Inr rs" "bc_serialized_size R r = Inr k" "\<not> 0xFFFFFFFF < k"
          "bc_deserialize R rs = Inr r" "unat (ucast k :: 32 word) = length rs"
        using encodesD R h h' st1 by metis
      obtain st3 a where a: "allocate (ucast k) st2 = (st3, a)" by (cases "allocate (ucast k) st2")
      show ?thesis
      proof (cases a)
        case (Inl t)
        with run arg A d d' h h' R' a show ?thesis by (auto simp: run_ffi_fn_def Let_def trapped_def)
      next
        case (Inr q)
        obtain st4 where st4: "unat q + length rs \<le> length (st_memory st3)" "view st4 = view st2"
            "write_memory (unat q) rs (length rs) st3 = Some st4" "read_memory (unat q) (length rs) st4 = Some rs"
          using allocatorD [OF al a [unfolded Inr] R'(5)] by metis
        have "length (st_memory st4) = length (st_memory st3)" using st4(1,3) by (auto simp: write_memory_def split: if_splits)
        moreover have "st' = st4" "res = Inr (pack (ucast k) q)"
          using run arg A d d' h h' R' a Inr st4(3) by (simp_all add: run_ffi_fn_def Let_def)
        ultimately show ?thesis using h h' st1 st4 R'(4,5) by auto
      qed
    qed
  qed
qed

text \<open>
  The call runs the hook: it gives what the hook gives in the state the guest was in, or it fails
  with a trap of the allocator, the deallocator or the hook.
\<close>

lemma call_ffi_fn_runs:
  assumes al: "allocator view allocate dealloc" "allocator view allocate' dealloc'" and A: "encodes A arg"
    and R: "\<forall>s s' res. view s = view st \<longrightarrow> hook arg s = (s', Inr res) \<longrightarrow> encodes R res"
  shows "\<exists>st' muts' res. call_ffi_fn debug A R allocate (run_ffi_fn debug A R allocate' dealloc' hook) dealloc arg muts st =
      Returned (st', muts', res) \<and>
    (case res of
       Inr r \<Rightarrow> \<exists>s s'. view s = view st \<and> hook arg s = (s', Inr (r, muts')) \<and> view st' = view s'
     | Inl e \<Rightarrow> muts' = muts \<and> (\<exists>t. e \<in> {Allocating_Arg t, Running_Wasm t, Deallocating_Ret t} \<and>
         (trapped allocate dealloc t \<or> trapped allocate' dealloc' t \<or> (\<exists>s s'. view s = view st \<and> hook arg s = (s', Inl t)))))"
proof -
  let ?run = "run_ffi_fn debug A R allocate' dealloc' hook"
  obtain bs n where enc: "bc_serialize A arg = Inr bs" "bc_serialized_size A arg = Inr n" "\<not> 0xFFFFFFFF < n"
      "bc_deserialize A bs = Inr arg" "unat (ucast n :: 32 word) = length bs" using encodesD [OF A] by metis
  obtain st1 a where a: "allocate (ucast n) st = (st1, a)" by (cases "allocate (ucast n) st")
  show ?thesis
  proof (cases a)
    case (Inl t)
    with enc a show ?thesis by (auto simp: call_ffi_fn_def Let_def trapped_def)
  next
    case (Inr p)
    obtain st2 where st2: "unat p + length bs \<le> length (st_memory st1)" "view st2 = view st"
        "write_memory (unat p) bs (length bs) st1 = Some st2" "read_memory (unat p) (length bs) st2 = Some bs"
      using allocatorD [OF al(1) a [unfolded Inr] enc(5)] by metis
    obtain st3 res where run: "?run p (ucast n) st2 = (st3, res)" by (cases "?run p (ucast n) st2")
    note ran = run_ffi_fn_runs [OF al(2) enc(4) st2(4) [folded enc(5)] R [folded st2(2)] run]
    have call: "call_ffi_fn debug A R allocate ?run dealloc arg muts st =
        (case res of Inl t \<Rightarrow> Returned (st3, muts, Inl (Running_Wasm t)) | Inr w \<Rightarrow> take_result R dealloc muts w st3)"
      by (rule call_ffi_fn_calls [where allocate = allocate, OF enc(2,1) _ a [unfolded Inr]]) (use enc st2 run in simp_all)
    show ?thesis
    proof (cases res)
      case (Inl t)
      with call ran st2(2) show ?thesis by auto
    next
      case (Inr w)
      with ran obtain s s' r rs where hook: "view s = view st2" "hook arg s = (s', Inr r)" "view st3 = view s'"
        and ret: "unpack_ptr w + unpack_size w \<le> length (st_memory st3)"
          "read_memory (unpack_ptr w) (unpack_size w) st3 = Some rs" "bc_deserialize R rs = Inr r" by auto
      obtain st4 d where d: "dealloc (of_nat (unpack_ptr w)) (of_nat (unpack_size w)) st3 = (st4, d)"
        by (cases "dealloc (of_nat (unpack_ptr w)) (of_nat (unpack_size w)) st3")
      show ?thesis
      proof (cases d)
        case (Inl t)
        with call Inr ret d show ?thesis by (auto simp: take_result_def Let_def trapped_def)
      next
        case d': (Inr u)
        have "view st4 = view st3" using al(1) d d' by (auto simp: allocator_def)
        moreover have "take_result R dealloc muts w st3 = Returned (st4, snd r, Inr (fst r))"
          using ret d d' by (simp add: take_result_def Let_def split: prod.splits)
        ultimately show ?thesis using call Inr hook st2(2) by auto
      qed
    qed
  qed
qed

text \<open>\<^verbatim>\<open>setup\<close>: a host that got through it has set the guest up with what the path named.\<close>

lemma setup_configures:
  fixes st :: "('c, 'x) Guest Store"
  assumes al: "allocator (\<lambda>st. kannader_cfg (st_guest st)) allocate dealloc" and A: "encodes A path" and R: "encodes R ((), ())"
    and got: "host_setup debug A R allocate (guest_setup debug A R dealloc setup_cfg) path st = Returned (st', u, Inr v)"
  shows "kannader_cfg (st_guest st) = None \<and> (\<exists>c. setup_cfg path = Inr c \<and> kannader_cfg (st_guest st') = Some c)"
proof -
  let ?view = "\<lambda>st :: ('c, 'x) Guest Store. kannader_cfg (st_guest st)"
  have "allocator ?view allocate setup_deallocate" "allocator ?view setup_allocate dealloc"
    using al by (auto simp: allocator_def setup_allocate_def setup_deallocate_def keeps_clear_def write_memory_def split: if_splits)
  from call_ffi_fn_runs [where hook = "setup_hook setup_cfg" and st = st, OF this A, of R debug "()"] R got
  show ?thesis
    by (auto simp: host_setup_def guest_setup_def setup_hook_def split: if_splits sum.splits)
qed

text \<open>
  Claim C32. A hook that the host calls across the boundary is the hook: with a working allocator and an
  encoding that decodes, in a debug as in a release build, and a guest set up with the configuration
  \<open>c\<close>, the call gives exactly the result of the hook on these arguments under \<open>c\<close> and what it
  leaves in its \<^verbatim>\<open>&mut\<close> arguments, and the guest keeps its configuration; or it fails with a trap of the
  allocator or the deallocator, and then the \<^verbatim>\<open>&mut\<close> arguments are as before. It never panics.
\<close>

theorem hook_call_transparent:
  fixes st :: "('c, 'x) Guest Store"
  assumes al: "allocator (\<lambda>st. kannader_cfg (st_guest st)) allocate dealloc"
    and set_up: "kannader_cfg (st_guest st) = Some c" and A: "encodes A arg" and R: "encodes R (f c arg)"
  shows "\<exists>st' muts' res. call_ffi_fn debug A R allocate (run_ffi_fn debug A R allocate dealloc (configured_hook f)) dealloc arg muts st =
      Returned (st', muts', res) \<and>
    (case res of
       Inr r \<Rightarrow> (r, muts') = f c arg \<and> kannader_cfg (st_guest st') = Some c
     | Inl e \<Rightarrow> muts' = muts \<and> (\<exists>t. e \<in> {Allocating_Arg t, Running_Wasm t, Deallocating_Ret t} \<and>
         trapped allocate dealloc t))"
proof -
  have hook: "configured_hook f arg s = (s, Inr (f c arg))" if "kannader_cfg (st_guest s) = kannader_cfg (st_guest st)" for s :: "('c, 'x) Guest Store"
    using that set_up by (simp add: configured_hook_def)
  with R have "\<forall>(s :: ('c, 'x) Guest Store) s' res. kannader_cfg (st_guest s) = kannader_cfg (st_guest st) \<longrightarrow>
      configured_hook f arg s = (s', Inr res) \<longrightarrow> encodes R res" by (metis Pair_inject sum.inject(2))
  from call_ffi_fn_runs [where hook = "configured_hook f" and st = st, OF al al A this, of debug muts]
  obtain st' muts' res where ran: "call_ffi_fn debug A R allocate (run_ffi_fn debug A R allocate dealloc (configured_hook f)) dealloc arg muts st =
      Returned (st', muts', res)"
    "case res of
       Inr r \<Rightarrow> \<exists>(s :: ('c, 'x) Guest Store) s'. kannader_cfg (st_guest s) = kannader_cfg (st_guest st) \<and> configured_hook f arg s = (s', Inr (r, muts')) \<and>
         kannader_cfg (st_guest st') = kannader_cfg (st_guest s')
     | Inl e \<Rightarrow> muts' = muts \<and> (\<exists>t. e \<in> {Allocating_Arg t, Running_Wasm t, Deallocating_Ret t} \<and>
         (trapped allocate dealloc t \<or> trapped allocate dealloc t \<or>
          (\<exists>(s :: ('c, 'x) Guest Store) s'. kannader_cfg (st_guest s) = kannader_cfg (st_guest st) \<and> configured_hook f arg s = (s', Inl t))))"
    by blast
  show ?thesis
  proof (cases res)
    case (Inl e)
    with ran hook show ?thesis by auto
  next
    case (Inr r)
    with ran hook set_up show ?thesis by (auto dest!: hook)
  qed
qed

section \<open>A module that echoes its argument\<close>

definition plain_code :: "(bytes, unit) Bincode" where
  "plain_code = \<lparr>bc_serialized_size = (\<lambda>x. Inr (of_nat (length x))), 
     bc_serialize = (\<lambda>x. if length x < 2 ^ 64 then Inr x else Inl ()), bc_deserialize = Inr\<rparr>"

definition result_code :: "(bytes \<times> unit, unit) Bincode" where
  "result_code = \<lparr>bc_serialized_size = (\<lambda>x. Inr (of_nat (length (fst x)))), bc_serialize = (\<lambda>x. Inr (fst x)),
     bc_deserialize = (\<lambda>bs. Inr (bs, ()))\<rparr>"

definition low_allocate :: "32 word \<Rightarrow> ((bytes, unit) Guest, 32 word) wasm_call" where
  "low_allocate n st = (st\<lparr>st_memory := st_memory st @ replicate (unat n) (CHR 0x00)\<rparr>, Inr 0)"

definition low_deallocate :: "32 word \<Rightarrow> 32 word \<Rightarrow> ((bytes, unit) Guest, unit) wasm_call" where
  "low_deallocate p n st = (st, Inr ())"

definition echo :: "bytes \<Rightarrow> bytes \<Rightarrow> bytes \<times> unit" where
  "echo c x = (c @ x, ())"

lemma low_allocator: "allocator (\<lambda>st. kannader_cfg (st_guest st)) low_allocate low_deallocate"
  by (auto simp: allocator_def low_allocate_def low_deallocate_def keeps_clear_def write_memory_def split: if_splits)

lemma encodes_plain: "length x < 2 ^ 32 \<Longrightarrow> encodes plain_code x" "length x < 2 ^ 32 \<Longrightarrow> encodes result_code (x, u)"
  by (auto simp: encodes_def plain_code_def result_code_def)

definition blank_store :: "(bytes, unit) Guest Store" where
  "blank_store = \<lparr>st_memory = [], st_guest = \<lparr>kannader_cfg = Some ''to '', guest_rest = ()\<rparr>\<rparr>"

lemma hook_call_transparent_witness:
  "\<exists>st'. call_ffi_fn True plain_code result_code low_allocate
      (run_ffi_fn True plain_code result_code low_allocate low_deallocate (configured_hook echo)) low_deallocate
      ''postmaster'' () blank_store = Returned (st', (), Inr ''to postmaster'') \<and> kannader_cfg (st_guest st') = Some ''to ''"
proof -
  have c: "kannader_cfg (st_guest blank_store) = Some ''to ''" by (simp add: blank_store_def)
  have A: "encodes plain_code ''postmaster''" by (rule encodes_plain) simp
  have R: "encodes result_code (echo ''to '' ''postmaster'')" unfolding echo_def by (rule encodes_plain) simp
  from hook_call_transparent [where f = echo, OF low_allocator c A R, where debug = True and muts = "()"]
  show ?thesis by (fastforce simp: echo_def trapped_def low_allocate_def low_deallocate_def split: sum.splits)
qed

text \<open>The same host, with a module that answers with a block at the end of the address space.\<close>

lemma host_call_safe_witness:
  "call_ffi_fn False plain_code result_code low_allocate (\<lambda>p n st. (st, Inr (pack 8 0xFFFFFFFF))) low_deallocate
      ''postmaster'' () blank_store \<noteq> Undefined_Behaviour"
proof -
  have "sized plain_code"
    by (auto simp: sized_def plain_code_def unsigned_of_nat take_bit_nat_eq_self split: if_splits)
  from host_call_safe [OF this, where debug = False and R = result_code and allocate = low_allocate and
      wasm_fun = "\<lambda>p n st. (st, Inr (pack 8 0xFFFFFFFF))" and dealloc = low_deallocate and arg = "''postmaster''" and muts = "()"
      and st = "blank_store"]
  show ?thesis by (auto split: host_run.splits)
qed

end
