(* ===== verification/Hooks.thy ===== *)
theory Hooks
  imports Kannader Ffi
begin

text \<open>
  The hooks of the configuration blob: the traits with their provided methods
  (\<^verbatim>\<open>kannader-config-macros\<close>), the blob \<^verbatim>\<open>kannader-config-forwarder\<close>, and what the program makes of the
  answers (\<^verbatim>\<open>server_config.rs\<close>), down to the configuration of the SMTP server. A hook is a function of
  the configuration and its arguments that returns the result and its \<^verbatim>\<open>&mut\<close> arguments; the
  theory \<^verbatim>\<open>Ffi\<close> shows that the call across the boundary gives just that, or fails.
\<close>

type_synonym conn_meta = "bytes ConnectionMetadata"
type_synonym mail_meta = "bytes MailMetadata"

section \<open>The traits\<close>

type_synonym ('c, 'd) conn_hook = "'c \<Rightarrow> conn_meta \<Rightarrow> 'd \<times> conn_meta"

record 'c ServerHooks =
  sh_welcome_banner_reply :: "('c, bytes Reply) conn_hook"
  sh_filter_hello :: "'c \<Rightarrow> bool \<Rightarrow> bytes Hostname \<Rightarrow> conn_meta \<Rightarrow> HelloInfo SerializableDecision \<times> conn_meta"
  sh_can_do_tls :: "'c \<Rightarrow> conn_meta \<Rightarrow> bool"
  sh_new_mail :: "('c, bytes) conn_hook"
  sh_filter_from :: "'c \<Rightarrow> bytes Email option \<Rightarrow> mail_meta \<Rightarrow> conn_meta \<Rightarrow>
     bytes Email option SerializableDecision \<times> mail_meta \<times> conn_meta"
  sh_filter_to :: "'c \<Rightarrow> bytes Email \<Rightarrow> mail_meta \<Rightarrow> conn_meta \<Rightarrow>
     bytes Email SerializableDecision \<times> mail_meta \<times> conn_meta"
  sh_filter_data :: "'c \<Rightarrow> mail_meta \<Rightarrow> conn_meta \<Rightarrow> unit SerializableDecision \<times> mail_meta \<times> conn_meta"
  sh_handle_rset :: "'c \<Rightarrow> mail_meta option \<Rightarrow> conn_meta \<Rightarrow> unit SerializableDecision \<times> mail_meta option \<times> conn_meta"
  sh_handle_starttls :: "('c, unit SerializableDecision) conn_hook"
  sh_handle_expn :: "'c \<Rightarrow> bytes MaybeUtf8 \<Rightarrow> conn_meta \<Rightarrow> unit SerializableDecision \<times> conn_meta"
  sh_handle_vrfy :: "'c \<Rightarrow> bytes MaybeUtf8 \<Rightarrow> conn_meta \<Rightarrow> unit SerializableDecision \<times> conn_meta"
  sh_handle_help :: "'c \<Rightarrow> bytes MaybeUtf8 \<Rightarrow> conn_meta \<Rightarrow> unit SerializableDecision \<times> conn_meta"
  sh_handle_noop :: "'c \<Rightarrow> bytes MaybeUtf8 \<Rightarrow> conn_meta \<Rightarrow> unit SerializableDecision \<times> conn_meta"
  sh_handle_quit :: "('c, unit SerializableDecision) conn_hook"
  sh_already_did_hello :: "('c, bytes Reply) conn_hook"
  sh_mail_before_hello :: "('c, bytes Reply) conn_hook"
  sh_already_in_mail :: "('c, bytes Reply) conn_hook"
  sh_rcpt_before_mail :: "('c, bytes Reply) conn_hook"
  sh_data_before_rcpt :: "('c, bytes Reply) conn_hook"
  sh_data_before_mail :: "('c, bytes Reply) conn_hook"
  sh_starttls_unsupported :: "('c, bytes Reply) conn_hook"
  sh_command_unrecognized :: "('c, bytes Reply) conn_hook"
  sh_pipeline_forbidden_after_starttls :: "('c, bytes Reply) conn_hook"
  sh_line_too_long :: "('c, bytes Reply) conn_hook"
  sh_handle_mail_did_not_call_complete :: "('c, bytes Reply) conn_hook"

text \<open>The provided methods of \<^verbatim>\<open>ServerConfig\<close>.\<close>

definition hook_can_do_tls :: "'c \<Rightarrow> conn_meta \<Rightarrow> bool" where
  "hook_can_do_tls cfg conn_meta \<longleftrightarrow> \<not> cm_is_encrypted conn_meta \<and>
     (case map_option hi_is_extended (cm_hello conn_meta) of Some ext \<Rightarrow> ext | None \<Rightarrow> False)"

definition hook_filter_data :: "'c \<Rightarrow> mail_meta \<Rightarrow> conn_meta \<Rightarrow> unit SerializableDecision \<times> mail_meta \<times> conn_meta" where
  "hook_filter_data cfg meta conn_meta = (Ser_Accept okay_data (), meta, conn_meta)"

definition hook_handle_rset ::
  "'c \<Rightarrow> mail_meta option \<Rightarrow> conn_meta \<Rightarrow> unit SerializableDecision \<times> mail_meta option \<times> conn_meta" where
  "hook_handle_rset cfg meta conn_meta = (Ser_Accept okay_rset (), meta, conn_meta)"

definition hook_handle_starttls :: "('c \<Rightarrow> conn_meta \<Rightarrow> bool) \<Rightarrow> ('c, unit SerializableDecision) conn_hook" where
  "hook_handle_starttls can_do_tls cfg conn_meta =
     (if can_do_tls cfg conn_meta then Ser_Accept okay_starttls () else Ser_Reject command_not_supported, conn_meta)"

definition hook_handle_expn :: "'c \<Rightarrow> bytes MaybeUtf8 \<Rightarrow> conn_meta \<Rightarrow> unit SerializableDecision \<times> conn_meta" where
  "hook_handle_expn cfg name conn_meta = (Ser_Reject command_unimplemented, conn_meta)"

definition hook_handle_vrfy :: "'c \<Rightarrow> bytes MaybeUtf8 \<Rightarrow> conn_meta \<Rightarrow> unit SerializableDecision \<times> conn_meta" where
  "hook_handle_vrfy cfg name conn_meta = (Ser_Accept ignore_vrfy (), conn_meta)"

definition hook_handle_help :: "'c \<Rightarrow> bytes MaybeUtf8 \<Rightarrow> conn_meta \<Rightarrow> unit SerializableDecision \<times> conn_meta" where
  "hook_handle_help cfg subject conn_meta = (Ser_Accept ignore_help (), conn_meta)"

definition hook_handle_noop :: "'c \<Rightarrow> bytes MaybeUtf8 \<Rightarrow> conn_meta \<Rightarrow> unit SerializableDecision \<times> conn_meta" where
  "hook_handle_noop cfg string conn_meta = (Ser_Accept okay_noop (), conn_meta)"

definition hook_handle_quit :: "('c, unit SerializableDecision) conn_hook" where
  "hook_handle_quit cfg conn_meta = (Ser_Kill (Some okay_quit) (Inr ()), conn_meta)"

definition hook_reply :: "bytes Reply \<Rightarrow> ('c, bytes Reply) conn_hook" where
  "hook_reply reply cfg conn_meta = (reply, conn_meta)"

text \<open>A blob that defines the required methods and overrides nothing.\<close>

definition provided_hooks ::
  "('c, bytes Reply) conn_hook \<Rightarrow>
   ('c \<Rightarrow> bool \<Rightarrow> bytes Hostname \<Rightarrow> conn_meta \<Rightarrow> HelloInfo SerializableDecision \<times> conn_meta) \<Rightarrow>
   ('c, bytes) conn_hook \<Rightarrow>
   ('c \<Rightarrow> bytes Email option \<Rightarrow> mail_meta \<Rightarrow> conn_meta \<Rightarrow> bytes Email option SerializableDecision \<times> mail_meta \<times> conn_meta) \<Rightarrow>
   ('c \<Rightarrow> bytes Email \<Rightarrow> mail_meta \<Rightarrow> conn_meta \<Rightarrow> bytes Email SerializableDecision \<times> mail_meta \<times> conn_meta) \<Rightarrow> 'c ServerHooks" where
  "provided_hooks welcome filter_hello new_mail filter_from filter_to =
     \<lparr>sh_welcome_banner_reply = welcome,
      sh_filter_hello = filter_hello,
      sh_can_do_tls = hook_can_do_tls,
      sh_new_mail = new_mail,
      sh_filter_from = filter_from,
      sh_filter_to = filter_to,
      sh_filter_data = hook_filter_data,
      sh_handle_rset = hook_handle_rset,
      sh_handle_starttls = hook_handle_starttls hook_can_do_tls,
      sh_handle_expn = hook_handle_expn,
      sh_handle_vrfy = hook_handle_vrfy,
      sh_handle_help = hook_handle_help,
      sh_handle_noop = hook_handle_noop,
      sh_handle_quit = hook_handle_quit,
      sh_already_did_hello = hook_reply bad_sequence,
      sh_mail_before_hello = hook_reply bad_sequence,
      sh_already_in_mail = hook_reply bad_sequence,
      sh_rcpt_before_mail = hook_reply bad_sequence,
      sh_data_before_rcpt = hook_reply bad_sequence,
      sh_data_before_mail = hook_reply bad_sequence,
      sh_starttls_unsupported = hook_reply command_not_supported,
      sh_command_unrecognized = hook_reply command_unrecognized,
      sh_pipeline_forbidden_after_starttls = hook_reply pipeline_forbidden_after_starttls,
      sh_line_too_long = hook_reply line_too_long,
      sh_handle_mail_did_not_call_complete = hook_reply handle_mail_did_not_call_complete\<rparr>"

text \<open>The provided methods of \<^verbatim>\<open>ClientConfig\<close> and \<^verbatim>\<open>QueueConfig\<close> that are more than a log line or a timeout.\<close>

definition hook_client_can_do_tls :: "'c \<Rightarrow> bool" where "hook_client_can_do_tls cfg = True"
definition hook_client_must_do_tls :: "'c \<Rightarrow> bool" where "hook_client_must_do_tls cfg = False"

definition hook_found_inflight_check_delay :: "'c \<Rightarrow> duration" where
  "hook_found_inflight_check_delay cfg = from_secs 3600"

definition hook_io_error_next_retry_delay :: "'c \<Rightarrow> duration \<Rightarrow> duration run" where
  "hook_io_error_next_retry_delay cfg d =
     (if d < from_secs 30 then Value (from_secs 60)
      else if d * 2 \<le> max_duration then Value (d * 2) else Panic)"

section \<open>The forwarder\<close>

record ForwarderConfig =
  fc_queue_path :: string
  fc_cert_path :: string
  fc_key_path :: string

definition forwarder_ehlo_hostname :: "nom \<Rightarrow> 'q lexers \<Rightarrow> ForwarderConfig \<Rightarrow> bytes Hostname run" where
  "forwarder_ehlo_hostname N X cfg =
     (case hostname_parse N X ''localhost'' of Inr (_, PHostname h) \<Rightarrow> Value h | _ \<Rightarrow> Panic)"

definition forwarder_next_interval :: "ForwarderConfig \<Rightarrow> ScheduleInfo \<Rightarrow> duration option" where
  "forwarder_next_interval cfg schedule = None"

definition forwarder_welcome_banner_reply :: "(ForwarderConfig, bytes Reply) conn_hook" where
  "forwarder_welcome_banner_reply cfg conn_meta = (welcome_banner ''localhost'' ''Service ready'', conn_meta)"

definition forwarder_filter_hello ::
  "ForwarderConfig \<Rightarrow> bool \<Rightarrow> bytes Hostname \<Rightarrow> conn_meta \<Rightarrow> HelloInfo SerializableDecision \<times> conn_meta" where
  "forwarder_filter_hello cfg is_extended hostname conn_meta =
     (let cm = conn_meta\<lparr>cm_hello := Some \<lparr>hi_is_extended = is_extended, hi_hostname = hostname\<rparr>\<rparr>
      in (Ser_Accept (okay_hello is_extended ''localhost'' [] (hook_can_do_tls cfg cm))
            \<lparr>hi_is_extended = is_extended, hi_hostname = hostname\<rparr>, conn_meta))"

definition forwarder_new_mail :: "(ForwarderConfig, bytes) conn_hook" where
  "forwarder_new_mail cfg conn_meta = ([], conn_meta)"

definition forwarder_filter_from ::
  "ForwarderConfig \<Rightarrow> bytes Email option \<Rightarrow> mail_meta \<Rightarrow> conn_meta \<Rightarrow>
     bytes Email option SerializableDecision \<times> mail_meta \<times> conn_meta" where
  "forwarder_filter_from cfg sender meta conn_meta = (Ser_Accept okay_from sender, meta, conn_meta)"

definition forwarder_filter_to ::
  "ForwarderConfig \<Rightarrow> bytes Email \<Rightarrow> mail_meta \<Rightarrow> conn_meta \<Rightarrow> bytes Email SerializableDecision \<times> mail_meta \<times> conn_meta" where
  "forwarder_filter_to cfg rcpt meta conn_meta = (Ser_Accept okay_to rcpt, meta, conn_meta)"

definition forwarder_hooks :: "ForwarderConfig ServerHooks" where
  "forwarder_hooks =
     provided_hooks forwarder_welcome_banner_reply forwarder_filter_hello forwarder_new_mail forwarder_filter_from forwarder_filter_to"

section \<open>The program's side\<close>

text \<open>
  \<^verbatim>\<open>WasmFuncs\<close>: the hooks as the host calls them. A call gives its \<^verbatim>\<open>&mut\<close> arguments as they are
  afterwards and the result or an error.
\<close>

type_synonym ('e, 'm, 'r) called = "'m \<times> ('e + 'r)"

record 'e WasmFuncs =
  wf_welcome_banner_reply :: "conn_meta \<Rightarrow> ('e, conn_meta, bytes Reply) called"
  wf_filter_hello :: "bool \<Rightarrow> bytes Hostname \<Rightarrow> conn_meta \<Rightarrow> ('e, conn_meta, HelloInfo SerializableDecision) called"
  wf_can_do_tls :: "conn_meta \<Rightarrow> 'e + bool"
  wf_new_mail :: "conn_meta \<Rightarrow> ('e, conn_meta, bytes) called"
  wf_filter_from :: "bytes Email option \<Rightarrow> mail_meta \<Rightarrow> conn_meta \<Rightarrow>
     ('e, mail_meta \<times> conn_meta, bytes Email option SerializableDecision) called"
  wf_filter_to :: "bytes Email \<Rightarrow> mail_meta \<Rightarrow> conn_meta \<Rightarrow> ('e, mail_meta \<times> conn_meta, bytes Email SerializableDecision) called"
  wf_filter_data :: "mail_meta \<Rightarrow> conn_meta \<Rightarrow> ('e, mail_meta \<times> conn_meta, unit SerializableDecision) called"
  wf_handle_rset :: "mail_meta option \<Rightarrow> conn_meta \<Rightarrow> ('e, mail_meta option \<times> conn_meta, unit SerializableDecision) called"
  wf_handle_starttls :: "conn_meta \<Rightarrow> ('e, conn_meta, unit SerializableDecision) called"
  wf_handle_expn :: "bytes MaybeUtf8 \<Rightarrow> conn_meta \<Rightarrow> ('e, conn_meta, unit SerializableDecision) called"
  wf_handle_vrfy :: "bytes MaybeUtf8 \<Rightarrow> conn_meta \<Rightarrow> ('e, conn_meta, unit SerializableDecision) called"
  wf_handle_help :: "bytes MaybeUtf8 \<Rightarrow> conn_meta \<Rightarrow> ('e, conn_meta, unit SerializableDecision) called"
  wf_handle_noop :: "bytes MaybeUtf8 \<Rightarrow> conn_meta \<Rightarrow> ('e, conn_meta, unit SerializableDecision) called"
  wf_handle_quit :: "conn_meta \<Rightarrow> ('e, conn_meta, unit SerializableDecision) called"
  wf_already_did_hello :: "conn_meta \<Rightarrow> ('e, conn_meta, bytes Reply) called"
  wf_mail_before_hello :: "conn_meta \<Rightarrow> ('e, conn_meta, bytes Reply) called"
  wf_already_in_mail :: "conn_meta \<Rightarrow> ('e, conn_meta, bytes Reply) called"
  wf_rcpt_before_mail :: "conn_meta \<Rightarrow> ('e, conn_meta, bytes Reply) called"
  wf_data_before_rcpt :: "conn_meta \<Rightarrow> ('e, conn_meta, bytes Reply) called"
  wf_data_before_mail :: "conn_meta \<Rightarrow> ('e, conn_meta, bytes Reply) called"
  wf_starttls_unsupported :: "conn_meta \<Rightarrow> ('e, conn_meta, bytes Reply) called"
  wf_command_unrecognized :: "conn_meta \<Rightarrow> ('e, conn_meta, bytes Reply) called"
  wf_pipeline_forbidden_after_starttls :: "conn_meta \<Rightarrow> ('e, conn_meta, bytes Reply) called"
  wf_line_too_long :: "conn_meta \<Rightarrow> ('e, conn_meta, bytes Reply) called"
  wf_handle_mail_did_not_call_complete :: "conn_meta \<Rightarrow> ('e, conn_meta, bytes Reply) called"

text \<open>\<^verbatim>\<open>run_hook!\<close> of \<^verbatim>\<open>server_config.rs\<close>, for decisions and with a reply to fall back to.\<close>

definition run_decision_hook :: "('e, 'm, 'd SerializableDecision) called \<Rightarrow> 'm \<times> 'd Decision" where
  "run_decision_hook call =
     (case call of (muts, Inr d) \<Rightarrow> (muts, decision_from d) | (muts, Inl e) \<Rightarrow> (muts, Reject internal_server_error))"

definition run_reply_hook :: "('e, 'm, bytes Reply) called \<Rightarrow> bytes Reply \<Rightarrow> 'm \<times> bytes Reply" where
  "run_reply_hook call fallback = (case call of (muts, Inr r) \<Rightarrow> (muts, r) | (muts, Inl e) \<Rightarrow> (muts, fallback))"

definition server_welcome_banner_reply :: "'e WasmFuncs \<Rightarrow> conn_meta \<Rightarrow> conn_meta \<times> bytes Reply" where
  "server_welcome_banner_reply f conn_meta = run_reply_hook (wf_welcome_banner_reply f conn_meta) internal_server_error"

definition server_filter_hello ::
  "'e WasmFuncs \<Rightarrow> bool \<Rightarrow> bytes Hostname \<Rightarrow> 'w \<Rightarrow> conn_meta \<Rightarrow> 'w \<times> conn_meta \<times> HelloInfo Decision" where
  "server_filter_hello f is_extended hostname w conn_meta = (w, run_decision_hook (wf_filter_hello f is_extended hostname conn_meta))"

definition server_can_do_tls :: "'e WasmFuncs \<Rightarrow> conn_meta \<Rightarrow> bool run" where
  "server_can_do_tls f conn_meta = run_hook (wf_can_do_tls f conn_meta) Panic"

definition server_new_mail :: "'e WasmFuncs \<Rightarrow> conn_meta \<Rightarrow> (conn_meta \<times> bytes) run" where
  "server_new_mail f conn_meta =
     (case wf_new_mail f conn_meta of (conn_meta, res) \<Rightarrow> bind_run (run_hook res Panic) (\<lambda>user. Value (conn_meta, user)))"

definition server_filter_from ::
  "'e WasmFuncs \<Rightarrow> bytes Email option \<Rightarrow> 'w \<Rightarrow> mail_meta \<Rightarrow> conn_meta \<Rightarrow> 'w \<times> mail_meta \<times> conn_meta \<times> bytes Email option Decision" where
  "server_filter_from f sender w meta conn_meta =
     (case run_decision_hook (wf_filter_from f sender meta conn_meta) of ((meta, conn_meta), d) \<Rightarrow> (w, meta, conn_meta, d))"

definition server_filter_to ::
  "'e WasmFuncs \<Rightarrow> bytes Email \<Rightarrow> 'w \<Rightarrow> mail_meta \<Rightarrow> conn_meta \<Rightarrow> 'w \<times> mail_meta \<times> conn_meta \<times> bytes Email Decision" where
  "server_filter_to f rcpt w meta conn_meta =
     (case run_decision_hook (wf_filter_to f rcpt meta conn_meta) of ((meta, conn_meta), d) \<Rightarrow> (w, meta, conn_meta, d))"

definition server_filter_data ::
  "'e WasmFuncs \<Rightarrow> 'w \<Rightarrow> mail_meta \<Rightarrow> conn_meta \<Rightarrow> 'w \<times> mail_meta \<times> conn_meta \<times> unit Decision" where
  "server_filter_data f w meta conn_meta =
     (case run_decision_hook (wf_filter_data f meta conn_meta) of ((meta, conn_meta), d) \<Rightarrow> (w, meta, conn_meta, d))"

definition server_handle_rset ::
  "'e WasmFuncs \<Rightarrow> 'w \<Rightarrow> mail_meta option \<Rightarrow> conn_meta \<Rightarrow> 'w \<times> mail_meta option \<times> conn_meta \<times> unit Decision" where
  "server_handle_rset f w meta conn_meta =
     (case run_decision_hook (wf_handle_rset f meta conn_meta) of ((meta, conn_meta), d) \<Rightarrow> (w, meta, conn_meta, d))"

definition server_handle_starttls :: "'e WasmFuncs \<Rightarrow> ('w, bytes) simple_handler" where
  "server_handle_starttls f w conn_meta = (w, run_decision_hook (wf_handle_starttls f conn_meta))"

definition server_handle_expn :: "'e WasmFuncs \<Rightarrow> bytes MaybeUtf8 \<Rightarrow> ('w, bytes) simple_handler" where
  "server_handle_expn f arg w conn_meta = (w, run_decision_hook (wf_handle_expn f arg conn_meta))"

definition server_handle_vrfy :: "'e WasmFuncs \<Rightarrow> bytes MaybeUtf8 \<Rightarrow> ('w, bytes) simple_handler" where
  "server_handle_vrfy f arg w conn_meta = (w, run_decision_hook (wf_handle_vrfy f arg conn_meta))"

definition server_handle_help :: "'e WasmFuncs \<Rightarrow> bytes MaybeUtf8 \<Rightarrow> ('w, bytes) simple_handler" where
  "server_handle_help f arg w conn_meta = (w, run_decision_hook (wf_handle_help f arg conn_meta))"

definition server_handle_noop :: "'e WasmFuncs \<Rightarrow> bytes MaybeUtf8 \<Rightarrow> ('w, bytes) simple_handler" where
  "server_handle_noop f arg w conn_meta = (w, run_decision_hook (wf_handle_noop f arg conn_meta))"

definition server_handle_quit :: "'e WasmFuncs \<Rightarrow> ('w, bytes) simple_handler" where
  "server_handle_quit f w conn_meta = (w, run_decision_hook (wf_handle_quit f conn_meta))"

definition server_already_did_hello :: "'e WasmFuncs \<Rightarrow> bytes refusal" where
  "server_already_did_hello f conn_meta = run_reply_hook (wf_already_did_hello f conn_meta) bad_sequence"

definition server_mail_before_hello :: "'e WasmFuncs \<Rightarrow> bytes refusal" where
  "server_mail_before_hello f conn_meta = run_reply_hook (wf_mail_before_hello f conn_meta) bad_sequence"

definition server_already_in_mail :: "'e WasmFuncs \<Rightarrow> bytes refusal" where
  "server_already_in_mail f conn_meta = run_reply_hook (wf_already_in_mail f conn_meta) bad_sequence"

definition server_rcpt_before_mail :: "'e WasmFuncs \<Rightarrow> bytes refusal" where
  "server_rcpt_before_mail f conn_meta = run_reply_hook (wf_rcpt_before_mail f conn_meta) bad_sequence"

definition server_data_before_rcpt :: "'e WasmFuncs \<Rightarrow> bytes refusal" where
  "server_data_before_rcpt f conn_meta = run_reply_hook (wf_data_before_rcpt f conn_meta) bad_sequence"

definition server_data_before_mail :: "'e WasmFuncs \<Rightarrow> bytes refusal" where
  "server_data_before_mail f conn_meta = run_reply_hook (wf_data_before_mail f conn_meta) bad_sequence"

definition server_starttls_unsupported :: "'e WasmFuncs \<Rightarrow> bytes refusal" where
  "server_starttls_unsupported f conn_meta = run_reply_hook (wf_starttls_unsupported f conn_meta) command_not_supported"

definition server_command_unrecognized :: "'e WasmFuncs \<Rightarrow> bytes refusal" where
  "server_command_unrecognized f conn_meta = run_reply_hook (wf_command_unrecognized f conn_meta) command_unrecognized"

definition server_pipeline_forbidden_after_starttls :: "'e WasmFuncs \<Rightarrow> bytes refusal" where
  "server_pipeline_forbidden_after_starttls f conn_meta = run_reply_hook (wf_pipeline_forbidden_after_starttls f conn_meta) pipeline_forbidden_after_starttls"

definition server_line_too_long :: "'e WasmFuncs \<Rightarrow> bytes refusal" where
  "server_line_too_long f conn_meta = run_reply_hook (wf_line_too_long f conn_meta) line_too_long"

definition server_handle_mail_did_not_call_complete :: "'e WasmFuncs \<Rightarrow> bytes refusal" where
  "server_handle_mail_did_not_call_complete f conn_meta = run_reply_hook (wf_handle_mail_did_not_call_complete f conn_meta) handle_mail_did_not_call_complete"

text \<open>
  The configuration of the SMTP server. \<^verbatim>\<open>can_do_tls\<close> and \<^verbatim>\<open>new_mail\<close> panic when their hooks fail;
  \<open>can_do_tls\<close> and \<open>new_mail\<close> stand for what they return when they do not.
\<close>

definition kannader_config ::
  "('io \<Rightarrow> 'w \<Rightarrow> conn_meta \<Rightarrow> 'io \<times> 'w \<times> conn_meta \<times> unit io_result) \<Rightarrow>
   ('io EscapedDataReader \<Rightarrow> 'w \<Rightarrow> mail_meta \<Rightarrow> conn_meta \<Rightarrow> 'io EscapedDataReader \<times> 'w \<times> conn_meta \<times> handle_mail_return) \<Rightarrow>
   (conn_meta \<Rightarrow> bool) \<Rightarrow> (conn_meta \<Rightarrow> conn_meta \<times> bytes) \<Rightarrow> 'e WasmFuncs \<Rightarrow> ('io, 'w, bytes, bytes) Config" where
  "kannader_config tls_accept handle_mail can_do_tls new_mail f =
     \<lparr>cfg_protocol = Smtp,
      cfg_welcome_banner_reply = server_welcome_banner_reply f,
      cfg_filter_hello = server_filter_hello f,
      cfg_can_do_tls = can_do_tls,
      cfg_tls_accept = tls_accept,
      cfg_new_mail = (\<lambda>w conn_meta. (w, new_mail conn_meta)),
      cfg_filter_from = server_filter_from f,
      cfg_filter_to = server_filter_to f,
      cfg_filter_data = server_filter_data f,
      cfg_handle_mail = handle_mail,
      cfg_handle_rset = server_handle_rset f,
      cfg_handle_starttls = server_handle_starttls f,
      cfg_handle_expn = server_handle_expn f,
      cfg_handle_vrfy = server_handle_vrfy f,
      cfg_handle_help = server_handle_help f,
      cfg_handle_noop = server_handle_noop f,
      cfg_handle_quit = server_handle_quit f,
      cfg_already_did_hello = server_already_did_hello f,
      cfg_mail_before_hello = server_mail_before_hello f,
      cfg_already_in_mail = server_already_in_mail f,
      cfg_rcpt_before_mail = server_rcpt_before_mail f,
      cfg_data_before_rcpt = server_data_before_rcpt f,
      cfg_data_before_mail = server_data_before_mail f,
      cfg_starttls_unsupported = server_starttls_unsupported f,
      cfg_command_unrecognized = server_command_unrecognized f,
      cfg_pipeline_forbidden_after_starttls = server_pipeline_forbidden_after_starttls f,
      cfg_line_too_long = server_line_too_long f,
      cfg_handle_mail_did_not_call_complete = server_handle_mail_did_not_call_complete f\<rparr>"

section \<open>The blob behind the calls\<close>

text \<open>The functions of a guest with the hooks \<open>H\<close>, set up with the configuration \<open>c\<close>, when no call fails.\<close>

definition succeeded :: "'r \<times> 'm \<Rightarrow> ('e, 'm, 'r) called" where
  "succeeded answer = (snd answer, Inr (fst answer))"

definition wasm_funcs :: "'c ServerHooks \<Rightarrow> 'c \<Rightarrow> 'e WasmFuncs" where
  "wasm_funcs H c =
     \<lparr>wf_welcome_banner_reply = (\<lambda>cm. succeeded (sh_welcome_banner_reply H c cm)),
      wf_filter_hello = (\<lambda>ext host cm. succeeded (sh_filter_hello H c ext host cm)),
      wf_can_do_tls = (\<lambda>cm. Inr (sh_can_do_tls H c cm)),
      wf_new_mail = (\<lambda>cm. succeeded (sh_new_mail H c cm)),
      wf_filter_from = (\<lambda>sender meta cm. succeeded (sh_filter_from H c sender meta cm)),
      wf_filter_to = (\<lambda>rcpt meta cm. succeeded (sh_filter_to H c rcpt meta cm)),
      wf_filter_data = (\<lambda>meta cm. succeeded (sh_filter_data H c meta cm)),
      wf_handle_rset = (\<lambda>meta cm. succeeded (sh_handle_rset H c meta cm)),
      wf_handle_starttls = (\<lambda>cm. succeeded (sh_handle_starttls H c cm)),
      wf_handle_expn = (\<lambda>arg cm. succeeded (sh_handle_expn H c arg cm)),
      wf_handle_vrfy = (\<lambda>arg cm. succeeded (sh_handle_vrfy H c arg cm)),
      wf_handle_help = (\<lambda>arg cm. succeeded (sh_handle_help H c arg cm)),
      wf_handle_noop = (\<lambda>arg cm. succeeded (sh_handle_noop H c arg cm)),
      wf_handle_quit = (\<lambda>cm. succeeded (sh_handle_quit H c cm)),
      wf_already_did_hello = (\<lambda>cm. succeeded (sh_already_did_hello H c cm)),
      wf_mail_before_hello = (\<lambda>cm. succeeded (sh_mail_before_hello H c cm)),
      wf_already_in_mail = (\<lambda>cm. succeeded (sh_already_in_mail H c cm)),
      wf_rcpt_before_mail = (\<lambda>cm. succeeded (sh_rcpt_before_mail H c cm)),
      wf_data_before_rcpt = (\<lambda>cm. succeeded (sh_data_before_rcpt H c cm)),
      wf_data_before_mail = (\<lambda>cm. succeeded (sh_data_before_mail H c cm)),
      wf_starttls_unsupported = (\<lambda>cm. succeeded (sh_starttls_unsupported H c cm)),
      wf_command_unrecognized = (\<lambda>cm. succeeded (sh_command_unrecognized H c cm)),
      wf_pipeline_forbidden_after_starttls = (\<lambda>cm. succeeded (sh_pipeline_forbidden_after_starttls H c cm)),
      wf_line_too_long = (\<lambda>cm. succeeded (sh_line_too_long H c cm)),
      wf_handle_mail_did_not_call_complete = (\<lambda>cm. succeeded (sh_handle_mail_did_not_call_complete H c cm))\<rparr>"

definition forwarder_config ::
  "('io \<Rightarrow> 'w \<Rightarrow> conn_meta \<Rightarrow> 'io \<times> 'w \<times> conn_meta \<times> unit io_result) \<Rightarrow>
   ('io EscapedDataReader \<Rightarrow> 'w \<Rightarrow> mail_meta \<Rightarrow> conn_meta \<Rightarrow> 'io EscapedDataReader \<times> 'w \<times> conn_meta \<times> handle_mail_return) \<Rightarrow>
   ForwarderConfig \<Rightarrow> ('io, 'w, bytes, bytes) Config" where
  "forwarder_config tls_accept handle_mail c =
     kannader_config tls_accept handle_mail (hook_can_do_tls c) (\<lambda>cm. prod.swap (forwarder_new_mail c cm)) (wasm_funcs forwarder_hooks c :: unit FfiError WasmFuncs)"

section \<open>The forwarder as a server\<close>

lemmas hook_defs = hook_can_do_tls_def hook_filter_data_def hook_handle_rset_def hook_handle_starttls_def hook_handle_expn_def
  hook_handle_vrfy_def hook_handle_help_def hook_handle_noop_def hook_handle_quit_def hook_reply_def forwarder_welcome_banner_reply_def
  forwarder_filter_hello_def forwarder_new_mail_def forwarder_filter_from_def forwarder_filter_to_def forwarder_hooks_def provided_hooks_def

lemmas server_method_defs = server_welcome_banner_reply_def server_filter_hello_def server_filter_from_def server_filter_to_def
  server_filter_data_def server_handle_rset_def server_handle_starttls_def server_handle_expn_def server_handle_vrfy_def
  server_handle_help_def server_handle_noop_def server_handle_quit_def server_already_did_hello_def server_mail_before_hello_def
  server_already_in_mail_def server_rcpt_before_mail_def server_data_before_rcpt_def server_data_before_mail_def
  server_starttls_unsupported_def server_command_unrecognized_def server_pipeline_forbidden_after_starttls_def server_line_too_long_def
  server_handle_mail_did_not_call_complete_def run_decision_hook_def run_reply_hook_def succeeded_def wasm_funcs_def

lemmas default_method_defs = default_welcome_banner_def default_welcome_banner_reply_def default_can_do_tls_def default_filter_data_def
  default_handle_rset_def default_handle_starttls_def default_handle_expn_def default_handle_vrfy_def default_handle_help_def
  default_handle_noop_def default_handle_quit_def default_refusal_def

text \<open>
  A configuration that overrides nothing but the filters, which accept everyone. The forwarder differs in one
  method: it leaves the greeting out of the metadata, where the provided \<^verbatim>\<open>filter_hello\<close> writes it.
\<close>

definition open_config ::
  "('io \<Rightarrow> 'w \<Rightarrow> conn_meta \<Rightarrow> 'io \<times> 'w \<times> conn_meta \<times> unit io_result) \<Rightarrow>
   ('io EscapedDataReader \<Rightarrow> 'w \<Rightarrow> mail_meta \<Rightarrow> conn_meta \<Rightarrow> 'io EscapedDataReader \<times> 'w \<times> conn_meta \<times> handle_mail_return) \<Rightarrow>
   ('io, 'w, bytes, bytes) Config" where
  "open_config tls_accept handle_mail =
     default_config Smtp ''localhost'' tls_accept (\<lambda>w cm. (w, cm, [])) (\<lambda>sender w meta cm. (w, meta, cm, Accept okay_from sender))
       (\<lambda>rcpt w meta cm. (w, meta, cm, Accept okay_to rcpt)) handle_mail"

lemma forwarder_overrides:
  "forwarder_config ta hm c = (open_config ta hm)\<lparr>cfg_filter_hello := server_filter_hello (wasm_funcs forwarder_hooks c :: unit FfiError WasmFuncs)\<rparr>"
  by (simp add: forwarder_config_def open_config_def kannader_config_def default_config_def fun_eq_iff server_method_defs hook_defs
      default_method_defs split: option.splits)

lemma forwarder_hello: "handle_hello env (forwarder_config ta hm c) p ext host s = handle_hello env (open_config ta hm) p ext host s"
  by (auto simp: forwarder_overrides handle_hello_def open_config_def default_config_def default_filter_hello_def server_filter_hello_def
      run_decision_hook_def succeeded_def wasm_funcs_def hook_defs dispatch_decision_def Let_def default_hello_banner_def default_can_do_tls_def
      split: option.splits)

text \<open>Everything else reads only fields in which the two configurations agree.\<close>

lemma filter_hello_elsewhere:
  "next_command parse env (cfg\<lparr>cfg_filter_hello := g\<rparr>) s = next_command parse env cfg s"
  "handle_mail_from env (cfg\<lparr>cfg_filter_hello := g\<rparr>) email s = handle_mail_from env cfg email s"
  "handle_rcpt_to env (cfg\<lparr>cfg_filter_hello := g\<rparr>) rcpt s = handle_rcpt_to env cfg rcpt s"
  "handle_data env (cfg\<lparr>cfg_filter_hello := g\<rparr>) s = handle_data env cfg s"
  "handle_rset_command env (cfg\<lparr>cfg_filter_hello := g\<rparr>) s = handle_rset_command env cfg s"
  "handle_starttls_command env (cfg\<lparr>cfg_filter_hello := g\<rparr>) s = handle_starttls_command env cfg s"
  by (cases cfg; hypsubst; unfold next_command_def fetch_more_def handle_mail_from_def handle_rcpt_to_def handle_data_def receive_mail_def
      finish_reception_def handle_rset_command_def handle_starttls_command_def Config.update_convs Config.select_convs; rule refl)+

lemma forwarder_command: "handle_command env (forwarder_config ta hm c) cmd s = handle_command env (open_config ta hm) cmd s"
  by (cases cmd) (simp_all add: forwarder_hello, simp_all add: forwarder_overrides filter_hello_elsewhere)

lemma forwarder_step: "interact_step parse env (forwarder_config ta hm c) = interact_step parse env (open_config ta hm)"
proof -
  have "next_command parse env (forwarder_config ta hm c) s = next_command parse env (open_config ta hm) s" for s
    by (simp add: forwarder_overrides filter_hello_elsewhere)
  then show ?thesis unfolding interact_step_def [abs_def] forwarder_command by simp
qed

text \<open>The loop depends on its configuration only through its turns.\<close>

lemma interact_loop_mono:
  assumes step: "interact_step parse env cfg = interact_step parse env cfg'" and ended: "interact_loop parse env cfg s = Some r"
  shows "interact_loop parse env cfg' s = Some r"
proof -
  let ?P = "\<lambda>parse env cfg s r. interact_step parse env cfg = interact_step parse env cfg' \<longrightarrow> interact_loop parse env cfg' s = Some r"
  have "?P parse env cfg s r"
  proof (rule interact_loop.raw_induct [where P = ?P, OF _ ended])
    fix loop parse env cfg s r
    assume IH: "\<And>parse env cfg s r. loop parse env cfg s = Some r \<Longrightarrow> ?P parse env cfg s r"
      and turn: "(case interact_step parse env cfg s of Go s' _ \<Rightarrow> loop parse env cfg s' | Stop s' r \<Rightarrow> Some (Value (s', r))
        | Crash \<Rightarrow> Some Panic | Diverge \<Rightarrow> None) = Some r"
    show "?P parse env cfg s r"
    proof
      assume eq: "interact_step parse env cfg = interact_step parse env cfg'"
      with turn IH show "interact_loop parse env cfg' s = Some r"
        by (subst interact_loop.simps) (auto split: act.splits)
    qed
  qed
  with step show ?thesis by blast
qed

lemma interact_loop_cong:
  assumes "interact_step parse env cfg = interact_step parse env cfg'"
  shows "interact_loop parse env cfg s = interact_loop parse env cfg' s"
  using interact_loop_mono [OF assms] interact_loop_mono [OF assms [symmetric]] by (metis not_None_eq)


end
