(* ===== verification/Reception.thy ===== *)
theory Reception
  imports Relay Hooks ServerInstance
begin

text \<open>
  \<^verbatim>\<open>handle_mail\<close> of the program inside the server: it satisfies the contract of the server loop, so the
  guarantees of the loop hold for the program's configuration, and what the client is told after
  \<^verbatim>\<open>DATA\<close> is traced to the files of the queue.
\<close>

section \<open>handle\_mail as the server calls it\<close>

text \<open>
  The server hands over a fresh reader, on which \<^verbatim>\<open>handle_mail\<close> always returns (theory \<^verbatim>\<open>Relay\<close>); what
  stands for a call that does not is never used.
\<close>

definition mail_handler ::
  "'io ServerIo \<Rightarrow> ('w, 'enq) enqueuer_write \<Rightarrow> ('w, 'qm, 'im, 'pm, 'e, Meta, 'r, 'enq, 'd, 's) QueueImpl \<Rightarrow>
     'io EscapedDataReader \<Rightarrow> ('w, 'qm, 'im, 'pm, 'e, Meta, 'r, 'd, 's) runner \<Rightarrow> mail_meta \<Rightarrow> conn_meta \<Rightarrow>
     'io EscapedDataReader \<times> ('w, 'qm, 'im, 'pm, 'e, Meta, 'r, 'd, 's) runner \<times> conn_meta \<times> handle_mail_return" where
  "mail_handler env put q reader s meta conn_meta =
     (case kannader_handle_mail env put q reader s meta of
        Some (Value (reader', s', d)) \<Rightarrow> (reader', s', conn_meta, Inl d)
      | _ \<Rightarrow> (reader, s, conn_meta, Inl (Reject internal_server_error)))"

section \<open>It only reads\<close>

lemma read_stream_reads:
  assumes "read_stream env d = Value (d', bufs, res)"
  shows "\<exists>out. reader_run (awaited_read env) d out d'"
proof -
  have p: "poll_read_vectored (awaited_read env) d [replicate KANNADER_DATABUF_SIZE (CHR 0x00)] = Value (d', bufs, res)"
    using assms by (simp add: read_stream_def poll_read_def)
  show ?thesis
  proof (cases res)
    case Pending
    with p reader_run.blocked [OF reader_run.start] show ?thesis by blast
  next
    case (Ready x)
    with p reader_run.failed [OF reader_run.start] reader_run.delivered [OF reader_run.start] show ?thesis
      by (cases x) blast+
  qed
qed

lemma reads_then:
  assumes "read_stream env d = Value (d1, bufs, res)" "\<exists>out. reader_run (awaited_read env) d1 out d'"
  shows "\<exists>out. reader_run (awaited_read env) d out d'"
  using read_stream_reads [OF assms(1)] assms(2) reader_run_trans by blast

lemma drain_stream_reads_if:
  assumes "drain_stream env d = Some r"
  shows "r = Value d' \<longrightarrow> (\<exists>out. reader_run (awaited_read env) d out d')"
proof (rule drain_stream.raw_induct [where P = "\<lambda>env d r. r = Value d' \<longrightarrow> (\<exists>out. reader_run (awaited_read env) d out d')", OF _ assms])
  fix loop :: "'a ServerIo \<Rightarrow> 'a EscapedDataReader \<Rightarrow> 'a EscapedDataReader run option" and env d r
  assume ih: "\<And>env d r. loop env d = Some r \<Longrightarrow> r = Value d' \<longrightarrow> (\<exists>out. reader_run (awaited_read env) d out d')"
    and body: "(case read_stream env d of
        Panic \<Rightarrow> Some Panic
      | Value (reader', bufs, Pending) \<Rightarrow> loop env reader'
      | Value (reader', bufs, Ready (Inl e)) \<Rightarrow> Some (Value reader')
      | Value (reader', bufs, Ready (Inr n)) \<Rightarrow> (if n = 0 then Some (Value reader') else loop env reader')) = Some r"
  show "r = Value d' \<longrightarrow> (\<exists>out. reader_run (awaited_read env) d out d')"
    using body read_stream_reads [of env d] reads_then [of env d] ih
    by (auto split: run.splits prod.splits poll.splits sum.splits if_splits)
qed

lemma copy_loop_reads_if:
  fixes env :: "'io ServerIo" and put :: "('w, 'enq) enqueuer_write"
  assumes "copy_loop env put d en w = Some r"
  shows "\<forall>d' en' w' to_end. r = Value (d', en', w', to_end) \<longrightarrow> (\<exists>out. reader_run (awaited_read env) d out d')"
proof (rule copy_loop.raw_induct [where P = "\<lambda>env put d en w r. \<forall>d' en' w' to_end. r = Value (d', en', w', to_end) \<longrightarrow>
      (\<exists>out. reader_run (awaited_read env) d out d')", OF _ assms])
  fix loop :: "'io ServerIo \<Rightarrow> ('w, 'enq) enqueuer_write \<Rightarrow> 'io EscapedDataReader \<Rightarrow> 'enq Enqueuer \<Rightarrow> 'w \<Rightarrow>
      ('io EscapedDataReader \<times> 'enq Enqueuer \<times> 'w \<times> bool) run option"
    and env put d en w r
  assume ih: "\<And>env put d en w r. loop env put d en w = Some r \<Longrightarrow>
      \<forall>d' en' w' to_end. r = Value (d', en', w', to_end) \<longrightarrow> (\<exists>out. reader_run (awaited_read env) d out d')"
    and body: "(case read_stream env d of
        Panic \<Rightarrow> Some Panic
      | Value (reader', bufs, Pending) \<Rightarrow> loop env put reader' en w
      | Value (reader', bufs, Ready (Inl e)) \<Rightarrow> Some (Value (reader', en, w, False))
      | Value (reader', bufs, Ready (Inr n)) \<Rightarrow>
          (if n = 0 then Some (Value (reader', en, w, True))
           else case enqueuer_write_all put en (take n (concat bufs)) w of
             Panic \<Rightarrow> Some Panic
           | Value (en', w', Inl e) \<Rightarrow>
               (case drain_stream env reader' of
                  None \<Rightarrow> None
                | Some Panic \<Rightarrow> Some Panic
                | Some (Value reader'') \<Rightarrow> Some (Value (reader'', en', w', False)))
           | Value (en', w', Inr u) \<Rightarrow> loop env put reader' en' w')) = Some r"
  show "\<forall>d' en' w' to_end. r = Value (d', en', w', to_end) \<longrightarrow> (\<exists>out. reader_run (awaited_read env) d out d')"
  proof (intro allI impI)
    fix d' en' w' to_end
    assume "r = Value (d', en', w', to_end)"
    with body read_stream_reads [of env d] reads_then [of env d] drain_stream_reads_if [of env] ih
    show "\<exists>out. reader_run (awaited_read env) d out d'"
      by (fastforce split: run.splits prod.splits poll.splits sum.splits if_splits option.splits)
  qed
qed

lemma mail_handler_reads:
  assumes "mail_handler env put q reader s m c = (reader', s', c', ret)"
  shows "keeps c c' \<and> (\<exists>out d. reader_run (awaited_read env) reader out d \<and> (reader' = d \<or> complete d = Value reader'))"
proof (cases "\<exists>res. kannader_handle_mail env put q reader s m = Some (Value res)")
  case False
  with assms reader_run.start [of "awaited_read env" reader] show ?thesis
    by (auto simp: mail_handler_def split: option.splits run.splits prod.splits)
next
  case True
  then obtain d' where r: "kannader_handle_mail env put q reader s m = Some (Value (reader', s', d'))" and c: "c' = c"
    using assms by (auto simp: mail_handler_def)
  show ?thesis
  proof (cases "snd (queue_enqueue q (rn_world s))")
    case (Inl e)
    with r c reader_run.start [of "awaited_read env" reader] show ?thesis
      by (auto simp: kannader_handle_mail_def split: prod.splits)
  next
    case (Inr en)
    then obtain w where en: "queue_enqueue q (rn_world s) = (w, Inr en)" by (metis prod.collapse)
    with r obtain d en' w' to_end where cp: "copy_loop env put reader en w = Some (Value (d, en', w', to_end))"
      and rd: "reader' = d \<or> complete d = Value reader'"
      by (auto simp: kannader_handle_mail_def split: option.splits run.splits if_splits prod.splits sum.splits)
    from copy_loop_reads_if [OF cp] rd c show ?thesis by auto
  qed
qed

text \<open>So the program's configuration satisfies the contract of the server loop, on every connection.\<close>

definition tls_quiet :: "('io \<Rightarrow> bytes) \<Rightarrow> ('io \<Rightarrow> 'w \<Rightarrow> conn_meta \<Rightarrow> 'io \<times> 'w \<times> conn_meta \<times> unit io_result) \<Rightarrow> bool" where
  "tls_quiet wire tls_accept \<longleftrightarrow>
     (\<forall>io w c io' w' c' r. tls_accept io w c = (io', w', c', r) \<longrightarrow> keeps c c' \<and> wire io' = wire io)"

lemma open_methods:
  assumes "connection env incoming wire" "tls_quiet wire tls_accept"
  shows "required_methods env incoming wire tls_accept (\<lambda>w cm. (w, cm, [])) (\<lambda>sender w meta cm. (w, meta, cm, Accept okay_from sender))
    (\<lambda>rcpt w meta cm. (w, meta, cm, Accept okay_to rcpt)) (mail_handler env put q)"
  using assms
  by (auto simp: required_methods_def required_methods_axioms_def tls_quiet_def dest: mail_handler_reads)

definition plain_tls :: "'io \<Rightarrow> 'w \<Rightarrow> conn_meta \<Rightarrow> 'io \<times> 'w \<times> conn_meta \<times> unit io_result" where
  "plain_tls io w c = (io, w, c, Inr ())"

interpretation kannader_server: required_methods script_env fst snd plain_tls "\<lambda>w cm. (w, cm, [])"
  "\<lambda>sender w meta cm. (w, meta, cm, Accept okay_from sender)" "\<lambda>rcpt w meta cm. (w, meta, cm, Accept okay_to rcpt)"
  "mail_handler script_env fs_put (fs_queue_impl js c tr ch)" for js c tr ch
  by (rule open_methods [OF script_conn.connection_axioms]) (simp add: tls_quiet_def plain_tls_def)

section \<open>What the client is told\<close>

context connection
begin

lemma send_reply_said:
  assumes "send_reply env r s = Go s' u"
  shows "s' = s\<lparr>ss_io := ss_io s'\<rparr>" "wire (ss_io s') = wire (ss_io s) @ reply_bytes r"
proof -
  from assms obtain slices io' v where "reply_io_slices r = Value slices" "srv_write env (ss_io s) slices = (io', Inr v)"
    and s': "s' = s\<lparr>ss_io := io'\<rparr>"
    by (auto simp: send_reply_def split: run.splits option.splits prod.splits sum.splits)
  with srv_write_ok show "wire (ss_io s') = wire (ss_io s) @ reply_bytes r" by (simp add: reply_bytes_def)
  show "s' = s\<lparr>ss_io := ss_io s'\<rparr>" using s' by simp
qed

lemma send_reply_same:
  assumes "send_reply env r s = Go s' u" "session_wf s"
  shows "ss_world s' = ss_world s" "session_wf s'" "pending_input incoming s' = pending_input incoming s"
proof -
  have rep: "replied incoming wire 1 s s'" using send_reply_ensures [of r s] assms(1) by simp
  show "ss_world s' = ss_world s" by (subst send_reply_said(1) [OF assms(1)]) simp
  show "session_wf s'" using replied_fields(4) [OF rep] assms(2) by simp
  show "pending_input incoming s' = pending_input incoming s" using replied_fields(3,5) [OF rep] by (simp add: pending_input_def)
qed

text \<open>One decision, answered.\<close>

lemma answer_one:
  assumes "answer_decisions env 0 1 [d] s = Go s' u"
  shows "\<exists>r. (case d of Accept r' _ \<Rightarrow> r = r' | Reject r' \<Rightarrow> r = r' | Kill _ _ \<Rightarrow> False) \<and>
    s' = s\<lparr>ss_io := ss_io s'\<rparr> \<and> wire (ss_io s') = wire (ss_io s) @ reply_bytes r"
proof -
  from assms have "simple_handler env d s = Go s' u" by (auto simp: bind_act_Go_iff)
  then have "\<exists>r. (case d of Accept r' _ \<Rightarrow> r = r' | Reject r' \<Rightarrow> r = r' | Kill _ _ \<Rightarrow> False) \<and> send_reply env r s = Go s' u"
    by (cases d) (simp_all add: simple_handler_def dispatch_decision_def bind_act_Go_iff)
  then show ?thesis using send_reply_said by blast
qed

lemma finish_one:
  assumes "finish_reception env cfg 1 d s = Go s' u" "cfg_handle_mail_did_not_call_complete cfg = default_refusal r"
  shows "ss_world s' = ss_world s" "wire (ss_io s') = wire (rd_read d) @ reply_bytes r"
proof -
  from assms(1) obtain d1 v d2 un where dr: "drain_loop env d = Some (Value (d1, Inr v))" and c: "complete d1 = Value d2"
    and go: "repeat_refuse env (cfg_handle_mail_did_not_call_complete cfg) 1 (with_reader d2 un s) = Go s' u"
    by (auto simp: finish_reception_def split: option.splits run.splits prod.splits sum.splits if_splits)
  from drain_loop_run [OF dr refl] reader_run_wire have "wire (rd_read d1) = wire (rd_read d)" by blast
  moreover have "rd_read d2 = rd_read d1" using c by (auto simp: complete_def split: if_splits)
  moreover have sr: "send_reply env r (with_reader d2 un s) = Go s' u"
    using go by (simp add: refuse_def assms(2) default_refusal_def with_reader_def bind_act_Go_iff)
  ultimately show "wire (ss_io s') = wire (rd_read d) @ reply_bytes r"
    using send_reply_said(2) [OF sr] by (simp add: with_reader_def)
  show "ss_world s' = ss_world s" by (subst send_reply_said(1) [OF sr]) (simp add: with_reader_def)
qed

end

text \<open>The call of the handler by \<^verbatim>\<open>receive_mail\<close>.\<close>

lemma mail_handler_received:
  assumes conn: "connection env incoming wire" and wf: "session_wf s" and ok: "fs_ok (rn_world (ss_world s))"
  obtains reader w d out d1 where
    "mail_handler env fs_put (fs_queue_impl js c tr ch) (reader_new (ss_rdbuf s) (ss_start s) (ss_end s) (ss_io s)) (ss_world s) m (ss_conn s) =
       (reader, w, ss_conn s, Inl d)"
    "reception js incoming (pending_input incoming s) m (ss_world s) (reader, w, d)"
    "reader_run (awaited_read env) (reader_new (ss_rdbuf s) (ss_start s) (ss_end s) (ss_io s)) out d1"
    "reader = d1 \<or> complete d1 = Value reader" "wire (rd_read reader) = wire (ss_io s)"
proof -
  let ?q = "fs_queue_impl js c tr ch" and ?d0 = "reader_new (ss_rdbuf s) (ss_start s) (ss_end s) (ss_io s)"
  have buf: "ss_start s \<le> ss_end s" "ss_end s \<le> length (ss_rdbuf s)" "length (ss_rdbuf s) = RDBUF_SIZE"
    using wf by (simp_all add: session_wf_def)
  obtain reader w d where h: "kannader_handle_mail env fs_put ?q ?d0 (ss_world s) m = Some (Value (reader, w, d))"
    and rec: "reception js incoming (pending_input incoming s) m (ss_world s) (reader, w, d)"
    using handle_mail_reception [OF conn buf ok] unfolding pending_input_def unhandled_def by (metis prod_cases3)
  then have mh: "mail_handler env fs_put ?q ?d0 (ss_world s) m (ss_conn s) = (reader, w, ss_conn s, Inl d)"
    by (simp add: mail_handler_def)
  from mail_handler_reads [OF this] obtain out d1 where run: "reader_run (awaited_read env) ?d0 out d1"
    and rd: "reader = d1 \<or> complete d1 = Value reader" by blast
  moreover have "wire (rd_read reader) = wire (ss_io s)"
    using connection.reader_run_wire [OF conn run] rd by (auto simp: complete_def reader_new_def split: if_splits)
  ultimately show thesis using that mh rec by blast
qed

lemma receive_mail_answers:
  assumes conn: "connection env incoming wire" and wf: "session_wf s" and ok: "fs_ok (rn_world (ss_world s))"
    and cfg: "cfg_protocol cfg = Smtp" "cfg_handle_mail cfg = mail_handler env fs_put (fs_queue_impl js c tr ch)"
      "cfg_handle_mail_did_not_call_complete cfg = default_refusal handle_mail_did_not_call_complete"
    and go: "receive_mail env cfg m s = Go s' u"
  shows "\<exists>reader d reply. reception js incoming (pending_input incoming s) m (ss_world s) (reader, ss_world s', d) \<and>
    wire (ss_io s') = wire (ss_io s) @ reply_bytes reply \<and>
    (case d of Accept r _ \<Rightarrow> reply = r | Reject r \<Rightarrow> reply = r \<or> reply = handle_mail_did_not_call_complete | Kill _ _ \<Rightarrow> False)"
proof (rule mail_handler_received [OF conn wf ok, where js = js and c = c and tr = tr and ch = ch and m = m])
  fix reader w d
  assume mh: "mail_handler env fs_put (fs_queue_impl js c tr ch) (reader_new (ss_rdbuf s) (ss_start s) (ss_end s) (ss_io s)) (ss_world s) m (ss_conn s) =
      (reader, w, ss_conn s, Inl d)"
    and rec: "reception js incoming (pending_input incoming s) m (ss_world s) (reader, w, d)"
    and wire: "wire (rd_read reader) = wire (ss_io s)"
  let ?s = "s\<lparr>ss_world := w\<rparr>"
  show ?thesis
  proof (cases "get_unhandled reader")
    case (Some un)
    with go mh cfg have "answer_decisions env 0 1 [d] (with_reader reader un ?s) = Go s' u"
      by (simp add: receive_mail_def Let_def)
    from connection.answer_one [OF conn this] obtain r where
      r: "case d of Accept r' _ \<Rightarrow> r = r' | Reject r' \<Rightarrow> r = r' | Kill _ _ \<Rightarrow> False"
      "s' = (with_reader reader un ?s)\<lparr>ss_io := ss_io s'\<rparr>" "wire (ss_io s') = wire (rd_read reader) @ reply_bytes r"
      by (auto simp: with_reader_def)
    have "ss_world s' = w" by (subst r(2)) (simp add: with_reader_def)
    with rec r(1,3) wire show ?thesis by (auto split: Decision.splits)
  next
    case None
    with go mh cfg have fin: "finish_reception env cfg 1 reader ?s = Go s' u" by (simp add: receive_mail_def Let_def)
    note f = connection.finish_one [OF conn fin cfg(3)]
    have "rd_state reader \<noteq> Rd_Completed" using None by (auto simp: get_unhandled_def split: if_splits)
    with rec f wire show ?thesis
      by (intro exI [of _ reader] exI [of _ d] exI [of _ handle_mail_did_not_call_complete])
         (auto simp: reception_def split: Decision.splits)
  qed
qed

text \<open>Nothing in it panics.\<close>

lemma stock_reply_no_crash: "r \<in> set stock_replies \<Longrightarrow> send_reply env r s \<noteq> Crash"
  using stock_replies_ok
  by (auto simp: send_reply_def reply_io_slices_def Let_def reply_ok_def split: option.splits prod.splits sum.splits)

lemma receive_mail_no_crash:
  assumes server: "server_config env incoming wire cfg" and wf: "session_wf s" and ok: "fs_ok (rn_world (ss_world s))"
    and cfg: "cfg_protocol cfg = Smtp" "cfg_handle_mail cfg = mail_handler env fs_put (fs_queue_impl js c tr ch)"
      "cfg_handle_mail_did_not_call_complete cfg = default_refusal handle_mail_did_not_call_complete"
  shows "receive_mail env cfg m s \<noteq> Crash"
proof -
  have conn: "connection env incoming wire" using server by (simp add: server_config_def)
  have stock: "okay_mail \<in> set stock_replies" "internal_server_error \<in> set stock_replies"
    "handle_mail_did_not_call_complete \<in> set stock_replies" by (simp_all add: stock_replies_def)
  show ?thesis
  proof (rule mail_handler_received [OF conn wf ok, where js = js and c = c and tr = tr and ch = ch and m = m])
    let ?d0 = "reader_new (ss_rdbuf s) (ss_start s) (ss_end s) (ss_io s)"
    fix reader w d out d1
    assume mh: "mail_handler env fs_put (fs_queue_impl js c tr ch) ?d0 (ss_world s) m (ss_conn s) = (reader, w, ss_conn s, Inl d)"
      and rec: "reception js incoming (pending_input incoming s) m (ss_world s) (reader, w, d)"
      and run: "reader_run (awaited_read env) ?d0 out d1" and rd: "reader = d1 \<or> complete d1 = Value reader"
    show ?thesis
    proof (cases "get_unhandled reader")
      case (Some un)
      obtain r where "(\<exists>a. d = Accept r a) \<or> d = Reject r" "r \<in> set stock_replies"
        using rec stock by (auto simp: reception_def split: Decision.splits)
      then have "simple_handler env d s1 \<noteq> Crash" for s1 :: "('a, _, bytes, bytes) Session"
        by (auto simp: simple_handler_def dispatch_decision_def dest: stock_reply_no_crash)
      then have "answer_decisions env 0 1 [d] s1 \<noteq> Crash" for s1 :: "('a, _, bytes, bytes) Session"
        by (cases "simple_handler env d s1") auto
      with mh cfg Some show ?thesis by (simp add: receive_mail_def Let_def)
    next
      case None
      then have d1: "reader = d1" using rd by (auto simp: complete_def get_unhandled_def split: if_splits)
      have d0: "rd_wf ?d0" "\<not> is_finished ?d0" using wf by (auto simp: rd_wf_def is_finished_def reader_new_def session_wf_def)
      note ar = connection.awaited_async_read [OF conn]
      have "rd_wf d1" "128 \<le> length (rd_buf d1)"
        using async_read.reader_run_inv [OF ar run d0] async_read.reader_run_buf [OF ar run d0] wf
        by (auto simp: reader_new_def session_wf_def RDBUF_SIZE_def)
      from server_config.drain_loop_spec [OF server run this] obtain d2 res where
        "drain_loop env d1 = Some (Value (d2, res))" "\<forall>u. res = Inr u \<longrightarrow> is_finished d2" by blast
      moreover have "repeat_refuse env (default_refusal handle_mail_did_not_call_complete) 1 s1 \<noteq> Crash" for s1 :: "('a, _, bytes, bytes) Session"
        using stock_reply_no_crash [OF stock(3), of env "s1\<lparr>ss_conn := ss_conn s1\<rparr>"]
        by (cases "send_reply env handle_mail_did_not_call_complete s1") (auto simp: refuse_def default_refusal_def)
      ultimately show ?thesis using mh cfg None d1
        by (auto simp: receive_mail_def Let_def finish_reception_def complete_def get_unhandled_def split: sum.splits)
    qed
  qed
qed

section \<open>DATA with the forwarder\<close>

lemma forwarder_data:
  assumes "ss_mail s = Some m" "mm_to m \<noteq> []"
  shows "handle_data env (forwarder_config ta hm fc) s =
    bind_act (send_reply env okay_data (s\<lparr>ss_mail := None\<rparr>)) (\<lambda>s _. receive_mail env (open_config ta hm) m s)"
  unfolding forwarder_overrides filter_hello_elsewhere
  using assms by (simp add: handle_data_def Let_def open_config_def default_config_def default_filter_data_def dispatch_decision_def)

lemma open_config_fields:
  "cfg_protocol (open_config ta hm) = Smtp" "cfg_handle_mail (open_config ta hm) = hm"
  "cfg_handle_mail_did_not_call_complete (open_config ta hm) = default_refusal handle_mail_did_not_call_complete"
  by (simp_all add: open_config_def default_config_def)

context required_methods
begin

lemma default_server: "server_config env incoming wire (default_config proto host tls_accept new_mail filter_from filter_to handle_mail)"
  by unfold_locales

end

lemma open_config_server:
  assumes "connection env incoming wire" "tls_quiet wire ta"
  shows "server_config env incoming wire (open_config ta (mail_handler env put q))"
proof -
  note methods = open_methods [OF assms, of put q]
  show ?thesis unfolding open_config_def by (rule required_methods.default_server [OF methods])
qed

text \<open>The reply that stands for an accepted mail is sent for no other.\<close>

lemma refused_is_not_okay: "internal_server_error \<noteq> okay_mail" "handle_mail_did_not_call_complete \<noteq> okay_mail"
  by (simp_all add: stock_reply_defs reply_code_consts)

lemma reply_tells:
  assumes rec: "reception js incoming S m s (reader, s', d)" and k: "end_of_data S k"
    and reply: "case d of Accept r _ \<Rightarrow> reply = r | Reject r \<Rightarrow> reply = r \<or> reply = handle_mail_did_not_call_complete | Kill _ _ \<Rightarrow> False"
  shows "if reply = okay_mail
    then \<exists>mails. rn_tasks s' = rn_tasks s @ map Send mails \<and> queued_for js (fs_tree (rn_world s')) (mm_from m) (take k S) mails (mm_to m)
    else reply \<in> {internal_server_error, handle_mail_did_not_call_complete} \<and> rn_tasks s' = rn_tasks s"
proof (cases d)
  case (Accept r a)
  with rec obtain msg mails where r: "r = okay_mail" and S: "S = msg @ rd_remaining incoming reader" "end_of_data S (length msg)"
    and q: "rn_tasks s' = rn_tasks s @ map Send mails" "queued_for js (fs_tree (rn_world s')) (mm_from m) msg mails (mm_to m)"
    by (auto simp: reception_def)
  from end_of_data_unique [OF k S(2)] S(1) have "take k S = msg" by simp
  with q r reply Accept show ?thesis by auto
qed (use rec reply refused_is_not_okay in \<open>auto simp: reception_def\<close>)

text \<open>Receiving a mail, as the client sees it.\<close>

lemma receive_mail_tells:
  assumes server: "server_config env incoming wire cfg" and wf: "session_wf s" and ok: "fs_ok (rn_world (ss_world s))" and m: "mm_to m \<noteq> []"
    and cfg: "cfg_protocol cfg = Smtp" "cfg_handle_mail cfg = mail_handler env fs_put (fs_queue_impl js c tr ch)"
      "cfg_handle_mail_did_not_call_complete cfg = default_refusal handle_mail_did_not_call_complete"
  shows "case receive_mail env cfg m s of
      Go s' _ \<Rightarrow> fs_ok (rn_world (ss_world s')) \<and>
        (\<exists>reply msg. wire (ss_io s') = wire (ss_io s) @ reply_bytes reply \<and>
           pending_input incoming s = msg @ pending_input incoming s' \<and> end_of_data (pending_input incoming s) (length msg) \<and>
           (if reply = okay_mail
            then \<exists>mails. rn_tasks (ss_world s') = rn_tasks (ss_world s) @ map Send mails \<and>
              queued_for js (fs_tree (rn_world (ss_world s'))) (mm_from m) msg mails (mm_to m)
            else reply \<in> {internal_server_error, handle_mail_did_not_call_complete} \<and> rn_tasks (ss_world s') = rn_tasks (ss_world s)))
    | Stop s' r \<Rightarrow> True | Crash \<Rightarrow> False | Diverge \<Rightarrow> False"
proof (cases "receive_mail env cfg m s")
  case go: (Go s' u)
  have conn: "connection env incoming wire" using server by (simp add: server_config_def)
  from receive_mail_answers [OF conn wf ok cfg go] obtain reader d reply where
    rec: "reception js incoming (pending_input incoming s) m (ss_world s) (reader, ss_world s', d)"
    and reply: "wire (ss_io s') = wire (ss_io s) @ reply_bytes reply"
      "case d of Accept r _ \<Rightarrow> reply = r | Reject r \<Rightarrow> reply = r \<or> reply = handle_mail_did_not_call_complete | Kill _ _ \<Rightarrow> False"
    by blast
  from server_config.receive_mail_ensures [OF server wf m] go obtain k where
    k: "end_of_data (pending_input incoming s) k" "pending_input incoming s' = drop k (pending_input incoming s)" by auto
  let ?msg = "take k (pending_input incoming s)"
  have msg: "length ?msg = k" "pending_input incoming s = ?msg @ pending_input incoming s'" using k by (auto simp: end_of_data_def)
  have "fs_ok (rn_world (ss_world s'))" using rec by (simp add: reception_def)
  moreover note reply(1) reply_tells [OF rec k(1) reply(2)]
  moreover have "end_of_data (pending_input incoming s) (length ?msg)" unfolding msg(1) by (rule k(1))
  ultimately show ?thesis using msg(2) unfolding go act.case by (intro conjI exI [of _ reply] exI [of _ ?msg])
next
  case Crash
  with receive_mail_no_crash [OF server wf ok cfg] show ?thesis by blast
next
  case Diverge
  with server_config.receive_mail_returns [OF server wf, of m] show ?thesis by simp
qed simp

section \<open>A mail received over the scripted connection\<close>

definition relay_session ::
  "(script_io, (fs_world, FsQueuedMail, FsInflightMail, FsPendingCleanupMail, FsError, Meta, bytes, unit, unit) runner, bytes, bytes) Session" where
  "relay_session = \<lparr>ss_io = ([], []), ss_world = queue_new (demo_world empty_tree 0), ss_rdbuf = relay_buf, ss_start = 0, ss_end = 7,
     ss_conn = \<lparr>cm_user = [], cm_hello = None, cm_is_encrypted = False\<rparr>,
     ss_mail = Some \<lparr>mm_user = [], mm_from = None, mm_to = [root_mailbox]\<rparr>\<rparr>"

definition relay_forwarder :: ForwarderConfig where
  "relay_forwarder = \<lparr>fc_queue_path = ''/queue'', fc_cert_path = ''/cert'', fc_key_path = ''/key''\<rparr>"

lemma relay_session_ok: "session_wf relay_session" "fs_ok (rn_world (ss_world relay_session))"
  using relay_buf_length demo_empty_ok by (simp_all add: session_wf_def relay_session_def RDBUF_SIZE_def queue_new_def)

lemma stock_reply_goes:
  assumes "r \<in> set stock_replies"
  shows "\<exists>io. send_reply script_env r s = Go (s\<lparr>ss_io := io\<rparr>) ()"
  using assms stock_replies_ok
  by (auto simp: send_reply_def reply_io_slices_def Let_def reply_ok_def script_env_def split: prod.splits)

lemma relay_session_goes_on:
  "\<exists>s'. handle_data script_env (forwarder_config plain_tls (mail_handler script_env fs_put relay_queue) fc) relay_session = Go s' () \<and>
     rn_tasks (ss_world s') = [Send relay_mail]"
proof -
  have stock: "okay_data \<in> set stock_replies" "okay_mail \<in> set stock_replies" by (simp_all add: stock_replies_def)
  let ?m = "\<lparr>mm_user = [], mm_from = None, mm_to = [root_mailbox]\<rparr> :: mail_meta"
  obtain io where io: "send_reply script_env okay_data (relay_session\<lparr>ss_mail := None\<rparr>) = Go (relay_session\<lparr>ss_mail := None, ss_io := io\<rparr>) ()"
    using stock_reply_goes [OF stock(1)] by fastforce
  let ?s = "relay_session\<lparr>ss_mail := None, ss_io := io\<rparr>"
  obtain d s1 where h: "kannader_handle_mail script_env fs_put relay_queue (reader_new relay_buf 0 7 io) (queue_new (demo_world empty_tree 0)) ?m =
      Some (Value (d, s1, Accept okay_mail ()))" "rn_tasks s1 = [Send relay_mail]" using relay_received [of script_env io "[]"] by blast
  have mh: "mail_handler script_env fs_put relay_queue (reader_new (ss_rdbuf ?s) (ss_start ?s) (ss_end ?s) (ss_io ?s)) (ss_world ?s) ?m (ss_conn ?s) =
      (d, s1, ss_conn ?s, Inl (Accept okay_mail ()))" using h by (simp add: mail_handler_def relay_session_def)
  have "7 \<le> length relay_buf" "fs_ok (rn_world (ss_world relay_session))"
    using relay_buf_length relay_session_ok(2) by (simp_all add: RDBUF_SIZE_def)
  from handle_mail_reception [OF script_conn.connection_axioms _ this(1) relay_buf_length(1) this(2), where js = relay_json and c = demo_config
      and tr = relay_transport and ch = demo_chrono and m = ?m and io = io and start = 0] h(1)
  have "rd_state d = Rd_Completed" by (auto simp: reception_def relay_session_def)
  then obtain un where "get_unhandled d = Some un" by (simp add: get_unhandled_def)
  moreover obtain io' where "send_reply script_env okay_mail (with_reader d un (?s\<lparr>ss_world := s1\<rparr>)) = Go ((with_reader d un (?s\<lparr>ss_world := s1\<rparr>))\<lparr>ss_io := io'\<rparr>) ()"
    using stock_reply_goes [OF stock(2)] by blast
  ultimately have "receive_mail script_env (open_config plain_tls (mail_handler script_env fs_put relay_queue)) ?m ?s =
      Go ((with_reader d un (?s\<lparr>ss_world := s1\<rparr>))\<lparr>ss_io := io'\<rparr>) ()"
    using mh by (simp add: receive_mail_def Let_def open_config_fields simple_handler_def dispatch_decision_def)
  moreover have "ss_mail relay_session = Some ?m" "mm_to ?m \<noteq> []" by (simp_all add: relay_session_def)
  ultimately show ?thesis using forwarder_data [of relay_session ?m] io h(2) by (simp add: with_reader_def)
qed

lemma relay_message_ends: "end_of_data relay_message 7"
  by (simp add: end_of_data_def relay_message_def numeral_eq_Suc less_Suc_eq suffix_def)

end
