(* ===== verification/Spec2Isabelle.thy ===== *)
theory Spec2Isabelle
  imports DataStream ServerProperties QueueProperties Reception
begin

text \<open>
  \<^bold>\<open>Verification of kannader, an SMTP server that queues and relays mail.\<close>

  \<^bold>\<open>The program.\<close> A client connects to the server (\<^verbatim>\<open>smtp-server\<close>), which reads commands
  (\<^verbatim>\<open>smtp-message\<close>: \<^verbatim>\<open>command.rs\<close>, \<^verbatim>\<open>misc.rs\<close>), asks its configuration about each of them and
  replies (\<^verbatim>\<open>reply.rs\<close>, \<^verbatim>\<open>smtp-server-types\<close>). The bytes behind \<^verbatim>\<open>DATA\<close> come through the reader of
  \<^verbatim>\<open>data.rs\<close>. The program (\<^verbatim>\<open>kannader\<close>) copies them into the queue (\<^verbatim>\<open>smtp-queue\<close>), which keeps them as
  files (\<^verbatim>\<open>smtp-queue-fs\<close>) and has one task per mail that sends it, retries, and cleans up; sending
  is done by the client (\<^verbatim>\<open>smtp-client\<close>) that looks up the next server and speaks SMTP to it. What the
  server, the queue and the client are configured to do is asked of hooks in a WebAssembly blob, called
  across a boundary generated by \<^verbatim>\<open>kannader-config-macros\<close>; \<^verbatim>\<open>kannader-config-forwarder\<close> is such a blob.

  \<^bold>\<open>Theories, in the order of the data.\<close>
  \<^item> \<^verbatim>\<open>Prelude\<close>, \<^verbatim>\<open>AsyncIo\<close>: bytes, results of Rust code (\<open>run\<close> with panics, \<open>poll\<close>, \<open>io_result\<close>), slices;
    the locales \<open>async_read\<close> and \<open>async_write\<close> for the I/O traits, interpreted on scripted peers.
  \<^item> \<^verbatim>\<open>DataReader\<close>, \<^verbatim>\<open>DataUnescaper\<close>, \<^verbatim>\<open>DataWriter\<close>, \<^verbatim>\<open>DataStream\<close> (\<^verbatim>\<open>smtp-message/src/data.rs\<close>):
    \<open>poll_read_vectored\<close>, \<open>unescape\<close>, \<open>wr_poll_write_vectored\<close>, \<open>wr_finish\<close> as the code has them, buffers
    and indices included. Shown: the reader hands out the message up to the dot line and nothing of what
    follows; any chunking unescapes to the message; the writer escapes it; the three compose to a round
    trip. Two defects of the writer (a leading dot reported as nothing written, an escape lost after a
    pending poll) are theorems.
  \<^item> \<^verbatim>\<open>Message\<close>, \<^verbatim>\<open>Commands\<close>, \<^verbatim>\<open>Replies\<close> (\<^verbatim>\<open>misc.rs\<close>, \<^verbatim>\<open>command.rs\<close>, \<^verbatim>\<open>reply.rs\<close>): the data model and the printers.
    \<^verbatim>\<open>Regex\<close>, \<^verbatim>\<open>StdParse\<close>, \<^verbatim>\<open>Nom\<close>, \<^verbatim>\<open>Grammar\<close>: regular expressions by derivatives, the standard library's
    parsing, the combinators of \<^verbatim>\<open>nom\<close> as a record, and every parser of the crate over them.
    The locale \<open>grammar\<close> has the laws of \<^verbatim>\<open>nom\<close>,
    \<^verbatim>\<open>regex_automata\<close> and \<^verbatim>\<open>idna\<close> that the parsers rely on, interpreted on reference implementations.
    \<^verbatim>\<open>Parsing\<close>, \<^verbatim>\<open>ReplyParsing\<close>, \<^verbatim>\<open>CommandParsing\<close>: printing and parsing are inverse, no closure panics, every parser consumes input.
  \<^item> \<^verbatim>\<open>ServerTypes\<close>, \<^verbatim>\<open>Server\<close> (\<^verbatim>\<open>smtp-server-types\<close>, \<^verbatim>\<open>smtp-server\<close>): decisions, stock replies, and \<^verbatim>\<open>interact\<close>:
    one definition per macro and command, over a session record with the read buffer and its indices.
    \<^verbatim>\<open>SmtpMachine\<close> is the abstract machine of RFC 5321 commands and replies; \<^verbatim>\<open>ServerSession\<close> has the locale
    \<open>connection\<close> and the accounting of bytes; \<^verbatim>\<open>ServerInstance\<close> the instances; \<^verbatim>\<open>ServerProperties\<close> the results:
    refinement of the machine, one reply per command or bad line, STARTTLS starts afresh, termination.
  \<^item> \<^verbatim>\<open>Queue\<close> (\<^verbatim>\<open>smtp-queue\<close>, \<^verbatim>\<open>smtp-queue-types\<close>): the runner as a list of tasks, each a state machine of its
    awaits; a turn runs one task up to its next await, so every interleaving is a sequence of turns.
    \<^verbatim>\<open>QueueSafety\<close> has the locale \<open>mail_store\<close> (what a storage promises) and the invariants; \<^verbatim>\<open>QueueFs\<close> is the
    storage on a tree of files, directories and links, in which every system call may fail;
    \<^verbatim>\<open>QueueFsStore\<close> interprets the locale on it; \<^verbatim>\<open>QueueFsFiles\<close> and \<^verbatim>\<open>QueueProperties\<close> have what is read back,
    that no mail is lost, forgotten or sent twice at a time, and that a mail gets delivered when nothing fails.
  \<^item> \<^verbatim>\<open>Client\<close> (\<^verbatim>\<open>smtp-client\<close>): replies, EHLO, STARTTLS, sending, and the choice of servers by MX preference.
    \<^verbatim>\<open>ClientSession\<close> has the locale \<open>client_connection\<close>; \<^verbatim>\<open>ClientProperties\<close> the results and the interpretation.
  \<^item> \<^verbatim>\<open>Kannader\<close> (\<^verbatim>\<open>kannader/src/queue_transport.rs\<close>, \<^verbatim>\<open>queue_config.rs\<close>, \<^verbatim>\<open>client_config.rs\<close>, \<^verbatim>\<open>handle_mail\<close> of
    \<^verbatim>\<open>server_config.rs\<close>) with the locale \<open>mail_enqueuer\<close>, which \<^verbatim>\<open>Relay\<close> interprets on the file storage.
    \<^verbatim>\<open>Reception\<close> puts \<^verbatim>\<open>handle_mail\<close> into the server: it satisfies the contract of the server loop (locale
    \<open>required_methods\<close>, interpreted on it) and decides what the client is told after \<^verbatim>\<open>DATA\<close>.
  \<^item> \<^verbatim>\<open>Ffi\<close> (\<^verbatim>\<open>kannader-config-macros\<close>: \<^verbatim>\<open>call_ffi_fn\<close>, \<^verbatim>\<open>run_ffi_fn\<close>, \<^verbatim>\<open>implement_guest\<close>, \<^verbatim>\<open>implement_host\<close>): the
    boundary, with 32-bit addresses packed into a 64-bit word and a linear memory; \<^verbatim>\<open>Hooks\<close>: the traits'
    provided methods, the forwarder blob, the remaining methods of \<^verbatim>\<open>server_config.rs\<close>.
  \<^item> This theory: a mail that the client was told is taken is in the queue, and from the client's \<^verbatim>\<open>DATA\<close>
    to the next server it is relayed byte for byte.

  \<^bold>\<open>Conventions.\<close> A panic (failed assertion or \<^verbatim>\<open>unwrap\<close>, index out of range, arithmetic overflow) is a value
  (\<open>Panic\<close>, \<open>Crash\<close>, \<open>Panicking\<close>); a loop that may run forever is a \<^verbatim>\<open>partial_function\<close> whose missing
  result is \<open>None\<close>, \<open>Diverge\<close> or \<open>Forever\<close>, and each of them is proved to return: the DATA loops and
  \<^verbatim>\<open>interact\<close> because the input is finite, the reply loop of the client because its buffer is. Buffer sizes
  are the code's (16 KiB to read, 128 bytes of room, 40 links followed by the file system). An \<^verbatim>\<open>await\<close>
  is a call that answers; where a timer races with it, a parameter says who wins. Strings are UTF-8
  bytes, \<^verbatim>\<open>u16\<close> codes 16-bit words, addresses of the blob 32-bit words, durations and instants nanoseconds.

  \<^bold>\<open>Parameters.\<close> \<^verbatim>\<open>nom\<close>, \<^verbatim>\<open>regex_automata\<close> (leftmost-first is the longest match on the languages used),
  \<^verbatim>\<open>idna\<close>, \<^verbatim>\<open>serde_json\<close>, \<^verbatim>\<open>bincode\<close>, \<^verbatim>\<open>uuid\<close>, \<^verbatim>\<open>chrono\<close>, the resolver, sockets, TLS, the WebAssembly module and its allocator are arguments
  with their documented behaviour as hypotheses, and every property that has one has a witness with a
  concrete function. The file system is modelled (\<^verbatim>\<open>openat\<close> calls on a tree, with arbitrary faults).

  \<^bold>\<open>Abstractions.\<close> The payload of parser errors is dropped. The decisions of LMTP are a list instead of a
  stream. A closure handed to \<^verbatim>\<open>unblock\<close> is one step. Directory listings are lists. While \<^verbatim>\<open>handle_mail\<close>
  waits for its stream the other tasks of the queue do not run. A reply without text panics when it is
  printed. Hooks of a set-up guest depend on their configuration and arguments only.

  \<^bold>\<open>Not modelled.\<close> Start-up of the program (\<^verbatim>\<open>kannader/src/lib.rs\<close>, \<^verbatim>\<open>main.rs\<close>: command line, threads, TLS and wasm
  set-up, the accept loop) and \<^verbatim>\<open>wasm_config.rs\<close>, which only call libraries; the text the macros generate as
  text (the generated code is modelled) and the logging callbacks of the guest; the timeouts' values;
  \<^verbatim>\<open>kannader-config\<close> and \<^verbatim>\<open>kannader-types\<close> (re-exports, log macros, two enums); fuzz targets, benchmarks, examples, tests.
\<close>

section \<open>From the client's DATA to the next server\<close>



text \<open>
  Claim C1. The relay end to end: what a client sent behind \<^verbatim>\<open>DATA\<close> up to and including the line with the
  single dot is, byte for byte, what the client of the queue later sends to the next server behind
  its own \<^verbatim>\<open>DATA\<close>, for every recipient, with the sender and that recipient in the envelope: from the
  reception, through the files of the queue, to the connection, when the mail is sent successfully.
\<close>

theorem relayed_verbatim:
  assumes conn: "connection env incoming wire" "start \<le> stop" "stop \<le> length buf" "length buf = RDBUF_SIZE" "fs_ok (rn_world s)"
    and received: "kannader_handle_mail env fs_put (fs_queue_impl js c tr ch) (reader_new buf start stop io) s m =
      Some (Value (reader, s', Accept reply u))"
    and mail: "rn_tasks s' = rn_tasks s @ map Send mails" "j < length (mm_to m)"
    and js: "js_parse_meta js (js_meta js (relayed (mm_from m) (mm_to m ! j))) = Inr (relayed (mm_from m) (mm_to m ! j))"
    and begun: "fs_send_start (mails ! j) (rn_world s') = (w, Inr (Some i))" "fs_faults w = []"
      "fs_read_inflight js i w = (w', Inr (meta, contents))"
    and peer: "grammar N X" "client_connection cenv tls cwire secure" "sender_ok sender"
    and sent: "transport_send (reply_parse N X) cenv file_read sender meta contents = Okay sender' ()"
  shows "\<exists>msg rest. subslice buf start stop @ incoming io = msg @ rest \<and> end_of_data (msg @ rest) (length msg) \<and>
    cwire (sn_io sender') = cwire (sn_io sender) @
      concat (command_io_slices (Mail None (mm_from m) (Parameters []))) @
      concat (command_io_slices (Rcpt None (mm_to m ! j) (Parameters []))) @ concat (command_io_slices Data) @ msg"
proof -
  from handle_mail_reception [OF conn, where js = js and c = c and tr = tr and ch = ch and m = m and io = io] received
  obtain msg mails' where S: "subslice buf start stop @ incoming io = msg @ rd_remaining incoming reader"
      "end_of_data (subslice buf start stop @ incoming io) (length msg)"
    and tasks: "rn_tasks s' = rn_tasks s @ map Send mails'" and ok: "fs_ok (rn_world s')"
    and q: "queued_for js (fs_tree (rn_world s')) (mm_from m) msg mails' (mm_to m)" by (auto simp: reception_def)
  have "mails' = mails" using tasks mail(1) by (simp add: inj_map_eq_map inj_def)
  with q mail(2) have "on_disk js (fs_tree (rn_world s')) In_Queue (fq_id (mails ! j)) (relayed (mm_from m) (mm_to m ! j)) (fq_schedule (mails ! j)) msg"
    unfolding queued_for_def by (auto dest: list_all2_nthD2)
  from queued_mail_read [OF this ok begun(1,2) js] begun(3)
  have read: "meta = relayed (mm_from m) (mm_to m ! j)" "contents = msg" by simp_all
  have "client_connection.said cwire secure (concat (command_io_slices (Mail None (mm_from m) (Parameters []))) @
      concat (command_io_slices (Rcpt None (mm_to m ! j) (Parameters []))) @ concat (command_io_slices Data) @ msg) sender
      (sender_send (reply_parse N X) cenv file_read (mm_from m) (mm_to m ! j) msg sender :: (_, unit TransportError, unit) outcome)"
    by (rule client_connection.said_sender_send [OF peer(2) grammar_reply_parsing [OF peer(1)] reads_all_file peer(3)])
  moreover have "(sender_send (reply_parse N X) cenv file_read (mm_from m) (mm_to m ! j) msg sender :: (_, unit TransportError, unit) outcome) =
      Okay sender' ()"
    using sent unfolding read transport_send_def by (auto simp: relayed_def map_err_Okay)
  ultimately show ?thesis using S by (auto simp: client_connection.said_def [OF peer(2)])
qed

lemma relayed_verbatim_witness:
  "\<exists>sender'. transport_send (reply_parse nom_ref (lexers_ref Some)) script_client file_read
      (sender_new (plainly [] [okay_from, okay_to, okay_data, okay_mail] [])) (relayed None root_mailbox) relay_message = Okay sender' () \<and>
    (\<exists>msg rest. relay_message = msg @ rest \<and> end_of_data (msg @ rest) (length msg) \<and>
      sc_out (sn_io sender') = concat (command_io_slices (Mail None None (Parameters []))) @
        concat (command_io_slices (Rcpt None root_mailbox (Parameters []))) @ concat (command_io_slices Data) @ msg)"
proof -
  let ?s = "queue_new (demo_world empty_tree 0) ::
    (fs_world, FsQueuedMail, FsInflightMail, FsPendingCleanupMail, FsError, Meta, bytes, unit, unit) runner"
  let ?m = "\<lparr>mm_user = (), mm_from = None, mm_to = [root_mailbox]\<rparr>"
  let ?sender = "sender_new (plainly [] [okay_from, okay_to, okay_data, okay_mail] [])"
  obtain d s' where r: "kannader_handle_mail script_env fs_put relay_queue (reader_new relay_buf 0 7 ([], [])) ?s ?m =
      Some (Value (d, s', Accept okay_mail ()))" "rn_tasks s' = [Send relay_mail]"
      "rn_world s' = demo_world (relay_tree relay_message QUEUE_DIR) 3" using relay_received [of script_env "([], [])" "()"] by blast
  obtain sender' where sent: "transport_send (reply_parse nom_ref (lexers_ref Some)) script_client file_read ?sender
      (relayed None root_mailbox) relay_message = Okay sender' ()"
    using accepting_server [of relay_message, where 'n = unit] by (auto simp: transport_send_def relayed_def)
  have ok: "7 \<le> length relay_buf" "fs_ok (rn_world ?s)" using relay_buf_length demo_empty_ok by (simp_all add: RDBUF_SIZE_def queue_new_def)
  have tasks: "rn_tasks s' = rn_tasks ?s @ map Send [relay_mail]" "0 < length (mm_to ?m)" using r(2) by (simp_all add: queue_new_def)
  have js: "js_parse_meta relay_json (js_meta relay_json (relayed (mm_from ?m) (mm_to ?m ! 0))) = Inr (relayed (mm_from ?m) (mm_to ?m ! 0))"
    by (simp add: relay_json_def)
  have begun: "fs_send_start ([relay_mail] ! 0) (rn_world s') = (demo_world (relay_tree relay_message INFLIGHT_DIR) 3,
      Inr (Some \<lparr>fi_id = ''uuu'', fi_schedule = \<lparr>sched_at = 0, last_attempt = None\<rparr>\<rparr>))" using relay_send_start r(3) by simp
  from relayed_verbatim [OF script_conn.connection_axioms _ ok(1) relay_buf_length(1) ok(2) r(1) tasks js begun _ relay_read_back
      grammar_ref.grammar_axioms scripted.client_connection_axioms sender_new_ok(1) sent]
  have "\<exists>msg rest. subslice relay_buf 0 7 @ fst ([], [] :: bytes) = msg @ rest \<and> end_of_data (msg @ rest) (length msg) \<and>
      sc_out (sn_io sender') = sc_out (sn_io ?sender) @ concat (command_io_slices (Mail None None (Parameters []))) @
        concat (command_io_slices (Rcpt None root_mailbox (Parameters []))) @ concat (command_io_slices Data) @ msg" by simp
  then show ?thesis
    using sent relay_buf_length unfolding sender_new_ok(2) by (simp add: subslice_def plainly_def)
qed

end
